(* ===== verification/JsPrelude.thy ===== *)
theory JsPrelude
  imports Main "HOL-Library.Word"
begin

section \<open>Prelude: the JavaScript values the scripts share\<close>

text \<open>
  Names shared by every component: the errors a script can raise, results that are an error or
  a value, UTF-16 strings, plain objects as association lists in property order, arrays read
  by an arbitrary number, and the few Array and String methods the scripts call. The collections
  \<open>js_simps\<close> and \<open>effects\<close> gather the equations that the component proofs unfold.
\<close>

named_theorems js_simps \<open>defining equations of the JavaScript primitives\<close>
named_theorems effects \<open>what an operation does to the parts of a state it touches\<close>

subsection \<open>Errors and results\<close>

text \<open>
  A script that throws stops there: a result is the error thrown (\<open>Inl\<close>) or the value
  (\<open>Inr\<close>). \<open>TypeError\<close> is what reading a property of \<open>undefined\<close> or \<open>null\<close>, or calling
  something that is not a function, throws; \<open>URIError\<close> is thrown by the URI functions,
  \<open>ReferenceError\<close> by a name that is not bound, \<open>SyntaxError\<close> by parsing what is not JSON, and \<open>NetworkError\<close> by a synchronous request
  that fails.
\<close>

datatype js_error = TypeError | URIError | ReferenceError | SyntaxError | NetworkError

type_synonym 'a res = "js_error + 'a"

definition res_bind :: "'a res \<Rightarrow> ('a \<Rightarrow> 'b res) \<Rightarrow> 'b res" where
  "res_bind m f = (case m of Inl e \<Rightarrow> Inl e | Inr a \<Rightarrow> f a)"

lemma res_bind_Inl [simp]: "res_bind (Inl e) f = Inl e"
  by (simp add: res_bind_def)

lemma res_bind_Inr [simp]: "res_bind (Inr a) f = f a"
  by (simp add: res_bind_def)

lemma res_bind_eq_Inr: "res_bind m f = Inr b \<longleftrightarrow> (\<exists>a. m = Inr a \<and> f a = Inr b)"
  by (cases m) auto

lemma res_bind_eq_Inl: "res_bind m f = Inl e \<longleftrightarrow> m = Inl e \<or> (\<exists>a. m = Inr a \<and> f a = Inl e)"
  by (cases m) auto

lemma res_bind_assoc: "res_bind (res_bind m f) g = res_bind m (\<lambda>a. res_bind (f a) g)"
  by (cases m) auto

subsection \<open>Strings\<close>

text \<open>
  A JavaScript string is a sequence of 16-bit code units. \<open>lit ''abc''\<close> is the literal of the
  source. Components that only compare and cut ASCII tokens use Isabelle's \<open>string\<close>.
\<close>

type_synonym code_unit = "16 word"
type_synonym ustr = "code_unit list"

definition lit :: "string \<Rightarrow> ustr" where
  "lit s = map of_char s"

lemma lit_Nil [simp]: "lit [] = []"
  by (simp add: lit_def)

lemma lit_eq_Nil [simp]: "lit s = [] \<longleftrightarrow> s = []" "[] = lit s \<longleftrightarrow> s = []"
  by (auto simp: lit_def)

lemma lit_Cons: "lit (c # s) = of_char c # lit s"
  by (simp add: lit_def)

lemma lit_append: "lit (s @ t) = lit s @ lit t"
  by (simp add: lit_def)

lemma of_char_16_eq_iff: "(of_char c :: code_unit) = of_char d \<longleftrightarrow> c = d"
proof -
  have small: "(of_char x :: nat) < 2 ^ 16" for x
    by (rule less_trans [OF nat_of_char_less_256]) simp
  have "(of_char c :: code_unit) = of_char d \<longleftrightarrow>
      (of_nat (of_char c) :: code_unit) = of_nat (of_char d)"
    by (simp only: of_nat_of_char)
  also have "\<dots> \<longleftrightarrow> (of_char c :: nat) = of_char d"
    using small [of c] small [of d] by (simp add: word_of_nat_eq_iff take_bit_nat_eq_self)
  finally show ?thesis by simp
qed

lemma lit_inj [simp]: "lit s = lit t \<longleftrightarrow> s = t"
proof -
  have "inj (of_char :: char \<Rightarrow> code_unit)"
    by (rule injI) (simp add: of_char_16_eq_iff)
  then show ?thesis by (simp add: lit_def inj_map_eq_map)
qed

subsection \<open>Splitting and joining\<close>

text \<open>\<open>s.split(c)\<close> for a separator of one character, and \<open>xs.join(c)\<close>.\<close>

fun split_on :: "'a \<Rightarrow> 'a list \<Rightarrow> 'a list list" where
  "split_on c [] = [[]]"
| "split_on c (x # xs) =
     (if x = c then [] # split_on c xs
      else (case split_on c xs of [] \<Rightarrow> [[x]] | y # ys \<Rightarrow> (x # y) # ys))"

fun join_on :: "'a \<Rightarrow> 'a list list \<Rightarrow> 'a list" where
  "join_on c [] = []"
| "join_on c [x] = x"
| "join_on c (x # y # ys) = x @ c # join_on c (y # ys)"

lemma split_on_ne [simp]: "split_on c xs \<noteq> []"
  by (induction xs) (auto split: list.splits)

lemma join_split: "join_on c (split_on c xs) = xs"
proof (induction xs)
  case (Cons x xs)
  obtain y ys where "split_on c xs = y # ys"
    by (cases "split_on c xs") auto
  with Cons show ?case by (cases ys) auto
qed simp

lemma split_on_plain: "c \<notin> set xs \<Longrightarrow> split_on c xs = [xs]"
  by (induction xs) auto

lemma split_on_append: "c \<notin> set xs \<Longrightarrow> split_on c (xs @ c # ys) = xs # split_on c ys"
  by (induction xs) auto

lemma split_join: "xs \<noteq> [] \<Longrightarrow> \<forall>x \<in> set xs. c \<notin> set x \<Longrightarrow> split_on c (join_on c xs) = xs"
  by (induction c xs rule: join_on.induct) (auto simp: split_on_plain split_on_append)

lemma split_on_pieces: "x \<in> set (split_on c xs) \<Longrightarrow> c \<notin> set x"
  by (induction xs arbitrary: x) (fastforce split: list.splits if_splits)+

subsection \<open>Arrays\<close>

text \<open>
  \<open>a[i]\<close> for any number \<open>i\<close>: reading outside the array gives \<open>undefined\<close>, \<open>None\<close> here.
\<close>

definition js_get :: "'a list \<Rightarrow> int \<Rightarrow> 'a option" where
  "js_get xs i = (if 0 \<le> i \<and> i < int (length xs) then Some (xs ! nat i) else None)"

lemma js_get_of_nat: "js_get xs (int n) = (if n < length xs then Some (xs ! n) else None)"
  by (simp add: js_get_def)

lemma js_get_Some: "js_get xs i = Some x \<longleftrightarrow> 0 \<le> i \<and> nat i < length xs \<and> x = xs ! nat i"
  by (auto simp: js_get_def)

lemma js_get_None: "js_get xs i = None \<longleftrightarrow> \<not> (0 \<le> i \<and> nat i < length xs)"
  by (auto simp: js_get_def)

text \<open>The index list \<open>0 .. length - 1\<close> beside the elements, as \<open>each\<close> callbacks see them.\<close>

lemma filter_enumerate_fst:
  "map fst (filter (\<lambda>p. P (snd p)) (enumerate n xs)) = filter (\<lambda>i. P (xs ! (i - n))) [n ..< n + length xs]"
proof (induction xs arbitrary: n)
  case (Cons x xs)
  have "[n ..< n + length (x # xs)] = n # [Suc n ..< Suc n + length xs]"
    by (simp add: upt_conv_Cons del: upt_Suc)
  moreover have "filter (\<lambda>i. P ((x # xs) ! (i - n))) [Suc n ..< Suc n + length xs] =
      filter (\<lambda>i. P (xs ! (i - Suc n))) [Suc n ..< Suc n + length xs]"
    by (rule filter_cong) (auto simp: nth_Cons' diff_Suc split: nat.splits)
  ultimately show ?case using Cons.IH [of "Suc n"] by simp
qed simp

subsection \<open>Plain objects\<close>

text \<open>
  A plain object is the list of its own properties in the order \<open>for .. in\<close> visits them (the
  order of insertion, for names that are not array indices). Assigning an existing property keeps
  its place.
\<close>

type_synonym ('k, 'v) obj = "('k \<times> 'v) list"

fun obj_set :: "'k \<Rightarrow> 'v \<Rightarrow> ('k, 'v) obj \<Rightarrow> ('k, 'v) obj" where
  "obj_set k v [] = [(k, v)]"
| "obj_set k v ((k', v') # ps) = (if k' = k then (k, v) # ps else (k', v') # obj_set k v ps)"

lemma map_of_obj_set: "map_of (obj_set k v ps) = (map_of ps)(k \<mapsto> v)"
  by (induction k v ps rule: obj_set.induct) auto

lemma dom_obj_set: "fst ` set (obj_set k v ps) = insert k (fst ` set ps)"
  by (induction k v ps rule: obj_set.induct) auto

lemma keys_obj_set:
  "map fst (obj_set k v ps) = (if k \<in> fst ` set ps then map fst ps else map fst ps @ [k])"
  by (induction k v ps rule: obj_set.induct) auto

lemma distinct_obj_set: "distinct (map fst ps) \<Longrightarrow> distinct (map fst (obj_set k v ps))"
  by (simp add: keys_obj_set)

text \<open>An object literal filled by a sequence of assignments.\<close>

definition assign :: "('k \<times> 'v) list \<Rightarrow> ('k, 'v) obj" where
  "assign ps = fold (\<lambda>(k, v). obj_set k v) ps []"

lemma obj_set_fresh: "k \<notin> fst ` set ps \<Longrightarrow> obj_set k v ps = ps @ [(k, v)]"
  by (induction k v ps rule: obj_set.induct) auto

lemma fold_obj_set_distinct:
  "distinct (map fst (qs @ ps)) \<Longrightarrow> fold (\<lambda>(k, v). obj_set k v) ps qs = qs @ ps"
  by (induction ps arbitrary: qs) (auto simp: obj_set_fresh image_iff)

lemma assign_distinct: "distinct (map fst ps) \<Longrightarrow> assign ps = ps"
  unfolding assign_def using fold_obj_set_distinct [of "[]" ps] by simp

lemma distinct_assign: "distinct (map fst (assign ps))"
proof -
  have "distinct (map fst qs) \<Longrightarrow> distinct (map fst (fold (\<lambda>(k, v). obj_set k v) ps qs))" for qs
    by (induction ps arbitrary: qs) (auto simp: distinct_obj_set split: prod.splits)
  then show ?thesis by (simp add: assign_def)
qed

lemma map_of_assign: "map_of (assign ps) k = map_of (rev ps) k"
proof -
  have "map_of (fold (\<lambda>(k, v). obj_set k v) ps qs) k =
      (case map_of (rev ps) k of None \<Rightarrow> map_of qs k | Some v \<Rightarrow> Some v)" for qs
    by (induction ps arbitrary: qs) (auto simp: map_of_obj_set map_add_def split: option.splits)
  then show ?thesis by (simp add: assign_def split: option.splits)
qed

subsection \<open>Truthiness and defaults\<close>

text \<open>\<open>x || ''\<close> for a value that is a string, \<open>null\<close> or \<open>undefined\<close>.\<close>

definition or_empty :: "'a list option \<Rightarrow> 'a list" where
  "or_empty x = (case x of None \<Rightarrow> [] | Some s \<Rightarrow> s)"

lemma or_empty_simps [simp]: "or_empty None = []" "or_empty (Some s) = s"
  by (simp_all add: or_empty_def)

subsection \<open>Decimal numerals\<close>

text \<open>\<open>String(n)\<close> for a number that is a natural below \<open>10 ^ 21\<close>.\<close>

definition digit_char :: "nat \<Rightarrow> char" where
  "digit_char d = char_of (48 + d)"

function dec_of_nat :: "nat \<Rightarrow> string" where
  "dec_of_nat n = (if n < 10 then [digit_char n] else dec_of_nat (n div 10) @ [digit_char (n mod 10)])"
  by pat_completeness auto
termination by (relation "measure id") auto

declare dec_of_nat.simps [simp del]

definition digit_val :: "char \<Rightarrow> nat" where
  "digit_val c = of_char c - 48"

definition nat_of_dec :: "string \<Rightarrow> nat" where
  "nat_of_dec s = foldl (\<lambda>n c. 10 * n + digit_val c) 0 s"

lemma digit_val_char [simp]: "d < 10 \<Longrightarrow> digit_val (digit_char d) = d"
  by (simp add: digit_val_def digit_char_def)

lemma nat_of_dec_snoc: "nat_of_dec (s @ [c]) = 10 * nat_of_dec s + digit_val c"
  by (simp add: nat_of_dec_def)

lemma nat_of_dec_of_nat [simp]: "nat_of_dec (dec_of_nat n) = n"
proof (induction n rule: dec_of_nat.induct)
  case (1 n)
  show ?case
  proof (cases "n < 10")
    case True
    then show ?thesis by (simp add: dec_of_nat.simps [of n] nat_of_dec_def)
  next
    case False
    with "1.IH" show ?thesis by (simp add: dec_of_nat.simps [of n] nat_of_dec_snoc)
  qed
qed

lemma dec_of_nat_inj: "dec_of_nat m = dec_of_nat n \<longleftrightarrow> m = n"
  by (metis nat_of_dec_of_nat)

lemma dec_of_nat_ne [simp]: "dec_of_nat n \<noteq> []"
  by (subst dec_of_nat.simps) simp

lemma dec_of_nat_digits: "c \<in> set (dec_of_nat n) \<Longrightarrow> \<exists>d < 10. c = digit_char d"
proof (induction n rule: dec_of_nat.induct)
  case (1 n)
  show ?case
  proof (cases "n < 10")
    case True
    with "1.prems" show ?thesis by (auto simp: dec_of_nat.simps [of n])
  next
    case False
    with "1.prems" have "c \<in> set (dec_of_nat (n div 10)) \<or> c = digit_char (n mod 10)"
      by (auto simp add: dec_of_nat.simps [of n])
    then show ?thesis
    proof
      assume "c = digit_char (n mod 10)"
      then show ?thesis by (intro exI [of _ "n mod 10"]) simp
    qed (use "1.IH" False in simp)
  qed
qed

end
