(* ===== verification/Uri.thy ===== *)
theory Uri
  imports JsPrelude
begin

section \<open>encodeURIComponent and decodeURIComponent\<close>

text \<open>
  The two functions of the JavaScript library that the tracking scripts build their query strings
  with, on UTF-16 code units as the language defines them: a well-formed string is read as code
  points, each code point outside the unreserved set becomes the percent-escapes of its UTF-8
  octets, and a lone surrogate is a \<open>URIError\<close>. The round trip and the fact that no separator
  survives encoding are what the query-string theory rests on, through the locale \<open>url_codec\<close>.
\<close>

subsection \<open>Code points of a UTF-16 string\<close>

definition is_high :: "code_unit \<Rightarrow> bool" where
  "is_high c \<longleftrightarrow> 0xD800 \<le> unat c \<and> unat c \<le> 0xDBFF"

definition is_low :: "code_unit \<Rightarrow> bool" where
  "is_low c \<longleftrightarrow> 0xDC00 \<le> unat c \<and> unat c \<le> 0xDFFF"

fun code_points :: "ustr \<Rightarrow> nat list res" where
  "code_points [] = Inr []"
| "code_points (c # cs) =
     (if is_low c then Inl URIError
      else if \<not> is_high c then res_bind (code_points cs) (\<lambda>vs. Inr (unat c # vs))
      else (case cs of
              [] \<Rightarrow> Inl URIError
            | d # ds \<Rightarrow>
                if \<not> is_low d then Inl URIError
                else res_bind (code_points ds)
                  (\<lambda>vs. Inr (((unat c - 0xD800) * 0x400 + (unat d - 0xDC00) + 0x10000) # vs))))"

definition is_scalar :: "nat \<Rightarrow> bool" where
  "is_scalar v \<longleftrightarrow> v < 0xD800 \<or> 0xE000 \<le> v \<and> v < 0x110000"

definition units_of :: "nat \<Rightarrow> ustr" where
  "units_of v =
     (if v < 0x10000 then [of_nat v]
      else [of_nat ((v - 0x10000) div 0x400 + 0xD800), of_nat ((v - 0x10000) mod 0x400 + 0xDC00)])"

lemma unat_unit: "n < 0x10000 \<Longrightarrow> unat (of_nat n :: code_unit) = n"
  by (simp add: unat_of_nat)

lemma unit_bound: "unat (c :: code_unit) < 0x10000"
proof -
  have "unat c < 2 ^ LENGTH(16)" by (rule unsigned_less)
  then show ?thesis by simp
qed

lemma units_of_pair:
  "b < 0x400 \<Longrightarrow> units_of (a * 0x400 + b + 0x10000) = [of_nat (a + 0xD800), of_nat (b + 0xDC00)]"
  by (simp add: units_of_def del: of_nat_add)

lemma code_points_scalar: "code_points s = Inr vs \<Longrightarrow> v \<in> set vs \<Longrightarrow> is_scalar v"
proof (induction s arbitrary: vs rule: code_points.induct)
  case (2 c cs)
  have c: "unat c < 0x10000" by (rule unit_bound)
  show ?case
  proof (cases "is_high c")
    case False
    then have nl: "\<not> is_low c" using "2.prems" by auto
    with False "2.prems" obtain ws where "code_points cs = Inr ws" "vs = unat c # ws"
      by (auto simp: res_bind_eq_Inr)
    with "2.IH"(1) [OF nl False] "2.prems" False nl c show ?thesis
      by (auto simp: is_scalar_def is_high_def is_low_def)
  next
    case True
    then have nl: "\<not> is_low c" by (auto simp: is_high_def is_low_def)
    with True "2.prems" obtain d ds ws where cs: "cs = d # ds" and d: "is_low d"
      and ws: "code_points ds = Inr ws"
      and vs: "vs = ((unat c - 0xD800) * 0x400 + (unat d - 0xDC00) + 0x10000) # ws"
      by (auto simp: res_bind_eq_Inr split: list.splits if_splits)
    have "v \<in> set ws \<Longrightarrow> is_scalar v"
      using "2.IH"(2) [OF nl _ cs _ ws] True d by simp
    moreover have "(unat c - 0xD800) * 0x400 + (unat d - 0xDC00) < 0x100000"
      using True d unfolding is_high_def is_low_def by arith
    ultimately show ?thesis using "2.prems"(2) vs by (auto simp: is_scalar_def)
  qed
qed simp

lemma code_points_units: "code_points s = Inr vs \<Longrightarrow> concat (map units_of vs) = s"
proof (induction s arbitrary: vs rule: code_points.induct)
  case (2 c cs)
  have c: "unat c < 0x10000" by (rule unit_bound)
  show ?case
  proof (cases "is_high c")
    case False
    then have nl: "\<not> is_low c" using "2.prems" by auto
    with False "2.prems" obtain ws where "code_points cs = Inr ws" "vs = unat c # ws"
      by (auto simp: res_bind_eq_Inr)
    with "2.IH"(1) [OF nl False] c show ?thesis
      by (simp add: units_of_def)
  next
    case True
    then have nl: "\<not> is_low c" by (auto simp: is_high_def is_low_def)
    with True "2.prems" obtain d ds ws where cs: "cs = d # ds" and d: "is_low d"
      and ws: "code_points ds = Inr ws"
      and vs: "vs = ((unat c - 0xD800) * 0x400 + (unat d - 0xDC00) + 0x10000) # ws"
      by (auto simp: res_bind_eq_Inr split: list.splits if_splits)
    have IH: "concat (map units_of ws) = ds"
      using "2.IH"(2) [OF nl _ cs _ ws] True d by simp
    have "unat c - 0xD800 + 0xD800 = unat c" "unat d - 0xDC00 + 0xDC00 = unat d"
      "unat d - 0xDC00 < 0x400"
      using True d unfolding is_high_def is_low_def by arith+
    then have "units_of ((unat c - 0xD800) * 0x400 + (unat d - 0xDC00) + 0x10000) = [c, d]"
      by (simp only: units_of_pair of_nat_unat ucast_id)
    with IH vs cs show ?thesis by simp
  qed
qed simp

text \<open>A string is well formed when no surrogate stands alone.\<close>

fun wf_utf16 :: "ustr \<Rightarrow> bool" where
  "wf_utf16 [] = True"
| "wf_utf16 (c # cs) =
     (if is_high c then (case cs of [] \<Rightarrow> False | d # ds \<Rightarrow> is_low d \<and> wf_utf16 ds)
      else \<not> is_low c \<and> wf_utf16 cs)"

lemma code_points_wf: "(\<exists>vs. code_points s = Inr vs) \<longleftrightarrow> wf_utf16 s"
proof (induction s rule: code_points.induct)
  case (2 c cs)
  have "is_high c \<Longrightarrow> \<not> is_low c" by (auto simp: is_high_def is_low_def)
  with 2 show ?case
    by (cases "is_high c"; cases cs) (auto simp: res_bind_eq_Inr)
qed simp

lemma code_points_error: "code_points s = Inl e \<Longrightarrow> e = URIError"
  by (induction s rule: code_points.induct)
    (auto simp: res_bind_eq_Inl split: list.splits if_splits)

subsection \<open>UTF-8 octets and percent escapes\<close>

definition utf8_octets :: "nat \<Rightarrow> nat list" where
  "utf8_octets v =
     (if v < 0x80 then [v]
      else if v < 0x800 then [0xC0 + v div 0x40, 0x80 + v mod 0x40]
      else if v < 0x10000 then [0xE0 + v div 0x1000, 0x80 + v div 0x40 mod 0x40, 0x80 + v mod 0x40]
      else [0xF0 + v div 0x40000, 0x80 + v div 0x1000 mod 0x40, 0x80 + v div 0x40 mod 0x40,
            0x80 + v mod 0x40])"

definition hex_digit :: "nat \<Rightarrow> code_unit" where
  "hex_digit d = (if d < 10 then of_nat (48 + d) else of_nat (55 + d))"

definition hex_val :: "code_unit \<Rightarrow> nat option" where
  "hex_val c =
     (let n = unat c in
      if 48 \<le> n \<and> n \<le> 57 then Some (n - 48)
      else if 65 \<le> n \<and> n \<le> 70 then Some (n - 55)
      else if 97 \<le> n \<and> n \<le> 102 then Some (n - 87) else None)"

lemma hex_val_digit [simp]: "d < 16 \<Longrightarrow> hex_val (hex_digit d) = Some d"
  by (cases "d < 10") (simp_all add: hex_val_def hex_digit_def unat_unit del: of_nat_add)

definition percent :: code_unit where
  "percent = 37"

definition pct_octet :: "nat \<Rightarrow> ustr" where
  "pct_octet b = [percent, hex_digit (b div 16), hex_digit (b mod 16)]"

text \<open>\<open>A-Z a-z 0-9 - _ . ! ~ * ' ( )\<close>\<close>

definition unreserved :: "nat \<Rightarrow> bool" where
  "unreserved n \<longleftrightarrow> 65 \<le> n \<and> n \<le> 90 \<or> 97 \<le> n \<and> n \<le> 122 \<or> 48 \<le> n \<and> n \<le> 57 \<or>
     n = 45 \<or> n = 95 \<or> n = 46 \<or> n = 33 \<or> n = 126 \<or> n = 42 \<or> n = 39 \<or> n = 40 \<or> n = 41"

definition enc_point :: "nat \<Rightarrow> ustr" where
  "enc_point v = (if unreserved v then [of_nat v] else concat (map pct_octet (utf8_octets v)))"

definition encodeURIComponent :: "ustr \<Rightarrow> ustr res" where
  "encodeURIComponent s = res_bind (code_points s) (\<lambda>vs. Inr (concat (map enc_point vs)))"

subsection \<open>Decoding\<close>

fun pct_read :: "ustr \<Rightarrow> (nat \<times> ustr) option" where
  "pct_read (p # h # l # r) =
     (if p = percent then
        (case hex_val h of None \<Rightarrow> None | Some a \<Rightarrow>
          (case hex_val l of None \<Rightarrow> None | Some b \<Rightarrow> Some (16 * a + b, r)))
      else None)"
| "pct_read _ = None"

fun conts :: "nat \<Rightarrow> ustr \<Rightarrow> (nat list \<times> ustr) option" where
  "conts 0 s = Some ([], s)"
| "conts (Suc n) s =
     (case pct_read s of None \<Rightarrow> None | Some (b, r) \<Rightarrow>
        if 0x80 \<le> b \<and> b < 0xC0
        then (case conts n r of None \<Rightarrow> None | Some (bs, r') \<Rightarrow> Some (b # bs, r'))
        else None)"

lemma pct_read_length: "pct_read s = Some (b, r) \<Longrightarrow> length r < length s"
  by (cases s rule: pct_read.cases) (auto split: if_splits option.splits)

lemma conts_length: "conts n s = Some (bs, r) \<Longrightarrow> length r \<le> length s"
proof (induction n arbitrary: s bs r)
  case (Suc n)
  then show ?case
    by (fastforce split: option.splits if_splits dest: pct_read_length)
qed simp

text \<open>The number of continuation octets, the value, and the values an octet sequence may have.\<close>

definition utf8_more :: "nat \<Rightarrow> nat option" where
  "utf8_more b =
     (if 0xC0 \<le> b \<and> b < 0xE0 then Some 1
      else if 0xE0 \<le> b \<and> b < 0xF0 then Some 2
      else if 0xF0 \<le> b \<and> b < 0xF8 then Some 3 else None)"

definition utf8_value :: "nat \<Rightarrow> nat list \<Rightarrow> nat" where
  "utf8_value b bs =
     foldl (\<lambda>v c. v * 0x40 + (c - 0x80))
       (if b < 0xE0 then b - 0xC0 else if b < 0xF0 then b - 0xE0 else b - 0xF0) bs"

definition utf8_valid :: "nat \<Rightarrow> nat \<Rightarrow> bool" where
  "utf8_valid n v \<longleftrightarrow> is_scalar v \<and>
     (n = 1 \<and> 0x80 \<le> v \<or> n = 2 \<and> 0x800 \<le> v \<or> n = 3 \<and> 0x10000 \<le> v)"

function decodeURIComponent :: "ustr \<Rightarrow> ustr res" where
  "decodeURIComponent [] = Inr []"
| "decodeURIComponent (c # cs) =
     (if c \<noteq> percent then res_bind (decodeURIComponent cs) (\<lambda>s. Inr (c # s))
      else (case pct_read (c # cs) of
              None \<Rightarrow> Inl URIError
            | Some (b, r) \<Rightarrow>
                if b < 0x80 then res_bind (decodeURIComponent r) (\<lambda>s. Inr (of_nat b # s))
                else (case utf8_more b of
                        None \<Rightarrow> Inl URIError
                      | Some n \<Rightarrow>
                          (case conts n r of
                             None \<Rightarrow> Inl URIError
                           | Some (bs, r') \<Rightarrow>
                               if utf8_valid n (utf8_value b bs)
                               then res_bind (decodeURIComponent r')
                                      (\<lambda>s. Inr (units_of (utf8_value b bs) @ s))
                               else Inl URIError))))"
  by pat_completeness auto
termination
proof (relation "measure length", goal_cases)
  case (3 c cs x b r)
  then show ?case using pct_read_length [of "c # cs" b r] by simp
next
  case (4 c cs x b r n y bs r')
  then show ?case
    using pct_read_length [of "c # cs" b r] conts_length [of n r bs r'] by simp
qed auto

declare decodeURIComponent.simps [simp del]

lemma decode_Nil [simp]: "decodeURIComponent [] = Inr []"
  by (simp add: decodeURIComponent.simps)

lemma pct_read_octet [simp]: "b < 256 \<Longrightarrow> pct_read (pct_octet b @ r) = Some (b, r)"
  by (simp add: pct_octet_def)

lemma conts_octets [simp]:
  "\<forall>b \<in> set bs. 0x80 \<le> b \<and> b < 0xC0 \<Longrightarrow> conts (length bs) (concat (map pct_octet bs) @ r) = Some (bs, r)"
  by (induction bs) auto

subsection \<open>The round trip\<close>

lemma utf8_octets_small: "v < 0x110000 \<Longrightarrow> b \<in> set (utf8_octets v) \<Longrightarrow> b < 256"
  by (auto simp: utf8_octets_def split: if_splits)

text \<open>A sequence of escaped octets is read back as the value of its octets.\<close>

lemma decode_octets:
  assumes b: "0x80 \<le> b" "b < 256" and n: "utf8_more b = Some (length bs)"
    and bs: "\<forall>c \<in> set bs. 0x80 \<le> c \<and> c < 0xC0"
    and v: "utf8_value b bs = v" "utf8_valid (length bs) v"
  shows "decodeURIComponent (concat (map pct_octet (b # bs)) @ r) =
    res_bind (decodeURIComponent r) (\<lambda>s. Inr (units_of v @ s))"
proof -
  obtain t where t: "concat (map pct_octet (b # bs)) @ r = percent # t"
      and p: "pct_read (percent # t) = Some (b, concat (map pct_octet bs) @ r)"
    using pct_read_octet [OF b(2), of "concat (map pct_octet bs) @ r"]
    by (auto simp: pct_octet_def)
  show ?thesis
    unfolding t using p b n v conts_octets [OF bs, of r]
    by (subst decodeURIComponent.simps) simp
qed

lemma decode_plain: "c \<noteq> percent \<Longrightarrow>
    decodeURIComponent (c # r) = res_bind (decodeURIComponent r) (\<lambda>s. Inr (c # s))"
  by (subst decodeURIComponent.simps) simp

lemma decode_ascii:
  assumes "b < 0x80"
  shows "decodeURIComponent (pct_octet b @ r) = res_bind (decodeURIComponent r) (\<lambda>s. Inr (of_nat b # s))"
proof -
  have "pct_read (pct_octet b @ r) = Some (b, r)" using assms by simp
  then show ?thesis using assms
    by (subst (asm) pct_octet_def, subst pct_octet_def)
      (simp add: decodeURIComponent.simps)
qed

lemma unreserved_bounds: "unreserved v \<Longrightarrow> v < 0x80 \<and> v \<noteq> 37 \<and> v \<noteq> 38 \<and> v \<noteq> 61"
  by (auto simp: unreserved_def)

lemma unit_eq_iff: "m < 0x10000 \<Longrightarrow> n < 0x10000 \<Longrightarrow> (of_nat m :: code_unit) = of_nat n \<longleftrightarrow> m = n"
  by (metis unat_unit)

lemma decode_enc_point:
  assumes v: "is_scalar v"
  shows "decodeURIComponent (enc_point v @ r) =
    res_bind (decodeURIComponent r) (\<lambda>s. Inr (units_of v @ s))"
proof -
  consider (plain) "unreserved v" | (ascii) "\<not> unreserved v" "v < 0x80"
    | (two) "\<not> unreserved v" "0x80 \<le> v" "v < 0x800"
    | (three) "\<not> unreserved v" "0x800 \<le> v" "v < 0x10000"
    | (four) "\<not> unreserved v" "0x10000 \<le> v" by linarith
  then show ?thesis
  proof cases
    case plain
    then have "(of_nat v :: code_unit) \<noteq> percent"
      using unit_eq_iff [of v 37] unreserved_bounds [of v] by (simp add: percent_def)
    with plain unreserved_bounds [of v] show ?thesis
      by (simp add: enc_point_def decode_plain units_of_def)
  next
    case ascii
    then show ?thesis
      using decode_ascii [of v r] by (simp add: enc_point_def utf8_octets_def units_of_def)
  next
    case two
    let ?b = "0xC0 + v div 0x40" and ?bs = "[0x80 + v mod 0x40]"
    have "?b < 256" "utf8_more ?b = Some (length ?bs)" using two by (auto simp: utf8_more_def)
    moreover have "utf8_value ?b ?bs = v"
      using two by (auto simp: utf8_value_def)
    moreover have "utf8_valid (length ?bs) v"
      using two v by (auto simp: utf8_valid_def)
    ultimately have "decodeURIComponent (concat (map pct_octet (?b # ?bs)) @ r) =
        res_bind (decodeURIComponent r) (\<lambda>s. Inr (units_of v @ s))"
      by (intro decode_octets) auto
    then show ?thesis using two by (simp add: enc_point_def utf8_octets_def)
  next
    case three
    let ?b = "0xE0 + v div 0x1000" and ?bs = "[0x80 + v div 0x40 mod 0x40, 0x80 + v mod 0x40]"
    have "?b < 256" "utf8_more ?b = Some (length ?bs)" using three by (auto simp: utf8_more_def)
    moreover have "utf8_value ?b ?bs = v"
    proof -
      have "v div 0x1000 < 16" using three by auto
      then have "utf8_value ?b ?bs = (v div 0x1000 * 0x40 + v div 0x40 mod 0x40) * 0x40 + v mod 0x40"
        by (simp add: utf8_value_def)
      also have "v div 0x1000 * 0x40 + v div 0x40 mod 0x40 = v div 0x40"
        using div_mult_mod_eq [of "v div 0x40" "0x40"] by (simp add: div_mult2_eq [symmetric])
      finally show ?thesis by simp
    qed
    moreover have "utf8_valid (length ?bs) v"
      using three v by (auto simp: utf8_valid_def)
    ultimately have "decodeURIComponent (concat (map pct_octet (?b # ?bs)) @ r) =
        res_bind (decodeURIComponent r) (\<lambda>s. Inr (units_of v @ s))"
      by (intro decode_octets) auto
    then show ?thesis using three by (simp add: enc_point_def utf8_octets_def)
  next
    case four
    let ?b = "0xF0 + v div 0x40000"
      and ?bs = "[0x80 + v div 0x1000 mod 0x40, 0x80 + v div 0x40 mod 0x40, 0x80 + v mod 0x40]"
    have v4: "v div 0x40000 < 8" using v by (auto simp: is_scalar_def)
    then have "?b < 256" "utf8_more ?b = Some (length ?bs)" by (auto simp: utf8_more_def)
    moreover have "utf8_value ?b ?bs = v"
    proof -
      have "utf8_value ?b ?bs = ((v div 0x40000 * 0x40 + v div 0x1000 mod 0x40) * 0x40
          + v div 0x40 mod 0x40) * 0x40 + v mod 0x40"
        using v4 by (simp add: utf8_value_def)
      also have "v div 0x40000 * 0x40 + v div 0x1000 mod 0x40 = v div 0x1000"
        using div_mult_mod_eq [of "v div 0x1000" "0x40"] by (simp add: div_mult2_eq [symmetric])
      also have "v div 0x1000 * 0x40 + v div 0x40 mod 0x40 = v div 0x40"
        using div_mult_mod_eq [of "v div 0x40" "0x40"] by (simp add: div_mult2_eq [symmetric])
      finally show ?thesis by simp
    qed
    moreover have "utf8_valid (length ?bs) v"
      using four v by (auto simp: utf8_valid_def)
    ultimately have "decodeURIComponent (concat (map pct_octet (?b # ?bs)) @ r) =
        res_bind (decodeURIComponent r) (\<lambda>s. Inr (units_of v @ s))"
      by (intro decode_octets) auto
    then show ?thesis using four by (simp add: enc_point_def utf8_octets_def)
  qed
qed

lemma decode_enc_points:
  "\<forall>v \<in> set vs. is_scalar v \<Longrightarrow>
    decodeURIComponent (concat (map enc_point vs)) = Inr (concat (map units_of vs))"
  by (induction vs) (auto simp: decode_enc_point)

lemma decode_encode: "encodeURIComponent s = Inr q \<Longrightarrow> decodeURIComponent q = Inr s"
  using code_points_scalar code_points_units
  by (fastforce simp: encodeURIComponent_def res_bind_eq_Inr intro: decode_enc_points)

lemma encode_defined: "(\<exists>q. encodeURIComponent s = Inr q) \<longleftrightarrow> wf_utf16 s"
  by (simp add: encodeURIComponent_def res_bind_eq_Inr flip: code_points_wf)

lemma encode_error: "\<not> wf_utf16 s \<Longrightarrow> encodeURIComponent s = Inl URIError"
  using encode_defined [of s] code_points_error [of s]
  by (cases "code_points s") (auto simp: encodeURIComponent_def)

subsection \<open>No separator survives encoding\<close>

definition query_safe :: "code_unit \<Rightarrow> bool" where
  "query_safe c \<longleftrightarrow> c \<noteq> 38 \<and> c \<noteq> 61"

lemma hex_digit_safe: "d < 16 \<Longrightarrow> query_safe (hex_digit d)"
  using unit_eq_iff [of "48 + d" 38] unit_eq_iff [of "48 + d" 61]
    unit_eq_iff [of "55 + d" 38] unit_eq_iff [of "55 + d" 61]
  by (auto simp: query_safe_def hex_digit_def)

lemma pct_octet_safe: "b < 256 \<Longrightarrow> c \<in> set (pct_octet b) \<Longrightarrow> query_safe c"
  by (auto simp: pct_octet_def hex_digit_safe) (simp add: query_safe_def percent_def)

lemma enc_point_safe:
  assumes "v < 0x110000" "c \<in> set (enc_point v)" shows "query_safe c"
proof (cases "unreserved v")
  case True
  then show ?thesis
    using assms unreserved_bounds [of v] unit_eq_iff [of v 38] unit_eq_iff [of v 61]
    by (simp add: enc_point_def query_safe_def)
next
  case False
  then show ?thesis using assms utf8_octets_small [of v] pct_octet_safe
    by (auto simp: enc_point_def)
qed

lemma encode_safe:
  assumes "encodeURIComponent s = Inr q" "c \<in> set q" shows "query_safe c"
proof -
  obtain vs where vs: "code_points s = Inr vs" "q = concat (map enc_point vs)"
    using assms(1) by (auto simp: encodeURIComponent_def res_bind_eq_Inr)
  with assms(2) obtain v where "v \<in> set vs" "c \<in> set (enc_point v)" by auto
  moreover from this vs(1) have "v < 0x110000"
    using code_points_scalar by (fastforce simp: is_scalar_def)
  ultimately show ?thesis using enc_point_safe by blast
qed

text \<open>Every literal of the sources is well formed.\<close>

lemma wf_utf16_small: "\<forall>c \<in> set s. unat c < 0xD800 \<Longrightarrow> wf_utf16 s"
  by (induction s rule: wf_utf16.induct) (auto simp: is_high_def is_low_def)

lemma unat_lit: "c \<in> set (lit s) \<Longrightarrow> unat c < 256"
proof -
  assume "c \<in> set (lit s)"
  then obtain x where "c = of_char x" by (auto simp: lit_def)
  then have "c = of_nat (of_char x)" by (simp add: of_nat_of_char)
  moreover have "unat (of_nat (of_char x) :: code_unit) = of_char x"
    by (rule unat_unit) (rule less_trans [OF nat_of_char_less_256], simp)
  ultimately show ?thesis by (simp del: of_nat_of_char)
qed

lemma wf_utf16_lit [simp]: "wf_utf16 (lit s)"
  by (rule wf_utf16_small) (auto dest!: unat_lit)

end
