(* ===== verification/QueryArgs.thy ===== *)
theory QueryArgs
  imports Uri
begin

section \<open>Query strings: how the tracking scripts pass their parameters\<close>

text \<open>
  Every tracking script fills a parameter object and concatenates \<open>name=value\<close> pairs with the
  same loop (\<open>args_loop\<close>); the receiving servlet splits at \<open>&\<close> and at the first \<open>=\<close> and
  decodes (\<open>parse_query\<close>). The locale \<open>url_codec\<close> states what the loop needs of the encoder;
  its interpretation is JavaScript's own pair of functions.
\<close>

definition amp :: code_unit where
  "amp = 38"

definition eqs :: code_unit where
  "eqs = 61"

text \<open>
  \<open>for (var i in params) { if (args != '') args += '&'; args += i + '=' + encodeURIComponent(params[i]); }\<close>
\<close>

fun args_loop :: "(ustr \<Rightarrow> ustr res) \<Rightarrow> ustr \<Rightarrow> (ustr, ustr) obj \<Rightarrow> ustr res" where
  "args_loop enc args [] = Inr args"
| "args_loop enc args ((i, v) # ps) =
     (let args' = (if args \<noteq> [] then args @ [amp] else args)
      in res_bind (enc v) (\<lambda>e. args_loop enc (args' @ i @ eqs # e) ps))"

subsection \<open>The receiving side\<close>

definition split_pair :: "ustr \<Rightarrow> ustr \<times> ustr" where
  "split_pair s = (takeWhile (\<lambda>c. c \<noteq> eqs) s, tl (dropWhile (\<lambda>c. c \<noteq> eqs) s))"

fun decode_pairs :: "(ustr \<Rightarrow> ustr res) \<Rightarrow> ustr list \<Rightarrow> (ustr, ustr) obj res" where
  "decode_pairs dec [] = Inr []"
| "decode_pairs dec (s # ss) =
     (let (k, e) = split_pair s
      in res_bind (dec e) (\<lambda>v. res_bind (decode_pairs dec ss) (\<lambda>ps. Inr ((k, v) # ps))))"

definition parse_query :: "(ustr \<Rightarrow> ustr res) \<Rightarrow> ustr \<Rightarrow> (ustr, ustr) obj res" where
  "parse_query dec q = decode_pairs dec (split_on amp q)"

lemma split_pair_eq: "eqs \<notin> set k \<Longrightarrow> split_pair (k @ eqs # e) = (k, e)"
  by (induction k) (auto simp: split_pair_def)

subsection \<open>The loop as a join\<close>

fun enc_pairs :: "(ustr \<Rightarrow> ustr res) \<Rightarrow> (ustr, ustr) obj \<Rightarrow> ustr list res" where
  "enc_pairs enc [] = Inr []"
| "enc_pairs enc ((k, v) # ps) =
     res_bind (enc v) (\<lambda>e. res_bind (enc_pairs enc ps) (\<lambda>zs. Inr ((k @ eqs # e) # zs)))"

lemma join_on_shift: "join_on c ((x @ c # y) # ys) = x @ c # join_on c (y # ys)"
  by (cases ys) auto

lemma args_loop_acc:
  "args \<noteq> [] \<Longrightarrow> args_loop enc args ps = res_bind (enc_pairs enc ps) (\<lambda>zs. Inr (join_on amp (args # zs)))"
proof (induction ps arbitrary: args)
  case (Cons p ps)
  obtain k v where p: "p = (k, v)" by (cases p)
  show ?case
  proof (cases "enc v")
    case (Inr e)
    show ?thesis
      using Cons p Inr
      by (cases "enc_pairs enc ps") (auto simp: join_on_shift)
  qed (simp add: p Let_def)
qed simp

lemma args_loop_join:
  "args_loop enc [] ps = res_bind (enc_pairs enc ps) (\<lambda>zs. Inr (join_on amp zs))"
proof (cases ps)
  case (Cons p ps')
  obtain k v where p: "p = (k, v)" by (cases p)
  show ?thesis
    using Cons p args_loop_acc [of "k @ eqs # e" enc ps' for e]
    by (cases "enc v") (auto simp: res_bind_assoc)
qed simp

subsection \<open>What the loop needs of the encoder\<close>

text \<open>Parameter names that hold neither separator.\<close>

definition safe_keys :: "(ustr, ustr) obj \<Rightarrow> bool" where
  "safe_keys ps \<longleftrightarrow> (\<forall>(k, v) \<in> set ps. \<forall>c \<in> set k. query_safe c)"

locale url_codec =
  fixes enc :: "ustr \<Rightarrow> ustr res" and dec :: "ustr \<Rightarrow> ustr res" and ok :: "ustr \<Rightarrow> bool"
  assumes dec_enc: "enc s = Inr q \<Longrightarrow> dec q = Inr s"
    and enc_ok: "(\<exists>q. enc s = Inr q) \<longleftrightarrow> ok s"
    and enc_bad: "\<not> ok s \<Longrightarrow> enc s = Inl URIError"
    and enc_safe: "enc s = Inr q \<Longrightarrow> c \<in> set q \<Longrightarrow> query_safe c"
begin

lemma enc_pairs_ok: "\<forall>v \<in> snd ` set ps. ok v \<Longrightarrow> \<exists>zs. enc_pairs enc ps = Inr zs"
proof (induction ps)
  case (Cons p ps)
  obtain k v where p: "p = (k, v)" by (cases p)
  with Cons obtain zs where "enc_pairs enc ps = Inr zs" by auto
  moreover obtain e where "enc v = Inr e" using Cons.prems p enc_ok [of v] by auto
  ultimately show ?case using p by simp
qed simp

lemma enc_pairs_bad: "\<exists>v \<in> snd ` set ps. \<not> ok v \<Longrightarrow> enc_pairs enc ps = Inl URIError"
proof (induction ps)
  case (Cons p ps)
  obtain k v where p: "p = (k, v)" by (cases p)
  show ?case
  proof (cases "ok v")
    case True
    then obtain e where "enc v = Inr e" using enc_ok by blast
    with Cons p True show ?thesis by auto
  qed (simp add: p enc_bad)
qed simp

lemma enc_pairs_no_amp: "enc_pairs enc ps = Inr zs \<Longrightarrow> safe_keys ps \<Longrightarrow> z \<in> set zs \<Longrightarrow> amp \<notin> set z"
proof (induction ps arbitrary: zs)
  case (Cons p ps)
  obtain k v where p: "p = (k, v)" by (cases p)
  with Cons.prems obtain e zs' where e: "enc v = Inr e" "enc_pairs enc ps = Inr zs'"
      "zs = (k @ eqs # e) # zs'"
    by (auto simp: res_bind_eq_Inr)
  have "amp \<notin> set (k @ eqs # e)"
    using enc_safe [OF e(1)] Cons.prems(2) p
    by (auto simp: safe_keys_def query_safe_def amp_def eqs_def)
  with Cons e p show ?case by (auto simp: safe_keys_def)
qed simp

lemma decode_enc_pairs: "enc_pairs enc ps = Inr zs \<Longrightarrow> safe_keys ps \<Longrightarrow> decode_pairs dec zs = Inr ps"
proof (induction ps arbitrary: zs)
  case (Cons p ps)
  obtain k v where p: "p = (k, v)" by (cases p)
  with Cons.prems obtain e zs' where e: "enc v = Inr e" "enc_pairs enc ps = Inr zs'"
      "zs = (k @ eqs # e) # zs'"
    by (auto simp: res_bind_eq_Inr)
  have "eqs \<notin> set k"
    using Cons.prems(2) p by (auto simp: safe_keys_def query_safe_def eqs_def)
  with Cons e p show ?case by (simp add: split_pair_eq dec_enc safe_keys_def)
qed simp

lemma parse_args:
  assumes "args_loop enc [] ps = Inr q" and "safe_keys ps" and "ps \<noteq> []"
  shows "parse_query dec q = Inr ps"
proof -
  from assms(1) obtain zs where zs: "enc_pairs enc ps = Inr zs" "q = join_on amp zs"
    by (auto simp: args_loop_join res_bind_eq_Inr)
  then have "zs \<noteq> []" using assms(3) by (cases ps) (auto simp: res_bind_eq_Inr)
  moreover have "\<forall>z \<in> set zs. amp \<notin> set z"
    using enc_pairs_no_amp [OF zs(1) assms(2)] by blast
  ultimately have "split_on amp q = zs" using zs(2) by (simp add: split_join)
  then show ?thesis by (simp add: parse_query_def decode_enc_pairs [OF zs(1) assms(2)])
qed

lemma args_defined: "(\<exists>q. args_loop enc [] ps = Inr q) \<longleftrightarrow> (\<forall>v \<in> snd ` set ps. ok v)"
  using enc_pairs_ok [of ps] enc_pairs_bad [of ps]
  by (cases "enc_pairs enc ps") (auto simp: args_loop_join)

lemma args_error: "\<exists>v \<in> snd ` set ps. \<not> ok v \<Longrightarrow> args_loop enc [] ps = Inl URIError"
  by (simp add: args_loop_join enc_pairs_bad)

end

interpretation uri: url_codec encodeURIComponent decodeURIComponent wf_utf16
  by unfold_locales (auto intro: decode_encode encode_error encode_safe simp: encode_defined)

text \<open>A parameter name written as a literal without \<open>&\<close> and \<open>=\<close> is safe.\<close>

lemma lit_safe:
  assumes "CHR ''&'' \<notin> set s" "CHR ''='' \<notin> set s" "c \<in> set (lit s)"
  shows "query_safe c"
proof -
  obtain x where x: "x \<in> set s" "c = of_char x" using assms(3) by (auto simp: lit_def)
  have "(of_char (CHR ''&'') :: code_unit) = 38" "(of_char (CHR ''='') :: code_unit) = 61"
    by simp_all
  then show ?thesis
    using x assms of_char_16_eq_iff [of x "CHR ''&''"] of_char_16_eq_iff [of x "CHR ''=''"]
    by (auto simp: query_safe_def)
qed

end
