(* ===== verification/TrackArgs.thy ===== *)
theory TrackArgs
  imports QueryArgs
begin

section \<open>The parameter objects of the tracking scripts\<close>

text \<open>
  \<open>getArgs\<close> of \<open>vlssp.js\<close>, \<open>vlssp_wh.js\<close>, \<open>vlssp_mobile.js\<close>, \<open>splv.js\<close>, \<open>splv_sh.js\<close>,
  \<open>stat_4sh.js\<close> and \<open>vlstat_4sh.js\<close>, the \<open>c2\<close> request parameters of \<open>splv.js\<close>, \<open>splv_sh.js\<close>
  and \<open>m.splv.js\<close>, and \<open>getJsParam\<close>, which \<open>initstat_4sh.js\<close> and \<open>vldsp_4sh.js\<close> read their own
  query string with. The globals and DOM values a script reads are arguments (\<open>None\<close> for
  \<open>undefined\<close> or \<open>null\<close>), and so is the clock (\<open>new Date().getTime()\<close>).
\<close>

definition track_args :: "(ustr \<times> ustr) list \<Rightarrow> ustr res" where
  "track_args ps = args_loop encodeURIComponent [] (assign ps)"

text \<open>\<open>params.ts = timestamp || ''\<close>\<close>

definition ts_field :: "nat \<Rightarrow> ustr" where
  "ts_field ts = (if ts = 0 then [] else lit (dec_of_nat ts))"

definition vlssp_params :: "ustr option \<Rightarrow> ustr option \<Rightarrow> nat \<Rightarrow> (ustr \<times> ustr) list" where
  "vlssp_params adId referrer ts =
     [(lit ''adId'', or_empty adId), (lit ''materialId'', []), (lit ''channel'', []),
      (lit ''userId'', []), (lit ''impuuid'', []), (lit ''userIdType'', []),
      (lit ''referrer'', or_empty referrer), (lit ''ts'', ts_field ts)]"

definition getArgs_vlssp :: "ustr option \<Rightarrow> ustr option \<Rightarrow> nat \<Rightarrow> ustr res" where
  "getArgs_vlssp adId referrer ts = track_args (vlssp_params adId referrer ts)"

definition getArgs_wh :: "ustr option \<Rightarrow> ustr option \<Rightarrow> nat \<Rightarrow> ustr res" where
  "getArgs_wh adId referrer ts = track_args
     [(lit ''adId'', or_empty adId), (lit ''materialId'', []), (lit ''channel'', []),
      (lit ''userId'', []), (lit ''impuuid'', []), (lit ''userIdType'', []),
      (lit ''referrer'', or_empty referrer), (lit ''ts'', ts_field ts)]"

definition getArgs_mobile :: "ustr option \<Rightarrow> ustr option \<Rightarrow> nat \<Rightarrow> ustr res" where
  "getArgs_mobile adId referrer ts = track_args
     [(lit ''adId'', or_empty adId), (lit ''materialId'', []), (lit ''channel'', []),
      (lit ''domain'', []), (lit ''size'', []), (lit ''viewscreen'', []), (lit ''userId'', []),
      (lit ''impuuid'', []), (lit ''userIdType'', []), (lit ''referrer'', or_empty referrer),
      (lit ''ts'', ts_field ts)]"

text \<open>\<open>splv.js\<close> reads \<open>adId\<close> and \<open>ref\<close> from the object the server sent.\<close>

definition getArgs_splv :: "ustr option \<Rightarrow> ustr option \<Rightarrow> nat \<Rightarrow> ustr res" where
  "getArgs_splv adId ref ts = track_args
     [(lit ''adId'', or_empty adId), (lit ''materialId'', []), (lit ''impuuid'', []),
      (lit ''referrer'', or_empty ref), (lit ''ts'', ts_field ts)]"

definition getArgs_splv_sh :: "ustr option \<Rightarrow> ustr option \<Rightarrow> nat \<Rightarrow> ustr res" where
  "getArgs_splv_sh adId ref ts = track_args
     [(lit ''adId'', or_empty adId), (lit ''materialId'', []), (lit ''impuuid'', []),
      (lit ''referrer'', or_empty ref), (lit ''ts'', ts_field ts)]"

text \<open>
  The statistics scripts prefer the referrer the ad server wrote into the page over the
  document's own: \<open>null == x || "" == x\<close> holds for \<open>null\<close>, \<open>undefined\<close> and the empty string.
\<close>

definition pick_referrer :: "ustr option \<Rightarrow> ustr option \<Rightarrow> ustr" where
  "pick_referrer adforcerReferer docReferrer =
     (if adforcerReferer = None \<or> adforcerReferer = Some [] then or_empty docReferrer
      else the adforcerReferer)"

record stat_inputs =
  in_adId :: "ustr option"
  in_materialId :: "ustr option"
  in_userId :: "ustr option"
  in_impuuid :: "ustr option"
  in_adforcerReferer :: "ustr option"
  in_docReferrer :: "ustr option"

definition getArgs_stat :: "stat_inputs \<Rightarrow> nat \<Rightarrow> ustr res" where
  "getArgs_stat d ts = track_args
     [(lit ''adId'', or_empty (in_adId d)), (lit ''materialId'', or_empty (in_materialId d)),
      (lit ''userId'', or_empty (in_userId d)), (lit ''impuuid'', or_empty (in_impuuid d)),
      (lit ''referrer'', pick_referrer (in_adforcerReferer d) (in_docReferrer d)),
      (lit ''ts'', ts_field ts)]"

definition getArgs_vlstat :: "stat_inputs \<Rightarrow> nat \<Rightarrow> ustr res" where
  "getArgs_vlstat d ts = track_args
     [(lit ''adId'', or_empty (in_adId d)), (lit ''materialId'', or_empty (in_materialId d)),
      (lit ''userId'', or_empty (in_userId d)), (lit ''impuuid'', or_empty (in_impuuid d)),
      (lit ''referrer'', pick_referrer (in_adforcerReferer d) (in_docReferrer d)),
      (lit ''ts'', ts_field ts)]"

subsection \<open>The c2 request\<close>

definition nullOrUndefined2Empt :: "ustr option \<Rightarrow> ustr" where
  "nullOrUndefined2Empt str = (case str of None \<Rightarrow> [] | Some s \<Rightarrow> s)"

definition nullOrUndefined2Empt_sh :: "ustr option \<Rightarrow> ustr" where
  "nullOrUndefined2Empt_sh str = (case str of None \<Rightarrow> [] | Some s \<Rightarrow> s)"

definition nullOrUndefined2Empt_m :: "ustr option \<Rightarrow> ustr" where
  "nullOrUndefined2Empt_m str = (case str of None \<Rightarrow> [] | Some s \<Rightarrow> s)"

record c2_globals =
  src_url :: "ustr option"
  rus :: "ustr option"
  divda :: "ustr option"
  ptey :: "ustr option"
  area :: "ustr option"

text \<open>\<open>rus\<close> is assigned twice, so the object has seven properties before \<open>ts\<close> is added.\<close>

definition assembleC2Para_PC :: "c2_globals \<Rightarrow> nat \<Rightarrow> ustr res" where
  "assembleC2Para_PC g ts = track_args
     [(lit ''adforcerReferer'', nullOrUndefined2Empt (src_url g)),
      (lit ''rus'', nullOrUndefined2Empt (rus g)), (lit ''divda'', nullOrUndefined2Empt (divda g)),
      (lit ''ptey'', nullOrUndefined2Empt (ptey g)), (lit ''area'', nullOrUndefined2Empt (area g)),
      (lit ''rus'', nullOrUndefined2Empt (rus g)), (lit ''adType'', lit ''0''),
      (lit ''ts'', ts_field ts)]"

definition assembleC2Para_PC_sh :: "c2_globals \<Rightarrow> nat \<Rightarrow> ustr res" where
  "assembleC2Para_PC_sh g ts = track_args
     [(lit ''adforcerReferer'', nullOrUndefined2Empt_sh (src_url g)),
      (lit ''rus'', nullOrUndefined2Empt_sh (rus g)), (lit ''divda'', nullOrUndefined2Empt_sh (divda g)),
      (lit ''ptey'', nullOrUndefined2Empt_sh (ptey g)), (lit ''area'', nullOrUndefined2Empt_sh (area g)),
      (lit ''rus'', nullOrUndefined2Empt_sh (rus g)), (lit ''adType'', lit ''0''),
      (lit ''ts'', ts_field ts)]"

definition assembleC2Para_MOBILE :: "c2_globals \<Rightarrow> nat \<Rightarrow> ustr res" where
  "assembleC2Para_MOBILE g ts = track_args
     [(lit ''adforcerReferer'', nullOrUndefined2Empt_m (src_url g)),
      (lit ''rus'', nullOrUndefined2Empt_m (rus g)), (lit ''divda'', nullOrUndefined2Empt_m (divda g)),
      (lit ''ptey'', nullOrUndefined2Empt_m (ptey g)), (lit ''area'', nullOrUndefined2Empt_m (area g)),
      (lit ''rus'', nullOrUndefined2Empt_m (rus g)), (lit ''adType'', lit ''1''),
      (lit ''ts'', ts_field ts)]"

subsection \<open>Facts the properties share\<close>

lemma assign_keys: "fst ` set (assign ps) = fst ` set ps"
proof -
  have "fst ` set (fold (\<lambda>(k, v). obj_set k v) ps qs) = fst ` set qs \<union> fst ` set ps" for qs
    by (induction ps arbitrary: qs) (auto simp: dom_obj_set split: prod.splits)
  then show ?thesis by (simp add: assign_def)
qed

lemma assign_ne [simp]: "assign ps = [] \<longleftrightarrow> ps = []"
  using assign_keys [of ps] by (cases ps) (auto simp: assign_def)

lemma safe_keys_assign: "\<forall>k \<in> fst ` set ps. \<forall>c \<in> set k. query_safe c \<Longrightarrow> safe_keys (assign ps)"
proof -
  assume safe: "\<forall>k \<in> fst ` set ps. \<forall>c \<in> set k. query_safe c"
  have "query_safe c" if "(k, v) \<in> set (assign ps)" "c \<in> set k" for k v c
  proof -
    have "k \<in> fst ` set (assign ps)" using that(1) by force
    then have "k \<in> fst ` set ps" by (simp only: assign_keys)
    with safe that(2) show ?thesis by blast
  qed
  then show ?thesis unfolding safe_keys_def by blast
qed

lemma track_args_parse:
  assumes "track_args ps = Inr q" and "ps \<noteq> []"
    and "\<forall>k \<in> fst ` set ps. \<forall>c \<in> set k. query_safe c"
  shows "parse_query decodeURIComponent q = Inr (assign ps)"
  using uri.parse_args [of "assign ps" q] assms safe_keys_assign [of ps]
  by (simp add: track_args_def)

lemma track_args_defined:
  "(\<exists>q. track_args ps = Inr q) \<longleftrightarrow> (\<forall>v \<in> snd ` set (assign ps). wf_utf16 v)"
  by (simp add: track_args_def uri.args_defined)

lemma track_args_error:
  "\<exists>v \<in> snd ` set (assign ps). \<not> wf_utf16 v \<Longrightarrow> track_args ps = Inl URIError"
  unfolding track_args_def by (rule uri.args_error)

lemma wf_ts_field [simp]: "wf_utf16 (ts_field ts)"
  by (simp add: ts_field_def)

text \<open>Names such as the scripts' hold no separator; decided letter by letter.\<close>

definition plain_name :: "string \<Rightarrow> bool" where
  "plain_name s \<longleftrightarrow> CHR ''&'' \<notin> set s \<and> CHR ''='' \<notin> set s"

lemma plain_name_safe: "plain_name s \<Longrightarrow> \<forall>c \<in> set (lit s). query_safe c"
  using lit_safe [of s] by (auto simp: plain_name_def)

text \<open>Either every value is well-formed and the receiver gets the object back, or the loop throws.\<close>

lemma track_args_cases:
  assumes "\<forall>k \<in> fst ` set ps. \<exists>n. k = lit n \<and> plain_name n" and "ps \<noteq> []"
  shows "case track_args ps of
      Inl e \<Rightarrow> e = URIError \<and> \<not> (\<forall>v \<in> snd ` set (assign ps). wf_utf16 v)
    | Inr q \<Rightarrow> (\<forall>v \<in> snd ` set (assign ps). wf_utf16 v) \<and> parse_query decodeURIComponent q = Inr (assign ps)"
proof -
  have safe: "\<forall>k \<in> fst ` set ps. \<forall>c \<in> set k. query_safe c"
    using assms(1) plain_name_safe by metis
  show ?thesis
  proof (cases "track_args ps")
    case (Inl e)
    then have "\<not> (\<forall>v \<in> snd ` set (assign ps). wf_utf16 v)"
      using track_args_defined [of ps] by (metis Inl_Inr_False)
    then show ?thesis using Inl track_args_error [of ps] by auto
  next
    case (Inr q)
    then show ?thesis
      using track_args_defined [of ps] track_args_parse [OF Inr assms(2) safe] by simp
  qed
qed

subsection \<open>Properties\<close>

text \<open>
  C30: The page-view query of \<open>stat_4sh.js\<close> reaches the receiver unchanged: if every value is
  well-formed UTF-16 it decodes to exactly the six parameters, the referrer being the one the ad
  server wrote unless that is empty; if some value is not, building it throws a \<open>URIError\<close>.
\<close>

theorem getArgs_stat_roundtrip:
  "let referrer = (if in_adforcerReferer d \<in> {None, Some []} then or_empty (in_docReferrer d)
       else the (in_adforcerReferer d));
     values = [or_empty (in_adId d), or_empty (in_materialId d), or_empty (in_userId d),
       or_empty (in_impuuid d), referrer]
   in case getArgs_stat d ts of
     Inl e \<Rightarrow> e = URIError \<and> \<not> list_all wf_utf16 values
   | Inr q \<Rightarrow> list_all wf_utf16 values \<and> parse_query decodeURIComponent q = Inr
       (zip (map lit [''adId'', ''materialId'', ''userId'', ''impuuid'', ''referrer'', ''ts''])
         (values @ [if ts = 0 then [] else lit (dec_of_nat ts)]))"
proof -
  define ps where "ps =
    [(lit ''adId'', or_empty (in_adId d)), (lit ''materialId'', or_empty (in_materialId d)),
     (lit ''userId'', or_empty (in_userId d)), (lit ''impuuid'', or_empty (in_impuuid d)),
     (lit ''referrer'', pick_referrer (in_adforcerReferer d) (in_docReferrer d)),
     (lit ''ts'', ts_field ts)]"
  have keys: "\<forall>k \<in> fst ` set ps. \<exists>n. k = lit n \<and> plain_name n" and ne: "ps \<noteq> []"
    by (auto simp: ps_def plain_name_def)
  have asg: "assign ps = ps" by (rule assign_distinct) (simp add: ps_def)
  have "case track_args ps of
      Inl e \<Rightarrow> e = URIError \<and> \<not> (\<forall>v \<in> snd ` set ps. wf_utf16 v)
    | Inr q \<Rightarrow> (\<forall>v \<in> snd ` set ps. wf_utf16 v) \<and> parse_query decodeURIComponent q = Inr ps"
    using track_args_cases [OF keys ne] unfolding asg .
  then show ?thesis
    unfolding getArgs_stat_def ps_def [symmetric] Let_def
    by (cases "track_args ps") (auto simp: ps_def pick_referrer_def ts_field_def)
qed

text \<open>
  The \<open>c2\<close> request of \<open>splv.js\<close> decodes at the server to seven parameters, although \<open>rus\<close> is
  assigned twice: a second assignment neither repeats nor moves it.
\<close>

theorem c2_roundtrip:
  "case assembleC2Para_PC g ts of
     Inl e \<Rightarrow> e = URIError \<and> \<not> list_all wf_utf16 (map nullOrUndefined2Empt [src_url g, rus g, divda g, ptey g, area g])
   | Inr q \<Rightarrow> list_all wf_utf16 (map nullOrUndefined2Empt [src_url g, rus g, divda g, ptey g, area g]) \<and>
       parse_query decodeURIComponent q = Inr
       [(lit ''adforcerReferer'', nullOrUndefined2Empt (src_url g)),
        (lit ''rus'', nullOrUndefined2Empt (rus g)), (lit ''divda'', nullOrUndefined2Empt (divda g)),
        (lit ''ptey'', nullOrUndefined2Empt (ptey g)), (lit ''area'', nullOrUndefined2Empt (area g)),
        (lit ''adType'', lit ''0''), (lit ''ts'', ts_field ts)]"
proof -
  define ps where "ps = [(lit ''adforcerReferer'', nullOrUndefined2Empt (src_url g)),
      (lit ''rus'', nullOrUndefined2Empt (rus g)), (lit ''divda'', nullOrUndefined2Empt (divda g)),
      (lit ''ptey'', nullOrUndefined2Empt (ptey g)), (lit ''area'', nullOrUndefined2Empt (area g)),
      (lit ''rus'', nullOrUndefined2Empt (rus g)), (lit ''adType'', lit ''0''), (lit ''ts'', ts_field ts)]"
  define qs where "qs = [(lit ''adforcerReferer'', nullOrUndefined2Empt (src_url g)),
      (lit ''rus'', nullOrUndefined2Empt (rus g)), (lit ''divda'', nullOrUndefined2Empt (divda g)),
      (lit ''ptey'', nullOrUndefined2Empt (ptey g)), (lit ''area'', nullOrUndefined2Empt (area g)),
      (lit ''adType'', lit ''0''), (lit ''ts'', ts_field ts)]"
  have keys: "\<forall>k \<in> fst ` set ps. \<exists>n. k = lit n \<and> plain_name n" and ne: "ps \<noteq> []"
    by (auto simp: ps_def plain_name_def)
  have asg: "assign ps = qs" by (simp add: assign_def ps_def qs_def)
  have "case track_args ps of
      Inl e \<Rightarrow> e = URIError \<and> \<not> (\<forall>v \<in> snd ` set qs. wf_utf16 v)
    | Inr q \<Rightarrow> (\<forall>v \<in> snd ` set qs. wf_utf16 v) \<and> parse_query decodeURIComponent q = Inr qs"
    using track_args_cases [OF keys ne] unfolding asg .
  then show ?thesis
    unfolding assembleC2Para_PC_def ps_def [symmetric]
    by (cases "track_args ps") (auto simp: qs_def)
qed

end
