(* ===== verification/JsCommand.thy ===== *)
theory JsCommand
  imports JsPrelude
begin

section \<open>Commands\<close>

text \<open>
  A script or handler is a command: a function from a state to the state it leaves and the error
  that stopped it, if any; what was done before an error stays done.
\<close>

type_synonym 's cmd = "'s \<Rightarrow> js_error option \<times> 's"

definition skip :: "'s cmd" where
  "skip s = (None, s)"

definition throw :: "js_error \<Rightarrow> 's cmd" where
  "throw e s = (Some e, s)"

definition andthen :: "'s cmd \<Rightarrow> 's cmd \<Rightarrow> 's cmd" where
  "andthen c d s = (case c s of (None, s') \<Rightarrow> d s' | (Some e, s') \<Rightarrow> (Some e, s'))"

fun block :: "'s cmd list \<Rightarrow> 's cmd" where
  "block [] = skip"
| "block (c # cs) = andthen c (block cs)"

definition guarded :: "'a res \<Rightarrow> ('a \<Rightarrow> 's cmd) \<Rightarrow> 's cmd" where
  "guarded r k = (case r of Inl e \<Rightarrow> throw e | Inr a \<Rightarrow> k a)"

lemma skip_apply [simp, js_simps]: "skip s = (None, s)"
  by (simp add: skip_def)

lemma throw_apply [simp, js_simps]: "throw e s = (Some e, s)"
  by (simp add: throw_def)

lemma andthen_ok [simp]: "c s = (None, s') \<Longrightarrow> andthen c d s = d s'"
  by (simp add: andthen_def)

lemma andthen_err [simp]: "c s = (Some e, s') \<Longrightarrow> andthen c d s = (Some e, s')"
  by (simp add: andthen_def)

lemma andthen_skip [simp]: "andthen c skip = c"
  by (rule ext) (simp add: andthen_def split: prod.splits option.splits)

lemma guarded_simps [simp]: "guarded (Inl e) k = throw e" "guarded (Inr a) k = k a"
  by (simp_all add: guarded_def)

lemma block_append: "block (cs @ ds) = andthen (block cs) (block ds)"
  by (induction cs) (auto simp: andthen_def fun_eq_iff split: prod.splits option.splits)

end
