(* ===== verification/Page.thy ===== *)
theory Page
  imports TrackArgs JsCommand
begin

section \<open>The page an ad script runs in\<close>

text \<open>
  What the ad scripts do to the page: markup written, pixels requested, elements created and
  removed, timers. The browser is a parameter (\<open>browser\<close>): which ids a piece of markup creates,
  what an element contains and what the clock shows at its n-th reading. Scripts are commands:
  functions from the page to the page they leave and the error that stopped them, if any.
\<close>

datatype click_cb = ExtframeClick | VzframeClick | VframeClick

record page =
  scripts :: "ustr list"                   \<comment> \<open>\<open>src\<close> of the \<open>script\<close> elements when the script starts\<close>
  doc :: "ustr list"                       \<comment> \<open>arguments of \<open>document.write\<close>, in order\<close>
  dom :: "(ustr \<times> nat) list"               \<comment> \<open>elements with an id in document order, with a handle\<close>
  fresh :: nat                             \<comment> \<open>the next handle\<close>
  sent :: "ustr list"                      \<comment> \<open>addresses requested, by pixels and synchronous requests\<close>
  ticks :: nat                             \<comment> \<open>how often the clock was read\<close>
  removals :: "ustr list"                  \<comment> \<open>pending \<open>setTimeout(\<dots>removeChild\<dots>, 1000)\<close>\<close>
  assigned :: "(nat \<times> string \<times> ustr) list"   \<comment> \<open>properties of elements assigned, in order\<close>
  iframes :: "(nat \<times> click_cb \<times> bool) list"  \<comment> \<open>\<open>IframeOnClick.iframes\<close>: element, callback, \<open>hasTracked\<close>\<close>
  polling :: bool                          \<comment> \<open>\<open>IframeOnClick.interval\<close> is set\<close>
  monitor :: bool                          \<comment> \<open>the interval of \<open>moninotIframe\<close> runs\<close>
  listeners :: "(nat \<times> string) list"        \<comment> \<open>\<open>addEvent\<close> registrations\<close>

record browser =
  created :: "ustr \<Rightarrow> ustr list"
  within :: "page \<Rightarrow> nat \<Rightarrow> nat list"
  clk :: "nat \<Rightarrow> nat"

definition blank_page :: page where
  "blank_page = \<lparr>scripts = [], doc = [], dom = [], fresh = 0, sent = [], ticks = 0, removals = [],
     assigned = [], iframes = [], polling = False, monitor = False, listeners = []\<rparr>"

subsection \<open>What a script can do to a page\<close>

text \<open>\<open>document.write(s)\<close>: the elements of the markup get fresh handles.\<close>

definition doc_write :: "browser \<Rightarrow> ustr \<Rightarrow> page cmd" where
  "doc_write b s p =
     (let ids = created b s; n = length ids
      in (None, p\<lparr>doc := doc p @ [s], dom := dom p @ zip ids [fresh p ..< fresh p + n],
                 fresh := fresh p + n\<rparr>))"

text \<open>\<open>var img = new Image(1, 1); img.src = url;\<close>\<close>

definition pixel :: "ustr \<Rightarrow> page cmd" where
  "pixel url p = (None, p\<lparr>sent := sent p @ [url]\<rparr>)"

text \<open>
  \<open>var sc = document.getElementsByTagName("script"); var node = sc[sc.length - 1];
  node.parentNode.removeChild(node);\<close>
\<close>

definition drop_own_script :: "page cmd" where
  "drop_own_script p =
     (if scripts p = [] then (Some TypeError, p) else (None, p\<lparr>scripts := butlast (scripts p)\<rparr>))"

text \<open>\<open>var ts = new Date().getTime(); \<dots>\<close>\<close>

definition with_now :: "browser \<Rightarrow> (nat \<Rightarrow> page cmd) \<Rightarrow> page cmd" where
  "with_now b k p = k (clk b (ticks p)) (p\<lparr>ticks := Suc (ticks p)\<rparr>)"

text \<open>\<open>document.getElementById(i)\<close>: the first element with that id, \<open>null\<close> if there is none.\<close>

definition by_id :: "page \<Rightarrow> ustr \<Rightarrow> nat option" where
  "by_id p i = map_of (dom p) i"

text \<open>Reading or assigning a property of what \<open>getElementById\<close> returned throws for \<open>null\<close>.\<close>

definition with_elem :: "ustr \<Rightarrow> (nat \<Rightarrow> page cmd) \<Rightarrow> page cmd" where
  "with_elem i k p = (case by_id p i of None \<Rightarrow> (Some TypeError, p) | Some h \<Rightarrow> k h p)"

definition set_prop :: "string \<Rightarrow> ustr \<Rightarrow> nat \<Rightarrow> page cmd" where
  "set_prop f v h p = (None, p\<lparr>assigned := assigned p @ [(h, f, v)]\<rparr>)"

text \<open>\<open>e.innerHTML = ''\<close> also takes the elements inside \<open>e\<close> off the page.\<close>

definition clear_elem :: "browser \<Rightarrow> nat \<Rightarrow> page cmd" where
  "clear_elem b h p =
     (None, p\<lparr>dom := filter (\<lambda>(i, e). e \<notin> set (within b p h)) (dom p),
              assigned := assigned p @ [(h, ''innerHTML'', [])]\<rparr>)"

text \<open>\<open>setTimeout("x.parentNode.removeChild(x)", 1000)\<close> for the element with id \<open>x\<close>.\<close>

definition remove_later :: "ustr \<Rightarrow> page cmd" where
  "remove_later i p = (None, p\<lparr>removals := removals p @ [i]\<rparr>)"

text \<open>
  The code string runs in the global scope, where \<open>x\<close> names the element with that id. Without
  such an element the name is unbound; with several it is a collection, which has no
  \<open>parentNode\<close>.
\<close>

definition fire_removal :: "ustr \<Rightarrow> page cmd" where
  "fire_removal i p =
     (let p' = p\<lparr>removals := remove1 i (removals p)\<rparr>
      in case filter (\<lambda>(j, e). j = i) (dom p) of
           [] \<Rightarrow> (Some ReferenceError, p')
         | [(_, h)] \<Rightarrow> (None, p'\<lparr>dom := filter (\<lambda>(j, e). j \<noteq> i) (dom p)\<rparr>)
         | _ \<Rightarrow> (Some TypeError, p'))"

text \<open>
  \<open>closeAdDiv\<close>: three statements, each looking the element up again. The element itself stays.
\<close>

definition hide_addiv :: "browser \<Rightarrow> page cmd" where
  "hide_addiv b = block
     [with_elem (lit ''addiv'') (clear_elem b),
      with_elem (lit ''addiv'') (set_prop ''style.visibility'' (lit ''hidden'')),
      with_elem (lit ''addiv'') (set_prop ''style.display'' (lit ''none''))]"

subsection \<open>Effects\<close>

lemma doc_write_effects [effects]:
  "fst (doc_write b s p) = None"
  "doc (snd (doc_write b s p)) = doc p @ [s]"
  "sent (snd (doc_write b s p)) = sent p"
  "ticks (snd (doc_write b s p)) = ticks p"
  "removals (snd (doc_write b s p)) = removals p"
  "map fst (dom (snd (doc_write b s p))) = map fst (dom p) @ created b s"
  "iframes (snd (doc_write b s p)) = iframes p"
  "polling (snd (doc_write b s p)) = polling p"
  "scripts (snd (doc_write b s p)) = scripts p"
  by (simp_all add: doc_write_def Let_def)

lemma by_id_None: "by_id p i = None \<longleftrightarrow> i \<notin> set (map fst (dom p))"
  by (simp add: by_id_def map_of_eq_None_iff)

lemma hide_addiv_null: "by_id p (lit ''addiv'') = None \<Longrightarrow> hide_addiv b p = (Some TypeError, p)"
  by (simp add: hide_addiv_def with_elem_def)

lemma hide_addiv_ok:
  assumes "by_id p (lit ''addiv'') = Some h" and "h \<notin> set (within b p h)"
  shows "\<exists>p'. hide_addiv b p = (None, p') \<and> doc p' = doc p \<and> sent p' = sent p \<and>
     ticks p' = ticks p \<and> removals p' = removals p \<and> by_id p' (lit ''addiv'') = Some h \<and>
     assigned p' = assigned p @ [(h, ''innerHTML'', []), (h, ''style.visibility'', lit ''hidden''),
        (h, ''style.display'', lit ''none'')] \<and>
     (\<forall>i e. (i, e) \<in> set (dom p') \<longrightarrow> e \<notin> set (within b p h))"
proof -
  have keep: "map_of (filter (\<lambda>(i, e). e \<notin> E) xs) i = Some h"
    if "map_of xs i = Some h" "h \<notin> E" for xs E and i :: ustr
    using that by (induction xs) auto
  have "by_id (p\<lparr>dom := filter (\<lambda>(i, e). e \<notin> set (within b p h)) (dom p), assigned := x\<rparr>)
      (lit ''addiv'') = Some h" for x
    using keep [OF _ assms(2)] assms(1) by (simp add: by_id_def)
  moreover have "by_id (q\<lparr>assigned := x\<rparr>) i = by_id q i" for q x i
    by (simp add: by_id_def)
  ultimately show ?thesis
    using assms(1)
    by (simp add: hide_addiv_def with_elem_def clear_elem_def set_prop_def andthen_def)
qed

end
