(* ===== verification/IframeClick.thy ===== *)
theory IframeClick
  imports Page
begin

section \<open>Counting clicks on frames from the focused element\<close>

text \<open>
  \<open>IframeOnClick\<close>, in \<open>vlssp.js\<close> and four copies: a script cannot see a click inside an iframe,
  so every 200 ms it looks whether the frame has become \<open>document.activeElement\<close> and runs the
  frame's callback once per time it did. The locale \<open>click_sink\<close> states what a callback does;
  inside it the polls are shown to run each callback exactly once per rising edge of the focus.
\<close>

text \<open>\<open>setInterval\<close> returns a positive number, so a second \<open>track\<close> starts no second interval.\<close>

definition track :: "nat \<Rightarrow> click_cb \<Rightarrow> page cmd" where
  "track element cb p =
     (None, p\<lparr>iframes := iframes p @ [(element, cb, False)], polling := True\<rparr>)"

definition set_tracked :: "nat \<Rightarrow> bool \<Rightarrow> page cmd" where
  "set_tracked i t p =
     (case iframes p ! i of (e, cb, _) \<Rightarrow> (None, p\<lparr>iframes := (iframes p)[i := (e, cb, t)]\<rparr>))"

definition check_one :: "(click_cb \<Rightarrow> page cmd) \<Rightarrow> nat \<Rightarrow> nat \<Rightarrow> page cmd" where
  "check_one run activeElement i p =
     (case iframes p ! i of (element, cb, hasTracked) \<Rightarrow>
        if activeElement = element then
          if hasTracked = False then andthen (run cb) (set_tracked i True) p else skip p
        else set_tracked i False p)"

text \<open>\<open>activeElement = None\<close>: \<open>document.activeElement\<close> is \<open>null\<close>.\<close>

definition checkClick :: "(click_cb \<Rightarrow> page cmd) \<Rightarrow> nat option \<Rightarrow> page cmd" where
  "checkClick run activeElement p =
     (case activeElement of None \<Rightarrow> skip p
      | Some a \<Rightarrow> block (map (check_one run a) [0 ..< length (iframes p)]) p)"

text \<open>The copies of the object in the other scripts.\<close>

definition track_wh :: "nat \<Rightarrow> click_cb \<Rightarrow> page cmd" where "track_wh = track"
definition track_mobile :: "nat \<Rightarrow> click_cb \<Rightarrow> page cmd" where "track_mobile = track"
definition track_stat :: "nat \<Rightarrow> click_cb \<Rightarrow> page cmd" where "track_stat = track"
definition track_vlstat :: "nat \<Rightarrow> click_cb \<Rightarrow> page cmd" where "track_vlstat = track"

definition checkClick_wh :: "(click_cb \<Rightarrow> page cmd) \<Rightarrow> nat option \<Rightarrow> page cmd" where
  "checkClick_wh = checkClick"
definition checkClick_mobile :: "(click_cb \<Rightarrow> page cmd) \<Rightarrow> nat option \<Rightarrow> page cmd" where
  "checkClick_mobile = checkClick"
definition checkClick_stat :: "(click_cb \<Rightarrow> page cmd) \<Rightarrow> nat option \<Rightarrow> page cmd" where
  "checkClick_stat = checkClick"
definition checkClick_vlstat :: "(click_cb \<Rightarrow> page cmd) \<Rightarrow> nat option \<Rightarrow> page cmd" where
  "checkClick_vlstat = checkClick"

text \<open>The interval handler over a sequence of polls; a poll that throws does not stop the next.\<close>

fun polls :: "(click_cb \<Rightarrow> page cmd) \<Rightarrow> nat option list \<Rightarrow> page \<Rightarrow> page" where
  "polls run [] p = p"
| "polls run (a # as) p = polls run as (snd (checkClick run a p))"

subsection \<open>What the polls promise\<close>

text \<open>How often \<open>element\<close> becomes the focused one; polls without a focus are not seen.\<close>

fun rising :: "nat \<Rightarrow> bool \<Rightarrow> nat option list \<Rightarrow> nat" where
  "rising e t [] = 0"
| "rising e t (None # as) = rising e t as"
| "rising e t (Some a # as) = (if a = e then (if t then 0 else 1) + rising e True as
                               else rising e False as)"

text \<open>Whether an element counts as focused after the polls.\<close>

fun focused :: "nat \<Rightarrow> bool \<Rightarrow> nat option list \<Rightarrow> bool" where
  "focused e t [] = t"
| "focused e t (None # as) = focused e t as"
| "focused e t (Some a # as) = focused e (a = e) as"

definition all_rising :: "(nat \<times> click_cb \<times> bool) list \<Rightarrow> nat option list \<Rightarrow> nat" where
  "all_rising fs as = sum_list (map (\<lambda>(e, cb, t). rising e t as) fs)"

definition after_polls :: "nat option list \<Rightarrow> nat \<times> click_cb \<times> bool \<Rightarrow> nat \<times> click_cb \<times> bool" where
  "after_polls as f = (case f of (e, cb, t) \<Rightarrow> (e, cb, focused e t as))"

locale click_sink =
  fixes run :: "click_cb \<Rightarrow> page cmd" and ok :: "click_cb \<Rightarrow> bool"
  assumes run_ok: "ok cb \<Longrightarrow> fst (run cb p) = None"
    and run_frames: "iframes (snd (run cb p)) = iframes p"
    and run_sent: "ok cb \<Longrightarrow> \<exists>u. sent (snd (run cb p)) = sent p @ [u]"
begin

text \<open>One frame, then the frames from \<open>i\<close> on.\<close>

lemma check_one_ok:
  assumes "iframes p = fs @ (e, cb, t) # gs" "i = length fs" "ok cb"
  shows "\<exists>p'. check_one run a i p = (None, p') \<and> iframes p' = fs @ (e, cb, a = e) # gs \<and>
     length (sent p') = length (sent p) + rising e t [Some a]"
proof (cases "a = e \<and> \<not> t")
  case True
  obtain p1 where p1: "run cb p = (None, p1)" using run_ok [OF assms(3)] by (metis prod.collapse)
  moreover have "iframes p1 = fs @ (e, cb, t) # gs" using run_frames [of cb p] p1 assms(1) by simp
  moreover have "length (sent p1) = Suc (length (sent p))"
    using run_sent [OF assms(3), of p] p1 by auto
  ultimately show ?thesis
    using True assms by (simp add: check_one_def set_tracked_def list_update_append)
next
  case False
  then show ?thesis using assms by (auto simp: check_one_def set_tracked_def list_update_append)
qed

lemma check_from:
  assumes "iframes p = fs @ gs" "\<forall>(e, cb, t) \<in> set gs. ok cb"
  shows "\<exists>p'. block (map (check_one run a) [length fs ..< length fs + length gs]) p = (None, p') \<and>
     iframes p' = fs @ map (\<lambda>(e, cb, t). (e, cb, a = e)) gs \<and>
     length (sent p') = length (sent p) + all_rising gs [Some a]"
  using assms
proof (induction gs arbitrary: fs p)
  case (Cons g gs)
  obtain e cb t where g: "g = (e, cb, t)" by (cases g)
  from Cons.prems g obtain p1 where p1: "check_one run a (length fs) p = (None, p1)"
      "iframes p1 = (fs @ [(e, cb, a = e)]) @ gs"
      "length (sent p1) = length (sent p) + rising e t [Some a]"
    using check_one_ok [of p fs e cb t gs "length fs" a] by auto
  have "[length fs ..< length fs + length (g # gs)] =
      length fs # [Suc (length fs) ..< Suc (length fs) + length gs]"
    by (simp add: upt_conv_Cons del: upt_Suc)
  then show ?case
    using Cons.IH [OF p1(2)] Cons.prems(2) p1 g by (fastforce simp: all_rising_def simp del: upt_Suc)
qed (simp add: all_rising_def)

lemma check_all:
  assumes "\<forall>(e, cb, t) \<in> set (iframes p). ok cb"
  shows "\<exists>p'. checkClick run (Some a) p = (None, p') \<and>
     iframes p' = map (\<lambda>(e, cb, t). (e, cb, a = e)) (iframes p) \<and>
     length (sent p') = length (sent p) + all_rising (iframes p) [Some a]"
  using check_from [of p "[]" "iframes p" a] assms by (simp add: checkClick_def)

lemma all_rising_Cons:
  "all_rising fs (Some a # as) =
     all_rising fs [Some a] + all_rising (map (\<lambda>(e, cb, t). (e, cb, a = e)) fs) as"
  by (induction fs) (auto simp: all_rising_def)

lemma all_rising_None: "all_rising fs (None # as) = all_rising fs as"
  by (simp add: all_rising_def)

lemma ok_refocus:
  "\<forall>(e, cb, t) \<in> set fs. ok cb \<Longrightarrow>
   \<forall>(e, cb, t) \<in> set (map (\<lambda>(e, cb, t). (e, cb, x = e)) fs). ok cb"
  by fastforce

text \<open>Each frame's callback has run once per rising edge, and the flags record the last focus.\<close>

lemma polls_count:
  assumes "\<forall>(e, cb, t) \<in> set (iframes p). ok cb"
  shows "length (sent (polls run as p)) = length (sent p) + all_rising (iframes p) as"
    and "iframes (polls run as p) = map (after_polls as) (iframes p)"
  using assms
proof (induction as arbitrary: p)
  case Nil
  { case 1 show ?case by (simp add: all_rising_def case_prod_unfold)
  next
    case 2 show ?case by (auto simp: after_polls_def map_idI split: prod.splits) }
next
  case (Cons a as)
  { case 1
    show ?case
    proof (cases a)
      case None
      then show ?thesis using Cons.IH(1) [OF 1] by (simp add: checkClick_def all_rising_None)
    next
      case (Some x)
      obtain p' where "checkClick run (Some x) p = (None, p')"
          "iframes p' = map (\<lambda>(e, cb, t). (e, cb, x = e)) (iframes p)"
          "length (sent p') = length (sent p) + all_rising (iframes p) [Some x]"
        using check_all [OF 1] by blast
      moreover have "\<forall>(e, cb, t) \<in> set (iframes p'). ok cb"
        using ok_refocus [OF 1] calculation(2) by simp
      ultimately show ?thesis
        using Cons.IH(1) [of p'] Some all_rising_Cons [of "iframes p" x as] by simp
    qed
  next
    case 2
    show ?case
    proof (cases a)
      case None
      then show ?thesis
        using Cons.IH(2) [OF 2] by (auto simp: checkClick_def after_polls_def)
    next
      case (Some x)
      obtain p' where "checkClick run (Some x) p = (None, p')"
          "iframes p' = map (\<lambda>(e, cb, t). (e, cb, x = e)) (iframes p)"
        using check_all [OF 2] by blast
      moreover have "\<forall>(e, cb, t) \<in> set (iframes p'). ok cb"
        using ok_refocus [OF 2] calculation(2) by simp
      ultimately show ?thesis
        using Cons.IH(2) [of p'] Some by (auto simp: after_polls_def)
    qed }
qed

end

end
