(* ===== verification/AdMarkup.thy ===== *)
theory AdMarkup
  imports IframeClick
begin

section \<open>The markup of the ads\<close>

text \<open>
  The strings the ad scripts write, as \<open>vlssp.js\<close> and its relatives build them, and the writing
  steps they share: the close button by \<open>closeType\<close> and the counting frame.
\<close>

definition close_img :: ustr where
  \<open>close_img = lit ''<img  src="http://img.alimama.cn/p/close1.gif" onclick="closeAdDiv();" onmouseover="this.src='http://img.alimama.cn/p/close2.gif'" onmouseout="this.src='http://img.alimama.cn/p/close1.gif'" style="height:13px;font-size:14px;float:right;width:43px;cursor:pointer;position:absolute;top:-16px;right:0">''\<close>

definition close_box :: ustr where
  \<open>close_box = lit ''<div id="close" style="POSITION: absolute; Z-INDEX: 9500; border:none; RIGHT: 4px;"> ''\<close>

definition close_button :: ustr where
  \<open>close_button = lit ''<input type="button" value="X" onclick="closeAdDiv();" style="cursor:pointer; background-color: transparent; border:0; font-weight:bold; color:#3C3C3C; font-size:14px; font-family:Arial;"/>''\<close>

definition dead_button :: ustr where
  \<open>dead_button = lit ''<input type="button" value="X" onclick="closeDeadAdDiv();" style="cursor:pointer; background-color: transparent; border:0; font-weight:bold; color:#3C3C3C; font-size:14px; font-family:Arial;"/>''\<close>

definition end_div :: ustr where
  \<open>end_div = lit ''</div>''\<close>

definition addiv_open :: "ustr \<Rightarrow> ustr \<Rightarrow> ustr" where
  \<open>addiv_open width height = concat
     [lit ''<div id="addiv" style="position: fixed; Z-INDEX: 9200; right: 0px; bottom: 0px;width: '',
      width, lit ''px;height: '', height, lit ''px">'']\<close>

definition dead_form :: "ustr \<Rightarrow> ustr" where
  \<open>dead_form ad = concat
     [lit ''<form style="margin:0px;padding:0px;" id="deadForm" method="get" action="/deadx" target="_blank"><input type="hidden" name="adId" value="'',
      ad, lit ''" /></form>'']\<close>

text \<open>The attributes every frame ends with, after its size.\<close>

definition frame_end :: ustr where
  \<open>frame_end = lit '' border="0"   marginwidth="0" marginheight="0"  frameborder="0" hspace="0" scrolling="no" vspace="0" ></iframe>''\<close>

text \<open>\<open>host + userId + '/' + adId + '?adforcerReferer=' + ref + '&ad_acct=' + adAcct\<close>\<close>

definition ad_address :: "ustr \<Rightarrow> ustr \<Rightarrow> ustr \<Rightarrow> ustr \<Rightarrow> ustr \<Rightarrow> ustr" where
  "ad_address host user ad ref acct = concat
     [host, user, lit ''/'', ad, lit ''?adforcerReferer='', ref, lit ''&ad_acct='', acct]"

definition ad_frame :: "ustr \<Rightarrow> ustr \<Rightarrow> ustr \<Rightarrow> ustr \<Rightarrow> ustr" where
  \<open>ad_frame start address width height = concat
     [start, address, lit ''" width="'', width, lit ''px" height="'', height, lit ''px"'', frame_end]\<close>

definition hidden_frame :: "ustr \<Rightarrow> ustr \<Rightarrow> ustr" where
  \<open>hidden_frame start address = concat
     [start, address, lit ''" width="0px" height="0px"'', frame_end]\<close>

subsection \<open>The close button\<close>

text \<open>
  The branches of \<open>closeType\<close>; type \<open>R\<close> draws one of the first two by the parity of the clock.
\<close>

definition close_buttons :: "browser \<Rightarrow> ustr \<Rightarrow> ustr \<Rightarrow> page cmd" where
  "close_buttons b closeType ad =
     (if closeType = lit ''0'' then doc_write b close_img
      else if closeType = lit ''1'' then
        block [doc_write b close_box, doc_write b close_button, doc_write b end_div]
      else if closeType = lit ''2'' then
        block [doc_write b close_box, doc_write b dead_button, doc_write b (dead_form ad),
               doc_write b end_div]
      else if closeType = lit ''R'' then
        with_now b (\<lambda>ts.
          if ts mod 2 = 0 then doc_write b close_img
          else block [doc_write b close_box, doc_write b close_button, doc_write b end_div])
      else skip)"

text \<open>\<open>if (document.getElementById(i)) IframeOnClick.track(document.getElementById(i), cb);\<close>\<close>

definition track_if_present :: "(nat \<Rightarrow> click_cb \<Rightarrow> page cmd) \<Rightarrow> ustr \<Rightarrow> click_cb \<Rightarrow> page cmd" where
  "track_if_present tr i cb p =
     (case by_id p i of None \<Rightarrow> skip p | Some h \<Rightarrow> tr h cb p)"

subsection \<open>Commands that only write\<close>

text \<open>
  A command that never throws, sends no pixel and only adds markup. The writing parts of the
  scripts are built from such commands, so a property of a script's pixels needs only this.
\<close>

definition ids :: "page \<Rightarrow> ustr set" where
  "ids p = set (map fst (dom p))"

text \<open>\<open>adds b p p' us ss\<close>: from \<open>p\<close> to \<open>p'\<close> the pixels \<open>us\<close> were sent and the chunks \<open>ss\<close> written.\<close>

definition adds :: "browser \<Rightarrow> page \<Rightarrow> page \<Rightarrow> ustr list \<Rightarrow> ustr list \<Rightarrow> bool" where
  "adds b p p' us ss \<longleftrightarrow> sent p' = sent p @ us \<and> doc p' = doc p @ ss \<and>
     ids p' = ids p \<union> (\<Union>s \<in> set ss. set (created b s))"

definition writes_only :: "browser \<Rightarrow> page cmd \<Rightarrow> bool" where
  "writes_only b c \<longleftrightarrow> (\<forall>p. fst (c p) = None \<and> (\<exists>ss. adds b p (snd (c p)) [] ss))"

named_theorems writers \<open>commands that only write\<close>

lemma adds_refl [simp]: "adds b p p [] []"
  by (simp add: adds_def)

lemma adds_trans: "adds b p q us ss \<Longrightarrow> adds b q r vs ts \<Longrightarrow> adds b p r (us @ vs) (ss @ ts)"
  by (simp add: adds_def Un_assoc)

lemma adds_doc: "doc_write b s p = (None, snd (doc_write b s p))"
    "adds b p (snd (doc_write b s p)) [] [s]"
proof -
  have "ids (snd (doc_write b s p)) = ids p \<union> set (created b s)"
    unfolding ids_def doc_write_effects(6) by (simp only: set_append)
  then show "adds b p (snd (doc_write b s p)) [] [s]"
    by (simp add: adds_def effects)
  show "doc_write b s p = (None, snd (doc_write b s p))"
    by (metis doc_write_effects(1) prod.collapse)
qed

lemma andthen_write: "andthen (doc_write b s) c p = c (snd (doc_write b s p))"
  using adds_doc(1) [of b s p] by (metis andthen_ok)

lemma writes_onlyD:
  assumes "writes_only b c"
  obtains p' ss where "c p = (None, p')" "adds b p p' [] ss"
  using assms unfolding writes_only_def by (metis prod.collapse)

lemma writes_onlyI: "(\<And>p. \<exists>p' ss. c p = (None, p') \<and> adds b p p' [] ss) \<Longrightarrow> writes_only b c"
  unfolding writes_only_def by (metis fst_conv snd_conv)

lemma writes_skip [writers]: "writes_only b skip"
  by (rule writes_onlyI) (auto intro: adds_refl)

lemma writes_doc [writers]: "writes_only b (doc_write b s)"
  by (rule writes_onlyI) (metis adds_doc)

lemma writes_remove_later [writers]: "writes_only b (remove_later i)"
  by (rule writes_onlyI) (simp add: adds_def ids_def remove_later_def)

lemma writes_track [writers]: "writes_only b (track h cb)"
  by (rule writes_onlyI) (simp add: adds_def ids_def track_def)

lemma writes_andthen [writers]:
  assumes "writes_only b c" "writes_only b d"
  shows "writes_only b (andthen c d)"
proof (rule writes_onlyI)
  fix p
  obtain q ss where q: "c p = (None, q)" "adds b p q [] ss"
    using writes_onlyD [OF assms(1)] by blast
  obtain r ts where r: "d q = (None, r)" "adds b q r [] ts"
    using writes_onlyD [OF assms(2)] by blast
  have "andthen c d p = (None, r)" using q(1) r(1) by simp
  then show "\<exists>p' ss. andthen c d p = (None, p') \<and> adds b p p' [] ss"
    using adds_trans [OF q(2) r(2)] by auto
qed

lemma writes_block [writers]: "\<forall>c \<in> set cs. writes_only b c \<Longrightarrow> writes_only b (block cs)"
  by (induction cs) (auto intro: writes_andthen writes_skip)

lemma writes_now [writers]:
  assumes "\<And>ts. writes_only b (k ts)"
  shows "writes_only b (with_now b k)"
proof (rule writes_onlyI)
  fix p :: page
  let ?q = "p\<lparr>ticks := Suc (ticks p)\<rparr>"
  have q: "adds b p ?q [] []" by (simp add: adds_def ids_def)
  obtain r ts where "k (clk b (ticks p)) ?q = (None, r)" "adds b ?q r [] ts"
    using writes_onlyD [OF assms] by blast
  then show "\<exists>p' ss. with_now b k p = (None, p') \<and> adds b p p' [] ss"
    using adds_trans [OF q] by (auto simp: with_now_def)
qed

lemma writes_track_if [writers]:
  "(\<And>h. writes_only b (tr h cb)) \<Longrightarrow> writes_only b (track_if_present tr i cb)"
  by (simp add: writes_only_def track_if_present_def skip_def split: option.splits)
    (metis adds_refl)

lemma writes_close_buttons [writers]: "writes_only b (close_buttons b ct ad)"
  by (simp add: close_buttons_def writers)

text \<open>What must appear among the chunks a command writes.\<close>

definition writes_some :: "browser \<Rightarrow> (ustr \<Rightarrow> bool) \<Rightarrow> page cmd \<Rightarrow> bool" where
  "writes_some b P c \<longleftrightarrow>
     (\<forall>p. \<exists>p' ss. c p = (None, p') \<and> adds b p p' [] ss \<and> (\<exists>s \<in> set ss. P s))"

lemma writes_some_block:
  assumes "P s" "\<forall>c \<in> set cs. writes_only b c" "\<forall>c \<in> set ds. writes_only b c"
  shows "writes_some b P (block (cs @ doc_write b s # ds))"
  unfolding writes_some_def
proof (intro allI)
  fix p
  obtain q ss where q: "block cs p = (None, q)" "adds b p q [] ss"
    using writes_onlyD [OF writes_block [OF assms(2)]] by blast
  let ?q' = "snd (doc_write b s q)"
  obtain r ts where r: "block ds ?q' = (None, r)" "adds b ?q' r [] ts"
    using writes_onlyD [OF writes_block [OF assms(3)]] by blast
  have "block (cs @ doc_write b s # ds) p = (None, r)"
    using q(1) adds_doc(1) [of b s q] r(1) by (auto simp: block_append andthen_def split: prod.splits)
  moreover have "adds b p r [] (ss @ s # ts)"
    using adds_trans [OF adds_trans [OF q(2) adds_doc(2)] r(2)] by simp
  ultimately show "\<exists>p' ss. block (cs @ doc_write b s # ds) p = (None, p') \<and> adds b p p' [] ss \<and>
      (\<exists>s \<in> set ss. P s)"
    using assms(1) by (metis in_set_conv_decomp)
qed

subsection \<open>Commands that write an ad between other markup\<close>

text \<open>
  What a command writes, exactly (\<open>writes_list\<close>), or only up to which kind of markup (\<open>writes_among\<close>), and commands that
  write the chunks of an ad with other markup, of the kind \<open>F\<close>, before and after, among it the chunks \<open>hs\<close> before.
\<close>

definition writes_list :: "browser \<Rightarrow> ustr list \<Rightarrow> page cmd \<Rightarrow> bool" where
  "writes_list b ss c \<longleftrightarrow> (\<forall>p. \<exists>p'. c p = (None, p') \<and> adds b p p' [] ss)"

definition writes_among :: "browser \<Rightarrow> (ustr \<Rightarrow> bool) \<Rightarrow> page cmd \<Rightarrow> bool" where
  "writes_among b F c \<longleftrightarrow> (\<forall>p. \<exists>p' ss. c p = (None, p') \<and> adds b p p' [] ss \<and> (\<forall>s \<in> set ss. F s))"

definition writes_parts :: "browser \<Rightarrow> (ustr \<Rightarrow> bool) \<Rightarrow> ustr list \<Rightarrow> ustr list \<Rightarrow> page cmd \<Rightarrow> bool" where
  "writes_parts b F hs ad c \<longleftrightarrow> (\<forall>p. \<exists>p' pre post. c p = (None, p') \<and> adds b p p' [] (pre @ ad @ post) \<and>
     set hs \<subseteq> set pre \<and> (\<forall>s \<in> set (pre @ post). F s))"

named_theorems listed \<open>commands of which the chunks are known\<close>

lemma list_doc [listed]: "writes_list b [s] (doc_write b s)"
  unfolding writes_list_def by (metis adds_doc)

lemma list_skip [listed]: "writes_list b [] skip"
  unfolding writes_list_def by (auto intro: adds_refl)

lemma list_remove_later [listed]: "writes_list b [] (remove_later i)"
  by (simp add: writes_list_def adds_def ids_def remove_later_def)

lemma list_track [listed]: "writes_list b [] (track_if_present track i cb)"
  by (simp add: writes_list_def track_if_present_def track_def adds_def ids_def split: option.splits)

lemma list_andthen:
  assumes "writes_list b ss c" "writes_list b ts d"
  shows "writes_list b (ss @ ts) (andthen c d)"
  unfolding writes_list_def
proof
  fix p
  obtain q where q: "c p = (None, q)" "adds b p q [] ss" using assms(1) unfolding writes_list_def by blast
  obtain r where r: "d q = (None, r)" "adds b q r [] ts" using assms(2) unfolding writes_list_def by blast
  show "\<exists>p'. andthen c d p = (None, p') \<and> adds b p p' [] (ss @ ts)"
    using q(1) r(1) adds_trans [OF q(2) r(2)] by simp
qed

lemma list_block_Nil [listed]: "writes_list b [] (block [])"
  by (simp add: list_skip)

lemma list_block: "writes_list b ss c \<Longrightarrow> writes_list b ts (block cs) \<Longrightarrow> writes_list b (ss @ ts) (block (c # cs))"
  by (simp add: list_andthen)

lemma among_list: "writes_list b ss c \<Longrightarrow> \<forall>s \<in> set ss. F s \<Longrightarrow> writes_among b F c"
  unfolding writes_list_def writes_among_def by meson

lemma among_andthen:
  assumes "writes_among b F c" "writes_among b F d"
  shows "writes_among b F (andthen c d)"
  unfolding writes_among_def
proof
  fix p
  obtain q ss where q: "c p = (None, q)" "adds b p q [] ss" "\<forall>s \<in> set ss. F s"
    using assms(1) unfolding writes_among_def by meson
  obtain r ts where r: "d q = (None, r)" "adds b q r [] ts" "\<forall>s \<in> set ts. F s"
    using assms(2) unfolding writes_among_def by meson
  show "\<exists>p' ss. andthen c d p = (None, p') \<and> adds b p p' [] ss \<and> (\<forall>s \<in> set ss. F s)"
    using q r adds_trans [OF q(2) r(2)] by (intro exI [of _ r] exI [of _ "ss @ ts"]) auto
qed

lemma among_doc: "F s \<Longrightarrow> writes_among b F (doc_write b s)"
  by (rule among_list [OF list_doc]) simp

lemma among_skip: "writes_among b F skip"
  by (rule among_list [OF list_skip]) simp

lemma among_block: "\<forall>c \<in> set cs. writes_among b F c \<Longrightarrow> writes_among b F (block cs)"
  by (induction cs) (auto intro: among_andthen among_skip)

lemma among_now:
  assumes "\<And>ts. writes_among b F (k ts)"
  shows "writes_among b F (with_now b k)"
  unfolding writes_among_def
proof
  fix p :: page
  let ?q = "p\<lparr>ticks := Suc (ticks p)\<rparr>"
  have q: "adds b p ?q [] []" by (simp add: adds_def ids_def)
  obtain r ts where "k (clk b (ticks p)) ?q = (None, r)" "adds b ?q r [] ts" "\<forall>s \<in> set ts. F s"
    using assms [unfolded writes_among_def] by meson
  then show "\<exists>p' ss. with_now b k p = (None, p') \<and> adds b p p' [] ss \<and> (\<forall>s \<in> set ss. F s)"
    using adds_trans [OF q] by (intro exI [of _ r] exI [of _ ts]) (auto simp: with_now_def)
qed

lemma parts_list: "writes_list b ad c \<Longrightarrow> writes_parts b F [] ad c"
  unfolding writes_list_def writes_parts_def by (metis append_Nil append_Nil2 empty_iff list.set(1) subset_refl)

text \<open>A container that is opened, what stands before the ad in it, the ad, and what closes the container.\<close>

lemma parts_inside:
  assumes "F s" "writes_among b F c" "writes_list b ad d" "writes_among b F e"
  shows "writes_parts b F [s] ad (andthen (doc_write b s) (andthen c (andthen d e)))"
  unfolding writes_parts_def
proof
  fix p
  let ?p = "snd (doc_write b s p)"
  obtain q xs where q: "c ?p = (None, q)" "adds b ?p q [] xs" "\<forall>s \<in> set xs. F s"
    using assms(2) unfolding writes_among_def by meson
  obtain r where r: "d q = (None, r)" "adds b q r [] ad" using assms(3) unfolding writes_list_def by blast
  obtain t ys where t: "e r = (None, t)" "adds b r t [] ys" "\<forall>s \<in> set ys. F s"
    using assms(4) unfolding writes_among_def by meson
  have "adds b p t [] ((s # xs) @ ad @ ys)"
    using adds_trans [OF adds_trans [OF adds_trans [OF adds_doc(2) q(2)] r(2)] t(2)] by simp
  moreover have "andthen (doc_write b s) (andthen c (andthen d e)) p = (None, t)"
    using q(1) r(1) t(1) by (simp add: andthen_write)
  ultimately show "\<exists>p' pre post. andthen (doc_write b s) (andthen c (andthen d e)) p = (None, p') \<and>
      adds b p p' [] (pre @ ad @ post) \<and> set [s] \<subseteq> set pre \<and> (\<forall>s \<in> set (pre @ post). F s)"
    using assms(1) q(3) t(3) by (intro exI [of _ t] exI [of _ "s # xs"] exI [of _ ys]) auto
qed

lemma among_close_buttons:
  assumes "F close_img" "F close_box" "F close_button" "F dead_button" "F (dead_form ad)" "F end_div"
  shows "writes_among b F (close_buttons b ct ad)"
  unfolding close_buttons_def using assms
  by (auto intro!: among_doc among_skip among_block among_now simp del: block.simps)

end
