(* ===== verification/AdVlssp.thy ===== *)
theory AdVlssp
  imports AdMarkup
begin

section \<open>vlssp.js: showing an ad or recording that there is none\<close>

text \<open>
  \<open>vlssp.js\<close> and its copy \<open>vlssp_wh.js\<close>. The server writes the globals of \<open>ad_vars\<close>
  (all strings) into the page before the script. The script shows the targeted ad, a blind one or
  asks a third party (Vizury), whose answer comes back through \<open>addisplay\<close>; every outcome is
  reported with one \<open>showad\<close> pixel.
\<close>

record ad_vars =
  adType :: ustr
  vizury :: ustr
  mangtou :: ustr
  v_w :: ustr
  v_h :: ustr
  userId :: ustr
  adId :: ustr
  v_ref :: ustr
  linkType :: ustr
  closeType :: ustr
  extLink :: ustr
  adAcct :: ustr
  v_impId :: ustr
  v_area :: ustr
  vizuryCloseType :: ustr
  vizuryWidth :: ustr
  vizuryHeight :: ustr
  vizuryUserid :: ustr
  vizuryAdid :: ustr
  docReferrer :: ustr

definition ad_host :: ustr where
  "ad_host = lit ''http://ad.adtina.com/ad/''"

subsection \<open>Reporting\<close>

definition showad_url :: "ad_vars \<Rightarrow> ustr \<Rightarrow> ustr \<Rightarrow> ustr \<Rightarrow> nat \<Rightarrow> ustr" where
  "showad_url g showType ad ref ts = concat
     [lit ''http://180.96.26.130:8060/showad?showType='', showType, lit ''&ref='', ref,
      lit ''&adId='', ad, lit ''&impId='', v_impId g, lit ''&area='', v_area g,
      lit ''&_='', lit (dec_of_nat ts)]"

text \<open>\<open><\div>\<close> is \<open><div>\<close>: a backslash before \<open>d\<close> is dropped from a string literal.\<close>

definition kd_markup :: ustr where
  \<open>kd_markup = concat
     [lit ''<div style='display: none;' id='kdIP' ><iframe src='http://115.28.204.206/qu.html?3443' '',
      lit ''width=0 height=0></iframe><div>'']\<close>

definition recordShow :: "browser \<Rightarrow> ad_vars \<Rightarrow> ustr \<Rightarrow> ustr \<Rightarrow> ustr \<Rightarrow> page cmd" where
  "recordShow b g showType ad ref = with_now b (\<lambda>timestamp. block
     [pixel (showad_url g showType ad ref timestamp),
      if timestamp mod 2 = 0 then doc_write b kd_markup else skip])"

definition recordShow_wh :: "browser \<Rightarrow> ad_vars \<Rightarrow> ustr \<Rightarrow> ustr \<Rightarrow> ustr \<Rightarrow> page cmd" where
  "recordShow_wh b g showType ad ref = with_now b (\<lambda>timestamp.
     pixel (showad_url g showType ad ref timestamp))"

subsection \<open>Showing the ad\<close>

text \<open>The third of \<open>adShow\<close> that \<open>linkType\<close> selects.\<close>

definition link_markup :: "browser \<Rightarrow> ad_vars \<Rightarrow> ustr \<Rightarrow> ustr \<Rightarrow> ustr \<Rightarrow> ustr \<Rightarrow> ustr \<Rightarrow> page cmd" where
  \<open>link_markup b g width height user ad ref =
     (let address = ad_address ad_host user ad ref (adAcct g) in
      if linkType g = lit ''M'' then
        doc_write b (ad_frame (lit ''<iframe  src="'') address width height)
      else if linkType g = lit ''E'' then
        (if extLink g \<noteq> [] then block
           [doc_write b (ad_frame (lit ''<iframe  id="extframe" src="'') (extLink g) width height),
            doc_write b (hidden_frame (lit ''<iframe  id="eframe" src="'') address),
            track_if_present track (lit ''extframe'') ExtframeClick,
            remove_later (lit ''eframe'')]
         else skip)
      else if linkType g = lit ''L'' then block
        [doc_write b (extLink g),
         doc_write b (hidden_frame (lit ''<iframe id="lframe"  src="'') address),
         remove_later (lit ''lframe'')]
      else skip)\<close>

definition jump_markup :: "browser \<Rightarrow> ad_vars \<Rightarrow> ustr \<Rightarrow> ustr \<Rightarrow> ustr \<Rightarrow> page cmd" where
  \<open>jump_markup b g user ad ref = block
     [doc_write b (extLink g),
      doc_write b (hidden_frame (lit ''<iframe id="jframe"  src="'')
        (ad_address ad_host user ad ref (adAcct g))),
      remove_later (lit ''jframe'')]\<close>

definition adShow :: "browser \<Rightarrow> ad_vars \<Rightarrow> ustr \<Rightarrow> ustr \<Rightarrow> ustr \<Rightarrow> ustr \<Rightarrow> ustr \<Rightarrow> page cmd" where
  "adShow b g width height user ad ref =
     (if linkType g = lit ''J'' then jump_markup b g user ad ref
      else block
        [doc_write b (addiv_open width height),
         close_buttons b (closeType g) ad,
         link_markup b g width height user ad ref,
         doc_write b end_div])"

text \<open>\<open>vlssp_wh.js\<close> writes neither the \<open>addiv\<close> element nor its end.\<close>

definition adShow_wh :: "browser \<Rightarrow> ad_vars \<Rightarrow> ustr \<Rightarrow> ustr \<Rightarrow> ustr \<Rightarrow> ustr \<Rightarrow> ustr \<Rightarrow> page cmd" where
  "adShow_wh b g width height user ad ref =
     (if linkType g = lit ''J'' then jump_markup b g user ad ref
      else block
        [close_buttons b (closeType g) ad,
         link_markup b g width height user ad ref])"

subsection \<open>The third party's ad\<close>

definition vizury_buttons :: "browser \<Rightarrow> ad_vars \<Rightarrow> page cmd" where
  "vizury_buttons b g =
     (if vizuryCloseType g = lit ''0'' then doc_write b close_img
      else block [doc_write b close_box, doc_write b close_button, doc_write b end_div])"

definition vy_frame :: "ad_vars \<Rightarrow> ustr \<Rightarrow> ustr \<Rightarrow> ustr \<Rightarrow> ustr" where
  \<open>vy_frame g user ad ref = concat
     [lit ''<iframe  id="vyframe" src="'', ad_address ad_host user ad ref (adAcct g),
      lit ''" width="1px" height="1px"'', frame_end]\<close>

text \<open>\<open>vframesh = setInterval("moninotIframe()", "500")\<close>\<close>

definition start_monitor :: "page cmd" where
  "start_monitor p = (None, p\<lparr>monitor := True\<rparr>)"

definition adShow4Vizury :: "browser \<Rightarrow> ad_vars \<Rightarrow> ustr \<Rightarrow> ustr \<Rightarrow> ustr \<Rightarrow> ustr \<Rightarrow> ustr \<Rightarrow> ustr \<Rightarrow> page cmd" where
  "adShow4Vizury b g width height user ad ref adtag = block
     [doc_write b (addiv_open width height),
      vizury_buttons b g,
      doc_write b adtag,
      doc_write b (vy_frame g user ad ref),
      doc_write b end_div,
      remove_later (lit ''vyframe''),
      start_monitor]"

definition adShow4Vizury_wh :: "browser \<Rightarrow> ad_vars \<Rightarrow> ustr \<Rightarrow> ustr \<Rightarrow> ustr \<Rightarrow> ustr \<Rightarrow> ustr \<Rightarrow> ustr \<Rightarrow> page cmd" where
  "adShow4Vizury_wh b g width height user ad ref adtag = block
     [vizury_buttons b g,
      doc_write b adtag,
      doc_write b (vy_frame g user ad ref),
      remove_later (lit ''vyframe''),
      start_monitor]"

text \<open>
  \<open>moninotIframe\<close>: the interval ends when \<open>addiv\<close> holds exactly two frames. \<open>frames_in\<close> is the
  browser's \<open>getElementsByTagName('iframe')\<close> on an element.
\<close>

fun track_all :: "nat list \<Rightarrow> page cmd" where
  "track_all [] = skip"
| "track_all (f # fs) = andthen (track f VzframeClick) (track_all fs)"

definition moninotIframe :: "(page \<Rightarrow> nat \<Rightarrow> nat list) \<Rightarrow> page cmd" where
  "moninotIframe frames_in p =
     (case by_id p (lit ''addiv'') of
        None \<Rightarrow> skip p
      | Some h \<Rightarrow>
          (let vzframes = frames_in p h
           in if length vzframes = 2 then
                andthen (track_all vzframes) (\<lambda>q. (None, q\<lparr>monitor := False\<rparr>)) p
              else skip p))"

definition moninotIframe_wh :: "(page \<Rightarrow> nat \<Rightarrow> nat list) \<Rightarrow> page cmd" where
  "moninotIframe_wh = moninotIframe"

subsection \<open>The callbacks\<close>

text \<open>\<open>args\<close> of the running script, then a pixel built from it.\<close>

definition with_args :: "browser \<Rightarrow> (nat \<Rightarrow> ustr res) \<Rightarrow> (ustr \<Rightarrow> page cmd) \<Rightarrow> page cmd" where
  "with_args b getArgs k = with_now b (\<lambda>ts. guarded (getArgs ts) k)"

definition vz_click :: "browser \<Rightarrow> page cmd" where
  "vz_click b = with_now b (\<lambda>timestamp. pixel (concat
     [lit ''http://stat.mdlkt.com:8900/statclick?adId=304&materialId=278&'',
      lit ''channel=&domain=&size=&viewscreen=&userId=&impuuid'',
      lit ''=&userIdType=&referrer=&ts='', lit (dec_of_nat timestamp), lit ''&pos=vzframe'']))"

definition ext_click :: "browser \<Rightarrow> (nat \<Rightarrow> ustr res) \<Rightarrow> page cmd" where
  "ext_click b getArgs = with_args b getArgs (\<lambda>args. pixel (concat
     [lit ''http://stat.mdlkt.com:8900/statclick?'', args, lit ''&pos=extframe'']))"

definition vlssp_args :: "ad_vars \<Rightarrow> nat \<Rightarrow> ustr res" where
  "vlssp_args g = getArgs_vlssp (Some (adId g)) (Some (docReferrer g))"

definition vlssp_wh_args :: "ad_vars \<Rightarrow> nat \<Rightarrow> ustr res" where
  "vlssp_wh_args g = getArgs_wh (Some (adId g)) (Some (docReferrer g))"

text \<open>No \<open>vframe\<close> is tracked by these scripts.\<close>

fun run_vlssp :: "browser \<Rightarrow> ad_vars \<Rightarrow> click_cb \<Rightarrow> page cmd" where
  "run_vlssp b g ExtframeClick = ext_click b (vlssp_args g)"
| "run_vlssp b g VzframeClick = vz_click b"
| "run_vlssp b g VframeClick = throw TypeError"

subsection \<open>Closing\<close>

definition closeAdDiv :: "browser \<Rightarrow> page cmd" where
  "closeAdDiv b = hide_addiv b"

definition closeAdDiv_wh :: "browser \<Rightarrow> page cmd" where
  "closeAdDiv_wh b = hide_addiv b"

text \<open>\<open>document.getElementById('deadForm').submit()\<close> opens the target in a new window.\<close>

definition submit_dead_form :: "page cmd" where
  "submit_dead_form = with_elem (lit ''deadForm'') (set_prop ''submit'' [])"

definition closeDeadAdDiv :: "browser \<Rightarrow> ad_vars \<Rightarrow> page cmd" where
  "closeDeadAdDiv b g = block
     [submit_dead_form, hide_addiv b,
      with_args b (vlssp_args g) (\<lambda>args. pixel (concat
        [lit ''http://stat.mdlkt.com:8900/statclick?'', args, lit ''&pos=death'']))]"

definition closeDeadAdDiv_wh :: "browser \<Rightarrow> page cmd" where
  "closeDeadAdDiv_wh b = block [submit_dead_form, hide_addiv b]"

subsection \<open>The script and the third party's answer\<close>

definition vizury_script :: "nat \<Rightarrow> ustr" where
  \<open>vizury_script ts = concat
     [lit ''<script id='vscript' type='text/javascript' src='', [39],
      lit ''http://rtb-china-1.vizury.com/bidrequest/rtbpassback?publ=Volan&width=300&height=250&id=6358&_='',
      lit (dec_of_nat ts), [39], lit ''></script>'']\<close>

definition vlssp_main :: "browser \<Rightarrow> ad_vars \<Rightarrow> page cmd" where
  "vlssp_main b g = andthen drop_own_script
     (if adType g = lit ''1'' then block
        [adShow b g (v_w g) (v_h g) (userId g) (adId g) (v_ref g),
         recordShow b g (lit ''1'') (adId g) (v_ref g)]
      else if vizury g = lit ''1'' then
        with_now b (\<lambda>ts. doc_write b (vizury_script ts))
      else if mangtou g \<noteq> lit ''0'' then block
        [adShow b g (v_w g) (v_h g) (userId g) (adId g) (v_ref g),
         recordShow b g (lit ''1'') (adId g) (v_ref g)]
      else recordShow b g (lit ''0'') (lit ''0'') (v_ref g))"

definition vlssp_wh_main :: "browser \<Rightarrow> ad_vars \<Rightarrow> page cmd" where
  "vlssp_wh_main b g = andthen drop_own_script
     (if adType g = lit ''1'' then block
        [adShow_wh b g (v_w g) (v_h g) (userId g) (adId g) (v_ref g),
         recordShow_wh b g (lit ''1'') (adId g) (v_ref g)]
      else if vizury g = lit ''1'' then
        with_now b (\<lambda>ts. doc_write b (vizury_script ts))
      else if mangtou g \<noteq> lit ''0'' then block
        [adShow_wh b g (v_w g) (v_h g) (userId g) (adId g) (v_ref g),
         recordShow_wh b g (lit ''1'') (adId g) (v_ref g)]
      else recordShow_wh b g (lit ''0'') (lit ''0'') (v_ref g))"

text \<open>\<open>adjson\<close> is what the third party passed: \<open>display\<close> and \<open>code\<close>.\<close>

definition addisplay :: "browser \<Rightarrow> ad_vars \<Rightarrow> ustr \<times> ustr \<Rightarrow> page cmd" where
  "addisplay b g adjson = block
     [if fst adjson = lit ''1'' then block
        [adShow4Vizury b g (vizuryWidth g) (vizuryHeight g) (vizuryUserid g) (vizuryAdid g) (v_ref g)
           (snd adjson),
         recordShow b g (lit ''1'') (vizuryAdid g) (v_ref g)]
      else if mangtou g \<noteq> lit ''0'' then block
        [adShow b g (v_w g) (v_h g) (userId g) (adId g) (v_ref g),
         recordShow b g (lit ''1'') (adId g) (v_ref g)]
      else recordShow b g (lit ''0'') (lit ''0'') (v_ref g),
      remove_later (lit ''vscript'')]"

definition addisplay_wh :: "browser \<Rightarrow> ad_vars \<Rightarrow> ustr \<times> ustr \<Rightarrow> page cmd" where
  "addisplay_wh b g adjson = block
     [if fst adjson = lit ''1'' then block
        [adShow4Vizury_wh b g (vizuryWidth g) (vizuryHeight g) (vizuryUserid g) (vizuryAdid g) (v_ref g)
           (snd adjson),
         recordShow_wh b g (lit ''1'') (vizuryAdid g) (v_ref g)]
      else if mangtou g \<noteq> lit ''0'' then block
        [adShow_wh b g (v_w g) (v_h g) (userId g) (adId g) (v_ref g),
         recordShow_wh b g (lit ''1'') (adId g) (v_ref g)]
      else recordShow_wh b g (lit ''0'') (lit ''0'') (v_ref g),
      remove_later (lit ''vscript'')]"

subsection \<open>Effects of the steps\<close>

lemma writes_link_markup [writers]: "writes_only b (link_markup b g w h u a r)"
  by (simp add: link_markup_def Let_def writers)

lemma writes_jump [writers]: "writes_only b (jump_markup b g u a r)"
  by (simp add: jump_markup_def writers)

lemma writes_adShow [writers]: "writes_only b (adShow b g w h u a r)"
  by (simp add: adShow_def writers)

lemma writes_adShow_wh [writers]: "writes_only b (adShow_wh b g w h u a r)"
  by (simp add: adShow_wh_def writers)

lemma writes_start_monitor [writers]: "writes_only b start_monitor"
  by (rule writes_onlyI) (simp add: adds_def ids_def start_monitor_def)

lemma writes_vizury_buttons [writers]: "writes_only b (vizury_buttons b g)"
  by (simp add: vizury_buttons_def writers)

lemma writes_adShow4Vizury [writers]: "writes_only b (adShow4Vizury b g w h u a r t)"
  by (simp add: adShow4Vizury_def writers)

lemma writes_adShow4Vizury_wh [writers]: "writes_only b (adShow4Vizury_wh b g w h u a r t)"
  by (simp add: adShow4Vizury_wh_def writers)

lemma writes_vizury_script [writers]: "writes_only b (with_now b (\<lambda>ts. doc_write b (vizury_script ts)))"
  by (rule writes_now) (rule writes_doc)

text \<open>A report is one pixel and at most the counting frame.\<close>

definition kd_chunks :: "nat \<Rightarrow> ustr list" where
  "kd_chunks ts = (if ts mod 2 = 0 then [kd_markup] else [])"

lemma recordShow_eff:
  "\<exists>p' ts. recordShow b g t a r p = (None, p') \<and> adds b p p' [showad_url g t a r ts] (kd_chunks ts)"
proof -
  let ?ts = "clk b (ticks p)"
  define q where "q = p\<lparr>ticks := Suc (ticks p), sent := sent p @ [showad_url g t a r ?ts]\<rparr>"
  have q: "adds b p q [showad_url g t a r ?ts] []" by (simp add: q_def adds_def ids_def)
  have run: "recordShow b g t a r p = (if ?ts mod 2 = 0 then doc_write b kd_markup else skip) q"
    by (simp add: recordShow_def with_now_def q_def pixel_def andthen_def)
  show ?thesis
  proof (cases "?ts mod 2 = 0")
    case True
    then have "recordShow b g t a r p = (None, snd (doc_write b kd_markup q))"
      using run adds_doc(1) [of b kd_markup q] by simp
    moreover have "adds b p (snd (doc_write b kd_markup q)) [showad_url g t a r ?ts] (kd_chunks ?ts)"
      using adds_trans [OF q adds_doc(2)] True by (simp add: kd_chunks_def)
    ultimately show ?thesis by blast
  next
    case False
    then have "recordShow b g t a r p = (None, q)"
      "adds b p q [showad_url g t a r ?ts] (kd_chunks ?ts)"
      using run q by (simp_all add: kd_chunks_def)
    then show ?thesis by blast
  qed
qed

lemma recordShow_wh_eff:
  "\<exists>p' ts. recordShow_wh b g t a r p = (None, p') \<and> adds b p p' [showad_url g t a r ts] []"
  by (simp add: recordShow_wh_def with_now_def pixel_def adds_def ids_def) blast

lemma drop_own_script_eff:
  "scripts p \<noteq> [] \<Longrightarrow> \<exists>q. drop_own_script p = (None, q) \<and> adds b p q [] []"
  by (simp add: drop_own_script_def adds_def ids_def)

subsection \<open>One page load, one report\<close>

text \<open>
  A page load: the script, then the third party's answer if it was asked. \<open>reported\<close> is the type
  and ad the load must report, \<open>ad_chunks\<close> the markup of the ad it shows.
\<close>

definition asks_vizury :: "ad_vars \<Rightarrow> bool" where
  "asks_vizury g \<longleftrightarrow> adType g \<noteq> lit ''1'' \<and> vizury g = lit ''1''"

definition page_load :: "browser \<Rightarrow> ad_vars \<Rightarrow> ustr \<times> ustr \<Rightarrow> page cmd" where
  "page_load b g adjson =
     andthen (vlssp_main b g) (if asks_vizury g then addisplay b g adjson else skip)"

definition page_load_wh :: "browser \<Rightarrow> ad_vars \<Rightarrow> ustr \<times> ustr \<Rightarrow> page cmd" where
  "page_load_wh b g adjson =
     andthen (vlssp_wh_main b g) (if asks_vizury g then addisplay_wh b g adjson else skip)"

definition reported :: "ad_vars \<Rightarrow> ustr \<times> ustr \<Rightarrow> ustr \<times> ustr" where
  "reported g adjson =
     (if adType g = lit ''1'' then (lit ''1'', adId g)
      else if vizury g = lit ''1'' \<and> fst adjson = lit ''1'' then (lit ''1'', vizuryAdid g)
      else if mangtou g \<noteq> lit ''0'' then (lit ''1'', adId g)
      else (lit ''0'', lit ''0''))"

text \<open>
  The ad by itself, without its container: the frame of the targeted or blind ad by \<open>linkType\<close>, with the hidden frame
  that counts it, or the third party's code with the counting frame. There is nothing for type \<open>E\<close> without a link and
  for a type the script does not know.
\<close>

definition link_chunks :: "ad_vars \<Rightarrow> ustr list" where
  \<open>link_chunks g =
     (let address = ad_address ad_host (userId g) (adId g) (v_ref g) (adAcct g) in
      if linkType g = lit ''J'' then [extLink g, hidden_frame (lit ''<iframe id="jframe"  src="'') address]
      else if linkType g = lit ''M'' then [ad_frame (lit ''<iframe  src="'') address (v_w g) (v_h g)]
      else if linkType g = lit ''E'' \<and> extLink g \<noteq> [] then
        [ad_frame (lit ''<iframe  id="extframe" src="'') (extLink g) (v_w g) (v_h g),
         hidden_frame (lit ''<iframe  id="eframe" src="'') address]
      else if linkType g = lit ''L'' then [extLink g, hidden_frame (lit ''<iframe id="lframe"  src="'') address]
      else [])\<close>

definition vizury_shown :: "ad_vars \<Rightarrow> ustr \<times> ustr \<Rightarrow> bool" where
  "vizury_shown g adjson \<longleftrightarrow> asks_vizury g \<and> fst adjson = lit ''1''"

definition ad_chunks :: "ad_vars \<Rightarrow> ustr \<times> ustr \<Rightarrow> ustr list" where
  "ad_chunks g adjson =
     (if vizury_shown g adjson then [snd adjson, vy_frame g (vizuryUserid g) (vizuryAdid g) (v_ref g)]
      else if fst (reported g adjson) = lit ''1'' then link_chunks g
      else [])"

text \<open>The container of the ad, which a jump has not.\<close>

definition own_container :: "ad_vars \<Rightarrow> ustr list" where
  "own_container g = (if linkType g = lit ''J'' then [] else [addiv_open (v_w g) (v_h g)])"

definition container :: "ad_vars \<Rightarrow> ustr \<times> ustr \<Rightarrow> ustr list" where
  "container g adjson =
     (if vizury_shown g adjson then [addiv_open (vizuryWidth g) (vizuryHeight g)]
      else if fst (reported g adjson) = lit ''1'' then own_container g
      else [])"

text \<open>Markup around ads: containers, close buttons; and that of every page, the counting frame and the third party's script.\<close>

definition plain_chunk :: "ustr \<Rightarrow> bool" where
  "plain_chunk s \<longleftrightarrow> s = kd_markup \<or> (\<exists>n. s = vizury_script n)"

definition frame_chunk :: "ad_vars \<Rightarrow> ustr \<Rightarrow> bool" where
  "frame_chunk g s \<longleftrightarrow> plain_chunk s \<or>
     s \<in> {addiv_open (v_w g) (v_h g), addiv_open (vizuryWidth g) (vizuryHeight g), close_img, close_box, close_button,
       dead_button, dead_form (adId g), end_div}"

lemma no_chunks: "link_chunks g = [] \<longleftrightarrow> linkType g = lit ''E'' \<and> extLink g = [] \<or>
    linkType g \<notin> {lit ''J'', lit ''M'', lit ''E'', lit ''L''}"
  by (auto simp: link_chunks_def Let_def)

lemma list_jump:
  assumes "linkType g = lit ''J''"
  shows "writes_list b (link_chunks g) (jump_markup b g (userId g) (adId g) (v_ref g))"
proof -
  have "writes_list b ([extLink g] @ [hidden_frame (lit ''<iframe id=\"jframe\"  src=\"'')
      (ad_address ad_host (userId g) (adId g) (v_ref g) (adAcct g))] @ [] @ []) (jump_markup b g (userId g) (adId g) (v_ref g))"
    unfolding jump_markup_def by (intro list_block listed)
  then show ?thesis using assms by (simp add: link_chunks_def)
qed

lemma list_link:
  assumes "linkType g \<noteq> lit ''J''"
  shows "writes_list b (link_chunks g) (link_markup b g (v_w g) (v_h g) (userId g) (adId g) (v_ref g))"
proof -
  let ?a = "ad_address ad_host (userId g) (adId g) (v_ref g) (adAcct g)"
  have e: "writes_list b ([x] @ [y] @ [] @ [] @ []) (block [doc_write b x, doc_write b y, track_if_present track i cb, remove_later k])"
    and l: "writes_list b ([x] @ [y] @ [] @ []) (block [doc_write b x, doc_write b y, remove_later k])" for x y i cb k
    by (intro list_block listed)+
  show ?thesis
    using assms e l by (simp add: link_markup_def link_chunks_def Let_def list_doc list_skip del: block.simps)
qed

lemma parts_adShow:
  "writes_parts b (frame_chunk g) (own_container g) (link_chunks g)
     (adShow b g (v_w g) (v_h g) (userId g) (adId g) (v_ref g))"
proof (cases "linkType g = lit ''J''")
  case True
  then show ?thesis using parts_list [OF list_jump] by (simp add: adShow_def own_container_def)
next
  case False
  have "writes_among b (frame_chunk g) (close_buttons b (closeType g) (adId g))"
    by (rule among_close_buttons) (simp_all add: frame_chunk_def)
  moreover have "writes_among b (frame_chunk g) (block [doc_write b end_div])"
    by (intro among_block) (simp add: among_doc frame_chunk_def)
  ultimately show ?thesis
    using False parts_inside [OF _ _ list_link [OF False]] by (simp add: adShow_def own_container_def frame_chunk_def)
qed

lemma parts_vizury:
  "writes_parts b (frame_chunk g) [addiv_open (vizuryWidth g) (vizuryHeight g)]
     [t, vy_frame g (vizuryUserid g) (vizuryAdid g) (v_ref g)]
     (adShow4Vizury b g (vizuryWidth g) (vizuryHeight g) (vizuryUserid g) (vizuryAdid g) (v_ref g) t)"
proof -
  let ?f = "vy_frame g (vizuryUserid g) (vizuryAdid g) (v_ref g)"
  let ?tail = "block [doc_write b end_div, remove_later (lit ''vyframe''), start_monitor]"
  have m: "writes_list b [] start_monitor" by (simp add: writes_list_def adds_def ids_def start_monitor_def)
  have "writes_among b (frame_chunk g) (vizury_buttons b g)"
    by (auto simp: vizury_buttons_def frame_chunk_def simp del: block.simps intro!: among_doc among_block)
  moreover have "writes_list b ([t] @ [?f] @ []) (block [doc_write b t, doc_write b ?f])"
    by (intro list_block listed)
  moreover have "writes_list b ([end_div] @ [] @ [] @ []) ?tail" by (intro list_block listed m)
  then have "writes_among b (frame_chunk g) ?tail" by (rule among_list) (simp add: frame_chunk_def)
  ultimately have "writes_parts b (frame_chunk g) [addiv_open (vizuryWidth g) (vizuryHeight g)] ([t] @ [?f] @ [])
      (andthen (doc_write b (addiv_open (vizuryWidth g) (vizuryHeight g))) (andthen (vizury_buttons b g)
        (andthen (block [doc_write b t, doc_write b ?f]) ?tail)))"
    by (intro parts_inside) (simp add: frame_chunk_def)
  then show ?thesis
    unfolding block_append [symmetric] by (simp add: adShow4Vizury_def)
qed

text \<open>What a run that shows the chunks \<open>ad\<close> and reports type and ad \<open>ta\<close> has done to the page.\<close>

definition reports ::
  "browser \<Rightarrow> ad_vars \<Rightarrow> ustr \<times> ustr \<Rightarrow> ustr list \<Rightarrow> ustr list \<Rightarrow> page \<Rightarrow> js_error option \<times> page \<Rightarrow> bool" where
  "reports b g ta hs ad p r \<longleftrightarrow> (\<exists>ts pre post. fst r = None \<and>
     adds b p (snd r) [showad_url g (fst ta) (snd ta) (v_ref g) ts] (pre @ ad @ post) \<and> set hs \<subseteq> set pre \<and>
     (\<forall>s \<in> set (pre @ post). if fst ta = lit ''1'' then frame_chunk g s else plain_chunk s))"

lemma reports_show:
  assumes "writes_parts b (frame_chunk g) hs ad c"
  shows "reports b g (lit ''1'', a) hs ad p (block [c, recordShow b g (lit ''1'') a (v_ref g)] p)"
proof -
  obtain q pre post where q: "c p = (None, q)" "adds b p q [] (pre @ ad @ post)" "set hs \<subseteq> set pre"
      "\<forall>s \<in> set (pre @ post). frame_chunk g s"
    using assms unfolding writes_parts_def by meson
  obtain p' ts where p': "recordShow b g (lit ''1'') a (v_ref g) q = (None, p')"
      "adds b q p' [showad_url g (lit ''1'') a (v_ref g) ts] (kd_chunks ts)"
    using recordShow_eff by blast
  have "block [c, recordShow b g (lit ''1'') a (v_ref g)] p = (None, p')"
    using q p' by (simp add: andthen_def)
  moreover have "adds b p p' [showad_url g (lit ''1'') a (v_ref g) ts] (pre @ ad @ (post @ kd_chunks ts))"
    using adds_trans [OF q(2) p'(2)] by simp
  moreover have "\<forall>s \<in> set (kd_chunks ts). frame_chunk g s"
    by (simp add: kd_chunks_def frame_chunk_def plain_chunk_def)
  ultimately show ?thesis
    using q(3,4) unfolding reports_def
    by (intro exI [of _ ts] exI [of _ pre] exI [of _ "post @ kd_chunks ts"]) auto
qed

lemma reports_none:
  "reports b g (lit ''0'', lit ''0'') [] [] p (recordShow b g (lit ''0'') (lit ''0'') (v_ref g) p)"
proof -
  obtain p' ts where "recordShow b g (lit ''0'') (lit ''0'') (v_ref g) p = (None, p')"
      "adds b p p' [showad_url g (lit ''0'') (lit ''0'') (v_ref g) ts] (kd_chunks ts)"
    using recordShow_eff by blast
  moreover have "\<forall>s \<in> set (kd_chunks ts). plain_chunk s" by (simp add: kd_chunks_def plain_chunk_def)
  ultimately show ?thesis
    unfolding reports_def by (intro exI [of _ ts] exI [of _ "[]"] exI [of _ "kd_chunks ts"]) simp
qed

lemma reports_after:
  assumes "adds b p q [] ss" "\<forall>s \<in> set ss. plain_chunk s" "reports b g ta hs ad q r"
  shows "reports b g ta hs ad p r"
proof -
  obtain ts pre post where r: "fst r = None" "adds b q (snd r) [showad_url g (fst ta) (snd ta) (v_ref g) ts] (pre @ ad @ post)"
      "set hs \<subseteq> set pre" "\<forall>s \<in> set (pre @ post). if fst ta = lit ''1'' then frame_chunk g s else plain_chunk s"
    using assms(3) unfolding reports_def by blast
  have "adds b p (snd r) [showad_url g (fst ta) (snd ta) (v_ref g) ts] ((ss @ pre) @ ad @ post)"
    using adds_trans [OF assms(1) r(2)] by simp
  moreover have "\<forall>s \<in> set ((ss @ pre) @ post). if fst ta = lit ''1'' then frame_chunk g s else plain_chunk s"
    using r(4) assms(2) by (auto simp: frame_chunk_def)
  ultimately show ?thesis
    using r(1,3) unfolding reports_def by (intro exI [of _ ts] exI [of _ "ss @ pre"] exI [of _ post]) auto
qed

lemma reports_remove_later:
  assumes "reports b g ta hs ad p (c p)"
  shows "reports b g ta hs ad p (block [c, remove_later i] p)"
proof -
  obtain q where q: "c p = (None, q)" using assms unfolding reports_def by (metis prod.collapse)
  let ?q = "q\<lparr>removals := removals q @ [i]\<rparr>"
  have "adds b p ?q us ss" if "adds b p q us ss" for us ss
    using that by (simp add: adds_def ids_def)
  moreover have "block [c, remove_later i] p = (None, ?q)"
    using q by (simp add: andthen_def remove_later_def)
  ultimately show ?thesis using assms q unfolding reports_def by (metis fst_conv snd_conv)
qed

lemma vlssp_main_reports:
  assumes "scripts p \<noteq> []" "\<not> asks_vizury g"
  shows "reports b g (reported g adjson) (container g adjson) (ad_chunks g adjson) p (vlssp_main b g p)"
proof -
  obtain q where q: "drop_own_script p = (None, q)" "adds b p q [] []"
    using drop_own_script_eff [OF assms(1)] by blast
  let ?show = "block [adShow b g (v_w g) (v_h g) (userId g) (adId g) (v_ref g),
         recordShow b g (lit ''1'') (adId g) (v_ref g)]"
  have r: "reports b g (lit ''1'', adId g) (own_container g) (link_chunks g) q (?show q)"
    by (rule reports_show [OF parts_adShow])
  have "reports b g (reported g adjson) (container g adjson) (ad_chunks g adjson) q (vlssp_main b g p)"
    using assms(2) q(1) r reports_none
    by (cases "adType g = lit ''1''")
      (simp_all add: vlssp_main_def reported_def asks_vizury_def container_def ad_chunks_def vizury_shown_def del: block.simps)
  then show ?thesis using reports_after [OF q(2)] by simp
qed

lemma vlssp_main_asks:
  assumes "scripts p \<noteq> []" "asks_vizury g"
  shows "\<exists>q n. vlssp_main b g p = (None, q) \<and> adds b p q [] [vizury_script n]"
proof -
  obtain q where q: "drop_own_script p = (None, q)" "adds b p q [] []"
    using drop_own_script_eff [OF assms(1)] by blast
  let ?n = "clk b (ticks q)" and ?q = "q\<lparr>ticks := Suc (ticks q)\<rparr>"
  have "adds b q ?q [] []" by (simp add: adds_def ids_def)
  from adds_trans [OF adds_trans [OF q(2) this] adds_doc(2)]
  have "adds b p (snd (doc_write b (vizury_script ?n) ?q)) [] [vizury_script ?n]" by simp
  moreover have "vlssp_main b g p = doc_write b (vizury_script ?n) ?q"
    using assms(2) q(1) by (simp add: vlssp_main_def asks_vizury_def with_now_def)
  ultimately show ?thesis using adds_doc(1) by metis
qed

lemma addisplay_reports:
  assumes "asks_vizury g"
  shows "reports b g (reported g adjson) (container g adjson) (ad_chunks g adjson) p (addisplay b g adjson p)"
  unfolding addisplay_def
  by (rule reports_remove_later)
    (use assms reports_show [OF parts_adShow] reports_show [OF parts_vizury] reports_none
     in \<open>simp add: reported_def asks_vizury_def container_def ad_chunks_def vizury_shown_def del: block.simps\<close>)

lemma page_load_reports:
  assumes "scripts p \<noteq> []"
  shows "reports b g (reported g adjson) (container g adjson) (ad_chunks g adjson) p (page_load b g adjson p)"
proof (cases "asks_vizury g")
  case True
  obtain q n where q: "vlssp_main b g p = (None, q)" "adds b p q [] [vizury_script n]"
    using vlssp_main_asks [OF assms True] by blast
  moreover have "reports b g (reported g adjson) (container g adjson) (ad_chunks g adjson) p (addisplay b g adjson q)"
    by (rule reports_after [OF q(2)]) (auto simp: plain_chunk_def intro: addisplay_reports [OF True])
  ultimately show ?thesis using True by (simp add: page_load_def)
next
  case False
  then show ?thesis using vlssp_main_reports [OF assms False] by (simp add: page_load_def)
qed

subsection \<open>Clicks\<close>

definition vlssp_cb_ok :: "ad_vars \<Rightarrow> click_cb \<Rightarrow> bool" where
  "vlssp_cb_ok g cb \<longleftrightarrow>
     cb = VzframeClick \<or> cb = ExtframeClick \<and> wf_utf16 (adId g) \<and> wf_utf16 (docReferrer g)"

lemma plain_keys: "\<forall>n \<in> set ns. plain_name n \<Longrightarrow> \<forall>k \<in> lit ` set ns. \<forall>c \<in> set k. query_safe c"
  using plain_name_safe by blast

lemma vlssp_params_distinct: "assign (vlssp_params a r ts) = vlssp_params a r ts"
  by (rule assign_distinct) (simp add: vlssp_params_def)

lemma vlssp_args_ok:
  assumes "wf_utf16 (adId g)" "wf_utf16 (docReferrer g)"
  shows "\<exists>q. vlssp_args g ts = Inr q"
proof -
  have "\<forall>v \<in> snd ` set (vlssp_params (Some (adId g)) (Some (docReferrer g)) ts). wf_utf16 v"
    using assms by (simp add: vlssp_params_def)
  then show ?thesis
    by (simp add: vlssp_args_def getArgs_vlssp_def track_args_defined vlssp_params_distinct)
qed

lemma with_args_ok:
  assumes "\<And>ts. \<exists>q. args ts = Inr q"
  shows "fst (with_args b args (\<lambda>a. pixel (k a)) p) = None"
    and "\<exists>u. sent (snd (with_args b args (\<lambda>a. pixel (k a)) p)) = sent p @ [u]"
proof -
  obtain q where "args (clk b (ticks p)) = Inr q" using assms by blast
  then show "fst (with_args b args (\<lambda>a. pixel (k a)) p) = None"
    and "\<exists>u. sent (snd (with_args b args (\<lambda>a. pixel (k a)) p)) = sent p @ [u]"
    by (simp_all add: with_args_def with_now_def pixel_def)
qed

lemma with_args_frames: "iframes (snd (with_args b args (\<lambda>a. pixel (k a)) p)) = iframes p"
  by (cases "args (clk b (ticks p))") (simp_all add: with_args_def with_now_def pixel_def)

interpretation vl: click_sink "run_vlssp b g" "vlssp_cb_ok g" for b g
proof
  fix cb p
  show "iframes (snd (run_vlssp b g cb p)) = iframes p"
    by (cases cb) (simp_all add: ext_click_def with_args_frames vz_click_def with_now_def pixel_def)
next
  fix cb p
  assume ok: "vlssp_cb_ok g cb"
  show "fst (run_vlssp b g cb p) = None"
    using ok by (cases cb) (simp_all add: vlssp_cb_ok_def ext_click_def vz_click_def with_now_def
        pixel_def with_args_ok(1) [OF vlssp_args_ok])
  show "\<exists>u. sent (snd (run_vlssp b g cb p)) = sent p @ [u]"
    using ok by (cases cb) (simp_all add: vlssp_cb_ok_def ext_click_def vz_click_def with_now_def
        pixel_def with_args_ok(2) [OF vlssp_args_ok])
qed

subsection \<open>Closing\<close>

lemma page_load_addiv:
  assumes "scripts p \<noteq> []" "fst (reported g adjson) = lit ''1''" "linkType g \<noteq> lit ''J''"
    and "\<And>w h. lit ''addiv'' \<in> set (created b (addiv_open w h))"
  obtains p' e where "page_load b g adjson p = (None, p')" "by_id p' (lit ''addiv'') = Some e"
proof -
  obtain p' ts pre post where p': "page_load b g adjson p = (None, p')"
      "adds b p p' [showad_url g (lit ''1'') (snd (reported g adjson)) (v_ref g) ts] (pre @ ad_chunks g adjson @ post)"
      "set (container g adjson) \<subseteq> set pre"
    using page_load_reports [OF assms(1), of b g adjson] assms(2) unfolding reports_def by (metis prod.collapse)
  obtain w h where "addiv_open w h \<in> set (container g adjson)"
  proof (cases "vizury_shown g adjson")
    case True
    then show ?thesis by (intro that [of "vizuryWidth g" "vizuryHeight g"]) (simp add: container_def)
  next
    case False
    then show ?thesis using assms(2,3) by (intro that [of "v_w g" "v_h g"]) (simp add: container_def own_container_def)
  qed
  then have "addiv_open w h \<in> set (pre @ ad_chunks g adjson @ post)" using p'(3) by auto
  then have "lit ''addiv'' \<in> ids p'" using p'(2) assms(4) [of w h] unfolding adds_def by blast
  then have "by_id p' (lit ''addiv'') \<noteq> None" by (simp add: by_id_None ids_def)
  then show ?thesis using that p'(1) by blast
qed

subsection \<open>Properties\<close>

text \<open>
  C4: One page load sends exactly one \<open>showad\<close> pixel, whichever way the ad was chosen, and writes exactly the ad chosen:
  the pixel is of type 1 with the ad's id if the third party's ad, the targeted or the blind one was chosen, and then the
  page has its markup, in its container, with nothing around it but close buttons, the counting frame and the third
  party's script; it is of type 0 with id 0 if there was none, and then only the last two were written. A report of
  type 1 without any ad is left where an own ad of type \<open>E\<close> has no link or the type of the link is not known, and only
  there.
\<close>

theorem vlssp_one_report:
  assumes "scripts p \<noteq> []"
  shows "(\<exists>p' ts pre post. page_load b g adjson p = (None, p') \<and>
       sent p' = sent p @ [showad_url g (fst (reported g adjson)) (snd (reported g adjson)) (v_ref g) ts] \<and>
       doc p' = doc p @ pre @ ad_chunks g adjson @ post \<and> set (container g adjson) \<subseteq> set pre \<and>
       (\<forall>s \<in> set (pre @ post). if fst (reported g adjson) = lit ''1'' then frame_chunk g s else plain_chunk s)) \<and>
     (ad_chunks g adjson = [] \<longleftrightarrow> fst (reported g adjson) \<noteq> lit ''1'' \<or>
        \<not> vizury_shown g adjson \<and> (linkType g = lit ''E'' \<and> extLink g = [] \<or>
          linkType g \<notin> {lit ''J'', lit ''M'', lit ''E'', lit ''L''}))"
proof
  show "\<exists>p' ts pre post. page_load b g adjson p = (None, p') \<and>
       sent p' = sent p @ [showad_url g (fst (reported g adjson)) (snd (reported g adjson)) (v_ref g) ts] \<and>
       doc p' = doc p @ pre @ ad_chunks g adjson @ post \<and> set (container g adjson) \<subseteq> set pre \<and>
       (\<forall>s \<in> set (pre @ post). if fst (reported g adjson) = lit ''1'' then frame_chunk g s else plain_chunk s)"
    using page_load_reports [OF assms, of b g adjson] unfolding reports_def adds_def by (metis prod.collapse)
  have "fst (reported g adjson) = lit ''1''" if "vizury_shown g adjson"
    using that by (simp add: reported_def vizury_shown_def asks_vizury_def)
  then show "ad_chunks g adjson = [] \<longleftrightarrow> fst (reported g adjson) \<noteq> lit ''1'' \<or>
        \<not> vizury_shown g adjson \<and> (linkType g = lit ''E'' \<and> extLink g = [] \<or>
          linkType g \<notin> {lit ''J'', lit ''M'', lit ''E'', lit ''L''})"
    unfolding ad_chunks_def by (simp add: no_chunks)
qed

definition sample_vars :: ad_vars where
  "sample_vars = \<lparr>adType = lit ''0'', vizury = lit ''1'', mangtou = lit ''7'', v_w = lit ''300'',
     v_h = lit ''250'', userId = lit ''u'', adId = lit ''7'', v_ref = lit ''r'', linkType = lit ''M'',
     closeType = lit ''0'', extLink = [], adAcct = lit ''acct'', v_impId = lit ''i'', v_area = lit ''025'',
     vizuryCloseType = lit ''0'', vizuryWidth = lit ''300'', vizuryHeight = lit ''250'',
     vizuryUserid = lit ''vu'', vizuryAdid = lit ''304'', docReferrer = lit ''http://x.cn/''\<rparr>"

definition sample_browser :: browser where
  "sample_browser = \<lparr>created = (\<lambda>s. if take 15 s = lit ''<div id=\"addiv\"'' then [lit ''addiv''] else []),
     within = (\<lambda>p h. []), clk = (\<lambda>n. 1400000000 + n)\<rparr>"

theorem vlssp_one_report_witness:
  "\<exists>p' ts pre post. page_load sample_browser sample_vars (lit ''1'', lit ''<a>'')
       (blank_page\<lparr>scripts := [lit ''vlssp.js'']\<rparr>) = (None, p') \<and>
     sent p' = [showad_url sample_vars (lit ''1'') (lit ''304'') (lit ''r'') ts] \<and>
     doc p' = pre @ [lit ''<a>'', vy_frame sample_vars (lit ''vu'') (lit ''304'') (lit ''r'')] @ post"
proof -
  have v: "vizury_shown sample_vars (lit ''1'', lit ''<a>'')"
    by (simp add: vizury_shown_def asks_vizury_def sample_vars_def)
  have r: "reported sample_vars (lit ''1'', lit ''<a>'') = (lit ''1'', lit ''304'')"
    by (simp add: reported_def sample_vars_def)
  have c: "ad_chunks sample_vars (lit ''1'', lit ''<a>'') =
      [lit ''<a>'', vy_frame sample_vars (lit ''vu'') (lit ''304'') (lit ''r'')]"
    using v by (simp add: ad_chunks_def) (simp add: sample_vars_def)
  have "v_ref sample_vars = lit ''r''" by (simp add: sample_vars_def)
  then show ?thesis
    using vlssp_one_report [THEN conjunct1, of "blank_page\<lparr>scripts := [lit ''vlssp.js'']\<rparr>" sample_browser sample_vars
        "(lit ''1'', lit ''<a>'')"] unfolding r c
    by (fastforce simp: blank_page_def)
qed

text \<open>
  Where the browser gives the written \<open><div id="addiv"\<close> its id, closing an ad that was shown
  works: \<open>closeAdDiv\<close> does not throw, empties the element, hides it in both ways, and sends nothing.
\<close>

theorem vlssp_close:
  assumes "scripts p \<noteq> []" "fst (reported g adjson) = lit ''1''" "linkType g \<noteq> lit ''J''"
    and "\<And>w h. lit ''addiv'' \<in> set (created b (addiv_open w h))"
    and "\<And>q e. e \<notin> set (within b q e)"
  shows "\<exists>p' q e. page_load b g adjson p = (None, p') \<and> closeAdDiv b p' = (None, q) \<and>
     by_id q (lit ''addiv'') = Some e \<and> sent q = sent p' \<and>
     assigned q = assigned p' @ [(e, ''innerHTML'', []), (e, ''style.visibility'', lit ''hidden''),
       (e, ''style.display'', lit ''none'')]"
proof -
  obtain p' e where "page_load b g adjson p = (None, p')" "by_id p' (lit ''addiv'') = Some e"
    using page_load_addiv [OF assms(1-4)] by blast
  then show ?thesis using hide_addiv_ok [of p' e b] assms(5) by (fastforce simp: closeAdDiv_def)
qed

lemma take_15_addiv: "take 15 (addiv_open w h) = lit ''<div id=\"addiv\"''"
  by (simp add: addiv_open_def lit_def)

theorem vlssp_close_witness:
  "\<exists>p' q e. page_load sample_browser sample_vars (lit ''0'', [])
       (blank_page\<lparr>scripts := [lit ''vlssp.js'']\<rparr>) = (None, p') \<and>
     closeAdDiv sample_browser p' = (None, q) \<and> by_id q (lit ''addiv'') = Some e \<and>
     sent q = sent p' \<and>
     assigned q = assigned p' @ [(e, ''innerHTML'', []), (e, ''style.visibility'', lit ''hidden''),
       (e, ''style.display'', lit ''none'')]"
  by (rule vlssp_close)
    (simp_all add: blank_page_def reported_def sample_vars_def sample_browser_def take_15_addiv)

text \<open>
  C31: The polling counts clicks exactly: whatever the focus does over any number of polls, every
  tracked frame's callback runs once per time the frame becomes the focused element, one pixel
  each, and afterwards a frame's flag says whether it was focused last.
\<close>

theorem vlssp_clicks:
  assumes "\<forall>(e, cb, t) \<in> set (iframes p). vlssp_cb_ok g cb"
  shows "length (sent (polls (run_vlssp b g) foci p)) =
       length (sent p) + sum_list (map (\<lambda>(e, cb, t). rising e t foci) (iframes p)) \<and>
     iframes (polls (run_vlssp b g) foci p) = map (\<lambda>(e, cb, t). (e, cb, focused e t foci)) (iframes p)"
  using vl.polls_count [OF assms, of b foci]
  by (auto simp: all_rising_def after_polls_def)

theorem vlssp_clicks_witness:
  "length (sent (polls (run_vlssp sample_browser sample_vars) [Some 4, Some 4, None, Some 0, Some 4]
     (blank_page\<lparr>iframes := [(4, ExtframeClick, False)]\<rparr>))) = 2"
proof -
  have "\<forall>(e, cb, t) \<in> set (iframes (blank_page\<lparr>iframes := [(4, ExtframeClick, False)]\<rparr>)).
      vlssp_cb_ok sample_vars cb"
    by (simp add: blank_page_def vlssp_cb_ok_def sample_vars_def)
  from vlssp_clicks [OF this] show ?thesis by (simp add: blank_page_def del: polls.simps)
qed

end
