(* ===== verification/AdSplv.thy ===== *)
theory AdSplv
  imports AdVlssp
begin

section \<open>splv.js and splv_sh.js: asking the server which ad to show\<close>

text \<open>
  The second generation of the ad script: it requests \<open>c2\<close> with the page's data and the server
  answers by calling \<open>psda\<close> with the ad's data (\<open>ainfo\<close>, all strings). \<open>splv_sh.js\<close> is the
  same script for other hosts, whose \<open>closeAdDiv\<close> also reports the closing.
\<close>

record ainfo =
  a_showFlag :: ustr
  a_adId :: ustr
  a_userId :: ustr
  a_ref :: ustr
  a_width :: ustr
  a_height :: ustr
  a_linkType :: ustr
  a_closeType :: ustr
  a_extLink :: ustr
  a_adAcct :: ustr
  a_impId :: ustr
  a_area :: ustr

text \<open>The hosts the two files differ in.\<close>

definition splv_showad :: ustr where
  "splv_showad = lit ''http://180.96.26.130:8070/showad?showType=''"

definition sh_showad :: ustr where
  "sh_showad = lit ''http://180.96.26.130:8073/showad?showType=''"

definition sh_host :: ustr where
  "sh_host = lit ''http://shad.adtina.com/ad/''"

subsection \<open>The request\<close>

definition c2_script :: "ustr \<Rightarrow> ustr \<Rightarrow> ustr" where
  \<open>c2_script start args = concat
     [lit ''<script type='text/javascript' src='', [39], start, args, [39], lit ''></script>'']\<close>

definition splv_main :: "browser \<Rightarrow> c2_globals \<Rightarrow> page cmd" where
  "splv_main b gl = with_now b (\<lambda>ts. with_args b (assembleC2Para_PC gl) (\<lambda>c2_params_pc.
     andthen drop_own_script
       (doc_write b (c2_script (lit ''http://180.96.26.130:8070/c2?'') c2_params_pc))))"

definition splv_sh_main :: "browser \<Rightarrow> c2_globals \<Rightarrow> page cmd" where
  "splv_sh_main b gl = with_now b (\<lambda>ts. with_args b (assembleC2Para_PC_sh gl) (\<lambda>c2_params_pc.
     andthen drop_own_script
       (doc_write b (c2_script (lit ''http://180.96.26.130:8073/c2?'') c2_params_pc))))"

subsection \<open>Reporting\<close>

definition report_url :: "ustr \<Rightarrow> ainfo \<Rightarrow> ustr \<Rightarrow> ustr \<Rightarrow> ustr \<Rightarrow> nat \<Rightarrow> ustr" where
  "report_url start i showType ad ref ts = concat
     [start, showType, lit ''&ref='', ref, lit ''&adId='', ad, lit ''&impId='', a_impId i,
      lit ''&area='', a_area i, lit ''&_='', lit (dec_of_nat ts)]"

definition recordShow_splv :: "browser \<Rightarrow> ainfo \<Rightarrow> ustr \<Rightarrow> ustr \<Rightarrow> ustr \<Rightarrow> page cmd" where
  "recordShow_splv b i showType ad ref =
     with_now b (\<lambda>timestamp. pixel (report_url splv_showad i showType ad ref timestamp))"

definition recordShow_sh :: "browser \<Rightarrow> ainfo \<Rightarrow> ustr \<Rightarrow> ustr \<Rightarrow> ustr \<Rightarrow> page cmd" where
  "recordShow_sh b i showType ad ref =
     with_now b (\<lambda>timestamp. pixel (report_url sh_showad i showType ad ref timestamp))"

subsection \<open>Showing the ad\<close>

text \<open>The whole of \<open>adShow\<close>; its parameters are not read, the fields of \<open>ainfo\<close> are.\<close>

definition ainfo_address :: "ustr \<Rightarrow> ainfo \<Rightarrow> ustr" where
  "ainfo_address host i = ad_address host (a_userId i) (a_adId i) (a_ref i) (a_adAcct i)"

text \<open>
  \<open>IframeOnClick\<close> is not defined in these two files: using it throws unless the page has loaded
  \<open>vlssp.js\<close> or another script that defines it (\<open>loaded\<close>).
\<close>

definition track_global :: "bool \<Rightarrow> nat \<Rightarrow> click_cb \<Rightarrow> page cmd" where
  "track_global loaded element cb = (if loaded then track element cb else throw ReferenceError)"

definition ainfo_link :: "browser \<Rightarrow> bool \<Rightarrow> ustr \<Rightarrow> ainfo \<Rightarrow> page cmd" where
  \<open>ainfo_link b loaded host i =
     (if a_linkType i = lit ''M'' then
        doc_write b (ad_frame (lit ''<iframe  src="'') (ainfo_address host i) (a_width i) (a_height i))
      else if a_linkType i = lit ''E'' then
        (if a_extLink i \<noteq> [] then block
           [doc_write b (ad_frame (lit ''<iframe  id="extframe" src="'') (a_extLink i)
              (a_width i) (a_height i)),
            doc_write b (hidden_frame (lit ''<iframe  id="eframe" src="'') (ainfo_address host i)),
            track_if_present (track_global loaded) (lit ''extframe'') ExtframeClick,
            remove_later (lit ''eframe'')]
         else skip)
      else if a_linkType i = lit ''L'' then block
        [doc_write b (a_extLink i),
         doc_write b (hidden_frame (lit ''<iframe id="lframe"  src="'') (ainfo_address host i)),
         remove_later (lit ''lframe'')]
      else skip)\<close>

definition ainfo_jump :: "browser \<Rightarrow> ustr \<Rightarrow> ainfo \<Rightarrow> page cmd" where
  \<open>ainfo_jump b host i = block
     [doc_write b (a_extLink i),
      doc_write b (hidden_frame (lit ''<iframe id="jframe"  src="'') (ainfo_address host i)),
      remove_later (lit ''jframe'')]\<close>

definition adShow_splv :: "browser \<Rightarrow> bool \<Rightarrow> ainfo \<Rightarrow> page cmd" where
  "adShow_splv b loaded i =
     (if a_linkType i = lit ''J'' then ainfo_jump b ad_host i
      else block
        [doc_write b (addiv_open (a_width i) (a_height i)),
         close_buttons b (a_closeType i) (a_adId i),
         ainfo_link b loaded ad_host i,
         doc_write b end_div])"

definition adShow_sh :: "browser \<Rightarrow> bool \<Rightarrow> ainfo \<Rightarrow> page cmd" where
  "adShow_sh b loaded i =
     (if a_linkType i = lit ''J'' then ainfo_jump b sh_host i
      else block
        [doc_write b (addiv_open (a_width i) (a_height i)),
         close_buttons b (a_closeType i) (a_adId i),
         ainfo_link b loaded sh_host i,
         doc_write b end_div])"

text \<open>The server's callback.\<close>

definition psda :: "browser \<Rightarrow> bool \<Rightarrow> ainfo \<Rightarrow> page cmd" where
  "psda b loaded i =
     (if a_showFlag i = lit ''0'' then recordShow_splv b i (lit ''1'') (a_adId i) (a_ref i)
      else block [adShow_splv b loaded i, recordShow_splv b i (lit ''0'') (lit ''0'') (a_ref i)])"

definition psda_sh :: "browser \<Rightarrow> bool \<Rightarrow> ainfo \<Rightarrow> page cmd" where
  "psda_sh b loaded i =
     (if a_showFlag i = lit ''0'' then recordShow_sh b i (lit ''1'') (a_adId i) (a_ref i)
      else block [adShow_sh b loaded i, recordShow_sh b i (lit ''0'') (lit ''0'') (a_ref i)])"

subsection \<open>Clicks and closing\<close>

definition splv_args :: "ainfo \<Rightarrow> nat \<Rightarrow> ustr res" where
  "splv_args i = getArgs_splv (Some (a_adId i)) (Some (a_ref i))"

definition sh_args :: "ainfo \<Rightarrow> nat \<Rightarrow> ustr res" where
  "sh_args i = getArgs_splv_sh (Some (a_adId i)) (Some (a_ref i))"

text \<open>
  The callback \<open>adShow\<close> registers for the external frame.
\<close>

definition splv_ext_click :: "browser \<Rightarrow> ainfo \<Rightarrow> page cmd" where
  "splv_ext_click b i = with_args b (splv_args i) (\<lambda>args. pixel (concat
     [lit ''http://stat.mdlkt.com:8900/statclick?'', args, lit ''&pos=extframe'']))"

definition sh_ext_click :: "browser \<Rightarrow> ainfo \<Rightarrow> page cmd" where
  "sh_ext_click b i = with_args b (sh_args i) (\<lambda>args. pixel (concat
     [lit ''http://180.96.26.130:8900/statclick?'', args, lit ''&pos=extframe'']))"

definition closeAdDiv_splv :: "browser \<Rightarrow> page cmd" where
  "closeAdDiv_splv b = hide_addiv b"

definition closeAdDiv_sh :: "browser \<Rightarrow> ainfo \<Rightarrow> page cmd" where
  "closeAdDiv_sh b i = block
     [hide_addiv b,
      with_args b (sh_args i) (\<lambda>args. pixel (concat
        [lit ''http://180.96.26.130:8040/statclose?'', args]))]"

definition closeDeadAdDiv_splv :: "browser \<Rightarrow> ainfo \<Rightarrow> page cmd" where
  "closeDeadAdDiv_splv b i = block
     [submit_dead_form, hide_addiv b,
      with_args b (splv_args i) (\<lambda>args. pixel (concat
        [lit ''http://stat.mdlkt.com:8900/statclick?'', args, lit ''&pos=death'']))]"

definition closeDeadAdDiv_sh :: "browser \<Rightarrow> ainfo \<Rightarrow> page cmd" where
  "closeDeadAdDiv_sh b i = block
     [submit_dead_form, hide_addiv b,
      with_args b (sh_args i) (\<lambda>args. pixel (concat
        [lit ''http://180.96.26.130:8040/statclick?'', args, lit ''&pos=death'']))]"

subsection \<open>Effects\<close>

lemma writes_ainfo_jump [writers]: "writes_only b (ainfo_jump b h i)"
  by (simp add: ainfo_jump_def writers)

lemma writes_track_global [writers]: "writes_only b (track_global True h cb)"
  by (simp add: track_global_def writers)

lemma writes_ainfo_link [writers]: "writes_only b (ainfo_link b True h i)"
  by (simp add: ainfo_link_def writers)

lemma writes_ainfo_link_plain:
  "a_linkType i \<noteq> lit ''E'' \<or> a_extLink i = [] \<Longrightarrow> writes_only b (ainfo_link b l h i)"
  by (auto simp: ainfo_link_def writers)

text \<open>The chunk that puts the ad on the page.\<close>

definition ainfo_chunk :: "ainfo \<Rightarrow> ustr \<Rightarrow> bool" where
  \<open>ainfo_chunk i s \<longleftrightarrow>
     s = (if a_linkType i = lit ''J''
          then hidden_frame (lit ''<iframe id="jframe"  src="'') (ainfo_address ad_host i)
          else addiv_open (a_width i) (a_height i))\<close>

lemma writes_some_adShow_splv:
  assumes "loaded \<or> a_linkType i \<noteq> lit ''E'' \<or> a_extLink i = []"
  shows "writes_some b (ainfo_chunk i) (adShow_splv b loaded i)"
proof (cases "a_linkType i = lit ''J''")
  case True
  then have "ainfo_chunk i (hidden_frame (lit ''<iframe id=\"jframe\"  src=\"'') (ainfo_address ad_host i))"
    by (simp add: ainfo_chunk_def)
  from writes_some_block [of "ainfo_chunk i", OF this, of "[doc_write b (a_extLink i)]" b
      "[remove_later (lit ''jframe'')]"]
  show ?thesis using True by (simp add: adShow_splv_def ainfo_jump_def writers)
next
  case False
  then have "ainfo_chunk i (addiv_open (a_width i) (a_height i))" by (simp add: ainfo_chunk_def)
  moreover have "writes_only b (ainfo_link b loaded ad_host i)"
    using assms writes_ainfo_link writes_ainfo_link_plain by metis
  ultimately show ?thesis
    using False writes_some_block [of "ainfo_chunk i" _ "[]" b
        "[close_buttons b (a_closeType i) (a_adId i), ainfo_link b loaded ad_host i, doc_write b end_div]"]
    by (simp add: adShow_splv_def writers)
qed

lemma recordShow_splv_eff:
  "\<exists>p' ts. recordShow_splv b i t a r p = (None, p') \<and> adds b p p' [report_url splv_showad i t a r ts] []"
  by (simp add: recordShow_splv_def with_now_def pixel_def adds_def ids_def) blast

subsection \<open>Properties\<close>

text \<open>
  What \<open>psda\<close> reports is the opposite of what it does. With \<open>showFlag\<close> 0, by which the server
  says that no ad was hit, it writes nothing and reports type 1; otherwise it puts the ad on the
  page and reports type 0 with id 0.
\<close>

theorem psda_report:
  assumes "loaded \<or> a_linkType i \<noteq> lit ''E'' \<or> a_extLink i = []"
  shows "\<exists>p' ts ss. psda b loaded i p = (None, p') \<and> doc p' = doc p @ ss \<and>
     (if a_showFlag i = lit ''0''
      then ss = [] \<and> sent p' = sent p @ [report_url splv_showad i (lit ''1'') (a_adId i) (a_ref i) ts]
      else (\<exists>s \<in> set ss. ainfo_chunk i s) \<and>
        sent p' = sent p @ [report_url splv_showad i (lit ''0'') (lit ''0'') (a_ref i) ts])"
proof (cases "a_showFlag i = lit ''0''")
  case True
  then show ?thesis
    using recordShow_splv_eff [of b i "lit ''1''" "a_adId i" "a_ref i" p] by (auto simp: psda_def adds_def)
next
  case False
  obtain q ss where q: "adShow_splv b loaded i p = (None, q)" "adds b p q [] ss"
      "\<exists>s \<in> set ss. ainfo_chunk i s"
    using writes_some_adShow_splv [OF assms] unfolding writes_some_def by metis
  obtain p' ts where "recordShow_splv b i (lit ''0'') (lit ''0'') (a_ref i) q = (None, p')"
      "adds b q p' [report_url splv_showad i (lit ''0'') (lit ''0'') (a_ref i) ts] []"
    using recordShow_splv_eff by blast
  then show ?thesis
    using False q by (auto simp: psda_def andthen_def adds_def)
qed

definition sample_ainfo :: ainfo where
  "sample_ainfo = \<lparr>a_showFlag = lit ''1'', a_adId = lit ''7'', a_userId = lit ''u'', a_ref = lit ''r'',
     a_width = lit ''300'', a_height = lit ''250'', a_linkType = lit ''M'', a_closeType = lit ''1'',
     a_extLink = [], a_adAcct = lit ''acct'', a_impId = lit ''i'', a_area = lit ''025''\<rparr>"

theorem psda_report_witness:
  "\<exists>p' ts. psda sample_browser False sample_ainfo blank_page = (None, p') \<and>
     (\<exists>s \<in> set (doc p'). ainfo_chunk sample_ainfo s) \<and>
     sent p' = [report_url splv_showad sample_ainfo (lit ''0'') (lit ''0'') (lit ''r'') ts]"
  using psda_report [of False sample_ainfo sample_browser blank_page]
  by (auto simp: sample_ainfo_def blank_page_def)

text \<open>
  On a page without \<open>IframeOnClick\<close>, an ad of type \<open>E\<close> with an external address stops \<open>psda\<close>
  with a \<open>ReferenceError\<close>: the external frame is on the page, its \<open>addiv\<close> is never closed, the
  hidden frame is never removed and nothing is reported.
\<close>

theorem psda_no_tracker:
  assumes "a_linkType i = lit ''E''" "a_extLink i \<noteq> []" "a_showFlag i \<noteq> lit ''0''"
    and "\<And>s w h. lit ''extframe'' \<in> set (created b (ad_frame (lit ''<iframe  id=\"extframe\" src=\"'') s w h))"
  shows "\<exists>p' ss. psda b False i p = (Some ReferenceError, p') \<and> sent p' = sent p \<and>
     doc p' = doc p @ ss \<and> addiv_open (a_width i) (a_height i) \<in> set ss \<and>
     last ss = hidden_frame (lit ''<iframe  id=\"eframe\" src=\"'') (ainfo_address ad_host i)"
proof -
  define ext where "ext = ad_frame (lit ''<iframe  id=\"extframe\" src=\"'') (a_extLink i) (a_width i) (a_height i)"
  define hid where "hid = hidden_frame (lit ''<iframe  id=\"eframe\" src=\"'') (ainfo_address ad_host i)"
  let ?p1 = "snd (doc_write b (addiv_open (a_width i) (a_height i)) p)"
  obtain q0 cs where q0: "close_buttons b (a_closeType i) (a_adId i) ?p1 = (None, q0)"
      "adds b ?p1 q0 [] cs"
    using writes_onlyD [OF writes_close_buttons] by blast
  define q where "q = snd (doc_write b hid (snd (doc_write b ext q0)))"
  have "adds b p q [] (addiv_open (a_width i) (a_height i) # cs @ [ext, hid])"
    using adds_trans [OF adds_trans [OF adds_trans [OF adds_doc(2) q0(2)] adds_doc(2)] adds_doc(2)]
    unfolding q_def by simp
  note new = this
  then have "lit ''extframe'' \<in> ids q" using assms(4) unfolding adds_def ext_def by auto
  then obtain e where e: "by_id q (lit ''extframe'') = Some e"
    by (metis by_id_None ids_def not_None_eq)
  define stop where "stop = track_if_present (track_global False) (lit ''extframe'') ExtframeClick"
  have stop: "stop q = (Some ReferenceError, q)"
    using e by (simp add: stop_def track_if_present_def track_global_def)
  have link: "ainfo_link b False ad_host i q0 = (Some ReferenceError, q)"
    using assms(1,2) stop
    by (simp add: ainfo_link_def ext_def [symmetric] hid_def [symmetric] andthen_write q_def [symmetric]
        stop_def [symmetric])
  then have "adShow_splv b False i p = (Some ReferenceError, q)"
    using assms(1) q0(1) by (simp add: adShow_splv_def andthen_write)
  then have "psda b False i p = (Some ReferenceError, q)"
    using assms(3) by (simp add: psda_def)
  then show ?thesis using new unfolding adds_def hid_def by auto
qed

definition ext_browser :: browser where
  "ext_browser = \<lparr>created = (\<lambda>s. if take 22 s = lit ''<iframe  id=\"extframe\"'' then [lit ''extframe''] else []),
     within = (\<lambda>p h. []), clk = (\<lambda>n. 1400000000 + n)\<rparr>"

lemma take_22_ext: "take 22 (ad_frame (lit ''<iframe  id=\"extframe\" src=\"'') s w h) = lit ''<iframe  id=\"extframe\"''"
  by (simp add: ad_frame_def lit_def)

theorem psda_no_tracker_witness:
  "\<exists>p' ss. psda ext_browser False (sample_ainfo\<lparr>a_linkType := lit ''E'', a_extLink := lit ''http://x''\<rparr>)
       blank_page = (Some ReferenceError, p') \<and> sent p' = [] \<and> doc p' = ss \<and>
     addiv_open (lit ''300'') (lit ''250'') \<in> set ss"
  using psda_no_tracker [of "sample_ainfo\<lparr>a_linkType := lit ''E'', a_extLink := lit ''http://x''\<rparr>"
      ext_browser blank_page]
  by (auto simp: sample_ainfo_def blank_page_def ext_browser_def take_22_ext)

end
