(* ===== verification/AdMobile.thy ===== *)
theory AdMobile
  imports AdSplv
begin

section \<open>The mobile ad scripts\<close>

text \<open>
  \<open>vlssp_mobile.js\<close>, a banner with a fixed ad, and \<open>m.splv.js\<close>, which asks the server as
  \<open>splv.js\<close> does and scales the frame to the window.
\<close>

subsection \<open>Where the mouse was\<close>

text \<open>
  \<open>getPosition\<close>: page coordinates where the browser has them (\<open>0\<close> and \<open>undefined\<close> are false),
  else client coordinates and the scroll offsets.
\<close>

record mouse_event =
  pageX :: "int option"
  pageY :: "int option"
  clientX :: int
  clientY :: int

record viewport =
  bodyScrollLeft :: int
  bodyClientLeft :: int
  docScrollTop :: int

definition truthy_num :: "int option \<Rightarrow> bool" where
  "truthy_num n \<longleftrightarrow> n \<noteq> None \<and> n \<noteq> Some 0"

definition getPosition :: "viewport \<Rightarrow> mouse_event \<Rightarrow> int option \<times> int option" where
  "getPosition v ev =
     (if truthy_num (pageX ev) \<or> truthy_num (pageY ev) then (pageX ev, pageY ev)
      else (Some (clientX ev + bodyScrollLeft v - bodyClientLeft v), Some (clientY ev + docScrollTop v)))"

definition getPosition_stat :: "viewport \<Rightarrow> mouse_event \<Rightarrow> int option \<times> int option" where
  "getPosition_stat = getPosition"

definition getPosition_vlstat :: "viewport \<Rightarrow> mouse_event \<Rightarrow> int option \<times> int option" where
  "getPosition_vlstat = getPosition"

definition dec_of_int :: "int \<Rightarrow> string" where
  "dec_of_int i = (if i < 0 then CHR ''-'' # dec_of_nat (nat (- i)) else dec_of_nat (nat i))"

definition coord_text :: "int option \<Rightarrow> ustr" where
  "coord_text c = (case c of None \<Rightarrow> lit ''undefined'' | Some i \<Rightarrow> lit (dec_of_int i))"

text \<open>\<open>var pos = point.x + "," + point.y;\<close>\<close>

definition position_text :: "int option \<times> int option \<Rightarrow> ustr" where
  "position_text pt = concat [coord_text (fst pt), lit '','', coord_text (snd pt)]"

text \<open>
  \<open>addEvent(o, type, fn)\<close>: the handler is registered under the event's name; with the old
  \<open>attachEvent\<close> the name has \<open>on\<close> before it. A \<open>null\<close> object throws.
\<close>

definition addEvent :: "bool \<Rightarrow> nat option \<Rightarrow> string \<Rightarrow> page cmd" where
  "addEvent attachEvent obj ty p =
     (case obj of
        None \<Rightarrow> (Some TypeError, p)
      | Some h \<Rightarrow> (None, p\<lparr>listeners := listeners p @ [(h, if attachEvent then ''on'' @ ty else ty)]\<rparr>))"

definition addEvent_stat :: "bool \<Rightarrow> nat option \<Rightarrow> string \<Rightarrow> page cmd" where
  "addEvent_stat = addEvent"

definition addEvent_vlstat :: "bool \<Rightarrow> nat option \<Rightarrow> string \<Rightarrow> page cmd" where
  "addEvent_vlstat = addEvent"

definition add_click :: "bool \<Rightarrow> ustr \<Rightarrow> page cmd" where
  "add_click attachEvent i p = addEvent attachEvent (by_id p i) ''click'' p"

subsection \<open>vlssp_mobile.js\<close>

definition mobile_markup :: "ustr list" where
  \<open>mobile_markup =
     [lit ''<div id="addiv" style="position: fixed; Z-INDEX: 9200; left: 0px; bottom: 0px;width: 100%;height: auto">'',
      lit ''<img  src="http://static.sxite.com/static/image/banner_close.png" onclick="closeAdDiv();"  style="height:auto;float:right;width:5%;cursor:pointer;position:absolute;top:0;right:0">'',
      lit ''<a href="http://item.taobao.com/item.htm?id=43062432065&spm=a310v.4.88.1" target="_top" >'',
      lit ''<img src="http://creative.sxite.com/img/a5113a65c12441f89e647f45bb53712c.jpg" id="responseUrl" alt="" border=0 style="width:100%;height:auto" />'',
      lit ''</a>'',
      lit ''</div>'']\<close>

definition mobile_adId :: ustr where
  "mobile_adId = lit ''987''"

definition mobile_args :: "ustr option \<Rightarrow> nat \<Rightarrow> ustr res" where
  "mobile_args referrer = getArgs_mobile (Some mobile_adId) referrer"

definition adShow_mobile :: "browser \<Rightarrow> bool \<Rightarrow> ustr option \<Rightarrow> page cmd" where
  "adShow_mobile b attachEvent referrer = block
     (map (doc_write b) mobile_markup @
      [with_args b (mobile_args referrer) (\<lambda>args. pixel (concat
         [lit ''http://statistic.mdlkt.com/statpv?'', args])),
       track_if_present track_mobile (lit ''vframe'') VframeClick,
       add_click attachEvent (lit ''responseUrl'')])"

definition mobile_click :: "browser \<Rightarrow> viewport \<Rightarrow> ustr option \<Rightarrow> mouse_event \<Rightarrow> page cmd" where
  "mobile_click b v referrer ev =
     (let pos = position_text (getPosition v ev)
      in with_args b (mobile_args referrer) (\<lambda>args. pixel (concat
           [lit ''http://statistic.mdlkt.com/statclick?'', args, lit ''&pos='', pos])))"

text \<open>\<open>click_collect_url\<close> is not declared in the file: \<open>None\<close> unless the page has such a global.\<close>

definition mobile_frame_click :: "browser \<Rightarrow> ustr option \<Rightarrow> ustr option \<Rightarrow> page cmd" where
  "mobile_frame_click b click_collect_url referrer =
     with_args b (mobile_args referrer) (\<lambda>args.
       case click_collect_url of
         None \<Rightarrow> throw ReferenceError
       | Some url \<Rightarrow> pixel (concat [url, args, lit ''&pos=vframe'']))"

definition closeAdDiv_mobile :: "browser \<Rightarrow> page cmd" where
  "closeAdDiv_mobile b = hide_addiv b"

subsection \<open>m.splv.js\<close>

text \<open>
  The server's sizes are decimal numerals; \<open>a_h\<close> and \<open>a_w\<close> are the numbers they stand for.
\<close>

record m_ainfo = ainfo +
  a_h :: nat
  a_w :: nat

definition base_ainfo :: "m_ainfo \<Rightarrow> ainfo" where
  "base_ainfo i = ainfo.truncate i"

definition m_main :: "browser \<Rightarrow> c2_globals \<Rightarrow> page cmd" where
  "m_main b gl = with_now b (\<lambda>ts. with_args b (assembleC2Para_MOBILE gl) (\<lambda>c2_params_mobile.
     andthen drop_own_script
       (doc_write b (c2_script (lit ''http://180.96.26.130:8070/c2?'') c2_params_mobile))))"

definition recordShow_m :: "browser \<Rightarrow> m_ainfo \<Rightarrow> ustr \<Rightarrow> ustr \<Rightarrow> ustr \<Rightarrow> page cmd" where
  "recordShow_m b i showType ad ref =
     with_now b (\<lambda>timestamp. pixel (report_url splv_showad (base_ainfo i) showType ad ref timestamp))"

text \<open>
  \<open>parseInt(window.innerWidth * ainfo.height / ainfo.width) + "px"\<close>: the integer part, and
  \<open>NaN\<close> for a zero width, whose quotient is \<open>Infinity\<close> or \<open>NaN\<close>. Products are below \<open>2 ^ 53\<close> and
  a quotient below \<open>10 ^ -6\<close>, which \<open>parseInt\<close> would read in exponent form, does not occur.
\<close>

definition scaled_px :: "nat \<Rightarrow> nat \<Rightarrow> nat \<Rightarrow> ustr" where
  "scaled_px innerWidth h w =
     (if w = 0 then lit ''NaNpx'' else lit (dec_of_nat (innerWidth * h div w) @ ''px''))"

definition m_addiv :: ustr where
  \<open>m_addiv = lit ''<div id="addiv" style="position: fixed; Z-INDEX: 9200; left: 0px; bottom: 0px;width: 100%;height: 0px">''\<close>

definition m_close_img :: ustr where
  \<open>m_close_img = lit ''<img  src="http://static.sxite.com/static/image/banner_close.png" onclick="closeAdDiv();"  style="height:auto;float:right;width:5%;cursor:pointer;position:absolute;top:0;right:0">''\<close>

definition m_frame :: "m_ainfo \<Rightarrow> ustr" where
  \<open>m_frame i = concat
     [lit ''<iframe id="adpage_m"  src="'', ad_host, a_userId i, lit ''/'', a_adId i,
      lit ''?pk=1&adforcerReferer='', a_ref i, lit ''&ad_acct='', a_adAcct i,
      lit ''" width="100%" height="60px"'', frame_end]\<close>

definition adShow_m :: "browser \<Rightarrow> nat \<Rightarrow> m_ainfo \<Rightarrow> page cmd" where
  "adShow_m b innerWidth i =
     (if a_linkType i = lit ''J'' then ainfo_jump b ad_host (base_ainfo i)
      else block
        [doc_write b m_addiv,
         doc_write b m_close_img,
         if a_linkType i = lit ''M'' then doc_write b (m_frame i) else skip,
         doc_write b end_div,
         with_elem (lit ''adpage_m'') (set_prop ''height'' (scaled_px innerWidth (a_h i) (a_w i))),
         with_elem (lit ''addiv'') (set_prop ''style.height'' (scaled_px innerWidth (a_h i) (a_w i)))])"

definition psda_m :: "browser \<Rightarrow> nat \<Rightarrow> m_ainfo \<Rightarrow> page cmd" where
  "psda_m b innerWidth i =
     (if a_showFlag i = lit ''0'' then recordShow_m b i (lit ''1'') (a_adId i) (a_ref i)
      else adShow_m b innerWidth i)"

definition closeAdDiv_m :: "browser \<Rightarrow> page cmd" where
  "closeAdDiv_m b = hide_addiv b"

subsection \<open>Properties\<close>

lemma adds_by_id: "adds b p p' us ss \<Longrightarrow> by_id p' i \<noteq> None \<longleftrightarrow>
    by_id p i \<noteq> None \<or> (\<exists>s \<in> set ss. i \<in> set (created b s))"
  unfolding adds_def by (auto simp: by_id_None ids_def simp del: set_map)

lemma dec_of_int_inj: "dec_of_int i = dec_of_int j \<longleftrightarrow> i = j"
proof -
  have "CHR ''-'' # s \<noteq> dec_of_nat n" for s n
  proof
    assume "CHR ''-'' # s = dec_of_nat n"
    then have "CHR ''-'' \<in> set (dec_of_nat n)" by (metis list.set_intros(1))
    then obtain d where "d < 10" "CHR ''-'' = digit_char d" using dec_of_nat_digits by blast
    then have "of_char (CHR ''-'') = (of_char (digit_char d) :: nat)" by simp
    then have "45 = 48 + d" using \<open>d < 10\<close> by (simp add: digit_char_def)
    then show False by simp
  qed
  note this [simp] and this [symmetric, simp]
  show ?thesis by (auto simp: dec_of_int_def dec_of_nat_inj split: if_splits)
qed

text \<open>
  \<open>m.splv.js\<close> shows an ad of any type but \<open>J\<close> and \<open>M\<close> without a frame and then throws: where
  no element \<open>adpage_m\<close> exists, \<open>psda\<close> stops with a \<open>TypeError\<close> after writing an empty banner,
  with the banner's height still 0 and nothing reported.
\<close>

theorem psda_m_no_frame:
  assumes "a_showFlag i \<noteq> lit ''0''" "a_linkType i \<noteq> lit ''J''" "a_linkType i \<noteq> lit ''M''"
    and "by_id p (lit ''adpage_m'') = None"
    and "\<forall>s \<in> {m_addiv, m_close_img, end_div}. lit ''adpage_m'' \<notin> set (created b s)"
  shows "\<exists>p'. psda_m b innerWidth i p = (Some TypeError, p') \<and> sent p' = sent p \<and>
     doc p' = doc p @ [m_addiv, m_close_img, end_div] \<and> assigned p' = assigned p"
proof -
  define q where "q = snd (doc_write b end_div (snd (doc_write b m_close_img (snd (doc_write b m_addiv p)))))"
  have q: "adds b p q [] [m_addiv, m_close_img, end_div]"
    using adds_trans [OF adds_trans [OF adds_doc(2) adds_doc(2)] adds_doc(2)] unfolding q_def by simp
  have "by_id q (lit ''adpage_m'') = None" using adds_by_id [OF q, of "lit ''adpage_m''"] assms(4,5) by auto
  then have "psda_m b innerWidth i p = (Some TypeError, q)"
    using assms(1-3) by (simp add: psda_m_def adShow_m_def andthen_write q_def [symmetric])
      (simp add: with_elem_def andthen_def)
  moreover have "assigned q = assigned p" by (simp add: q_def doc_write_def Let_def)
  ultimately show ?thesis using q unfolding adds_def by simp
qed

definition sample_m :: m_ainfo where
  "sample_m = ainfo.extend (sample_ainfo\<lparr>a_linkType := lit ''L''\<rparr>) \<lparr>a_h = 50, a_w = 320\<rparr>"

theorem psda_m_no_frame_witness:
  "\<exists>p'. psda_m sample_browser 640 sample_m blank_page = (Some TypeError, p') \<and> sent p' = [] \<and>
     doc p' = [m_addiv, m_close_img, end_div] \<and> assigned p' = []"
  using psda_m_no_frame [of sample_m blank_page sample_browser 640]
  by (simp add: sample_m_def sample_ainfo_def blank_page_def sample_browser_def by_id_def ainfo.defs)

text \<open>
  With the frame in place an ad of type \<open>M\<close> is scaled: both the frame and the banner get the
  height \<open>innerWidth * height div width\<close>, so that width and height keep the ad's proportions to
  within a pixel.
\<close>

theorem psda_m_scaled:
  assumes "a_showFlag i \<noteq> lit ''0''" "a_linkType i = lit ''M''" "0 < a_w i"
    and "lit ''adpage_m'' \<in> set (created b (m_frame i))" "lit ''addiv'' \<in> set (created b m_addiv)"
  shows "\<exists>p' f e h. psda_m b innerWidth i p = (None, p') \<and> by_id p' (lit ''adpage_m'') = Some f \<and>
     by_id p' (lit ''addiv'') = Some e \<and>
     assigned p' = assigned p @ [(f, ''height'', lit (dec_of_nat h @ ''px'')),
       (e, ''style.height'', lit (dec_of_nat h @ ''px''))] \<and>
     h * a_w i \<le> innerWidth * a_h i \<and> innerWidth * a_h i < (h + 1) * a_w i"
proof -
  define q where "q = snd (doc_write b end_div (snd (doc_write b (m_frame i)
     (snd (doc_write b m_close_img (snd (doc_write b m_addiv p)))))))"
  have q: "adds b p q [] [m_addiv, m_close_img, m_frame i, end_div]"
    using adds_trans [OF adds_trans [OF adds_trans [OF adds_doc(2) adds_doc(2)] adds_doc(2)] adds_doc(2)]
    unfolding q_def by simp
  obtain f e where ids: "by_id q (lit ''adpage_m'') = Some f" "by_id q (lit ''addiv'') = Some e"
    using adds_by_id [OF q, of "lit ''adpage_m''"] adds_by_id [OF q, of "lit ''addiv''"] assms(4,5) by auto
  let ?h = "innerWidth * a_h i div a_w i"
  have aq: "assigned q = assigned p" by (simp add: q_def doc_write_def Let_def)
  have keep: "by_id (q\<lparr>assigned := x\<rparr>) j = by_id q j" for x j by (simp add: by_id_def)
  have "psda_m b innerWidth i p = (None, q\<lparr>assigned := assigned p @
      [(f, ''height'', lit (dec_of_nat ?h @ ''px'')), (e, ''style.height'', lit (dec_of_nat ?h @ ''px''))]\<rparr>)"
    using assms(1-3) ids aq by (simp add: psda_m_def adShow_m_def andthen_write q_def [symmetric])
      (simp add: with_elem_def andthen_def set_prop_def keep scaled_px_def)
  moreover have "?h * a_w i \<le> innerWidth * a_h i" by simp
  moreover have "innerWidth * a_h i < (?h + 1) * a_w i"
    using assms(3) by (metis Suc_eq_plus1 dividend_less_div_times mult.commute mult_Suc)
  ultimately show ?thesis using ids keep by fastforce
qed

definition m_browser :: browser where
  "m_browser = \<lparr>created = (\<lambda>s. if take 15 s = lit ''<div id=\"addiv\"'' then [lit ''addiv'']
       else if take 21 s = lit ''<iframe id=\"adpage_m\"'' then [lit ''adpage_m''] else []),
     within = (\<lambda>p h. []), clk = (\<lambda>n. 1400000000 + n)\<rparr>"

lemma take_21_frame: "take 21 (m_frame i) = lit ''<iframe id=\"adpage_m\"''"
  and take_15_frame: "take 15 (m_frame i) = lit ''<iframe id=\"adp''"
  and take_15_m_addiv: "take 15 m_addiv = lit ''<div id=\"addiv\"''"
  by (simp_all add: m_frame_def m_addiv_def lit_def)

theorem psda_m_scaled_witness:
  "\<exists>p' f e h. psda_m m_browser 640 (sample_m\<lparr>a_linkType := lit ''M''\<rparr>) blank_page = (None, p') \<and>
     assigned p' = [(f, ''height'', lit (dec_of_nat h @ ''px'')),
       (e, ''style.height'', lit (dec_of_nat h @ ''px''))] \<and> h * 320 \<le> 32000 \<and> 32000 < (h + 1) * 320"
  using psda_m_scaled [of "sample_m\<lparr>a_linkType := lit ''M''\<rparr>" m_browser 640 blank_page]
  by (simp add: sample_m_def sample_ainfo_def blank_page_def m_browser_def ainfo.defs
      take_21_frame take_15_frame take_15_m_addiv) blast

end
