(* ===== verification/JsParam.thy ===== *)
theory JsParam
  imports TrackArgs
begin

section \<open>Reading the parameters of the script's own address\<close>

text \<open>
  \<open>getJsParam\<close> of \<open>initstat_4sh.js\<close> and \<open>vldsp_4sh.js\<close>: the query string of the last
  \<open>script\<close> element is cut at \<open>&\<close> and \<open>=\<close>; a name that occurs twice collects an array. A
  value is \<open>undefined\<close>, a string or such an array. \<open>args\<close> inherits from
  \<open>Object.prototype\<close>, so a name like \<open>toString\<close> is already bound to a function.
\<close>

datatype arg_value = Undefined | Str ustr | Arr "ustr option list"

definition proto_names :: "ustr list" where
  "proto_names = map lit
     [''constructor'', ''toString'', ''toLocaleString'', ''valueOf'', ''hasOwnProperty'',
      ''isPrototypeOf'', ''propertyIsEnumerable'', ''__proto__'', ''__defineGetter__'',
      ''__defineSetter__'', ''__lookupGetter__'', ''__lookupSetter__'']"

definition of_undefined :: "ustr option \<Rightarrow> arg_value" where
  "of_undefined v = (case v of None \<Rightarrow> Undefined | Some s \<Rightarrow> Str s)"

text \<open>One iteration; the third branch calls \<open>push\<close> on whatever \<open>args[key]\<close> is.\<close>

definition add_param :: "(ustr, arg_value) obj \<Rightarrow> ustr \<Rightarrow> (ustr, arg_value) obj res" where
  "add_param args p =
     (let param = split_on eqs p;
          key = hd param;
          val = js_get param 1
      in case map_of args key of
           None \<Rightarrow> if key \<in> set proto_names then Inl TypeError
                   else Inr (obj_set key (of_undefined val) args)
         | Some Undefined \<Rightarrow> Inr (obj_set key (of_undefined val) args)
         | Some (Str s) \<Rightarrow> Inr (obj_set key (Arr [Some s, val]) args)
         | Some (Arr vs) \<Rightarrow> Inr (obj_set key (Arr (vs @ [val])) args))"

fun add_params :: "(ustr, arg_value) obj \<Rightarrow> ustr list \<Rightarrow> (ustr, arg_value) obj res" where
  "add_params args [] = Inr args"
| "add_params args (p # ps) = res_bind (add_param args p) (\<lambda>args'. add_params args' ps)"

text \<open>
  \<open>srcs\<close> are the \<open>src\<close> properties of the page's \<open>script\<close> elements (the empty string for an
  inline script), the last of which is the running one.
\<close>

definition getJsParam :: "ustr list \<Rightarrow> (ustr, arg_value) obj res" where
  "getJsParam srcs =
     (case js_get srcs (int (length srcs) - 1) of
        None \<Rightarrow> Inl TypeError
      | Some src \<Rightarrow>
          (case js_get (split_on 63 src) 1 of
             None \<Rightarrow> Inl TypeError
           | Some query \<Rightarrow> add_params [] (split_on amp query)))"

definition getJsParam_vldsp :: "ustr list \<Rightarrow> (ustr, arg_value) obj res" where
  "getJsParam_vldsp srcs =
     (case js_get srcs (int (length srcs) - 1) of
        None \<Rightarrow> Inl TypeError
      | Some src \<Rightarrow>
          (case js_get (split_on 63 src) 1 of
             None \<Rightarrow> Inl TypeError
           | Some query \<Rightarrow> add_params [] (split_on amp query)))"

subsection \<open>What the loop collects\<close>

text \<open>
  The values a name has in the query, in order, and what the object holds for it: leading
  valueless occurrences are forgotten, a single value stays a string, more make an array.
\<close>

definition key_of :: "ustr \<Rightarrow> ustr" where
  "key_of p = hd (split_on eqs p)"

definition val_of :: "ustr \<Rightarrow> ustr option" where
  "val_of p = js_get (split_on eqs p) 1"

definition values_for :: "ustr \<Rightarrow> ustr list \<Rightarrow> ustr option list" where
  "values_for k ps = map val_of (filter (\<lambda>p. key_of p = k) ps)"

definition collapse :: "ustr option list \<Rightarrow> arg_value" where
  "collapse vs =
     (case dropWhile (\<lambda>v. v = None) vs of
        [] \<Rightarrow> Undefined
      | [v] \<Rightarrow> of_undefined v
      | ws \<Rightarrow> Arr ws)"

lemma collapse_Nil [simp]: "collapse [] = Undefined"
  by (simp add: collapse_def)

lemma dropWhile_None_snoc:
  "dropWhile (\<lambda>v. v = None) (vs @ [v]) =
     (if \<forall>x \<in> set vs. x = None then dropWhile (\<lambda>v. v = None) [v]
      else dropWhile (\<lambda>v. v = None) vs @ [v])"
  by (induction vs) auto

lemma collapse_snoc:
  "collapse (vs @ [v]) =
     (case collapse vs of
        Undefined \<Rightarrow> of_undefined v
      | Str s \<Rightarrow> Arr [Some s, v]
      | Arr ws \<Rightarrow> Arr (ws @ [v]))"
proof (cases "dropWhile (\<lambda>v. v = None) vs")
  case Nil
  then have "\<forall>x \<in> set vs. x = None" by (simp add: dropWhile_eq_Nil_conv)
  then have "collapse (vs @ [v]) = of_undefined v"
    by (cases v) (simp_all add: collapse_def dropWhile_None_snoc of_undefined_def)
  moreover have "collapse vs = Undefined" using Nil unfolding collapse_def by (simp del: dropWhile_eq_Nil_conv)
  ultimately show ?thesis by simp
next
  case (Cons w ws)
  have "w \<noteq> None" using hd_dropWhile [of "\<lambda>v. v = None" vs] unfolding Cons by simp
  then obtain s where w: "w = Some s" by blast
  have "dropWhile (\<lambda>v. v = None) (vs @ [v]) = (w # ws) @ [v]"
  proof -
    have "\<not> (\<forall>x \<in> set vs. x = None)" using Cons by (simp add: dropWhile_eq_Nil_conv [symmetric])
    then show ?thesis using Cons by (simp only: dropWhile_None_snoc if_False)
  qed
  then have "collapse (vs @ [v]) = Arr ((w # ws) @ [v])"
    by (cases ws) (simp_all add: collapse_def)
  moreover have "collapse vs = (if ws = [] then Str s else Arr (w # ws))"
    using Cons w by (cases ws) (simp_all add: collapse_def of_undefined_def)
  ultimately show ?thesis using w by simp
qed

definition holds_values :: "(ustr, arg_value) obj \<Rightarrow> ustr list \<Rightarrow> bool" where
  "holds_values args qs \<longleftrightarrow>
     (\<forall>k. map_of args k = (if k \<in> key_of ` set qs then Some (collapse (values_for k qs)) else None))"

lemma values_for_snoc:
  "values_for k (qs @ [p]) = values_for k qs @ (if key_of p = k then [val_of p] else [])"
  by (simp add: values_for_def)

lemma add_param_step:
  assumes "holds_values args qs" and "key_of p \<notin> set proto_names"
  shows "\<exists>args'. add_param args p = Inr args' \<and> holds_values args' (qs @ [p])"
proof -
  let ?k = "key_of p" and ?v = "val_of p"
  have none: "values_for ?k qs = []" if "?k \<notin> key_of ` set qs"
    using that by (simp add: values_for_def filter_empty_conv) (metis imageI)
  have "add_param args p = Inr (obj_set ?k (collapse (values_for ?k qs @ [?v])) args)"
  proof (cases "?k \<in> key_of ` set qs")
    case True
    then have "map_of args ?k = Some (collapse (values_for ?k qs))"
      using assms(1) by (simp add: holds_values_def)
    then show ?thesis
      by (simp add: add_param_def Let_def collapse_snoc key_of_def [symmetric] val_of_def [symmetric]
          split: arg_value.splits)
  next
    case False
    then have "map_of args ?k = None" using assms(1) by (simp add: holds_values_def)
    then show ?thesis
      using assms(2) none [OF False]
      by (simp add: add_param_def Let_def collapse_snoc [of "[]", simplified] key_of_def [symmetric]
          val_of_def [symmetric])
  qed
  moreover have "holds_values (obj_set ?k (collapse (values_for ?k qs @ [?v])) args) (qs @ [p])"
    using assms(1) by (auto simp: holds_values_def map_of_obj_set values_for_snoc)
  ultimately show ?thesis by blast
qed

lemma add_param_proto:
  assumes "holds_values args qs" and "\<forall>q \<in> set qs. key_of q \<notin> set proto_names"
    and "key_of p \<in> set proto_names"
  shows "add_param args p = Inl TypeError"
proof -
  have "key_of p \<notin> key_of ` set qs" using assms(2,3) by (metis imageE)
  then have "map_of args (key_of p) = None" using assms(1) by (simp add: holds_values_def)
  then show ?thesis
    using assms(3) by (simp add: add_param_def Let_def key_of_def [symmetric])
qed

lemma add_params_collect:
  assumes "holds_values args qs" and "\<forall>p \<in> set ps. key_of p \<notin> set proto_names"
  shows "\<exists>args'. add_params args ps = Inr args' \<and> holds_values args' (qs @ ps)"
  using assms
proof (induction ps arbitrary: args qs)
  case (Cons p ps)
  then obtain args' where "add_param args p = Inr args'" "holds_values args' (qs @ [p])"
    using add_param_step [of args qs p] by auto
  then show ?case using Cons.IH [of args' "qs @ [p]"] Cons.prems(2) by simp
qed simp

lemma add_params_proto:
  assumes "holds_values args qs" and "\<forall>q \<in> set qs. key_of q \<notin> set proto_names"
    and "\<exists>p \<in> set ps. key_of p \<in> set proto_names"
  shows "add_params args ps = Inl TypeError"
  using assms
proof (induction ps arbitrary: args qs)
  case (Cons p ps)
  show ?case
  proof (cases "key_of p \<in> set proto_names")
    case True
    then show ?thesis using add_param_proto [OF Cons.prems(1,2)] by simp
  next
    case False
    then obtain args' where "add_param args p = Inr args'" "holds_values args' (qs @ [p])"
      using add_param_step [OF Cons.prems(1)] by blast
    then show ?thesis using Cons.IH [of args' "qs @ [p]"] Cons.prems False by auto
  qed
qed simp

lemma holds_values_Nil: "holds_values [] []"
  by (simp add: holds_values_def)

lemma getJsParam_query:
  assumes "63 \<notin> set page" and "63 \<notin> set query"
  shows "getJsParam (srcs @ [page @ 63 # query]) = add_params [] (split_on amp query)"
  using assms
  by (simp add: getJsParam_def js_get_def split_on_append split_on_plain nth_append)

text \<open>
  \<open>getJsParam\<close> of a script address with one query maps every name to all its values: a single
  value is the string itself, several become an array in order of appearance, and leading
  occurrences without a value are dropped. If a name is one every object inherits, such as
  \<open>toString\<close>, it throws a \<open>TypeError\<close>.
\<close>

theorem getJsParam_collects:
  assumes "63 \<notin> set page" and "63 \<notin> set query"
  shows "if \<exists>p \<in> set (split_on amp query). key_of p \<in> set proto_names
     then getJsParam (srcs @ [page @ 63 # query]) = Inl TypeError
     else \<exists>args. getJsParam (srcs @ [page @ 63 # query]) = Inr args \<and>
       (\<forall>k. map_of args k =
          (if k \<in> key_of ` set (split_on amp query)
           then Some (collapse (values_for k (split_on amp query))) else None))"
  using add_params_proto [OF holds_values_Nil, of "split_on amp query"]
    add_params_collect [OF holds_values_Nil, of "split_on amp query"]
  unfolding getJsParam_query [OF assms] by (simp add: holds_values_def)

theorem getJsParam_collects_witness:
  "\<exists>args. getJsParam [lit ''a.js'', lit ''/init.js'' @ 63 # lit ''ver=1&ver=2''] = Inr args \<and>
     map_of args (lit ''ver'') = Some (Arr [Some (lit ''1''), Some (lit ''2'')])"
proof -
  have "split_on amp (lit ''ver=1&ver=2'') = [lit ''ver=1'', lit ''ver=2'']"
    by (simp add: lit_def amp_def)
  moreover have "split_on eqs (lit ''ver=1'') = [lit ''ver'', lit ''1'']"
    "split_on eqs (lit ''ver=2'') = [lit ''ver'', lit ''2'']"
    by (simp_all add: lit_def eqs_def)
  moreover have "lit ''ver'' \<notin> set proto_names" by (simp add: proto_names_def)
  ultimately show ?thesis
    using getJsParam_collects [of "lit ''/init.js''" "lit ''ver=1&ver=2''" "[lit ''a.js'']"]
    by (auto simp: lit_def key_of_def val_of_def values_for_def collapse_def js_get_def)
qed

end
