(* ===== verification/StatScripts.thy ===== *)
theory StatScripts
  imports AdMobile JsParam
begin

section \<open>The statistics scripts of the ad server's pages\<close>

text \<open>
  \<open>initstat_4sh.js\<close> and \<open>vldsp_4sh.js\<close> ask the server whether an impression must be counted and
  load \<open>stat_4sh.js\<close> or \<open>vlstat_4sh.js\<close>, which report the page view and the clicks. The page's
  hidden inputs are the argument \<open>vals\<close> (\<open>None\<close>: no such element), the synchronous request is the
  parameter \<open>http\<close>.
\<close>

subsection \<open>unescape\<close>

primrec hex_run :: "nat \<Rightarrow> nat \<Rightarrow> ustr \<Rightarrow> (nat \<times> ustr) option" where
  "hex_run 0 acc s = Some (acc, s)"
| "hex_run (Suc n) acc s =
     (case s of [] \<Rightarrow> None
      | c # r \<Rightarrow> (case hex_val c of None \<Rightarrow> None | Some d \<Rightarrow> hex_run n (16 * acc + d) r))"

text \<open>After a percent sign: \<open>uXXXX\<close> or \<open>XX\<close>; \<open>u\<close> itself is no hexadecimal digit.\<close>

definition escape_at :: "ustr \<Rightarrow> (nat \<times> ustr) option" where
  "escape_at r =
     (case r of [] \<Rightarrow> None
      | c # r' \<Rightarrow> if c = 117 then hex_run 4 0 r' else hex_run 2 0 r)"

lemma hex_run_length: "hex_run n acc s = Some (v, r) \<Longrightarrow> length r \<le> length s"
  by (induction n arbitrary: acc s) (fastforce split: list.splits option.splits)+

lemma escape_at_length: "escape_at s = Some (v, r) \<Longrightarrow> length r \<le> length s"
  by (auto simp: escape_at_def split: list.splits if_splits dest!: hex_run_length)

function unescape :: "ustr \<Rightarrow> ustr" where
  "unescape [] = []"
| "unescape (c # s) =
     (if c = percent then
        (case escape_at s of
           Some (v, r) \<Rightarrow> of_nat v # unescape r
         | None \<Rightarrow> c # unescape s)
      else c # unescape s)"
  by pat_completeness auto
termination
  by (relation "measure length") (auto dest: escape_at_length)

definition no_escape :: "ustr \<Rightarrow> bool" where
  "no_escape t \<longleftrightarrow> t = [] \<or> hex_val (hd t) = None \<and> hd t \<noteq> 117"

lemma hex_run_append:
  assumes "t = [] \<or> hex_val (hd t) = None"
  shows "hex_run n acc (s @ t) = map_option (\<lambda>(v, r). (v, r @ t)) (hex_run n acc s)"
proof (induction n arbitrary: acc s)
  case (Suc n)
  show ?case
  proof (cases s)
    case Nil
    then show ?thesis using assms by (cases t) auto
  next
    case (Cons c r)
    then show ?thesis using Suc by (auto split: option.splits)
  qed
qed simp

lemma escape_at_append:
  assumes "no_escape t"
  shows "escape_at (s @ t) = map_option (\<lambda>(v, r). (v, r @ t)) (escape_at s)"
proof (cases s)
  case Nil
  then show ?thesis
    using assms by (cases t) (auto simp: escape_at_def no_escape_def numeral_2_eq_2)
next
  case (Cons c r)
  then show ?thesis
    using hex_run_append [of t 2 0 "c # r"] hex_run_append [of t 4 0 r] assms
    by (auto simp: escape_at_def no_escape_def)
qed

lemma unescape_append: "no_escape t \<Longrightarrow> unescape (s @ t) = unescape s @ unescape t"
proof (induction s rule: unescape.induct)
  case (2 c s)
  then show ?case by (auto simp: escape_at_append split: option.splits)
qed simp

lemma unescape_plain: "percent \<notin> set s \<Longrightarrow> unescape s = s"
  by (induction s) auto

text \<open>A complete escape in front, read off symbol by symbol.\<close>

lemma unescape_plain_append: "percent \<notin> set s \<Longrightarrow> unescape (s @ t) = s @ unescape t"
  by (induction s) auto

subsection \<open>Asking the server\<close>

text \<open>
  What the browser offers for requests, and the answer to a synchronous GET: status and text, or
  \<open>None\<close> where \<open>send\<close> throws.
\<close>

record requests =
  has_activex :: bool
  has_xhr :: bool
  http :: "ustr \<Rightarrow> (nat \<times> ustr) option"

text \<open>\<open>"".open(..)\<close> throws in a browser with neither. The status decides what is returned.\<close>

definition sync_get :: "requests \<Rightarrow> ustr \<Rightarrow> (ustr \<Rightarrow> page cmd) \<Rightarrow> page cmd" where
  "sync_get rq url k p =
     (if \<not> has_activex rq \<and> \<not> has_xhr rq then (Some TypeError, p)
      else let q = p\<lparr>sent := sent p @ [url]\<rparr>
           in case http rq url of
                None \<Rightarrow> (Some NetworkError, q)
              | Some (status, text) \<Rightarrow> k (if status = 200 then text else []) q)"

type_synonym inputs = "ustr \<Rightarrow> ustr option"

text \<open>\<open>document.getElementById(i).value\<close>\<close>

definition with_value :: "inputs \<Rightarrow> string \<Rightarrow> (ustr \<Rightarrow> page cmd) \<Rightarrow> page cmd" where
  "with_value vals i k = (case vals (lit i) of None \<Rightarrow> throw TypeError | Some v \<Rightarrow> k v)"

definition pvneed_url :: "ustr \<Rightarrow> ustr \<Rightarrow> ustr \<Rightarrow> nat \<Rightarrow> ustr \<Rightarrow> ustr \<Rightarrow> ustr" where
  "pvneed_url imp nht ad ts referer user = concat
     [lit ''/ad/pvneed?impuuid='', imp, lit ''&isHaveNHTStat='', nht, lit ''&adId='', ad,
      lit ''&ts='', lit (dec_of_nat ts), lit ''&referer='', referer, lit ''&userId='', user]"

definition isExecStatCode ::
  "browser \<Rightarrow> requests \<Rightarrow> inputs \<Rightarrow> ustr option \<Rightarrow> ustr \<Rightarrow> ustr \<Rightarrow> ustr \<Rightarrow> (ustr \<Rightarrow> page cmd) \<Rightarrow> page cmd" where
  "isExecStatCode b rq vals docRef ad imp user k =
     with_value vals ''adforcerReferer'' (\<lambda>afr. with_now b (\<lambda>ts.
       sync_get rq (pvneed_url imp [] ad ts (pick_referrer (Some afr) docRef) user) k))"

definition isExecStatCode_vldsp ::
  "browser \<Rightarrow> requests \<Rightarrow> inputs \<Rightarrow> ustr option \<Rightarrow> ustr \<Rightarrow> ustr \<Rightarrow> ustr \<Rightarrow> ustr \<Rightarrow> (ustr \<Rightarrow> page cmd) \<Rightarrow> page cmd" where
  "isExecStatCode_vldsp b rq vals docRef ad imp nht user k =
     with_value vals ''adforcerReferer'' (\<lambda>afr. with_now b (\<lambda>ts.
       sync_get rq (pvneed_url imp nht ad ts (pick_referrer (Some afr) docRef) user) k))"

subsection \<open>Loading the statistics script\<close>

text \<open>\<open>jsParam["ver"]\<close> in a concatenation: \<open>undefined\<close>, the string, or the array's elements joined by commas.\<close>

definition arg_text :: "arg_value \<Rightarrow> ustr" where
  "arg_text v =
     (case v of
        Undefined \<Rightarrow> lit ''undefined''
      | Str s \<Rightarrow> s
      | Arr vs \<Rightarrow> join_on 44 (map or_empty vs))"

definition ver_text :: "(ustr, arg_value) obj \<Rightarrow> ustr" where
  "ver_text jsParam =
     arg_text (case map_of jsParam (lit ''ver'') of None \<Rightarrow> Undefined | Some v \<Rightarrow> v)"

definition stat_div :: "ustr \<Rightarrow> ustr" where
  \<open>stat_div isneedesc = concat
     [lit ''<div style='display: none;' id='statdiv' >'', isneedesc, lit ''<div>'']\<close>

definition script_tag :: "ustr \<Rightarrow> ustr \<Rightarrow> ustr" where
  \<open>script_tag address ver = unescape (concat
     [lit ''%3Cscript src='', [39], address, lit ''?ver='', ver,
      lit '' type='text/javascript'%3E%3C/script%3E''])\<close>

definition initstat_main :: "browser \<Rightarrow> requests \<Rightarrow> inputs \<Rightarrow> ustr option \<Rightarrow> page cmd" where
  "initstat_main b rq vals docRef p =
     with_value vals ''isCollect'' (\<lambda>iscollect. with_value vals ''adId'' (\<lambda>ad.
     with_value vals ''impuuid'' (\<lambda>imp. with_value vals ''userId'' (\<lambda>user.
     guarded (getJsParam (scripts p)) (\<lambda>jsParam.
     isExecStatCode b rq vals docRef ad imp user (\<lambda>isneedesc.
       if isneedesc \<noteq> lit ''-1'' \<and> iscollect = lit ''1'' then block
         [doc_write b (stat_div isneedesc),
          doc_write b (script_tag (lit ''http://static.1haofan.com/static/js/stat_4sh.js'') (ver_text jsParam))]
       else skip)))))) p"

definition vldsp_main :: "browser \<Rightarrow> requests \<Rightarrow> inputs \<Rightarrow> ustr option \<Rightarrow> page cmd" where
  "vldsp_main b rq vals docRef p =
     with_value vals ''isCollect'' (\<lambda>iscollect. with_value vals ''adId'' (\<lambda>ad.
     with_value vals ''impuuid'' (\<lambda>imp. with_value vals ''isHaveNHTStat'' (\<lambda>nht.
     with_value vals ''userId'' (\<lambda>user.
     guarded (getJsParam_vldsp (scripts p)) (\<lambda>jsParam.
     isExecStatCode_vldsp b rq vals docRef ad imp nht user (\<lambda>isneedesc.
       if isneedesc \<noteq> lit ''-1'' \<and> iscollect = lit ''1'' then block
         [doc_write b (stat_div isneedesc),
          doc_write b (script_tag (lit ''http://static.sxite.com/static/js/vlstat_4sh.js'') (ver_text jsParam))]
       else skip))))))) p"

text \<open>\<open>vldsp_4sh.js\<close>: a link gets its target only once the mouse has moved over the ad.\<close>

definition adhtmlover :: "bool \<Rightarrow> bool" where
  "adhtmlover isMove = True"

definition targetClick :: "bool \<Rightarrow> ustr \<Rightarrow> ustr \<Rightarrow> ustr" where
  "targetClick isMove url href = (if isMove then url else href)"

subsection \<open>Reporting the page view\<close>

record stat_page =
  sp_inputs :: stat_inputs
  pv_collect_url :: ustr
  click_collect_url :: ustr

definition read_stat_page :: "inputs \<Rightarrow> ustr option \<Rightarrow> (stat_page \<Rightarrow> page cmd) \<Rightarrow> page cmd" where
  "read_stat_page vals docRef k =
     with_value vals ''adId'' (\<lambda>ad. with_value vals ''materialId'' (\<lambda>mat.
     with_value vals ''pv_collect_url'' (\<lambda>pv. with_value vals ''click_collect_url'' (\<lambda>click.
     with_value vals ''userId'' (\<lambda>user. with_value vals ''adforcerReferer'' (\<lambda>afr.
     with_value vals ''impuuid'' (\<lambda>imp.
       k \<lparr>sp_inputs = \<lparr>in_adId = Some ad, in_materialId = Some mat, in_userId = Some user,
             in_impuuid = Some imp, in_adforcerReferer = Some afr, in_docReferrer = docRef\<rparr>,
          pv_collect_url = pv, click_collect_url = click\<rparr>)))))))"

definition stat_main :: "browser \<Rightarrow> bool \<Rightarrow> inputs \<Rightarrow> ustr option \<Rightarrow> page cmd" where
  "stat_main b attachEvent vals docRef = read_stat_page vals docRef (\<lambda>st. block
     [track_if_present track_stat (lit ''vframe'') VframeClick,
      (\<lambda>p. addEvent_stat attachEvent (by_id p (lit ''responseUrl'')) ''click'' p),
      with_args b (getArgs_stat (sp_inputs st)) (\<lambda>args. pixel (pv_collect_url st @ args))])"

definition stat_frame_click :: "browser \<Rightarrow> stat_page \<Rightarrow> page cmd" where
  "stat_frame_click b st = with_args b (getArgs_stat (sp_inputs st)) (\<lambda>args.
     pixel (concat [click_collect_url st, args, lit ''&pos=vframe'']))"

definition stat_click :: "browser \<Rightarrow> viewport \<Rightarrow> stat_page \<Rightarrow> mouse_event \<Rightarrow> page cmd" where
  "stat_click b v st ev =
     (let pos = position_text (getPosition_stat v ev)
      in with_args b (getArgs_stat (sp_inputs st)) (\<lambda>args.
           pixel (concat [click_collect_url st, args, lit ''&pos='', pos])))"

definition vlstat_main :: "browser \<Rightarrow> bool \<Rightarrow> inputs \<Rightarrow> ustr option \<Rightarrow> page cmd" where
  "vlstat_main b attachEvent vals docRef = read_stat_page vals docRef (\<lambda>st. block
     [track_if_present track_vlstat (lit ''vframe'') VframeClick,
      (\<lambda>p. addEvent_vlstat attachEvent (by_id p (lit ''responseUrl'')) ''click'' p),
      with_args b (getArgs_vlstat (sp_inputs st)) (\<lambda>args. pixel (pv_collect_url st @ args))])"

definition vlstat_frame_click :: "browser \<Rightarrow> stat_page \<Rightarrow> page cmd" where
  "vlstat_frame_click b st = with_args b (getArgs_vlstat (sp_inputs st)) (\<lambda>args.
     pixel (concat [click_collect_url st, args, lit ''&pos=vframe'']))"

definition vlstat_click :: "browser \<Rightarrow> viewport \<Rightarrow> stat_page \<Rightarrow> mouse_event \<Rightarrow> page cmd" where
  "vlstat_click b v st ev =
     (let pos = position_text (getPosition_vlstat v ev)
      in with_args b (getArgs_vlstat (sp_inputs st)) (\<lambda>args.
           pixel (concat [click_collect_url st, args, lit ''&pos='', pos])))"

subsection \<open>Properties\<close>

lemma unescape_octet:
  assumes "hex_val c = Some x" "hex_val d = Some y" "c \<noteq> 117"
  shows "unescape (37 # c # d # r) = of_nat (16 * x + y) # unescape r"
proof -
  have "escape_at (c # d # r) = Some (16 * x + y, r)"
    using assms by (simp add: escape_at_def numeral_2_eq_2)
  then show ?thesis by (simp add: percent_def)
qed

lemma hex_values: "hex_val 51 = Some 3" "hex_val 67 = Some 12" "hex_val 69 = Some 14" "hex_val 32 = None"
  by (simp_all add: hex_val_def)

lemma unescape_3C: "unescape (lit ''%3C'' @ r) = lit ''<'' @ unescape r"
  using unescape_octet [OF hex_values(1,2), of r] by (simp add: lit_def)

lemma unescape_3E: "unescape (lit ''%3E'' @ r) = lit ''>'' @ unescape r"
  using unescape_octet [OF hex_values(1,3), of r] by (simp add: lit_def)

lemma unescape_lit: "CHR ''%'' \<notin> set s \<Longrightarrow> unescape (lit s @ t) = lit s @ unescape t"
proof (rule unescape_plain_append)
  assume s: "CHR ''%'' \<notin> set s"
  have p: "percent = of_char (CHR ''%'')" by (simp add: percent_def)
  show "percent \<notin> set (lit s)"
    unfolding p lit_def set_map using s by (metis (no_types) imageE of_char_16_eq_iff)
qed

lemma no_escape_space: "no_escape (32 # t)"
  by (simp add: no_escape_def hex_values)

lemma script_tag_eq:
  assumes "CHR ''%'' \<notin> set address"
  shows \<open>script_tag (lit address) ver = concat
     [lit ''<script src='', [39], lit address, lit ''?ver='', unescape ver,
      lit '' type='text/javascript'></script>'']\<close>
proof -
  have close: \<open>lit '' type='text/javascript'%3E%3C/script%3E'' = lit '' type='text/javascript''
      @ 39 # lit ''%3E'' @ lit ''%3C'' @ lit ''/script'' @ lit ''%3E'' @ []\<close>
    by (simp add: lit_def)
  have sp: \<open>lit '' type='text/javascript'' @ t = 32 # lit ''type='text/javascript'' @ t\<close> for t
    by (simp add: lit_def)
  have quote: "unescape (39 # t) = 39 # unescape t" for t
    by (simp add: percent_def)
  have start: \<open>lit ''%3Cscript src='' @ t = lit ''%3C'' @ lit ''script src='' @ t\<close> for t
    by (simp add: lit_def)
  have tail: \<open>unescape (ver @ lit '' type='text/javascript'%3E%3C/script%3E'') =
      unescape ver @ lit '' type='text/javascript'></script>''\<close>
  proof -
    have \<open>unescape (lit '' type='text/javascript'%3E%3C/script%3E'') =
        lit '' type='text/javascript'></script>''\<close>
      unfolding close by (simp add: unescape_lit unescape_3C unescape_3E quote
          del: append_Nil2 unescape.simps(2))
        (simp add: lit_def)
    moreover have \<open>no_escape (lit '' type='text/javascript'%3E%3C/script%3E'')\<close>
      unfolding close sp by (rule no_escape_space)
    ultimately show ?thesis by (simp add: unescape_append)
  qed
  show ?thesis
    unfolding script_tag_def concat.simps append_Nil2 append_assoc append_Cons append_Nil
    by (simp add: start unescape_3C unescape_lit quote assms tail del: unescape.simps(2)) (simp add: lit_def)
qed

text \<open>
  \<open>initstat_4sh.js\<close> loads the statistics script exactly when the page is to be collected and
  the server did not answer -1; any status but 200 counts as an empty answer, which is not -1. The
  script tag carries the \<open>ver\<close> of the script's own address, unescaped, as it stands.
\<close>

theorem initstat_loads:
  assumes "vals (lit ''isCollect'') = Some c" "vals (lit ''adId'') = Some ad"
    "vals (lit ''impuuid'') = Some imp" "vals (lit ''userId'') = Some user"
    "vals (lit ''adforcerReferer'') = Some afr"
    and "getJsParam (scripts p) = Inr jsParam" and "has_xhr rq"
    and "\<And>url. http rq url = Some (status, text)"
  shows "\<exists>p'. initstat_main b rq vals docRef p = (None, p') \<and>
     sent p' = sent p @ [pvneed_url imp [] ad (clk b (ticks p)) (pick_referrer (Some afr) docRef) user] \<and>
     doc p' = doc p @
       (if c = lit ''1'' \<and> \<not> (status = 200 \<and> text = lit ''-1'')
        then [stat_div (if status = 200 then text else []),
              concat [lit ''<script src='', [39], lit ''http://static.1haofan.com/static/js/stat_4sh.js'',
                lit ''?ver='', unescape (ver_text jsParam), lit '' type='' @ [39] @ lit ''text/javascript'' @ [39] @
                lit ''></script>'']]
        else [])"
proof -
  let ?reply = "if status = 200 then text else []"
  let ?url = "pvneed_url imp [] ad (clk b (ticks p)) (pick_referrer (Some afr) docRef) user"
  let ?q = "p\<lparr>ticks := Suc (ticks p), sent := sent p @ [?url]\<rparr>"
  let ?tag = "script_tag (lit ''http://static.1haofan.com/static/js/stat_4sh.js'') (ver_text jsParam)"
  have tag: "?tag = concat [lit ''<script src='', [39], lit ''http://static.1haofan.com/static/js/stat_4sh.js'',
      lit ''?ver='', unescape (ver_text jsParam), lit '' type='' @ [39] @ lit ''text/javascript'' @ [39] @
      lit ''></script>'']"
    by (subst script_tag_eq) (simp_all add: lit_def)
  have run: "initstat_main b rq vals docRef p =
      (if ?reply \<noteq> lit ''-1'' \<and> c = lit ''1'' then block [doc_write b (stat_div ?reply), doc_write b ?tag] ?q
       else skip ?q)"
    using assms by (simp add: initstat_main_def with_value_def isExecStatCode_def with_now_def
        sync_get_def Let_def del: block.simps)
  have reply: "?reply \<noteq> lit ''-1'' \<longleftrightarrow> \<not> (status = 200 \<and> text = lit ''-1'')" by simp
  show ?thesis
  proof (cases "?reply \<noteq> lit ''-1'' \<and> c = lit ''1''")
    case True
    let ?r = "snd (doc_write b ?tag (snd (doc_write b (stat_div ?reply) ?q)))"
    have "initstat_main b rq vals docRef p = (None, ?r)"
      unfolding run using True adds_doc(1) by (simp add: andthen_write)
    moreover have "sent ?r = sent p @ [?url]" "doc ?r = doc p @ [stat_div ?reply, ?tag]"
      by (simp_all add: effects)
    ultimately show ?thesis using True reply tag by (intro exI [of _ ?r]) simp
  next
    case False
    then have "initstat_main b rq vals docRef p = (None, ?q)" unfolding run by (simp only: if_False skip_apply)
    moreover have "\<not> (c = lit ''1'' \<and> \<not> (status = 200 \<and> text = lit ''-1''))"
      using False unfolding reply by blast
    ultimately show ?thesis by (intro exI [of _ ?q]) simp
  qed
qed

definition sample_inputs :: inputs where
  "sample_inputs i =
     (if i = lit ''isCollect'' then Some (lit ''1'')
      else if i \<in> lit ` {''adId'', ''impuuid'', ''userId'', ''adforcerReferer'', ''materialId'',
        ''pv_collect_url'', ''click_collect_url''}
      then Some (lit ''x'') else None)"

theorem initstat_loads_witness:
  "\<exists>p'. initstat_main sample_browser \<lparr>has_activex = False, has_xhr = True, http = (\<lambda>u. Some (500, []))\<rparr>
       sample_inputs None (blank_page\<lparr>scripts := [lit ''a.js'' @ 63 # lit ''ver=3'']\<rparr>) = (None, p') \<and>
     length (doc p') = 2"
proof -
  have "add_params [] (split_on amp (lit ''ver=3'')) = Inr [(lit ''ver'', Str (lit ''3''))]"
    by (simp add: lit_def amp_def eqs_def add_param_def proto_names_def js_get_def of_undefined_def)
  then have "getJsParam [lit ''a.js'' @ 63 # lit ''ver=3''] = Inr [(lit ''ver'', Str (lit ''3''))]"
    using getJsParam_query [of "lit ''a.js''" "lit ''ver=3''" "[]"] by (simp add: lit_def)
  then show ?thesis
    using initstat_loads [of sample_inputs "lit ''1''" "lit ''x''" "lit ''x''" "lit ''x''" "lit ''x''"
        "blank_page\<lparr>scripts := [lit ''a.js'' @ 63 # lit ''ver=3'']\<rparr>" "[(lit ''ver'', Str (lit ''3''))]"
        "\<lparr>has_activex = False, has_xhr = True, http = (\<lambda>u. Some (500, []))\<rparr>" 500 "[]" sample_browser None]
    by (auto simp: sample_inputs_def blank_page_def)
qed

end
