(* ===== verification/Md5.thy ===== *)
theory Md5
  imports Uri
begin

section \<open>The MD5 plugin\<close>

text \<open>
  \<open>jQuery.md5.js\<close>, with which the login page hashes the password. Every number of the
  computation is only ever read by bit operators, so it is its \<open>ToInt32\<close> class: a 32-bit word. The
  array's holes read as \<open>undefined\<close>, which these operators take as 0. The reference is
  RFC 1321: the padding as octets, the 64 steps as a loop over rotating variables.
\<close>

unbundle bit_operations_syntax

type_synonym w32 = "32 word"

definition rotateLeft :: "w32 \<Rightarrow> nat \<Rightarrow> w32" where
  "rotateLeft lValue iShiftBits = push_bit iShiftBits lValue OR drop_bit (32 - iShiftBits) lValue"

definition addUnsigned :: "w32 \<Rightarrow> w32 \<Rightarrow> w32" where
  "addUnsigned lX lY =
     (let lX8 = lX AND 0x80000000; lY8 = lY AND 0x80000000;
          lX4 = lX AND 0x40000000; lY4 = lY AND 0x40000000;
          lResult = (lX AND 0x3FFFFFFF) + (lY AND 0x3FFFFFFF)
      in if lX4 AND lY4 \<noteq> 0 then lResult XOR 0x80000000 XOR lX8 XOR lY8
         else if lX4 OR lY4 \<noteq> 0 then
           (if lResult AND 0x40000000 \<noteq> 0 then lResult XOR 0xC0000000 XOR lX8 XOR lY8
            else lResult XOR 0x40000000 XOR lX8 XOR lY8)
         else lResult XOR lX8 XOR lY8)"

definition md5_F :: "w32 \<Rightarrow> w32 \<Rightarrow> w32 \<Rightarrow> w32" where
  "md5_F x y z = (x AND y) OR (NOT x AND z)"

definition md5_G :: "w32 \<Rightarrow> w32 \<Rightarrow> w32 \<Rightarrow> w32" where
  "md5_G x y z = (x AND z) OR (y AND NOT z)"

definition md5_H :: "w32 \<Rightarrow> w32 \<Rightarrow> w32 \<Rightarrow> w32" where
  "md5_H x y z = x XOR y XOR z"

definition md5_I :: "w32 \<Rightarrow> w32 \<Rightarrow> w32 \<Rightarrow> w32" where
  "md5_I x y z = y XOR (x OR NOT z)"

definition FF :: "w32 \<Rightarrow> w32 \<Rightarrow> w32 \<Rightarrow> w32 \<Rightarrow> w32 \<Rightarrow> nat \<Rightarrow> w32 \<Rightarrow> w32" where
  "FF a b c d x s ac =
     (let a = addUnsigned a (addUnsigned (addUnsigned (md5_F b c d) x) ac) in addUnsigned (rotateLeft a s) b)"

definition GG :: "w32 \<Rightarrow> w32 \<Rightarrow> w32 \<Rightarrow> w32 \<Rightarrow> w32 \<Rightarrow> nat \<Rightarrow> w32 \<Rightarrow> w32" where
  "GG a b c d x s ac =
     (let a = addUnsigned a (addUnsigned (addUnsigned (md5_G b c d) x) ac) in addUnsigned (rotateLeft a s) b)"

definition HH :: "w32 \<Rightarrow> w32 \<Rightarrow> w32 \<Rightarrow> w32 \<Rightarrow> w32 \<Rightarrow> nat \<Rightarrow> w32 \<Rightarrow> w32" where
  "HH a b c d x s ac =
     (let a = addUnsigned a (addUnsigned (addUnsigned (md5_H b c d) x) ac) in addUnsigned (rotateLeft a s) b)"

definition II :: "w32 \<Rightarrow> w32 \<Rightarrow> w32 \<Rightarrow> w32 \<Rightarrow> w32 \<Rightarrow> nat \<Rightarrow> w32 \<Rightarrow> w32" where
  "II a b c d x s ac =
     (let a = addUnsigned a (addUnsigned (addUnsigned (md5_I b c d) x) ac) in addUnsigned (rotateLeft a s) b)"

subsection \<open>The message as words\<close>

text \<open>The bytes are the code units of the encoded string.\<close>

definition or_byte :: "nat \<Rightarrow> w32 \<Rightarrow> w32 list \<Rightarrow> w32 list" where
  "or_byte lByteCount byte lWordArray =
     (let lWordCount = (lByteCount - lByteCount mod 4) div 4; lBytePosition = lByteCount mod 4 * 8
      in lWordArray[lWordCount := lWordArray ! lWordCount OR push_bit lBytePosition byte])"

fun or_bytes :: "nat \<Rightarrow> ustr \<Rightarrow> w32 list \<Rightarrow> w32 list" where
  "or_bytes lByteCount [] lWordArray = lWordArray"
| "or_bytes lByteCount (c # cs) lWordArray =
     or_bytes (Suc lByteCount) cs (or_byte lByteCount (ucast c) lWordArray)"

definition convertToWordArray :: "ustr \<Rightarrow> w32 list" where
  "convertToWordArray string =
     (let lMessageLength = length string;
          lNumberOfWordsTempOne = lMessageLength + 8;
          lNumberOfWordsTempTwo = (lNumberOfWordsTempOne - lNumberOfWordsTempOne mod 64) div 64;
          lNumberOfWords = (lNumberOfWordsTempTwo + 1) * 16;
          lWordArray = or_bytes 0 string (replicate lNumberOfWords 0);
          lWordArray = or_byte lMessageLength 0x80 lWordArray;
          lWordArray = lWordArray[lNumberOfWords - 2 := push_bit 3 (of_nat lMessageLength)]
      in lWordArray[lNumberOfWords - 1 := drop_bit 29 (of_nat lMessageLength)])"

subsection \<open>Hexadecimal output\<close>

definition hex_char :: "nat \<Rightarrow> char" where
  "hex_char d = (if d < 10 then char_of (48 + d) else char_of (87 + d))"

text \<open>\<open>lByte.toString(16)\<close> for a byte.\<close>

definition hex_text :: "nat \<Rightarrow> string" where
  "hex_text n = (if n < 16 then [hex_char n] else [hex_char (n div 16), hex_char (n mod 16)])"

definition wordToHex :: "w32 \<Rightarrow> string" where
  "wordToHex lValue = concat (map (\<lambda>lCount.
     let lByte = unat (drop_bit (lCount * 8) lValue AND 255);
         WordToHexValueTemp = CHR ''0'' # hex_text lByte
     in drop (length WordToHexValueTemp - 2) WordToHexValueTemp) [0, 1, 2, 3])"

text \<open>\<open>toLowerCase\<close> on the letters that can occur.\<close>

definition lower_char :: "char \<Rightarrow> char" where
  "lower_char c = (let n = of_char c :: nat in if 65 \<le> n \<and> n \<le> 90 then char_of (n + 32) else c)"

subsection \<open>The encoding of the string\<close>

text \<open>\<open>string.replace(/\x0d\x0a/g, "\x0a")\<close>\<close>

fun crlf_to_lf :: "ustr \<Rightarrow> ustr" where
  "crlf_to_lf [] = []"
| "crlf_to_lf [c] = [c]"
| "crlf_to_lf (c # d # s) = (if c = 13 \<and> d = 10 then 10 # crlf_to_lf s else c # crlf_to_lf (d # s))"

definition utf8_unit :: "code_unit \<Rightarrow> ustr" where
  "utf8_unit c =
     (if c < 128 then [c]
      else if c > 127 \<and> c < 2048 then [drop_bit 6 c OR 192, c AND 63 OR 128]
      else [drop_bit 12 c OR 224, drop_bit 6 c AND 63 OR 128, c AND 63 OR 128])"

definition uTF8Encode :: "ustr \<Rightarrow> ustr" where
  "uTF8Encode string = concat (map utf8_unit (crlf_to_lf string))"

subsection \<open>The rounds\<close>

type_synonym md5_state = "w32 \<times> w32 \<times> w32 \<times> w32"
type_synonym md5_round = "w32 \<Rightarrow> w32 \<Rightarrow> w32 \<Rightarrow> w32 \<Rightarrow> w32 \<Rightarrow> nat \<Rightarrow> w32 \<Rightarrow> w32"

text \<open>The four forms of the assignment lines: \<open>a = f(a, b, c, d, x[k+i], s, ac)\<close> and so on.\<close>

definition set_a :: "md5_round \<Rightarrow> nat \<Rightarrow> nat \<Rightarrow> w32 \<Rightarrow> w32 list \<Rightarrow> md5_state \<Rightarrow> md5_state" where
  "set_a f i s ac x = (\<lambda>(a, b, c, d). (f a b c d (x ! i) s ac, b, c, d))"

definition set_d :: "md5_round \<Rightarrow> nat \<Rightarrow> nat \<Rightarrow> w32 \<Rightarrow> w32 list \<Rightarrow> md5_state \<Rightarrow> md5_state" where
  "set_d f i s ac x = (\<lambda>(a, b, c, d). (a, b, c, f d a b c (x ! i) s ac))"

definition set_c :: "md5_round \<Rightarrow> nat \<Rightarrow> nat \<Rightarrow> w32 \<Rightarrow> w32 list \<Rightarrow> md5_state \<Rightarrow> md5_state" where
  "set_c f i s ac x = (\<lambda>(a, b, c, d). (a, b, f c d a b (x ! i) s ac, d))"

definition set_b :: "md5_round \<Rightarrow> nat \<Rightarrow> nat \<Rightarrow> w32 \<Rightarrow> w32 list \<Rightarrow> md5_state \<Rightarrow> md5_state" where
  "set_b f i s ac x = (\<lambda>(a, b, c, d). (a, f b c d a (x ! i) s ac, c, d))"

definition round_lines :: "(w32 list \<Rightarrow> md5_state \<Rightarrow> md5_state) list" where
  "round_lines =
     [set_a FF 0 7 0xD76AA478, set_d FF 1 12 0xE8C7B756,
      set_c FF 2 17 0x242070DB, set_b FF 3 22 0xC1BDCEEE,
      set_a FF 4 7 0xF57C0FAF, set_d FF 5 12 0x4787C62A,
      set_c FF 6 17 0xA8304613, set_b FF 7 22 0xFD469501,
      set_a FF 8 7 0x698098D8, set_d FF 9 12 0x8B44F7AF,
      set_c FF 10 17 0xFFFF5BB1, set_b FF 11 22 0x895CD7BE,
      set_a FF 12 7 0x6B901122, set_d FF 13 12 0xFD987193,
      set_c FF 14 17 0xA679438E, set_b FF 15 22 0x49B40821,
      set_a GG 1 5 0xF61E2562, set_d GG 6 9 0xC040B340,
      set_c GG 11 14 0x265E5A51, set_b GG 0 20 0xE9B6C7AA,
      set_a GG 5 5 0xD62F105D, set_d GG 10 9 0x2441453,
      set_c GG 15 14 0xD8A1E681, set_b GG 4 20 0xE7D3FBC8,
      set_a GG 9 5 0x21E1CDE6, set_d GG 14 9 0xC33707D6,
      set_c GG 3 14 0xF4D50D87, set_b GG 8 20 0x455A14ED,
      set_a GG 13 5 0xA9E3E905, set_d GG 2 9 0xFCEFA3F8,
      set_c GG 7 14 0x676F02D9, set_b GG 12 20 0x8D2A4C8A,
      set_a HH 5 4 0xFFFA3942, set_d HH 8 11 0x8771F681,
      set_c HH 11 16 0x6D9D6122, set_b HH 14 23 0xFDE5380C,
      set_a HH 1 4 0xA4BEEA44, set_d HH 4 11 0x4BDECFA9,
      set_c HH 7 16 0xF6BB4B60, set_b HH 10 23 0xBEBFBC70,
      set_a HH 13 4 0x289B7EC6, set_d HH 0 11 0xEAA127FA,
      set_c HH 3 16 0xD4EF3085, set_b HH 6 23 0x4881D05,
      set_a HH 9 4 0xD9D4D039, set_d HH 12 11 0xE6DB99E5,
      set_c HH 15 16 0x1FA27CF8, set_b HH 2 23 0xC4AC5665,
      set_a II 0 6 0xF4292244, set_d II 7 10 0x432AFF97,
      set_c II 14 15 0xAB9423A7, set_b II 5 21 0xFC93A039,
      set_a II 12 6 0x655B59C3, set_d II 3 10 0x8F0CCC92,
      set_c II 10 15 0xFFEFF47D, set_b II 1 21 0x85845DD1,
      set_a II 8 6 0x6FA87E4F, set_d II 15 10 0xFE2CE6E0,
      set_c II 6 15 0xA3014314, set_b II 13 21 0x4E0811A1,
      set_a II 4 6 0xF7537E82, set_d II 11 10 0xBD3AF235,
      set_c II 2 15 0x2AD7D2BB, set_b II 9 21 0xEB86D391]"

text \<open>One turn of the loop over the words from \<open>k\<close> on.\<close>

definition md5_block :: "w32 list \<Rightarrow> md5_state \<Rightarrow> md5_state" where
  "md5_block x AABBCCDD =
     (case fold (\<lambda>line st. line x st) round_lines AABBCCDD of
        (a, b, c, d) \<Rightarrow> (case AABBCCDD of
          (AA, BB, CC, DD) \<Rightarrow> (addUnsigned a AA, addUnsigned b BB, addUnsigned c CC, addUnsigned d DD)))"

function md5_loop :: "w32 list \<Rightarrow> md5_state \<Rightarrow> md5_state" where
  "md5_loop [] st = st"
| "md5_loop (w # x) st = md5_loop (drop 16 (w # x)) (md5_block (w # x) st)"
  by pat_completeness auto
termination by (relation "measure (\<lambda>(x, st). length x)") auto

definition md5 :: "ustr \<Rightarrow> string" where
  "md5 string =
     (let x = convertToWordArray (uTF8Encode string)
      in case md5_loop x (0x67452301, 0xEFCDAB89, 0x98BADCFE, 0x10325476) of
           (a, b, c, d) \<Rightarrow>
             map lower_char (wordToHex a @ wordToHex b @ wordToHex c @ wordToHex d))"

subsection \<open>The addition and the rotation are those of 32-bit words\<close>

lemma bit_top: "bit (0x80000000 :: w32) n \<longleftrightarrow> n = 31"
proof -
  have "(0x80000000 :: w32) = 2 ^ 31" by simp
  then show ?thesis by (simp only: bit_exp_iff) (auto simp: possible_bit_word)
qed

lemma bit_next: "bit (0x40000000 :: w32) n \<longleftrightarrow> n = 30"
proof -
  have "(0x40000000 :: w32) = 2 ^ 30" by simp
  then show ?thesis by (simp only: bit_exp_iff) (auto simp: possible_bit_word)
qed

lemma bit_low: "bit (0x3FFFFFFF :: w32) n \<longleftrightarrow> n < 30"
proof -
  have "(0x3FFFFFFF :: w32) = mask 30" by (simp add: mask_eq_exp_minus_1)
  then show ?thesis by (simp only: bit_mask_iff) (auto simp: possible_bit_word)
qed

lemmas w32_bits = bit_top bit_next bit_low bit_and_iff bit_or_iff bit_not_iff

lemma and_top: "(x :: w32) AND 0x80000000 = (if bit x 31 then 0x80000000 else 0)"
  by (rule bit_word_eqI) (auto simp: w32_bits simp del: bit_numeral_word_iff)

lemma and_next: "(x :: w32) AND 0x40000000 = (if bit x 30 then 0x40000000 else 0)"
  by (rule bit_word_eqI) (auto simp: w32_bits simp del: bit_numeral_word_iff)

lemma xor_next: "(x :: w32) XOR 0x40000000 = (if bit x 30 then x - 0x40000000 else x + 0x40000000)"
proof (cases "bit x 30")
  case True
  have "0x40000000 AND NOT x = 0"
    by (rule bit_word_eqI) (use True in \<open>auto simp: w32_bits simp del: bit_numeral_word_iff\<close>)
  then have "NOT x AND 0x40000000 = 0" by (simp only: and.commute)
  then have "x - 0x40000000 = x XOR 0x40000000" by (simp only: disjunctive_diff_eq_and_not disjunctive_and_not_eq_xor)
  then show ?thesis using True by simp
next
  case False
  then have "x AND 0x40000000 = 0" unfolding and_next by simp
  then show ?thesis using False by (simp add: disjunctive_add_eq_xor)
qed

lemma xor_top: "(x :: w32) XOR 0x80000000 = x + 0x80000000"
proof (cases "bit x 31")
  case True
  have "NOT x AND 0x80000000 = 0"
    by (rule bit_word_eqI) (use True in \<open>auto simp: w32_bits simp del: bit_numeral_word_iff\<close>)
  then have "x - 0x80000000 = x XOR 0x80000000" by (simp only: disjunctive_diff_eq_and_not disjunctive_and_not_eq_xor)
  moreover have "x - 0x80000000 = x + 0x80000000"
  proof -
    have "(0x80000000 :: w32) + 0x80000000 = 0" by simp
    then show ?thesis by (simp only: diff_eq_eq add.assoc add_0_right)
  qed
  ultimately show ?thesis by (simp only:)
next
  case False
  then have "x AND 0x80000000 = 0" unfolding and_top by simp
  then show ?thesis by (simp add: disjunctive_add_eq_xor)
qed

lemma w32_parts: "(x :: w32) = (x AND 0x80000000) + ((x AND 0x40000000) + (x AND 0x3FFFFFFF))"
proof -
  have low: "n < 30 \<or> n = 30 \<or> n = 31" if "n < 32" for n :: nat using that by arith
  have "(x AND 0x40000000) + (x AND 0x3FFFFFFF) = (x AND 0x40000000) OR (x AND 0x3FFFFFFF)"
    by (rule disjunctive_add_eq_or, rule bit_word_eqI) (auto simp: w32_bits simp del: bit_numeral_word_iff)
  moreover have "(x AND 0x80000000) + ((x AND 0x40000000) OR (x AND 0x3FFFFFFF)) =
      (x AND 0x80000000) OR ((x AND 0x40000000) OR (x AND 0x3FFFFFFF))"
    by (rule disjunctive_add_eq_or, rule bit_word_eqI) (auto simp: w32_bits simp del: bit_numeral_word_iff)
  moreover have "(x AND 0x80000000) OR ((x AND 0x40000000) OR (x AND 0x3FFFFFFF)) = x"
    by (rule bit_word_eqI) (use low in \<open>auto simp: w32_bits simp del: bit_numeral_word_iff\<close>)
  ultimately show ?thesis by simp
qed

text \<open>The addition by parts, with the masks as letters: \<open>T\<close> the top bit, \<open>N\<close> the next.\<close>

lemma add_by_parts:
  fixes T N r :: w32
  assumes "T + T = 0" "N + N = T" "N \<noteq> 0"
  shows "(if p \<and> q then r + T + X + Y
          else if p \<or> q then (if c then r - N + T + X + Y else r + N + X + Y)
          else r + X + Y) =
    X + Y + ((if p then N else 0) + (if q then N else 0) + r)"
proof -
  have "N + N + r = r + T" "r - N + T = N + r" using assms(2) by (simp_all add: algebra_simps)
  then show ?thesis by (auto simp: algebra_simps)
qed

lemma addUnsigned_eq: "addUnsigned x y = x + y"
proof -
  define r where "r = (x AND 0x3FFFFFFF) + (y AND 0x3FFFFFFF)"
  define X Y where "X = x AND 0x80000000" and "Y = y AND 0x80000000"
  have sum: "x + y = X + Y +
     ((if bit x 30 then 0x40000000 else 0) + (if bit y 30 then 0x40000000 else 0) + r)"
    by (subst w32_parts [of x], subst w32_parts [of y])
      (simp only: r_def X_def Y_def and_next ac_simps)
  have top: "t XOR (z AND 0x80000000) = t + (z AND 0x80000000)" for t z :: w32
    by (simp add: and_top xor_top)
  have c: "t XOR 0xC0000000 = (t XOR 0x40000000) + 0x80000000" for t :: w32
  proof -
    have "(0xC0000000 :: w32) = 0x40000000 XOR 0x80000000" by simp
    then have "t XOR 0xC0000000 = (t XOR 0x40000000) XOR 0x80000000" by (simp only: xor.assoc)
    then show ?thesis by (simp only: xor_top)
  qed
  have nz: "(0x40000000 :: w32) \<noteq> 0" by simp
  have ifs: "((if bit x 30 then 0x40000000 else 0) AND (if bit y 30 then 0x40000000 else 0) \<noteq> (0 :: w32)) =
      (bit x 30 \<and> bit y 30)"
    "((if bit x 30 then 0x40000000 else 0) OR (if bit y 30 then 0x40000000 else 0) \<noteq> (0 :: w32)) =
      (bit x 30 \<or> bit y 30)"
    "((if bit r 30 then 0x40000000 else 0) \<noteq> (0 :: w32)) = bit r 30"
    using nz by (simp_all split: if_splits)
  have "addUnsigned x y =
     (if bit x 30 \<and> bit y 30 then r + 0x80000000 + X + Y
      else if bit x 30 \<or> bit y 30 then
        (if bit r 30 then r - 0x40000000 + 0x80000000 + X + Y else r + 0x40000000 + X + Y)
      else r + X + Y)"
    unfolding addUnsigned_def Let_def xor.assoc [symmetric] and_next r_def [symmetric] ifs X_def Y_def
    by (cases "bit x 30"; cases "bit y 30"; cases "bit r 30")
      (simp_all only: top xor_top c xor_next simp_thms if_True if_False)
  also have "\<dots> = x + y"
    unfolding sum by (rule add_by_parts [OF _ _ nz]) simp_all
  finally show ?thesis .
qed

lemma rotateLeft_eq: 
  assumes "0 < s" "s < 32"
  shows "rotateLeft x s = word_rotl s x"
proof (rule bit_word_eqI)
  fix n assume "n < LENGTH(32)"
  then have n: "n < 32" by simp
  show "bit (rotateLeft x s) n = bit (word_rotl s x) n"
  proof (cases "s \<le> n")
    case True
    have "(n + (32 - s)) mod 32 = n - s"
      using True n assms by (simp add: mod_if)
    moreover have "\<not> bit x (32 - s + n)" using True by (auto simp: bit_imp_le_length dest: bit_imp_le_length)
    ultimately show ?thesis
      using True n assms by (simp add: rotateLeft_def bit_or_iff bit_push_bit_iff bit_drop_bit_eq bit_word_rotl_iff)
  next
    case False
    then have "n + (32 - s) < 32" using assms by arith
    then have "(n + (32 - s)) mod 32 = 32 - s + n" by simp
    then show ?thesis
      using False n assms by (simp add: rotateLeft_def bit_or_iff bit_push_bit_iff bit_drop_bit_eq bit_word_rotl_iff)
  qed
qed

subsection \<open>The steps of RFC 1321\<close>

text \<open>Step \<open>i\<close>: its function, the word it reads, its rotation and its constant.\<close>

definition ref_fun :: "nat \<Rightarrow> w32 \<Rightarrow> w32 \<Rightarrow> w32 \<Rightarrow> w32" where
  "ref_fun i x y z =
     (if i < 16 then (x AND y) OR (NOT x AND z)
      else if i < 32 then (x AND z) OR (y AND NOT z)
      else if i < 48 then x XOR y XOR z
      else y XOR (x OR NOT z))"

definition ref_index :: "nat \<Rightarrow> nat" where
  "ref_index i =
     (if i < 16 then i else if i < 32 then (5 * i + 1) mod 16
      else if i < 48 then (3 * i + 5) mod 16 else (7 * i) mod 16)"

definition ref_shift :: "nat \<Rightarrow> nat" where
  "ref_shift i =
     (if i < 16 then [7, 12, 17, 22] else if i < 32 then [5, 9, 14, 20]
      else if i < 48 then [4, 11, 16, 23] else [6, 10, 15, 21]) ! (i mod 4)"

definition ref_sines :: "w32 list" where
  "ref_sines =
     [0xD76AA478, 0xE8C7B756, 0x242070DB, 0xC1BDCEEE, 0xF57C0FAF, 0x4787C62A, 0xA8304613,
      0xFD469501, 0x698098D8, 0x8B44F7AF, 0xFFFF5BB1, 0x895CD7BE, 0x6B901122, 0xFD987193,
      0xA679438E, 0x49B40821, 0xF61E2562, 0xC040B340, 0x265E5A51, 0xE9B6C7AA, 0xD62F105D,
      0x2441453, 0xD8A1E681, 0xE7D3FBC8, 0x21E1CDE6, 0xC33707D6, 0xF4D50D87, 0x455A14ED,
      0xA9E3E905, 0xFCEFA3F8, 0x676F02D9, 0x8D2A4C8A, 0xFFFA3942, 0x8771F681, 0x6D9D6122,
      0xFDE5380C, 0xA4BEEA44, 0x4BDECFA9, 0xF6BB4B60, 0xBEBFBC70, 0x289B7EC6, 0xEAA127FA,
      0xD4EF3085, 0x4881D05, 0xD9D4D039, 0xE6DB99E5, 0x1FA27CF8, 0xC4AC5665, 0xF4292244,
      0x432AFF97, 0xAB9423A7, 0xFC93A039, 0x655B59C3, 0x8F0CCC92, 0xFFEFF47D, 0x85845DD1,
      0x6FA87E4F, 0xFE2CE6E0, 0xA3014314, 0x4E0811A1, 0xF7537E82, 0xBD3AF235, 0x2AD7D2BB,
      0xEB86D391]"

definition ref_step :: "w32 list \<Rightarrow> nat \<Rightarrow> md5_state \<Rightarrow> md5_state" where
  "ref_step x i = (\<lambda>(A, B, C, D).
     (D, B + word_rotl (ref_shift i) (A + ref_fun i B C D + x ! ref_index i + ref_sines ! i), B, C))"

definition ref_block :: "w32 list \<Rightarrow> md5_state \<Rightarrow> md5_state" where
  "ref_block x st =
     (case fold (ref_step x) [0 ..< 64] st of
        (a, b, c, d) \<Rightarrow> (case st of (A, B, C, D) \<Rightarrow> (a + A, b + B, c + C, d + D)))"

text \<open>The code's lines in groups of four.\<close>

definition code_fun :: "nat \<Rightarrow> md5_round" where
  "code_fun i = (if i < 16 then FF else if i < 32 then GG else if i < 48 then HH else II)"

definition code_group :: "nat \<Rightarrow> (w32 list \<Rightarrow> md5_state \<Rightarrow> md5_state) list" where
  "code_group i =
     [set_a (code_fun i) (ref_index i) (ref_shift i) (ref_sines ! i),
      set_d (code_fun (i + 1)) (ref_index (i + 1)) (ref_shift (i + 1)) (ref_sines ! (i + 1)),
      set_c (code_fun (i + 2)) (ref_index (i + 2)) (ref_shift (i + 2)) (ref_sines ! (i + 2)),
      set_b (code_fun (i + 3)) (ref_index (i + 3)) (ref_shift (i + 3)) (ref_sines ! (i + 3))]"

lemma ref_shift_bounds: "0 < ref_shift i" "ref_shift i < 32"
proof -
  have "i mod 4 = 0 \<or> i mod 4 = 1 \<or> i mod 4 = 2 \<or> i mod 4 = 3" by arith
  then show "0 < ref_shift i" "ref_shift i < 32" by (auto simp: ref_shift_def)
qed

lemma code_fun_eq:
  "code_fun i a b c d x (ref_shift i) k = b + word_rotl (ref_shift i) (a + ref_fun i b c d + x + k)"
  by (simp add: code_fun_def ref_fun_def FF_def GG_def HH_def II_def md5_F_def md5_G_def md5_H_def
      md5_I_def Let_def addUnsigned_eq rotateLeft_eq [OF ref_shift_bounds] ac_simps)

lemma code_group_eq:
  "fold (\<lambda>line st. line x st) (code_group i) st = fold (ref_step x) [i, i + 1, i + 2, i + 3] st"
  by (cases st) (simp add: code_group_def set_a_def set_b_def set_c_def set_d_def ref_step_def code_fun_eq)

lemma round_lines_eq:
  "round_lines = concat (map code_group [0, 4, 8, 12, 16, 20, 24, 28, 32, 36, 40, 44, 48, 52, 56, 60])"
  by (simp add: round_lines_def code_group_def code_fun_def ref_index_def ref_shift_def ref_sines_def
      numeral_2_eq_2 [symmetric] del: One_nat_def)

lemma md5_block_eq: "md5_block x st = ref_block x st"
proof -
  have "fold (\<lambda>line st. line x st) (concat (map code_group is)) st =
      fold (ref_step x) (concat (map (\<lambda>i. [i, i + 1, i + 2, i + 3]) is)) st" for "is" st
    by (induction "is" arbitrary: st)
      (simp_all only: list.map concat.simps fold_append comp_apply code_group_eq fold_Nil id_apply)
  moreover have "[0 ..< 64] = concat (map (\<lambda>i. [i, i + 1, i + 2, i + 3])
      [0, 4, 8, 12, 16, 20, 24, 28, 32, 36, 40, 44, 48, 52, 56, 60])"
    by (simp add: upt_rec)
  ultimately show ?thesis
    by (simp add: md5_block_def ref_block_def round_lines_eq addUnsigned_eq split: prod.splits
        del: fold.simps upt.simps concat.simps list.map)
qed

subsection \<open>The padding of RFC 1321\<close>

text \<open>The octets of the message, the bit 1, zeros up to 56 modulo 64, then the length in two words.\<close>

definition ref_zeros :: "nat \<Rightarrow> nat" where
  "ref_zeros n = (55 + 64 - n mod 64) mod 64"

definition octet_at :: "ustr \<Rightarrow> nat \<Rightarrow> w32" where
  "octet_at s i = (if i < length s then ucast (s ! i) else 0)"

text \<open>Word \<open>j\<close> of a string of octets, low-order octet first.\<close>

definition le_word :: "ustr \<Rightarrow> nat \<Rightarrow> w32" where
  "le_word s j = octet_at s (4 * j) OR push_bit 8 (octet_at s (4 * j + 1)) OR
     push_bit 16 (octet_at s (4 * j + 2)) OR push_bit 24 (octet_at s (4 * j + 3))"

definition ref_pad :: "ustr \<Rightarrow> w32 list" where
  "ref_pad s =
     (let octets = s @ [0x80] @ replicate (ref_zeros (length s)) 0; bits = 8 * length s
      in map (le_word octets) [0 ..< length octets div 4] @
         [of_nat (bits mod 2 ^ 32), of_nat (bits div 2 ^ 32)])"

lemma octet_at_snoc: "octet_at (s @ [c]) i = (if i = length s then ucast c else octet_at s i)"
  by (simp add: octet_at_def nth_append)

lemma le_word_snoc:
  "le_word (s @ [c]) j =
     (if j = length s div 4 then le_word s j OR push_bit (length s mod 4 * 8) (ucast c) else le_word s j)"
proof (cases "j = length s div 4")
  case True
  let ?n = "length s"
  have n: "?n = 4 * j + ?n mod 4" using True by simp
  have m: "?n mod 4 = 0 \<or> ?n mod 4 = 1 \<or> ?n mod 4 = 2 \<or> ?n mod 4 = 3" by arith
  have out: "octet_at s i = 0" if "?n \<le> i" for i using that by (simp add: octet_at_def)
  from m show ?thesis
  proof (elim disjE)
    assume m0: "?n mod 4 = 0"
    then have "?n = 4 * j" using n by simp
    then have "le_word (s @ [c]) j = le_word s j OR ucast c"
      using out by (simp add: le_word_def octet_at_snoc ac_simps)
    then show ?thesis using True unfolding m0 by simp
  next
    assume m: "?n mod 4 = 1"
    then have "?n = 4 * j + 1" using n by simp
    then have "le_word (s @ [c]) j = le_word s j OR push_bit 8 (ucast c)"
      using out by (simp add: le_word_def octet_at_snoc ac_simps)
    then show ?thesis using True unfolding m by simp
  next
    assume m: "?n mod 4 = 2"
    then have "?n = 4 * j + 2" using n by simp
    then have "le_word (s @ [c]) j = le_word s j OR push_bit 16 (ucast c)"
      using out by (simp add: le_word_def octet_at_snoc ac_simps)
    then show ?thesis using True unfolding m by simp
  next
    assume m: "?n mod 4 = 3"
    then have "?n = 4 * j + 3" using n by simp
    then have "le_word (s @ [c]) j = le_word s j OR push_bit 24 (ucast c)"
      using out by (simp add: le_word_def octet_at_snoc ac_simps)
    then show ?thesis using True unfolding m by simp
  qed
next
  case False
  have "4 * j \<noteq> length s \<and> 4 * j + 1 \<noteq> length s \<and> 4 * j + 2 \<noteq> length s \<and> 4 * j + 3 \<noteq> length s"
    using False by presburger
  then show ?thesis using False by (simp add: le_word_def octet_at_snoc)
qed

lemma le_word_zeros: "le_word (s @ replicate k 0) j = le_word s j"
proof -
  have "octet_at (s @ replicate k 0) i = octet_at s i" for i
    by (simp add: octet_at_def nth_append)
  then show ?thesis by (simp add: le_word_def)
qed

lemma length_or_byte [simp]: "length (or_byte m w xs) = length xs"
  by (simp add: or_byte_def Let_def)

lemma length_or_bytes [simp]: "length (or_bytes m cs xs) = length xs"
  by (induction m cs xs rule: or_bytes.induct) simp_all

lemma or_byte_step:
  assumes "\<forall>j < n. xs ! j = le_word s j" "length xs = n" "length s < 4 * n"
  shows "\<forall>j < n. or_byte (length s) (ucast c) xs ! j = le_word (s @ [c]) j"
proof (intro allI impI)
  fix j assume j: "j < n"
  have "(length s - length s mod 4) div 4 = length s div 4" by presburger
  then show "or_byte (length s) (ucast c) xs ! j = le_word (s @ [c]) j"
    using assms j by (auto simp: or_byte_def Let_def le_word_snoc nth_list_update)
qed

lemma or_bytes_words:
  assumes "\<forall>j < n. xs ! j = le_word s j" "length xs = n" "length s + length cs \<le> 4 * n"
  shows "\<forall>j < n. or_bytes (length s) cs xs ! j = le_word (s @ cs) j"
  using assms
proof (induction cs arbitrary: s xs)
  case (Cons c cs)
  have "\<forall>j < n. or_byte (length s) (ucast c) xs ! j = le_word (s @ [c]) j"
    using or_byte_step [of n xs s c] Cons.prems by simp
  from Cons.IH [OF this] show ?case using Cons.prems by simp
qed simp

lemma le_word_Nil: "le_word [] j = 0"
  by (simp add: le_word_def octet_at_def)

lemma word_count:
  fixes n :: nat
  defines "q \<equiv> ((n + 8 - (n + 8) mod 64) div 64 + 1) * 16"
  shows "(n + 1 + ref_zeros n) div 4 = q - 2" and "2 \<le> q" and "n + 1 \<le> 4 * (q - 2)"
proof -
  define a r where "a = n div 64" and "r = n mod 64"
  have n: "n = 64 * a + r" "r < 64" by (simp_all add: a_def r_def)
  have q: "q = (if r < 56 then (a + 1) * 16 else (a + 2) * 16)"
  proof (cases "r < 56")
    case True
    have "n + 8 = (r + 8) + 64 * a" using n(1) by simp
    then have "(n + 8) mod 64 = (r + 8) mod 64" by (simp only: mod_mult_self2)
    then have "(n + 8) mod 64 = r + 8" using True by simp
    then have "(n + 8 - (n + 8) mod 64) div 64 = a" using n(1) by simp
    then show ?thesis using True by (simp add: q_def)
  next
    case False
    then have "n + 8 = (r - 56) + 64 * (a + 1)" using n(1) by simp
    then have "(n + 8) mod 64 = (r - 56) mod 64" by (simp only: mod_mult_self2)
    then have "(n + 8) mod 64 = r - 56" using n(2) by simp
    then have "(n + 8 - (n + 8) mod 64) div 64 = a + 1" using n(1) False by simp
    then show ?thesis using False by (simp add: q_def)
  qed
  have z: "ref_zeros n = (if r < 56 then 55 - r else 119 - r)"
  proof -
    have "(119 - r) mod 64 = (if r < 56 then 55 - r else 119 - r)"
      using n(2) by (cases "r < 56") (simp_all add: mod_if)
    then show ?thesis by (simp add: ref_zeros_def r_def)
  qed
  show "(n + 1 + ref_zeros n) div 4 = q - 2" unfolding z q using n by (cases "r < 56") simp_all
  show "2 \<le> q" unfolding q by simp
  show "n + 1 \<le> 4 * (q - 2)" unfolding q using n by (cases "r < 56") simp_all
qed

lemma length_words:
  fixes n :: nat
  assumes "n < 2 ^ 32"
  shows "push_bit 3 (of_nat n) = (of_nat (8 * n mod 2 ^ 32) :: w32)"
    and "drop_bit 29 (of_nat n) = (of_nat (8 * n div 2 ^ 32) :: w32)"
proof -
  have "unat (of_nat n :: w32) = n" using assms by (simp add: unat_of_nat)
  then have "unat (drop_bit 29 (of_nat n :: w32)) = n div 2 ^ 29"
    by (simp only: unat_drop_bit_eq) (simp only: drop_bit_eq_div)
  moreover have "8 * n div 2 ^ 32 = n div 2 ^ 29" by simp
  ultimately have "of_nat (unat (drop_bit 29 (of_nat n :: w32))) = (of_nat (8 * n div 2 ^ 32) :: w32)"
    by simp
  then show "drop_bit 29 (of_nat n) = (of_nat (8 * n div 2 ^ 32) :: w32)" by simp
  show "push_bit 3 (of_nat n) = (of_nat (8 * n mod 2 ^ 32) :: w32)"
  proof -
    have "(of_nat (8 * n mod 2 ^ 32) :: w32) = of_nat (8 * n)"
      by (simp only: word_of_nat_eq_iff) (simp add: take_bit_eq_mod)
    moreover have "push_bit 3 (of_nat n) = (of_nat (8 * n) :: w32)"
      by (simp add: push_bit_eq_mult mult.commute)
    ultimately show ?thesis by metis
  qed
qed

lemma convert_pad:
  assumes "length s < 2 ^ 32"
  shows "convertToWordArray s = ref_pad s"
proof -
  let ?n = "length s"
  define q where "q = ((?n + 8 - (?n + 8) mod 64) div 64 + 1) * 16"
  have wc: "(?n + 1 + ref_zeros ?n) div 4 = q - 2" "2 \<le> q" "?n + 1 \<le> 4 * (q - 2)"
    unfolding q_def by (rule word_count)+
  define ws where "ws = or_byte ?n 0x80 (or_bytes 0 s (replicate q 0))"
  have base: "\<forall>j < q. or_bytes 0 s (replicate q 0) ! j = le_word s j"
    using or_bytes_words [of q "replicate q 0" "[]" s] wc by (simp add: le_word_Nil)
  have "\<forall>j < q. ws ! j = le_word (s @ [0x80]) j"
    using or_byte_step [OF base, of "0x80"] wc unfolding ws_def by simp
  moreover have len: "length ws = q" by (simp add: ws_def)
  ultimately have "take (q - 2) ws = map (le_word (s @ [0x80])) [0 ..< q - 2]"
    by (intro nth_equalityI) auto
  moreover have "convertToWordArray s = take (q - 2) ws @ [push_bit 3 (of_nat ?n), drop_bit 29 (of_nat ?n)]"
  proof -
    have "convertToWordArray s = (ws[q - 2 := push_bit 3 (of_nat ?n)])[q - 1 := drop_bit 29 (of_nat ?n)]"
      unfolding convertToWordArray_def Let_def q_def [symmetric] ws_def [symmetric] ..
    also have "\<dots> = take (q - 2) ws @ [push_bit 3 (of_nat ?n), drop_bit 29 (of_nat ?n)]"
      using len wc(2) by (intro nth_equalityI) (auto simp: nth_append nth_list_update nth_Cons' )
    finally show ?thesis .
  qed
  moreover have "le_word (s @ 0x80 # replicate k 0) = le_word (s @ [0x80])" for k
    using le_word_zeros [of "s @ [0x80]" k] by (intro ext) simp
  ultimately show ?thesis
    using wc(1) length_words [OF assms] by (simp add: ref_pad_def Let_def)
qed

subsection \<open>The hash of RFC 1321\<close>

definition ref_octets :: "w32 \<Rightarrow> nat list" where
  "ref_octets w = map (\<lambda>i. unat w div 256 ^ i mod 256) [0, 1, 2, 3]"

definition two_digits :: "nat \<Rightarrow> string" where
  "two_digits b = [hex_char (b div 16), hex_char (b mod 16)]"

definition ref_digest :: "md5_state \<Rightarrow> nat list" where
  "ref_digest st = (case st of (a, b, c, d) \<Rightarrow> concat (map ref_octets [a, b, c, d]))"

function ref_loop :: "w32 list \<Rightarrow> md5_state \<Rightarrow> md5_state" where
  "ref_loop [] st = st"
| "ref_loop (w # x) st = ref_loop (drop 16 (w # x)) (ref_block (take 16 (w # x)) st)"
  by pat_completeness auto
termination by (relation "measure (\<lambda>(x, st). length x)") auto

definition ref_md5 :: "ustr \<Rightarrow> nat list" where
  "ref_md5 s = ref_digest (ref_loop (ref_pad s) (0x67452301, 0xEFCDAB89, 0x98BADCFE, 0x10325476))"

lemma ref_index_16: "ref_index i < 16"
  by (simp add: ref_index_def)

lemma ref_step_take: "ref_step (take 16 x) i = ref_step x i"
  using ref_index_16 [of i] by (simp add: ref_step_def)

lemma ref_block_take: "ref_block (take 16 x) st = ref_block x st"
  by (simp add: ref_block_def ref_step_take cong: fold_cong)

lemma ref_block_take_Cons: "ref_block (w # take 15 x) st = ref_block (w # x) st"
  using ref_block_take [of "w # x" st] by simp

lemma md5_loop_eq: "md5_loop x st = ref_loop x st"
  by (induction x st rule: ref_loop.induct) (simp_all add: md5_block_eq ref_block_take_Cons)

lemma hex_char_0: "hex_char 0 = CHR ''0''"
  by code_simp

lemma hex_byte: "b < 256 \<Longrightarrow> drop (length (CHR ''0'' # hex_text b) - 2) (CHR ''0'' # hex_text b) = two_digits b"
  by (simp add: hex_text_def two_digits_def hex_char_0)

lemma byte_of: "unat (drop_bit (i * 8) (w :: w32) AND 255) = unat w div 256 ^ i mod 256"
proof -
  have m: "(255 :: w32) = mask 8" by (simp add: mask_eq_exp_minus_1)
  have "unat (drop_bit (i * 8) w AND 255) = unat w div 2 ^ (i * 8) mod 2 ^ 8"
    unfolding m take_bit_eq_mask [symmetric] unsigned_take_bit_eq unat_drop_bit_eq
    by (simp only: take_bit_eq_mod drop_bit_eq_div)
  then show ?thesis by (simp add: power_mult mult.commute [of i 8])
qed

lemma wordToHex_eq: "wordToHex w = concat (map two_digits (ref_octets w))"
proof -
  have "drop (length (CHR ''0'' # hex_text (unat (drop_bit (i * 8) w AND 255))) - 2)
      (CHR ''0'' # hex_text (unat (drop_bit (i * 8) w AND 255))) = two_digits (unat w div 256 ^ i mod 256)" for i
    unfolding byte_of by (rule hex_byte) simp
  then show ?thesis
    by (simp only: wordToHex_def ref_octets_def Let_def map_map comp_def)
qed

lemma hex_char_lower: "d < 16 \<Longrightarrow> lower_char (hex_char d) = hex_char d"
  by (cases "d < 10") (simp_all add: lower_char_def hex_char_def Let_def)

lemma two_digits_lower: "b < 256 \<Longrightarrow> map lower_char (two_digits b) = two_digits b"
  by (simp add: two_digits_def hex_char_lower)

lemma digits_lower: "\<forall>b \<in> set bs. b < 256 \<Longrightarrow> map lower_char (concat (map two_digits bs)) = concat (map two_digits bs)"
  by (induction bs) (simp_all add: two_digits_lower)

lemma ref_digest_octets: "b \<in> set (ref_digest st) \<Longrightarrow> b < 256"
  by (auto simp: ref_digest_def ref_octets_def split: prod.splits)

lemma length_ref_digest: "length (ref_digest st) = 16"
  by (simp add: ref_digest_def ref_octets_def split: prod.splits)

lemma md5_ref:
  assumes "length (uTF8Encode s) < 2 ^ 32"
  shows "md5 s = concat (map two_digits (ref_md5 (uTF8Encode s)))"
proof -
  obtain a b c d where st: "ref_loop (ref_pad (uTF8Encode s)) (0x67452301, 0xEFCDAB89, 0x98BADCFE, 0x10325476) =
      (a, b, c, d)"
    by (metis prod_cases4)
  have "wordToHex a @ wordToHex b @ wordToHex c @ wordToHex d = concat (map two_digits (ref_digest (a, b, c, d)))"
    by (simp add: wordToHex_eq ref_digest_def)
  moreover have "map lower_char (concat (map two_digits (ref_digest (a, b, c, d)))) =
      concat (map two_digits (ref_digest (a, b, c, d)))"
    using digits_lower ref_digest_octets by blast
  ultimately have "map lower_char (wordToHex a @ wordToHex b @ wordToHex c @ wordToHex d) =
      concat (map two_digits (ref_digest (a, b, c, d)))" by (simp only:)
  then show ?thesis
    unfolding md5_def Let_def convert_pad [OF assms] md5_loop_eq ref_md5_def st by (simp only: prod.case)
qed

subsection \<open>What the encoder does to a string\<close>

lemma nat_or_high: "a < 2 ^ k \<Longrightarrow> (a :: nat) OR push_bit k q = a + push_bit k q"
proof -
  assume "a < 2 ^ k"
  then have a: "take_bit k a = a" by (simp add: take_bit_nat_eq_self)
  have "take_bit k a AND push_bit k q = 0"
    by (rule bit_eqI) (auto simp: bit_and_iff bit_take_bit_iff bit_push_bit_iff)
  then show ?thesis by (simp add: a disjunctive_add_eq_or)
qed

lemma unat_or_high:
  fixes a m :: code_unit
  assumes "unat a < 2 ^ k" "unat m = 2 ^ k * q"
  shows "unat (a OR m) = 2 ^ k * q + unat a"
  using nat_or_high [OF assms(1), of q] assms(2)
  by (simp add: unsigned_or_eq push_bit_eq_mult mult.commute)

lemma unat_shift: "unat (drop_bit n (c :: code_unit)) = unat c div 2 ^ n"
  by (simp only: unat_drop_bit_eq) (simp only: drop_bit_eq_div)

lemma unat_low6: "unat ((c :: code_unit) AND 63) = unat c mod 64"
proof -
  have "(63 :: code_unit) = mask 6" by (simp add: mask_eq_exp_minus_1)
  then show ?thesis
    by (simp only: take_bit_eq_mask [symmetric] unsigned_take_bit_eq) (simp add: take_bit_eq_mod)
qed

lemma utf8_unit_octets: "map unat (utf8_unit c) = utf8_octets (unat c)"
proof -
  have c: "c < 128 \<longleftrightarrow> unat c < 128" "c < 2048 \<longleftrightarrow> unat c < 2048" "127 < c \<longleftrightarrow> 127 < unat c"
    by (simp_all add: word_less_nat_alt)
  have b: "unat c < 0x10000" by (rule unit_bound)
  have low: "unat (c AND 63 OR 128) = 0x80 + unat c mod 0x40"
    using unat_or_high [of "c AND 63" 6 128 2] by (simp add: unat_low6)
  have mid: "unat (drop_bit 6 c AND 63 OR 128) = 0x80 + unat c div 0x40 mod 0x40"
    using unat_or_high [of "drop_bit 6 c AND 63" 6 128 2] by (simp add: unat_low6 unat_shift)
  have two: "unat (drop_bit 6 c OR 192) = 0xC0 + unat c div 0x40" if "unat c < 2048"
    using unat_or_high [of "drop_bit 6 c" 5 192 6] that by (simp add: unat_shift)
  have three: "unat (drop_bit 12 c OR 224) = 0xE0 + unat c div 0x1000"
    using unat_or_high [of "drop_bit 12 c" 4 224 14] b by (simp add: unat_shift)
  show ?thesis
    using b by (simp add: utf8_unit_def utf8_octets_def c low mid two three)
qed

lemma code_points_bmp:
  "\<forall>c \<in> set s. \<not> is_high c \<and> \<not> is_low c \<Longrightarrow> code_points s = Inr (map unat s)"
  by (induction s) (simp_all add: code_points.simps)

definition no_crlf :: "ustr \<Rightarrow> bool" where
  "no_crlf s \<longleftrightarrow> (\<forall>i. Suc i < length s \<longrightarrow> \<not> (s ! i = 13 \<and> s ! Suc i = 10))"

lemma no_crlf_Cons: "no_crlf (c # d # s) \<longleftrightarrow> \<not> (c = 13 \<and> d = 10) \<and> no_crlf (d # s)"
  by (auto simp: no_crlf_def nth_Cons split: nat.splits)

lemma crlf_to_lf_id: "no_crlf s \<Longrightarrow> crlf_to_lf s = s"
  by (induction s rule: crlf_to_lf.induct) (auto simp: no_crlf_Cons)

lemma map_utf8_unit: "map unat (concat (map utf8_unit s)) = concat (map utf8_octets (map unat s))"
  by (induction s) (simp_all add: utf8_unit_octets)

lemma ref_step_eval: "ref_step x i (A, B, C, D) =
     (D, B + rotateLeft (A + ref_fun i B C D + x ! ref_index i + ref_sines ! i) (ref_shift i), B, C)"
  by (simp add: ref_step_def rotateLeft_eq [OF ref_shift_bounds])

definition persian :: ustr where
  "persian = [73, 39, 109, 32, 80, 101, 114, 115, 105, 97, 110, 46]"

lemma persian_utf8: "uTF8Encode persian = persian"
  by (simp add: uTF8Encode_def persian_def utf8_unit_def)

lemma persian_pad: "ref_pad persian = [544024393, 1936876880, 778985833, 128, 0, 0, 0, 0, 0, 0, 0, 0, 0, 0, 96, 0]"
  by (simp add: ref_pad_def persian_def Let_def ref_zeros_def upt_rec le_word_def octet_at_def nth_append nth_Cons')

lemma persian_block: "ref_block [544024393, 1936876880, 778985833, 128, 0, 0, 0, 0, 0, 0, 0, 0, 0, 0, 96, 0]
   (0x67452301, 0xEFCDAB89, 0x98BADCFE, 0x10325476) = (3489778104, 4179829488, 3474329718, 3748175359)"
  by (simp add: ref_block_def upt_rec ref_step_eval ref_fun_def ref_index_def ref_shift_def ref_sines_def
      rotateLeft_def)

subsection \<open>Properties\<close>

text \<open>
  C10: The hash is MD5: for every string whose encoding has fewer than 2^32 octets the plugin
  returns the digest of RFC 1321 over those octets, two hexadecimal digits for each of its sixteen
  octets. The unrolled lines are the RFC's 64 steps, \<open>addUnsigned\<close> is addition modulo 2^32, and
  the word array is the padded message.
\<close>

theorem md5_rfc:
  assumes "length (uTF8Encode s) < 2 ^ 32"
  shows "md5 s = concat (map two_digits (ref_md5 (uTF8Encode s))) \<and> length (md5 s) = 32"
proof -
  have "length (concat (map two_digits bs)) = 2 * length bs" for bs
    by (induction bs) (simp_all add: two_digits_def)
  then show ?thesis using md5_ref [OF assms] length_ref_digest by (simp add: ref_md5_def)
qed

theorem md5_rfc_witness: "length (md5 (lit ''password'')) = 32"
proof -
  have "length (uTF8Encode (lit ''password'')) < 2 ^ 32"
    by (simp add: uTF8Encode_def lit_def utf8_unit_def)
  from md5_rfc [OF this] show ?thesis by blast
qed

text \<open>
  A string of characters of the basic plane without a carriage return before a line feed is
  hashed as UTF-8: the encoder gives the UTF-8 octets of its code points.
\<close>

theorem uTF8Encode_bmp:
  assumes "\<forall>c \<in> set s. \<not> is_high c \<and> \<not> is_low c" and "no_crlf s"
  shows "\<exists>vs. code_points s = Inr vs \<and> map unat (uTF8Encode s) = concat (map utf8_octets vs)"
  using code_points_bmp [OF assms(1)] crlf_to_lf_id [OF assms(2)] map_utf8_unit [of s]
  by (simp add: uTF8Encode_def)

theorem uTF8Encode_bmp_witness:
  "\<exists>vs. code_points [0x62A, 0x645] = Inr vs \<and> map unat (uTF8Encode [0x62A, 0x645]) = concat (map utf8_octets vs)"
  by (rule uTF8Encode_bmp) (auto simp: is_high_def is_low_def no_crlf_def nth_Cons')

text \<open>
  Outside that range it is not UTF-8, against the plugin's documentation: a character beyond
  the basic plane becomes six octets where UTF-8 has four, and a string with carriage returns
  before its line feeds has the same hash as the one without them.
\<close>

theorem uTF8Encode_deviates:
  assumes "is_high h" and "is_low l"
  shows "\<exists>v. code_points [h, l] = Inr [v] \<and> length (uTF8Encode [h, l]) = 6 \<and>
     length (utf8_octets v) = 4 \<and> md5 (13 # 10 # s) = md5 (10 # s)"
proof -
  have h: "0xD800 \<le> unat h" "\<not> h < 128" "\<not> h < 2048" and l: "\<not> l < 128" "\<not> l < 2048"
    using assms by (simp_all add: is_high_def is_low_def word_less_nat_alt)
  have "\<not> is_low h" using assms(1) by (auto simp: is_high_def is_low_def)
  then have "code_points [h, l] = Inr [(unat h - 0xD800) * 0x400 + (unat l - 0xDC00) + 0x10000]"
    using assms by simp
  moreover have "length (uTF8Encode [h, l]) = 6"
    using h l by (auto simp: uTF8Encode_def utf8_unit_def)
  moreover have "length (utf8_octets ((unat h - 0xD800) * 0x400 + (unat l - 0xDC00) + 0x10000)) = 4"
    by (simp add: utf8_octets_def)
  moreover have "crlf_to_lf (13 # 10 # s) = crlf_to_lf (10 # s)"
    by (cases s) simp_all
  then have "md5 (13 # 10 # s) = md5 (10 # s)" by (simp add: md5_def uTF8Encode_def)
  ultimately show ?thesis by blast
qed

theorem uTF8Encode_deviates_witness:
  "\<exists>v. code_points [0xD83D, 0xDE00] = Inr [v] \<and> length (uTF8Encode [0xD83D, 0xDE00]) = 6 \<and>
     length (utf8_octets v) = 4 \<and> md5 [13, 10, 97] = md5 [10, 97]"
  by (rule uTF8Encode_deviates) (simp_all add: is_high_def is_low_def)

text \<open>The example of the plugin's documentation: the hash of \<open>I'm Persian.\<close>\<close>

theorem md5_doc_example: "md5 [73, 39, 109, 32, 80, 101, 114, 115, 105, 97, 110, 46] = ''b8c901d0f02223f9761016cfff9d68df''"
proof -
  have "length (uTF8Encode persian) < 2 ^ 32" unfolding persian_utf8 by (simp add: persian_def)
  from md5_ref [OF this] have "md5 persian = concat (map two_digits (ref_md5 persian))"
    unfolding persian_utf8 .
  moreover have "ref_md5 persian = [184, 201, 1, 208, 240, 34, 35, 249, 118, 16, 22, 207, 255, 157, 104, 223]"
    unfolding ref_md5_def persian_pad by (simp add: persian_block ref_digest_def ref_octets_def)
  moreover have "concat (map two_digits [184, 201, 1, 208, 240, 34, 35, 249, 118, 16, 22, 207, 255, 157, 104, 223]) =
      ''b8c901d0f02223f9761016cfff9d68df''"
    by code_simp
  ultimately show ?thesis by (simp add: persian_def)
qed

end
