(* ===== verification/UploadQueue.thy ===== *)
theory UploadQueue
  imports JsPrelude
begin

section \<open>The upload queue\<close>

text \<open>
  \<open>kg/uploader/2.0.2/queue\<close> (in \<open>index.js\<close>): the list of files with their statuses, its
  operations and the events they fire. An upload also records its events in the queue's log, so
  that \<open>q_log\<close> is the order in which a page sees them. KISSY's \<open>S.each\<close> stops only when the
  callback returns \<open>false\<close>; the searches return \<open>true\<close> and so yield the last match.
\<close>

datatype file_status = WAITING | START | PROGRESS | SUCCESS | CANCEL | ERROR | RESTORE

text \<open>
  What a server's answer says: whether \<open>Number(result.status)\<close> is 1, its message, and \<open>data.url\<close>
  where \<open>data\<close> is an object and its \<open>url\<close> a string.
\<close>

record upload_result =
  r_ok :: bool
  r_msg :: "string option"
  r_url :: "string option"

text \<open>\<open>f_data\<close>: the file carries what its transport sends (\<open>data\<close>, \<open>input\<close> or the id of \<open>input\<close>).\<close>

record qfile =
  f_id :: string
  f_name :: string
  f_size :: nat
  f_textSize :: "string option"
  f_status :: "file_status option"
  f_result :: "upload_result option"
  f_sUrl :: "string option"
  f_data :: bool

datatype up_event =
    EvAdd nat | EvRemove nat | EvClear | EvStatus nat file_status | EvUpdate nat
  | EvSelect nat | EvStart nat | EvProgress "nat option" | EvSuccess "nat option"
  | EvError "nat option" | EvComplete "nat option" | EvCancel "nat option" | EvUploadFiles
  | EvAlert nat

record queue =
  q_files :: "qfile list"
  q_guid :: nat
  q_log :: "up_event list"

definition new_queue :: queue where
  "new_queue = \<lparr>q_files = [], q_guid = 0, q_log = []\<rparr>"

definition q_fire :: "up_event \<Rightarrow> queue \<Rightarrow> queue" where
  "q_fire e q = q\<lparr>q_log := q_log q @ [e]\<rparr>"

subsection \<open>File sizes\<close>

text \<open>
  \<open>convertByteSize\<close>: divide by 1024 until at most 99 remain; \<open>k\<close> counts the divisions. Division
  by a power of two is exact, so the value is \<open>bytes / 1024 ^ k\<close>, and \<open>toFixed(1)\<close> rounds it to the
  nearest tenth, halves up.
\<close>

function size_steps :: "nat \<Rightarrow> nat \<Rightarrow> nat" where
  "size_steps bytes k = (if 99 * 1024 ^ k < bytes then size_steps bytes (Suc k) else k)"
  by pat_completeness auto
termination
proof (relation "measure (\<lambda>(b, k). b - k)")
  fix b k :: nat
  assume "99 * 1024 ^ k < b"
  moreover have "k < 1024 ^ k" by (induction k) simp_all
  ultimately show "((b, Suc k), (b, k)) \<in> measure (\<lambda>(b, k). b - k)" by simp
qed simp

declare size_steps.simps [simp del]

definition size_units :: "string list" where
  "size_units = [''kB'', ''MB'', ''GB'', ''TB'', ''PB'', ''EB'']"

definition tenths :: "nat \<Rightarrow> nat \<Rightarrow> nat" where
  "tenths bytes k = (20 * bytes + 1024 ^ k) div (2 * 1024 ^ k)"

definition convertByteSize :: "nat \<Rightarrow> string" where
  "convertByteSize bytes =
     (let k = size_steps bytes 1;
          n = (if 10 * bytes < 1024 ^ k then 1 else tenths bytes k)
      in dec_of_nat (n div 10) @ ''.'' @ dec_of_nat (n mod 10) @
         (case js_get size_units (int k - 1) of None \<Rightarrow> ''undefined'' | Some u \<Rightarrow> u))"

subsection \<open>Finding files\<close>

text \<open>The last index whose file satisfies the test, as the \<open>each\<close> loops find it.\<close>

fun last_index :: "('a \<Rightarrow> bool) \<Rightarrow> nat \<Rightarrow> 'a list \<Rightarrow> nat option" where
  "last_index P i [] = None"
| "last_index P i (x # xs) =
     (case last_index P (Suc i) xs of Some j \<Rightarrow> Some j | None \<Rightarrow> if P x then Some i else None)"

text \<open>\<open>getFileIndex\<close>: -1 if there is no such file.\<close>

definition getFileIndex :: "string \<Rightarrow> queue \<Rightarrow> int" where
  "getFileIndex i q = (case last_index (\<lambda>f. f_id f = i) 0 (q_files q) of None \<Rightarrow> -1 | Some j \<Rightarrow> int j)"

text \<open>An index or an id, as several operations take.\<close>

datatype file_ref = ByIndex int | ById string

definition getFile :: "file_ref \<Rightarrow> queue \<Rightarrow> qfile option" where
  "getFile r q =
     (case r of
        ByIndex i \<Rightarrow> js_get (q_files q) i
      | ById s \<Rightarrow> (case last_index (\<lambda>f. f_id f = s) 0 (q_files q) of
                    None \<Rightarrow> None | Some j \<Rightarrow> Some (q_files q ! j)))"

subsection \<open>Changing files\<close>

text \<open>
  \<open>updateFile(index, data)\<close>: \<open>None\<close> for an index that is not a number (the empty string). \<open>S.mix\<close>
  assigns the given fields, here the function \<open>g\<close>.
\<close>

definition updateFile :: "int option \<Rightarrow> (qfile \<Rightarrow> qfile) \<Rightarrow> queue \<Rightarrow> queue" where
  "updateFile index g q =
     (case index of
        None \<Rightarrow> q
      | Some i \<Rightarrow>
          (case getFile (ByIndex i) q of
             None \<Rightarrow> q
           | Some f \<Rightarrow> q_fire (EvUpdate (nat i)) (q\<lparr>q_files := (q_files q)[nat i := g f]\<rparr>)))"

text \<open>Reading a status (no second argument) and setting one.\<close>

definition fileStatus :: "int option \<Rightarrow> queue \<Rightarrow> file_status option" where
  "fileStatus index q =
     (case index of None \<Rightarrow> None
      | Some i \<Rightarrow> (case getFile (ByIndex i) q of None \<Rightarrow> None | Some f \<Rightarrow> f_status f))"

definition setFileStatus :: "int option \<Rightarrow> file_status \<Rightarrow> queue \<Rightarrow> queue" where
  "setFileStatus index st q =
     (case index of
        None \<Rightarrow> q
      | Some i \<Rightarrow>
          (case getFile (ByIndex i) q of
             None \<Rightarrow> q
           | Some f \<Rightarrow>
               (if f_status f = Some st then q
                else q_fire (EvStatus (nat i) st)
                       (updateFile index (\<lambda>f. f\<lparr>f_status := Some st\<rparr>) q))))"

subsection \<open>Adding files\<close>

text \<open>\<open>S.guid('file-')\<close>\<close>

definition guid :: "queue \<Rightarrow> string" where
  "guid q = ''file-'' @ dec_of_nat (q_guid q)"

definition setAddFileData :: "qfile \<Rightarrow> queue \<Rightarrow> qfile \<times> queue" where
  "setAddFileData f q =
     (let (f, q) = (if f_id f = [] then (f\<lparr>f_id := guid q\<rparr>, q\<lparr>q_guid := Suc (q_guid q)\<rparr>) else (f, q));
          f = (if f_size f \<noteq> 0 then f\<lparr>f_textSize := Some (convertByteSize (f_size f))\<rparr> else f);
          f = (if f_status f = None then f\<lparr>f_status := Some WAITING\<rparr> else f)
      in (f, q\<lparr>q_files := q_files q @ [f]\<rparr>))"

definition addFile :: "qfile \<Rightarrow> queue \<Rightarrow> queue" where
  "addFile f q =
     (case setAddFileData f q of
        (f', q') \<Rightarrow> q_fire (EvAdd (nat (getFileIndex (f_id f') q'))) q')"

text \<open>\<open>add\<close> with an array: \<open>max\<close> is the uploader's attribute (\<open>None\<close>: not set), \<open>len\<close> the length before.\<close>

fun add_each :: "int option \<Rightarrow> nat \<Rightarrow> nat \<Rightarrow> qfile list \<Rightarrow> queue \<Rightarrow> queue" where
  "add_each maxFiles len index [] q = q"
| "add_each maxFiles len index (f # fs) q =
     (let hasMax = (case maxFiles of None \<Rightarrow> False | Some m \<Rightarrow> 0 < m)
      in add_each maxFiles len (Suc index) fs
           (if \<not> hasMax then addFile f q
            else if int (len + index + 1) \<le> the maxFiles then addFile f q else q))"

definition add_files :: "int option \<Rightarrow> qfile list \<Rightarrow> queue \<Rightarrow> queue" where
  "add_files maxFiles fs q = add_each maxFiles (length (q_files q)) 0 fs q"

subsection \<open>Removing files\<close>

definition remove_file :: "file_ref \<Rightarrow> queue \<Rightarrow> qfile option \<times> queue" where
  "remove_file r q =
     (let index = (case r of ByIndex i \<Rightarrow> i | ById s \<Rightarrow> getFileIndex s q)
      in case js_get (q_files q) index of
           None \<Rightarrow> (None, q)
         | Some f \<Rightarrow>
             (Some f, q_fire (EvRemove (nat index))
                (q\<lparr>q_files := map snd (filter (\<lambda>p. fst p \<noteq> nat index) (enumerate 0 (q_files q)))\<rparr>)))"

text \<open>\<open>clear\<close>: the inner function calls itself from the callback of \<open>remove(0)\<close>.\<close>

function clear_queue :: "queue \<Rightarrow> queue" where
  "clear_queue q =
     (if q_files q = [] then q_fire EvClear q
      else case remove_file (ByIndex 0) q of
             (None, q') \<Rightarrow> q'
           | (Some _, q') \<Rightarrow> clear_queue q')"
  by pat_completeness auto

subsection \<open>Selecting by status\<close>

definition getIndexs :: "file_status \<Rightarrow> queue \<Rightarrow> nat list" where
  "getIndexs st q = map fst (filter (\<lambda>p. f_status (snd p) = Some st) (enumerate 0 (q_files q)))"

definition getFiles :: "file_status \<Rightarrow> queue \<Rightarrow> qfile list" where
  "getFiles st q = filter (\<lambda>f. f_status f = Some st) (q_files q)"

subsection \<open>Facts about removing\<close>

lemma filter_out_index:
  "map snd (filter (\<lambda>p. fst p \<noteq> n + i) (enumerate n xs)) = take i xs @ drop (Suc i) xs"
proof (induction xs arbitrary: n i)
  case (Cons x xs)
  show ?case
  proof (cases i)
    case 0
    have "filter (\<lambda>p. fst p \<noteq> n) (enumerate (Suc n) xs) = enumerate (Suc n) xs"
      by (rule filter_True) (auto simp: in_set_enumerate_eq)
    then show ?thesis using 0 by simp
  next
    case (Suc j)
    then show ?thesis using Cons.IH [of "Suc n" j] by simp
  qed
qed simp

lemma remove_index:
  "i < length (q_files q) \<Longrightarrow> remove_file (ByIndex (int i)) q =
     (Some (q_files q ! i),
      q_fire (EvRemove i) (q\<lparr>q_files := take i (q_files q) @ drop (Suc i) (q_files q)\<rparr>))"
  using filter_out_index [of 0 i "q_files q"] by (simp add: remove_file_def js_get_def)

lemma remove_first:
  "q_files q \<noteq> [] \<Longrightarrow> remove_file (ByIndex 0) q =
     (Some (hd (q_files q)), q_fire (EvRemove 0) (q\<lparr>q_files := tl (q_files q)\<rparr>))"
  using remove_index [of 0 q] by (cases "q_files q") simp_all

termination clear_queue
  by (relation "measure (\<lambda>q. length (q_files q))") (auto simp: remove_first q_fire_def)

declare clear_queue.simps [simp del]

subsection \<open>Facts about the operations\<close>

lemma q_fire_simps [simp]:
  "q_files (q_fire e q) = q_files q" "q_guid (q_fire e q) = q_guid q"
  "q_log (q_fire e q) = q_log q @ [e]"
  by (simp_all add: q_fire_def)

lemma getIndexs_filter:
  "getIndexs st q = filter (\<lambda>i. f_status (q_files q ! i) = Some st) [0 ..< length (q_files q)]"
  using filter_enumerate_fst [of "\<lambda>f. f_status f = Some st" 0 "q_files q"]
  by (simp add: getIndexs_def)

lemma fileStatus_index:
  "fileStatus (Some (int i)) q = (if i < length (q_files q) then f_status (q_files q ! i) else None)"
  by (simp add: fileStatus_def getFile_def js_get_of_nat)

lemma updateFile_index:
  "i < length (q_files q) \<Longrightarrow> updateFile (Some (int i)) g q =
     q_fire (EvUpdate i) (q\<lparr>q_files := (q_files q)[i := g (q_files q ! i)]\<rparr>)"
  by (simp add: updateFile_def getFile_def js_get_of_nat)

lemma updateFile_files:
  "q_files (updateFile (Some (int i)) g q) =
     (if i < length (q_files q) then (q_files q)[i := g (q_files q ! i)] else q_files q)"
  by (simp add: updateFile_def getFile_def js_get_of_nat)

lemma setFileStatus_files:
  "q_files (setFileStatus (Some (int i)) st q) =
     (if i < length (q_files q) then (q_files q)[i := (q_files q ! i)\<lparr>f_status := Some st\<rparr>] else q_files q)"
proof (cases "i < length (q_files q) \<and> f_status (q_files q ! i) = Some st")
  case True
  then have "(q_files q ! i)\<lparr>f_status := Some st\<rparr> = q_files q ! i" by (cases "q_files q ! i") simp
  then have "(q_files q)[i := (q_files q ! i)\<lparr>f_status := Some st\<rparr>] = q_files q"
    by (simp only: list_update_id)
  then show ?thesis using True by (simp add: setFileStatus_def getFile_def js_get_of_nat)
next
  case False
  then show ?thesis
    by (auto simp: setFileStatus_def getFile_def js_get_of_nat updateFile_index)
qed

lemma length_setFileStatus [simp]: "length (q_files (setFileStatus (Some (int i)) st q)) = length (q_files q)"
  by (simp add: setFileStatus_files)

subsection \<open>The contract an uploader relies on\<close>

text \<open>
  A queue as its uploader sees it: statuses by index, and the indexes in a given status in
  ascending order. Inside the locale: setting a status moves exactly that index between the lists.
\<close>

locale status_queue =
  fixes size_of :: "'q \<Rightarrow> nat"
    and status_at :: "'q \<Rightarrow> nat \<Rightarrow> file_status option"
    and set_status :: "nat \<Rightarrow> file_status \<Rightarrow> 'q \<Rightarrow> 'q"
    and indexs :: "file_status \<Rightarrow> 'q \<Rightarrow> nat list"
  assumes size_set: "size_of (set_status i st q) = size_of q"
    and status_set: "i < size_of q \<Longrightarrow> status_at (set_status i st q) j = (if i = j then Some st else status_at q j)"
    and indexs_status: "indexs st q = filter (\<lambda>i. status_at q i = Some st) [0 ..< size_of q]"
begin

lemma indexs_set_other:
  assumes "i < size_of q" "st \<noteq> st'"
  shows "indexs st' (set_status i st q) = filter (\<lambda>j. j \<noteq> i) (indexs st' q)"
proof -
  have "filter (\<lambda>j. status_at (set_status i st q) j = Some st') [0 ..< size_of q] =
      filter (\<lambda>j. j \<noteq> i \<and> status_at q j = Some st') [0 ..< size_of q]"
    by (rule filter_cong) (use assms in \<open>auto simp: status_set\<close>)
  then show ?thesis by (simp add: indexs_status size_set conj_commute)
qed

lemma indexs_distinct: "distinct (indexs st q)"
  by (simp add: indexs_status)

lemma indexs_tl:
  assumes "indexs st' q = i # is" "st \<noteq> st'"
  shows "indexs st' (set_status i st q) = is" "i < size_of q" "status_at q i = Some st'"
proof -
  have "i \<in> set (indexs st' q)" using assms(1) by simp
  then show i: "i < size_of q" "status_at q i = Some st'" by (simp_all add: indexs_status)
  have "i \<notin> set is" using indexs_distinct [of st' q] assms(1) by simp
  then have "filter (\<lambda>j. j \<noteq> i) is = is" by (metis (mono_tags, lifting) filter_True)
  then show "indexs st' (set_status i st q) = is"
    using indexs_set_other [OF i(1) assms(2)] assms(1) by simp
qed

lemma indexs_keep:
  assumes "i < size_of q" "status_at q i \<noteq> Some st'" "st \<noteq> st'"
  shows "indexs st' (set_status i st q) = indexs st' q"
proof -
  have "i \<notin> set (indexs st' q)" using assms(2) by (simp add: indexs_status)
  then have "filter (\<lambda>j. j \<noteq> i) (indexs st' q) = indexs st' q"
    by (intro filter_True) auto
  then show ?thesis using indexs_set_other [OF assms(1,3)] by simp
qed

end

definition queue_size :: "queue \<Rightarrow> nat" where
  "queue_size q = length (q_files q)"

definition queue_status :: "queue \<Rightarrow> nat \<Rightarrow> file_status option" where
  "queue_status q i = fileStatus (Some (int i)) q"

definition queue_set :: "nat \<Rightarrow> file_status \<Rightarrow> queue \<Rightarrow> queue" where
  "queue_set i st q = setFileStatus (Some (int i)) st q"

interpretation uq: status_queue queue_size queue_status queue_set getIndexs
proof
  fix i st q j
  show "queue_size (queue_set i st q) = queue_size q"
    by (simp add: queue_size_def queue_set_def)
  assume "i < queue_size q"
  then show "queue_status (queue_set i st q) j = (if i = j then Some st else queue_status q j)"
    by (simp add: queue_size_def queue_set_def queue_status_def fileStatus_index setFileStatus_files)
next
  fix st q
  have "filter (\<lambda>i. f_status (q_files q ! i) = Some st) [0 ..< length (q_files q)] =
      filter (\<lambda>i. queue_status q i = Some st) [0 ..< length (q_files q)]"
    by (rule filter_cong) (auto simp: queue_status_def fileStatus_index)
  then show "getIndexs st q = filter (\<lambda>i. queue_status q i = Some st) [0 ..< queue_size q]"
    by (simp add: getIndexs_filter queue_size_def)
qed

subsection \<open>Unique ids\<close>

text \<open>Ids the queue gave out are \<open>file-n\<close> with \<open>n\<close> below the counter; no two files share one.\<close>

definition ids_ok :: "queue \<Rightarrow> bool" where
  "ids_ok q \<longleftrightarrow> distinct (map f_id (q_files q)) \<and>
     (\<forall>f \<in> set (q_files q). \<exists>n < q_guid q. f_id f = ''file-'' @ dec_of_nat n)"

lemma last_index_bounds: "last_index P i xs = Some j \<Longrightarrow> i \<le> j \<and> j < i + length xs \<and> P (xs ! (j - i))"
proof (induction xs arbitrary: i)
  case (Cons x xs)
  show ?case
  proof (cases "last_index P (Suc i) xs")
    case None
    then show ?thesis using Cons.prems by (auto split: if_splits)
  next
    case (Some k)
    then have "j = k" using Cons.prems by simp
    then show ?thesis using Cons.IH [of "Suc i"] Some by (auto simp: nth_Cons' Suc_diff_le)
  qed
qed simp

lemma last_index_None: "last_index P i xs = None \<longleftrightarrow> (\<forall>x \<in> set xs. \<not> P x)"
proof (induction xs arbitrary: i)
  case (Cons x xs)
  show ?case using Cons.IH [of "Suc i"] by (cases "last_index P (Suc i) xs") auto
qed simp

lemma getFileIndex_unique:
  assumes "distinct (map f_id (q_files q))" "i < length (q_files q)"
  shows "getFileIndex (f_id (q_files q ! i)) q = int i"
proof -
  let ?P = "\<lambda>f. f_id f = f_id (q_files q ! i)"
  have "last_index ?P 0 (q_files q) \<noteq> None"
    using assms(2) unfolding last_index_None by (metis nth_mem)
  then obtain j where j: "last_index ?P 0 (q_files q) = Some j" by blast
  then have "j < length (q_files q)" "f_id (q_files q ! j) = f_id (q_files q ! i)"
    using last_index_bounds [OF j] by simp_all
  then have "j = i"
    using assms by (metis length_map nth_eq_iff_index_eq nth_map)
  then show ?thesis using j by (simp add: getFileIndex_def)
qed

lemma setAddFileData_files:
  "setAddFileData f q = (f', q') \<Longrightarrow> q_files q' = q_files q @ [f']"
  by (auto simp: setAddFileData_def Let_def split: prod.splits if_splits)

lemma ids_ok_addFile:
  assumes "ids_ok q" "f_id f = []"
  shows "ids_ok (addFile f q)"
proof -
  obtain f' q' where a: "setAddFileData f q = (f', q')" by (cases "setAddFileData f q")
  then have new: "f_id f' = guid q" "q_guid q' = Suc (q_guid q)" "q_files q' = q_files q @ [f']"
    using assms(2) by (auto simp: setAddFileData_def Let_def split: if_splits)
  have "guid q \<notin> f_id ` set (q_files q)"
    using assms(1) by (force simp: ids_ok_def guid_def dec_of_nat_inj)
  moreover have "\<exists>n < Suc (q_guid q). f_id g = ''file-'' @ dec_of_nat n" if "g \<in> set (q_files q)" for g
    using assms(1) that unfolding ids_ok_def by (meson less_SucI)
  ultimately show ?thesis
    using assms(1) a new by (auto simp: ids_ok_def addFile_def guid_def)
qed

lemma ids_ok_files:
  assumes "ids_ok q" "map f_id (q_files q') = map f_id (q_files q)" "q_guid q' = q_guid q"
  shows "ids_ok q'"
proof -
  have alt: "ids_ok r \<longleftrightarrow> distinct (map f_id (q_files r)) \<and>
      (\<forall>i \<in> set (map f_id (q_files r)). \<exists>n < q_guid r. i = ''file-'' @ dec_of_nat n)" for r
    by (simp add: ids_ok_def)
  show ?thesis using assms(1) unfolding alt assms(2,3) .
qed

lemma ids_ok_setFileStatus:
  assumes "ids_ok q"
  shows "ids_ok (setFileStatus (Some (int i)) st q)"
proof (rule ids_ok_files [OF assms])
  show "map f_id (q_files (setFileStatus (Some (int i)) st q)) = map f_id (q_files q)"
    by (simp add: setFileStatus_files map_update) (metis list_update_id length_map nth_map)
  show "q_guid (setFileStatus (Some (int i)) st q) = q_guid q"
    by (simp add: setFileStatus_def updateFile_def split: option.splits)
qed

lemma ids_ok_remove:
  assumes "ids_ok q" "remove_file r q = (x, q')"
  shows "ids_ok q'"
proof -
  let ?i = "case r of ByIndex i \<Rightarrow> i | ById s \<Rightarrow> getFileIndex s q"
  have "q' = q \<or> (\<exists>j < length (q_files q). q_files q' = take j (q_files q) @ drop (Suc j) (q_files q) \<and>
      q_guid q' = q_guid q)"
  proof (cases "js_get (q_files q) ?i")
    case None
    then show ?thesis using assms(2) by (simp add: remove_file_def)
  next
    case (Some f)
    then have "nat ?i < length (q_files q)" by (simp add: js_get_Some)
    moreover have "q_files q' = take (nat ?i) (q_files q) @ drop (Suc (nat ?i)) (q_files q) \<and> q_guid q' = q_guid q"
      using assms(2) Some filter_out_index [of 0 "nat ?i" "q_files q"] by (auto simp: remove_file_def Let_def)
    ultimately show ?thesis by blast
  qed
  then show ?thesis
  proof (elim disjE exE conjE)
    fix j
    assume j: "j < length (q_files q)" "q_files q' = take j (q_files q) @ drop (Suc j) (q_files q)"
      "q_guid q' = q_guid q"
    have split: "q_files q = take j (q_files q) @ q_files q ! j # drop (Suc j) (q_files q)"
      by (rule id_take_nth_drop [OF j(1)])
    have "distinct (map f_id (take j (q_files q) @ q_files q ! j # drop (Suc j) (q_files q)))"
      using assms(1) split unfolding ids_ok_def by metis
    then have "distinct (map f_id (q_files q'))" unfolding j(2) by auto
    moreover have "set (q_files q') \<subseteq> set (q_files q)"
      unfolding j(2) by (auto dest: in_set_takeD in_set_dropD)
    ultimately show ?thesis using assms(1) j(3) unfolding ids_ok_def by auto
  qed (use assms(1) in simp)
qed

subsection \<open>Properties\<close>

text \<open>The operations a page performs on a queue.\<close>

datatype queue_op = OpAdd qfile | OpRemove file_ref | OpStatus nat file_status

fun do_op :: "queue_op \<Rightarrow> queue \<Rightarrow> queue" where
  "do_op (OpAdd f) q = addFile (f\<lparr>f_id := []\<rparr>) q"
| "do_op (OpRemove r) q = snd (remove_file r q)"
| "do_op (OpStatus i st) q = setFileStatus (Some (int i)) st q"

lemma ids_ok_ops: "ids_ok q \<Longrightarrow> ids_ok (fold do_op ops q)"
proof (induction ops arbitrary: q)
  case (Cons op ops)
  have "ids_ok (do_op op q)"
    using Cons.prems
    using ids_ok_remove [OF Cons.prems surjective_pairing]
    by (cases op) (auto intro: ids_ok_addFile ids_ok_setFileStatus)
  then show ?case using Cons.IH by simp
qed simp

text \<open>
  A queue built by adding files that have no id yet, removing files and changing statuses
  never holds two files with one id, and looking a file up by its id finds that file.
\<close>

theorem queue_ids_unique:
  "let q = fold do_op ops new_queue in distinct (map f_id (q_files q)) \<and>
     list_all (\<lambda>i. getFileIndex (f_id (q_files q ! i)) q = int i) [0 ..< length (q_files q)]"
proof -
  have "ids_ok (fold do_op ops new_queue)"
    by (rule ids_ok_ops) (simp add: ids_ok_def new_queue_def)
  then show ?thesis
    using getFileIndex_unique unfolding ids_ok_def Let_def list_all_iff by auto
qed

lemma add_each_length:
  "length (q_files (add_each (Some m) len k fs q)) =
     length (q_files q) + (if 0 < m then min (length fs) (nat (m - int (len + k))) else length fs)"
proof (induction fs arbitrary: k q)
  case (Cons f fs)
  have "length (q_files (addFile f q)) = Suc (length (q_files q))" for f q
    using setAddFileData_files [of f q] by (cases "setAddFileData f q") (simp add: addFile_def)
  then show ?case using Cons.IH by (auto simp: Let_def)
qed simp

text \<open>
  With a positive \<open>max\<close> a batch is cut so that the queue does not exceed it: of the chosen
  files only the first \<open>max - length\<close> are added; a queue that is already full stays as it is.
\<close>

theorem add_files_max:
  "0 < m \<Longrightarrow> length (q_files (add_files (Some m) fs q)) =
     length (q_files q) + min (length fs) (nat (m - int (length (q_files q))))"
  using add_each_length [of m "length (q_files q)" 0 fs q] by (simp add: add_files_def)

definition sample_file :: qfile where
  "sample_file = \<lparr>f_id = [], f_name = ''a.jpg'', f_size = 2048, f_textSize = None, f_status = None,
     f_result = None, f_sUrl = None, f_data = True\<rparr>"

theorem add_files_max_witness:
  "length (q_files (add_files (Some 3) (replicate 5 sample_file) new_queue)) = 3"
  using add_files_max [of 3 "replicate 5 sample_file" new_queue] by (simp add: new_queue_def)

text \<open>\<open>clear\<close> ends and empties the queue, firing one remove event per file, then clear.\<close>

theorem clear_queue_empties:
  "q_files (clear_queue q) = [] \<and> q_guid (clear_queue q) = q_guid q \<and>
     q_log (clear_queue q) = q_log q @ replicate (length (q_files q)) (EvRemove 0) @ [EvClear]"
proof (induction q rule: clear_queue.induct)
  case (1 q)
  show ?case
  proof (cases "q_files q")
    case Nil
    then show ?thesis by (simp add: clear_queue.simps [of q])
  next
    case (Cons f fs)
    then have "clear_queue q = clear_queue (q_fire (EvRemove 0) (q\<lparr>q_files := fs\<rparr>))"
      by (simp add: clear_queue.simps [of q] remove_first)
    moreover have ne: "q_files q \<noteq> []" using Cons by simp
    ultimately show ?thesis
      using 1 [OF ne remove_first [OF ne, symmetric] refl] Cons by simp
  qed
qed

lemma size_steps_bounds:
  "bytes \<le> 99 * 1024 ^ size_steps bytes k \<and> k \<le> size_steps bytes k \<and>
   (k < size_steps bytes k \<longrightarrow> 99 * 1024 ^ (size_steps bytes k - 1) < bytes)"
proof (induction bytes k rule: size_steps.induct)
  case (1 bytes k)
  show ?case
  proof (cases "99 * 1024 ^ k < bytes")
    case True
    then have step: "size_steps bytes k = size_steps bytes (Suc k)" by (simp add: size_steps.simps [of bytes k])
    show ?thesis
    proof (cases "size_steps bytes (Suc k) = Suc k")
      case eq: True
      then show ?thesis using step True "1.IH" [OF True] by simp
    next
      case False
      then show ?thesis using step "1.IH" [OF True] by auto
    qed
  next
    case False
    then show ?thesis by (simp add: size_steps.simps [of bytes k])
  qed
qed

text \<open>
  The size shown is right to the nearest tenth in the smallest unit that keeps it at most 99:
  with \<open>k\<close> divisions by 1024, twenty times the value is within one of twice the tenths shown.
\<close>

theorem convertByteSize_nearest:
  "let k = size_steps bytes 1; n = tenths bytes k in
     bytes \<le> 99 * 1024 ^ k \<and> (k = 1 \<or> 99 * 1024 ^ (k - 1) < bytes) \<and>
     2 * n * 1024 ^ k \<le> 20 * bytes + 1024 ^ k \<and> 20 * bytes < 2 * n * 1024 ^ k + 1024 ^ k"
proof -
  define k where "k = size_steps bytes 1"
  define d :: nat where "d = 1024 ^ k"
  have d: "0 < d" by (simp add: d_def)
  let ?n = "(20 * bytes + d) div (2 * d)"
  have "?n * (2 * d) \<le> 20 * bytes + d" by simp
  moreover have "20 * bytes + d < (?n + 1) * (2 * d)"
    using d by (metis Suc_eq_plus1 dividend_less_div_times mult.commute mult_Suc nat_0_less_mult_iff zero_less_numeral)
  ultimately have "2 * ?n * d \<le> 20 * bytes + d" "20 * bytes < 2 * ?n * d + d"
    by (simp_all add: algebra_simps)
  then show ?thesis
    using size_steps_bounds [of bytes 1] unfolding Let_def k_def [symmetric] tenths_def d_def [symmetric]
    by (auto simp: d_def)
qed

end
