(* ===== verification/Uploader.thy ===== *)
theory Uploader
  imports UploadQueue JsCommand
begin

section \<open>The uploader\<close>

text \<open>
  \<open>kg/uploader/2.0.2/index\<close> (in \<open>index.js\<close>) with the part of its transports it waits for. The
  state holds the queue, the index being uploaded and the status of the batch in progress; the
  answers of a transport arrive as events. \<open>u_sent\<close> lists the files handed to a transport that
  sent them, \<open>u_active\<close> says that the transport holds something to stop (the \<open>io\<close> object of ajax,
  the frame of iframe, the id of flash), which is never reset by a stop. A stopped ajax request reports its
  failure later, as an answer of its own (\<open>ajaxError\<close>).
\<close>

datatype transport = Iframe | Ajax | Flash

record uploader =
  u_queue :: queue
  u_kind :: transport
  u_active :: bool
  u_cur :: "nat option"
  u_batch :: "file_status option"
  u_allow :: bool
  u_auto :: bool
  u_max :: "int option"
  u_multipleLen :: int
  u_sent :: "nat list"

definition new_uploader :: "transport \<Rightarrow> uploader" where
  "new_uploader k = \<lparr>u_queue = new_queue, u_kind = k, u_active = False, u_cur = None, u_batch = None,
     u_allow = True, u_auto = True, u_max = None, u_multipleLen = -1, u_sent = []\<rparr>"

definition with_queue :: "(queue \<Rightarrow> queue) \<Rightarrow> uploader cmd" where
  "with_queue g u = (None, u\<lparr>u_queue := g (u_queue u)\<rparr>)"

definition fire :: "up_event \<Rightarrow> uploader cmd" where
  "fire e = with_queue (q_fire e)"

definition set_cur :: "nat option \<Rightarrow> uploader cmd" where
  "set_cur c u = (None, u\<lparr>u_cur := c\<rparr>)"

definition set_batch :: "file_status option \<Rightarrow> uploader cmd" where
  "set_batch s u = (None, u\<lparr>u_batch := s\<rparr>)"

text \<open>\<open>curUploadIndex != EMPTY\<close>: the number 0 and the empty string are equal to \<open>!=\<close>.\<close>

definition busy :: "nat option \<Rightarrow> bool" where
  "busy c \<longleftrightarrow> (case c of None \<Rightarrow> False | Some i \<Rightarrow> i \<noteq> 0)"

subsection \<open>Uploading\<close>

text \<open>\<open>uploadType.upload(uploadParam)\<close>: ajax and iframe give up on a file without data.\<close>

definition transport_upload :: "nat \<Rightarrow> qfile \<Rightarrow> uploader cmd" where
  "transport_upload i f u =
     (None, if u_kind u = Flash \<or> f_data f then u\<lparr>u_active := True, u_sent := u_sent u @ [i]\<rparr> else u)"

definition upload :: "int \<Rightarrow> uploader cmd" where
  "upload index u =
     (case js_get (q_files (u_queue u)) index of
        None \<Rightarrow> skip u
      | Some f \<Rightarrow>
          if busy (u_cur u) then fire (EvAlert (the (u_cur u))) u
          else if u_kind u = Flash \<and> \<not> f_data f then throw TypeError u
          else if f_status f = Some ERROR then skip u
          else if \<not> u_allow u then skip u
          else block
            [set_cur (Some (nat index)),
             fire (EvStart (nat index)),
             with_queue (setFileStatus (Some index) START),
             transport_upload (nat index) f] u)"

definition uploaderStatusFile :: "file_status \<Rightarrow> uploader cmd" where
  "uploaderStatusFile st u =
     (case getIndexs st (u_queue u) of
        [] \<Rightarrow> block [set_batch None, fire EvUploadFiles] u
      | i # _ \<Rightarrow> upload (int i) u)"

definition uploadFiles :: "file_status \<Rightarrow> uploader cmd" where
  "uploadFiles st = block [set_batch (Some st), uploaderStatusFile st]"

definition continueUpload :: "uploader cmd" where
  "continueUpload u =
     (case u_batch u of None \<Rightarrow> skip u | Some st \<Rightarrow> uploaderStatusFile st u)"

subsection \<open>Results\<close>

text \<open>\<open>curUploadIndex\<close> as the queue's operations get it: a number or the empty string.\<close>

definition cur_index :: "uploader \<Rightarrow> int option" where
  "cur_index u = map_option int (u_cur u)"

text \<open>\<open>_success(result.data)\<close> keeps the address the server gave.\<close>

definition keep_url :: "upload_result \<Rightarrow> uploader cmd" where
  "keep_url r u =
     (case r_url r of
        None \<Rightarrow> skip u
      | Some url \<Rightarrow> with_queue (updateFile (cur_index u) (\<lambda>f. f\<lparr>f_sUrl := Some url\<rparr>)) u)"

text \<open>\<open>result.msg = msg\<close> changes the object the file already holds, without an event.\<close>

definition note_msg :: "upload_result \<Rightarrow> uploader cmd" where
  "note_msg r u = with_queue (\<lambda>q.
     (case cur_index u of
        None \<Rightarrow> q
      | Some i \<Rightarrow>
          (case getFile (ByIndex i) q of
             None \<Rightarrow> q
           | Some f \<Rightarrow> q\<lparr>q_files := (q_files q)[nat i :=
                f\<lparr>f_result := Some (r\<lparr>r_msg := Some (or_empty (r_msg r))\<rparr>)\<rparr>]\<rparr>))) u"

text \<open>\<open>None\<close>: the event's \<open>result\<close> is not an object.\<close>

definition uploadComplete :: "upload_result option \<Rightarrow> uploader cmd" where
  "uploadComplete result u =
     (case result of
        None \<Rightarrow> skip u
      | Some r \<Rightarrow>
          (let index = u_cur u in block
             [with_queue (updateFile (cur_index u) (\<lambda>f. f\<lparr>f_result := Some r\<rparr>)),
              (if r_ok r then block
                 [with_queue (setFileStatus (cur_index u) SUCCESS), keep_url r, fire (EvSuccess index)]
               else block
                 [note_msg r, with_queue (setFileStatus (cur_index u) ERROR), fire (EvError index)]),
              set_cur None,
              fire (EvComplete index),
              continueUpload] u))"

definition uploadProgress :: "uploader cmd" where
  "uploadProgress u = block
     [with_queue (setFileStatus (cur_index u) PROGRESS), fire (EvProgress (u_cur u))] u"

subsection \<open>What the transports report\<close>

text \<open>
  A text answer (iframe and flash) after \<open>JSON.parse\<close>: not JSON, a value that is no object, or an
  object. \<open>_processResponse\<close> reports a parse error itself and then returns an empty object, which
  its caller reports as a success.
\<close>

datatype answer = NotJson | NoObject | Object upload_result

definition empty_result :: upload_result where
  "empty_result = \<lparr>r_ok = False, r_msg = None, r_url = None\<rparr>"

definition bad_result :: "string \<Rightarrow> upload_result" where
  "bad_result msg = \<lparr>r_ok = False, r_msg = Some msg, r_url = None\<rparr>"

definition processResponse :: "string \<Rightarrow> answer \<Rightarrow> (upload_result option \<Rightarrow> uploader cmd) \<Rightarrow> uploader cmd" where
  "processResponse text a k =
     (case a of
        NotJson \<Rightarrow> block [uploadComplete (Some (bad_result text)), k (Some empty_result)]
      | NoObject \<Rightarrow> k None
      | Object r \<Rightarrow> k (Some r))"

definition iframeAnswer :: "string \<Rightarrow> answer \<Rightarrow> uploader cmd" where
  "iframeAnswer text a = processResponse text a uploadComplete"

definition flashComplete :: "string \<Rightarrow> answer \<Rightarrow> uploader cmd" where
  "flashComplete text a = processResponse text a (\<lambda>r. block
     [(\<lambda>u. (None, u\<lparr>u_active := False\<rparr>)), uploadComplete r])"

text \<open>\<open>_uploadErrorHandler\<close> of flash reports an error without a result.\<close>

definition flashError :: "uploader cmd" where
  "flashError = block [(\<lambda>u. (None, u\<lparr>u_active := False\<rparr>)), uploadComplete None]"

text \<open>An ajax request that failed: the result is an object without a status 1.\<close>

definition ajaxError :: "bool \<Rightarrow> uploader cmd" where
  "ajaxError timeout = uploadComplete (Some (if timeout then bad_result ''timeout'' else empty_result))"

subsection \<open>Stopping\<close>

definition uploadStopHandler :: "uploader cmd" where
  "uploadStopHandler u =
     (let index = u_cur u in block
       [with_queue (setFileStatus (cur_index u) CANCEL), set_cur None, fire (EvCancel index)] u)"

text \<open>
  What \<open>stop\<close> of the transports does to the uploader: ajax and flash do nothing if nothing was ever sent; iframe has no
  frame to clear then and throws. The three methods are \<open>ajax_stop\<close>, \<open>flash_stop\<close> and \<open>iframe_stop\<close>, on states of their
  own; that the uploader which listens to them changes as it does here is proved in \<open>UploadWiring\<close>.
\<close>

definition transport_stop :: "uploader cmd" where
  "transport_stop u =
     (case u_kind u of
        Ajax \<Rightarrow> if u_active u then uploadStopHandler u else skip u
      | Flash \<Rightarrow> if u_active u then uploadStopHandler u else skip u
      | Iframe \<Rightarrow> if u_active u then block [uploadStopHandler, uploadComplete None] u else throw TypeError u)"

text \<open>\<open>cancel(index)\<close>: \<open>None\<close> for a call without an index.\<close>

definition cancel :: "int option \<Rightarrow> uploader cmd" where
  "cancel index u =
     (case index of
        Some i \<Rightarrow>
          (if fileStatus (Some i) (u_queue u) \<noteq> Some SUCCESS then block
             [transport_stop, with_queue (setFileStatus (Some i) CANCEL)] u
           else block [transport_stop, continueUpload] u)
      | None \<Rightarrow> block [transport_stop, continueUpload] u)"

definition stop :: "uploader cmd" where
  "stop = block [set_batch None, cancel None]"

subsection \<open>Choosing files\<close>

definition processExceedMultiple :: "int \<Rightarrow> qfile list \<Rightarrow> qfile list" where
  "processExceedMultiple multipleLen files =
     (if multipleLen < 0 \<or> files = [] then files
      else map snd (filter (\<lambda>p. int (fst p) < multipleLen) (enumerate 0 files)))"

definition select_files :: "qfile list \<Rightarrow> uploader cmd" where
  "select_files chosen u =
     (let curId = u_cur u; files = processExceedMultiple (u_multipleLen u) chosen in block
        [fire (EvSelect (length files)),
         (\<lambda>u. if \<not> u_allow u then skip u else block
            [with_queue (add_files (u_max u) files),
             if \<not> busy curId \<and> u_auto u then uploadFiles WAITING else skip] u)] u)"

text \<open>The loop of \<open>restore\<close> adds the files of a saved form as already uploaded.\<close>

definition restore_one :: "string \<times> upload_result \<Rightarrow> uploader cmd" where
  "restore_one nr u =
     (let f = \<lparr>f_id = [], f_name = fst nr, f_size = 0, f_textSize = None, f_status = None,
               f_result = Some (snd nr), f_sUrl = None, f_data = False\<rparr>;
          (f', q') = setAddFileData f (u_queue u);
          index = getFileIndex (f_id f') q' in block
        [with_queue (addFile f),
         with_queue (setFileStatus (Some index) SUCCESS),
         fire (EvSuccess None)] u)"

fun restore_listed :: "(string \<times> upload_result) list \<Rightarrow> uploader cmd" where
  "restore_listed [] = skip"
| "restore_listed (r # rs) = andthen (restore_one r) (restore_listed rs)"

subsection \<open>What the steps do to statuses\<close>

definition queue_data :: "queue \<Rightarrow> nat \<Rightarrow> bool" where
  "queue_data q i \<longleftrightarrow> i < length (q_files q) \<and> f_data (q_files q ! i)"

text \<open>\<open>q'\<close> has the files of \<open>q\<close> with their data, and the statuses \<open>st\<close>.\<close>

definition restatus :: "queue \<Rightarrow> (nat \<Rightarrow> file_status option) \<Rightarrow> queue \<Rightarrow> bool" where
  "restatus q st q' \<longleftrightarrow> queue_size q' = queue_size q \<and> (\<forall>j. queue_data q' j = queue_data q j) \<and>
     (\<forall>j. queue_status q' j = st j)"

lemma restatus_refl: "restatus q (queue_status q) q"
  by (simp add: restatus_def)

lemma restatus_trans: "restatus q st q' \<Longrightarrow> restatus q' st' q'' \<Longrightarrow> restatus q st' q''"
  by (simp add: restatus_def)

lemma restatus_getIndexs: "restatus q st q' \<Longrightarrow> getIndexs x q' = filter (\<lambda>i. st i = Some x) [0 ..< queue_size q]"
  by (simp add: restatus_def uq.indexs_status)

lemma restatus_fire: "restatus q (queue_status q) (q_fire e q)"
  by (simp add: restatus_def queue_size_def queue_data_def queue_status_def fileStatus_index)

lemma restatus_update:
  assumes "\<And>f. f_status (g f) = f_status f" "\<And>f. f_data (g f) = f_data f"
  shows "restatus q (queue_status q) (updateFile (Some (int i)) g q)"
  using assms
  by (auto simp: restatus_def queue_size_def queue_data_def queue_status_def fileStatus_index
      updateFile_files nth_list_update)

lemma restatus_set:
  "i < queue_size q \<Longrightarrow>
   restatus q (\<lambda>j. if j = i then Some st else queue_status q j) (setFileStatus (Some (int i)) st q)"
  by (auto simp: restatus_def queue_size_def queue_data_def queue_status_def fileStatus_index
      setFileStatus_files nth_list_update)

lemma restatus_note:
  assumes "u_cur u = Some i"
  shows "\<exists>q'. note_msg r u = (None, u\<lparr>u_queue := q'\<rparr>) \<and> restatus (u_queue u) (queue_status (u_queue u)) q'"
proof (cases "i < length (q_files (u_queue u))")
  case True
  let ?f = "q_files (u_queue u) ! i"
  let ?q = "(u_queue u)\<lparr>q_files := (q_files (u_queue u))[i := ?f\<lparr>f_result := Some (r\<lparr>r_msg := Some (or_empty (r_msg r))\<rparr>)\<rparr>]\<rparr>"
  have "note_msg r u = (None, u\<lparr>u_queue := ?q\<rparr>)"
    using True assms by (simp add: note_msg_def with_queue_def cur_index_def getFile_def js_get_of_nat)
  moreover have "restatus (u_queue u) (queue_status (u_queue u)) ?q"
    using True by (auto simp: restatus_def queue_size_def queue_data_def queue_status_def
        fileStatus_index nth_list_update)
  ultimately show ?thesis by blast
next
  case False
  then have "note_msg r u = (None, u\<lparr>u_queue := u_queue u\<rparr>)"
    using assms by (simp add: note_msg_def with_queue_def cur_index_def getFile_def js_get_of_nat)
  then show ?thesis using restatus_refl by blast
qed

lemma restatus_cong: "restatus q st q' \<Longrightarrow> (\<And>j. st j = st' j) \<Longrightarrow> restatus q st' q'"
  by (simp add: restatus_def)

lemma restatus_id: "restatus q st q' \<Longrightarrow> queue_status q' = st"
  by (auto simp: restatus_def)

lemma waiting_after:
  assumes "restatus q (\<lambda>k. if k = i then Some st else queue_status q k) q'" "st \<noteq> WAITING"
    and "i < queue_size q" "i \<notin> set (getIndexs WAITING q)"
  shows "getIndexs WAITING q' = getIndexs WAITING q"
proof -
  have "queue_status q i \<noteq> Some WAITING" using assms(3,4) by (simp add: uq.indexs_status)
  then show ?thesis
    unfolding restatus_getIndexs [OF assms(1)] unfolding uq.indexs_status
    using assms(2) by (intro filter_cong) auto
qed

subsection \<open>Starting and finishing an upload\<close>

lemma upload_starts:
  assumes "\<not> busy (u_cur u)" "u_allow u" "queue_data (u_queue u) j" "queue_status (u_queue u) j \<noteq> Some ERROR"
  shows "\<exists>q'. upload (int j) u =
      (None, u\<lparr>u_queue := q', u_cur := Some j, u_active := True, u_sent := u_sent u @ [j]\<rparr>) \<and>
    restatus (u_queue u) (\<lambda>k. if k = j then Some START else queue_status (u_queue u) k) q'"
proof -
  let ?f = "q_files (u_queue u) ! j"
  have j: "j < length (q_files (u_queue u))" "f_data ?f" "f_status ?f \<noteq> Some ERROR"
    using assms(3,4) by (auto simp: queue_data_def queue_status_def fileStatus_index)
  let ?q = "setFileStatus (Some (int j)) START (q_fire (EvStart j) (u_queue u))"
  have "upload (int j) u =
      (None, u\<lparr>u_queue := ?q, u_cur := Some j, u_active := True, u_sent := u_sent u @ [j]\<rparr>)"
    using j assms(1,2)
    by (simp add: upload_def js_get_of_nat set_cur_def fire_def with_queue_def transport_upload_def andthen_def)
  moreover have "restatus (u_queue u) (\<lambda>k. if k = j then Some START else queue_status (u_queue u) k) ?q"
    by (rule restatus_cong [OF restatus_trans [OF restatus_fire [of _ "EvStart j"] restatus_set]])
      (use j(1) restatus_id [OF restatus_fire] in \<open>simp_all add: queue_size_def\<close>)
  ultimately show ?thesis by blast
qed

text \<open>Files keep their ids in everything but adding and removing.\<close>

definition ids :: "queue \<Rightarrow> string list" where
  "ids q = map f_id (q_files q)"

lemma ids_fire [simp]: "ids (q_fire e q) = ids q"
  by (simp add: ids_def)

lemma ids_update: "(\<And>f. f_id (h f) = f_id f) \<Longrightarrow> ids (updateFile (Some (int i)) h q) = ids q"
  by (simp add: ids_def updateFile_files map_update list_update_id) (metis length_map list_update_id nth_map)

lemma ids_status [simp]: "ids (setFileStatus (Some (int i)) st q) = ids q"
  by (simp add: ids_def setFileStatus_files map_update) (metis length_map list_update_id nth_map)

lemma ids_status_any [simp]: "ids (setFileStatus k st q) = ids q"
proof (cases k)
  case (Some i)
  show ?thesis
  proof (cases "0 \<le> i")
    case True
    then show ?thesis using ids_status [of "nat i" st q] Some by simp
  next
    case False
    then have "js_get (q_files q) i = None" by (simp add: js_get_None)
    then show ?thesis using Some by (simp add: setFileStatus_def getFile_def)
  qed
qed (simp add: setFileStatus_def)

lemma success_steps:
  assumes "u_cur u = Some i" "i < queue_size (u_queue u)" "r_ok r"
  shows "\<exists>q'. block [with_queue (updateFile (cur_index u) (\<lambda>f. f\<lparr>f_result := Some r\<rparr>)),
      with_queue (setFileStatus (cur_index u) SUCCESS), keep_url r, fire (EvSuccess (Some i))] u =
        (None, u\<lparr>u_queue := q'\<rparr>) \<and>
    restatus (u_queue u) (\<lambda>j. if j = i then Some SUCCESS else queue_status (u_queue u) j) q' \<and>
    ids q' = ids (u_queue u)"
proof -
  define q1 where "q1 = updateFile (Some (int i)) (\<lambda>f. f\<lparr>f_result := Some r\<rparr>) (u_queue u)"
  define q2 where "q2 = setFileStatus (Some (int i)) SUCCESS q1"
  define q3 where "q3 = (case r_url r of None \<Rightarrow> q2
       | Some url \<Rightarrow> updateFile (Some (int i)) (\<lambda>f. f\<lparr>f_sUrl := Some url\<rparr>) q2)"
  have q1: "restatus (u_queue u) (queue_status (u_queue u)) q1"
    unfolding q1_def by (rule restatus_update) simp_all
  have q2: "restatus q1 (\<lambda>j. if j = i then Some SUCCESS else queue_status q1 j) q2"
    unfolding q2_def by (rule restatus_set) (use assms(2) q1 in \<open>simp add: restatus_def\<close>)
  have q3: "restatus q2 (queue_status q2) q3"
    unfolding q3_def by (auto intro: restatus_refl restatus_update split: option.split)
  have cur: "cur_index (u\<lparr>u_queue := x\<rparr>) = Some (int i)" "cur_index u = Some (int i)" for x
    using assms(1) by (simp_all add: cur_index_def)
  have "ids q3 = ids (u_queue u)"
    by (simp add: q3_def q2_def q1_def ids_update split: option.split)
  moreover have "restatus (u_queue u) (queue_status q3) (q_fire (EvSuccess (Some i)) q3)"
    using restatus_trans [OF q1 restatus_trans [OF q2 restatus_trans [OF q3 restatus_fire]]] .
  moreover have "block [with_queue (updateFile (cur_index u) (\<lambda>f. f\<lparr>f_result := Some r\<rparr>)),
      with_queue (setFileStatus (cur_index u) SUCCESS), keep_url r, fire (EvSuccess (Some i))] u =
        (None, u\<lparr>u_queue := q_fire (EvSuccess (Some i)) q3\<rparr>)"
    by (cases "r_url r") (simp_all add: with_queue_def fire_def andthen_def cur keep_url_def
        q1_def [symmetric] q2_def [symmetric] q3_def)
  ultimately show ?thesis
    using restatus_id [OF q3] restatus_id [OF q2] restatus_id [OF q1]
    by (intro exI [of _ "q_fire (EvSuccess (Some i)) q3"]) (simp add: restatus_def)
qed

lemma failure_steps:
  assumes "u_cur u = Some i" "i < queue_size (u_queue u)" "\<not> r_ok r"
  shows "\<exists>q'. block [with_queue (updateFile (cur_index u) (\<lambda>f. f\<lparr>f_result := Some r\<rparr>)), note_msg r,
      with_queue (setFileStatus (cur_index u) ERROR), fire (EvError (Some i))] u = (None, u\<lparr>u_queue := q'\<rparr>) \<and>
    restatus (u_queue u) (\<lambda>j. if j = i then Some ERROR else queue_status (u_queue u) j) q'"
proof -
  define q1 where "q1 = updateFile (Some (int i)) (\<lambda>f. f\<lparr>f_result := Some r\<rparr>) (u_queue u)"
  let ?u1 = "u\<lparr>u_queue := q1\<rparr>"
  have q1: "restatus (u_queue u) (queue_status (u_queue u)) q1"
    unfolding q1_def by (rule restatus_update) simp_all
  obtain q2 where q2: "note_msg r ?u1 = (None, u\<lparr>u_queue := q2\<rparr>)" "restatus q1 (queue_status q1) q2"
    using restatus_note [of ?u1 i r] assms(1) by auto
  define q3 where "q3 = setFileStatus (Some (int i)) ERROR q2"
  have q3: "restatus q2 (\<lambda>j. if j = i then Some ERROR else queue_status q2 j) q3"
    unfolding q3_def by (rule restatus_set) (use assms(2) q1 q2(2) in \<open>simp add: restatus_def\<close>)
  have cur: "cur_index (u\<lparr>u_queue := x\<rparr>) = Some (int i)" "cur_index u = Some (int i)" for x
    using assms(1) by (simp_all add: cur_index_def)
  have "restatus (u_queue u) (queue_status q3) (q_fire (EvError (Some i)) q3)"
    using restatus_trans [OF q1 restatus_trans [OF q2(2) restatus_trans [OF q3 restatus_fire]]] .
  moreover have "block [with_queue (updateFile (cur_index u) (\<lambda>f. f\<lparr>f_result := Some r\<rparr>)), note_msg r,
      with_queue (setFileStatus (cur_index u) ERROR), fire (EvError (Some i))] u =
        (None, u\<lparr>u_queue := q_fire (EvError (Some i)) q3\<rparr>)"
    using q2(1) by (simp add: with_queue_def fire_def andthen_def cur q1_def [symmetric] q3_def)
  ultimately show ?thesis
    using restatus_id [OF q3] restatus_id [OF q2(2)] restatus_id [OF q1]
    by (intro exI [of _ "q_fire (EvError (Some i)) q3"]) (simp add: restatus_def)
qed

lemma andthen_assoc: "andthen (andthen a b) d = andthen a (andthen b d)"
  by (rule ext) (simp add: andthen_def split: prod.splits option.splits)

lemma complete_before:
  assumes "u_cur u = Some i" "i < queue_size (u_queue u)"
  shows "\<exists>q'. uploadComplete (Some r) u = continueUpload (u\<lparr>u_cur := None, u_queue := q'\<rparr>) \<and>
    restatus (u_queue u)
      (\<lambda>j. if j = i then Some (if r_ok r then SUCCESS else ERROR) else queue_status (u_queue u) j) q'"
proof -
  let ?steps = "if r_ok r
    then block [with_queue (updateFile (cur_index u) (\<lambda>f. f\<lparr>f_result := Some r\<rparr>)),
      with_queue (setFileStatus (cur_index u) SUCCESS), keep_url r, fire (EvSuccess (Some i))]
    else block [with_queue (updateFile (cur_index u) (\<lambda>f. f\<lparr>f_result := Some r\<rparr>)), note_msg r,
      with_queue (setFileStatus (cur_index u) ERROR), fire (EvError (Some i))]"
  obtain q' where q': "?steps u = (None, u\<lparr>u_queue := q'\<rparr>)" "restatus (u_queue u)
      (\<lambda>j. if j = i then Some (if r_ok r then SUCCESS else ERROR) else queue_status (u_queue u) j) q'"
    using success_steps [OF assms, of r] failure_steps [OF assms, of r] by (cases "r_ok r") auto
  have "uploadComplete (Some r) u = andthen ?steps
      (block [set_cur None, fire (EvComplete (Some i)), continueUpload]) u"
    using assms(1) by (simp add: uploadComplete_def Let_def andthen_assoc)
  then have "uploadComplete (Some r) u = continueUpload (u\<lparr>u_cur := None, u_queue := q_fire (EvComplete (Some i)) q'\<rparr>)"
    using q'(1) by (simp add: set_cur_def fire_def with_queue_def andthen_def)
  then show ?thesis
    using restatus_trans [OF q'(2) restatus_fire] restatus_id [OF restatus_fire] restatus_id [OF q'(2)] by metis
qed

subsection \<open>A batch\<close>

text \<open>The transport's answers, one after the other.\<close>

definition answers :: "upload_result list \<Rightarrow> uploader \<Rightarrow> uploader" where
  "answers rs u = fold (\<lambda>r u. snd (uploadComplete (Some r) u)) rs u"

definition done_status :: "upload_result \<Rightarrow> file_status" where
  "done_status r = (if r_ok r then SUCCESS else ERROR)"

text \<open>
  The state of a batch of waiting files while \<open>i\<close> is uploading and \<open>js\<close> still wait, and when it is
  over (no current file).
\<close>

definition in_batch :: "nat option \<Rightarrow> nat list \<Rightarrow> uploader \<Rightarrow> bool" where
  "in_batch c js u \<longleftrightarrow> u_allow u \<and> u_cur u = c \<and> getIndexs WAITING (u_queue u) = js \<and>
     (\<forall>j \<in> set js. queue_data (u_queue u) j) \<and>
     (case c of None \<Rightarrow> js = [] \<and> u_batch u = None \<and> last (q_log (u_queue u)) = EvUploadFiles
      | Some i \<Rightarrow> u_batch u = Some WAITING \<and> i < queue_size (u_queue u) \<and> i \<notin> set js)"

lemma next_in_batch:
  assumes "u_allow u" "\<not> busy (u_cur u)" "u_batch u = Some WAITING"
    and "getIndexs WAITING (u_queue u) = js" "\<forall>j \<in> set js. queue_data (u_queue u) j"
  shows "\<exists>v. uploaderStatusFile WAITING u = (None, v) \<and>
    (case js of
       [] \<Rightarrow> (u_cur u = None \<longrightarrow> in_batch None [] v) \<and> u_sent v = u_sent u \<and>
         (\<forall>k. queue_status (u_queue v) k = queue_status (u_queue u) k)
     | j # js' \<Rightarrow> in_batch (Some j) js' v \<and> u_sent v = u_sent u @ [j] \<and>
         (\<forall>k. queue_status (u_queue v) k = (if k = j then Some START else queue_status (u_queue u) k)))"
proof (cases js)
  case Nil
  then show ?thesis
    using assms by (simp add: uploaderStatusFile_def set_batch_def fire_def with_queue_def andthen_def
        in_batch_def getIndexs_filter queue_status_def fileStatus_index)
next
  case (Cons j js')
  have j: "queue_status (u_queue u) j = Some WAITING" "j < queue_size (u_queue u)"
    using uq.indexs_tl [of WAITING "u_queue u" j js' START] assms(4) Cons by simp_all
  obtain q' where q': "upload (int j) u =
      (None, u\<lparr>u_queue := q', u_cur := Some j, u_active := True, u_sent := u_sent u @ [j]\<rparr>)"
      "restatus (u_queue u) (\<lambda>k. if k = j then Some START else queue_status (u_queue u) k) q'"
    using upload_starts [OF assms(2,1), of j] assms(5) Cons j(1) by auto
  have "getIndexs WAITING q' = getIndexs WAITING (queue_set j START (u_queue u))"
    unfolding restatus_getIndexs [OF q'(2)]
    using restatus_getIndexs [OF restatus_set [OF j(2), of START], of WAITING]
    by (simp add: queue_set_def)
  then have "getIndexs WAITING q' = js'"
    using uq.indexs_tl(1) [of WAITING "u_queue u" j js' START] assms(4) Cons by simp
  moreover have "j \<notin> set js'" using uq.indexs_distinct [of WAITING "u_queue u"] assms(4) Cons by simp
  ultimately show ?thesis
    using Cons assms q' j(2) by (auto simp: uploaderStatusFile_def in_batch_def restatus_def)
qed

lemma answer_in_batch:
  assumes "in_batch (Some i) js u"
  shows "\<exists>v. uploadComplete (Some r) u = (None, v) \<and>
    (case js of
       [] \<Rightarrow> in_batch None [] v \<and> u_sent v = u_sent u \<and>
         (\<forall>k. queue_status (u_queue v) k = (if k = i then Some (done_status r) else queue_status (u_queue u) k))
     | j # js' \<Rightarrow> in_batch (Some j) js' v \<and> u_sent v = u_sent u @ [j] \<and>
         (\<forall>k. queue_status (u_queue v) k =
            (if k = j then Some START else if k = i then Some (done_status r) else queue_status (u_queue u) k)))"
proof -
  have i: "u_cur u = Some i" "i < queue_size (u_queue u)" "u_batch u = Some WAITING" "u_allow u"
    "i \<notin> set js" "getIndexs WAITING (u_queue u) = js" "\<forall>j \<in> set js. queue_data (u_queue u) j"
    using assms by (simp_all add: in_batch_def)
  obtain q' where q': "uploadComplete (Some r) u = continueUpload (u\<lparr>u_cur := None, u_queue := q'\<rparr>)"
      "restatus (u_queue u) (\<lambda>j. if j = i then Some (done_status r) else queue_status (u_queue u) j) q'"
    using complete_before [OF i(1,2)] unfolding done_status_def by blast
  let ?u = "u\<lparr>u_cur := None, u_queue := q'\<rparr>"
  have "getIndexs WAITING q' = js"
    using waiting_after [OF q'(2) _ i(2)] i(5,6) by (simp add: done_status_def)
  moreover have "\<forall>j \<in> set js. queue_data q' j" using i(7) q'(2) by (simp add: restatus_def)
  ultimately have "\<exists>v. uploaderStatusFile WAITING ?u = (None, v) \<and>
    (case js of
       [] \<Rightarrow> (u_cur ?u = None \<longrightarrow> in_batch None [] v) \<and> u_sent v = u_sent ?u \<and>
         (\<forall>k. queue_status (u_queue v) k = queue_status (u_queue ?u) k)
     | j # js' \<Rightarrow> in_batch (Some j) js' v \<and> u_sent v = u_sent ?u @ [j] \<and>
         (\<forall>k. queue_status (u_queue v) k = (if k = j then Some START else queue_status (u_queue ?u) k)))"
    by (intro next_in_batch) (use i(3,4) in \<open>simp_all add: busy_def\<close>)
  then obtain v where v: "uploaderStatusFile WAITING ?u = (None, v)"
    "case js of
       [] \<Rightarrow> in_batch None [] v \<and> u_sent v = u_sent u \<and>
         (\<forall>k. queue_status (u_queue v) k = queue_status q' k)
     | j # js' \<Rightarrow> in_batch (Some j) js' v \<and> u_sent v = u_sent u @ [j] \<and>
         (\<forall>k. queue_status (u_queue v) k = (if k = j then Some START else queue_status q' k))"
    by (cases js) auto
  have "uploadComplete (Some r) u = (None, v)"
    using q'(1) v(1) i(3) by (simp add: continueUpload_def)
  then show ?thesis
    using v(2) restatus_id [OF q'(2)] by (cases js) auto
qed

text \<open>All answers of a batch: \<open>i\<close> is answered by the first, the waiting files by the others.\<close>

lemma answers_batch:
  assumes "in_batch (Some i) js u" "length rs = Suc (length js)"
  shows "in_batch None [] (answers rs u) \<and> u_sent (answers rs u) = u_sent u @ js \<and>
    (\<forall>k. queue_status (u_queue (answers rs u)) k =
      (case map_of (zip (i # js) rs) k of
         Some r \<Rightarrow> Some (done_status r)
       | None \<Rightarrow> queue_status (u_queue u) k))"
  using assms
proof (induction js arbitrary: i u rs)
  case Nil
  then obtain r where "rs = [r]" by (cases rs) auto
  then show ?case using answer_in_batch [OF Nil(1), of r] by (auto simp: answers_def)
next
  case (Cons j js)
  then obtain r rs' where rs: "rs = r # rs'" "length rs' = Suc (length js)" by (cases rs) auto
  obtain v where v: "uploadComplete (Some r) u = (None, v)" "in_batch (Some j) js v"
      "u_sent v = u_sent u @ [j]" "\<forall>k. queue_status (u_queue v) k =
        (if k = j then Some START else if k = i then Some (done_status r) else queue_status (u_queue u) k)"
    using answer_in_batch [OF Cons.prems(1), of r] by auto
  have ij: "i \<notin> set (j # js)" using Cons.prems(1) by (simp add: in_batch_def)
  have "answers rs u = answers rs' v" using v(1) rs(1) by (simp add: answers_def)
  moreover have "map_of (zip (j # js) rs') j \<noteq> None" using rs(2) by (cases rs') auto
  moreover have "map_of (zip (j # js) rs') i = None"
    using ij by (auto simp: map_of_eq_None_iff dest: set_zip_leftD)
  ultimately show ?case
    using Cons.IH [OF v(2) rs(2)] v(3,4) rs(1) ij by (auto split: option.splits)
qed

subsection \<open>Properties\<close>

lemma uploadFiles_starts:
  assumes "u_allow u" "u_cur u = None" "getIndexs WAITING (u_queue u) = ws"
    and "\<forall>j \<in> set ws. queue_data (u_queue u) j"
  shows "\<exists>v. uploadFiles WAITING u = (None, v) \<and>
    (case ws of
       [] \<Rightarrow> in_batch None [] v \<and> u_sent v = u_sent u \<and>
         (\<forall>k. queue_status (u_queue v) k = queue_status (u_queue u) k)
     | j # js \<Rightarrow> in_batch (Some j) js v \<and> u_sent v = u_sent u @ [j] \<and>
         (\<forall>k. queue_status (u_queue v) k = (if k = j then Some START else queue_status (u_queue u) k)))"
proof -
  let ?u = "u\<lparr>u_batch := Some WAITING\<rparr>"
  obtain v where "uploaderStatusFile WAITING ?u = (None, v)"
    "case ws of
       [] \<Rightarrow> in_batch None [] v \<and> u_sent v = u_sent u \<and>
         (\<forall>k. queue_status (u_queue v) k = queue_status (u_queue u) k)
     | j # js \<Rightarrow> in_batch (Some j) js v \<and> u_sent v = u_sent u @ [j] \<and>
         (\<forall>k. queue_status (u_queue v) k = (if k = j then Some START else queue_status (u_queue u) k))"
    using next_in_batch [of ?u ws] assms by (cases ws) (auto simp: busy_def)
  moreover have "uploadFiles WAITING u = uploaderStatusFile WAITING ?u"
    by (simp add: uploadFiles_def set_batch_def andthen_def)
  ultimately show ?thesis by auto
qed

text \<open>
  C5: A batch drains. From an idle uploader that may upload, \<open>uploadFiles('waiting')\<close> followed by one
  answer per waiting file hands exactly the waiting files to the transport, each once and in queue
  order; afterwards none waits, each has the status its answer gave it, all other files keep theirs,
  nothing is current, the batch is over and the last event is \<open>uploadFiles\<close>.
\<close>

theorem batch_drains:
  assumes "u_allow u" "u_cur u = None" "getIndexs WAITING (u_queue u) = ws"
    and "\<forall>j \<in> set ws. queue_data (u_queue u) j" "length rs = length ws"
  shows "let v = answers rs (snd (uploadFiles WAITING u)) in
     u_sent v = u_sent u @ ws \<and> getIndexs WAITING (u_queue v) = [] \<and> u_cur v = None \<and>
     u_batch v = None \<and> last (q_log (u_queue v)) = EvUploadFiles \<and>
     (\<forall>k. queue_status (u_queue v) k =
        (case map_of (zip ws rs) k of
           Some r \<Rightarrow> Some (done_status r) | None \<Rightarrow> queue_status (u_queue u) k))"
proof (cases ws)
  case Nil
  then show ?thesis
    using uploadFiles_starts [OF assms(1-4)] assms(5) by (auto simp: answers_def in_batch_def)
next
  case (Cons j js)
  obtain v where v: "uploadFiles WAITING u = (None, v)" "in_batch (Some j) js v" "u_sent v = u_sent u @ [j]"
      "\<forall>k. queue_status (u_queue v) k = (if k = j then Some START else queue_status (u_queue u) k)"
    using uploadFiles_starts [OF assms(1-4)] Cons by auto
  have len: "length rs = Suc (length js)" using assms(5) Cons by simp
  have "map_of (zip (j # js) rs) j \<noteq> None" using len by (cases rs) auto
  then show ?thesis
    using answers_batch [OF v(2) len] v Cons by (auto simp: in_batch_def split: option.splits)
qed

definition sample_queue :: queue where
  "sample_queue = fold addFile [sample_file, sample_file] new_queue"

definition sample_uploader :: uploader where
  "sample_uploader = (new_uploader Ajax)\<lparr>u_queue := sample_queue\<rparr>"

definition good_answer :: upload_result where
  "good_answer = \<lparr>r_ok = True, r_msg = None, r_url = Some ''u''\<rparr>"

lemma sample_files: "map (\<lambda>f. (f_status f, f_data f)) (q_files sample_queue) = [(Some WAITING, True), (Some WAITING, True)]"
  by (simp add: sample_queue_def new_queue_def addFile_def setAddFileData_def sample_file_def Let_def)

lemma sample_length: "length (q_files sample_queue) = 2"
  using arg_cong [OF sample_files, of length] by simp

lemma sample_nth: "i < 2 \<Longrightarrow> f_status (q_files sample_queue ! i) = Some WAITING \<and> f_data (q_files sample_queue ! i)"
  using arg_cong [OF sample_files, of "\<lambda>xs. xs ! i"] sample_length by (auto simp: nth_Cons' split: if_splits)

lemma sample_waiting: "getIndexs WAITING sample_queue = [0, 1]"
proof -
  have "getIndexs WAITING sample_queue = [0 ..< 2]"
    unfolding getIndexs_filter sample_length by (rule filter_True) (use sample_nth in auto)
  then show ?thesis by (simp add: upt_rec)
qed

lemma sample_status: "i < 2 \<Longrightarrow> queue_status sample_queue i = Some WAITING"
  using sample_nth sample_length by (simp add: queue_status_def fileStatus_index)

lemma sample_data: "i < 2 \<Longrightarrow> queue_data sample_queue i"
  using sample_nth sample_length by (simp add: queue_data_def)

theorem batch_drains_witness:
  "u_sent (answers [good_answer, empty_result] (snd (uploadFiles WAITING sample_uploader))) = [0, 1]"
  using batch_drains [of sample_uploader "[0, 1]" "[good_answer, empty_result]"] sample_waiting sample_data
  by (simp add: sample_uploader_def new_uploader_def Let_def)

text \<open>
  While a file other than the first is uploading, \<open>upload\<close> on any file of the queue only warns: the
  state is unchanged but for the event.
\<close>

theorem upload_guard:
  assumes "u_cur u = Some (Suc n)" "j < queue_size (u_queue u)"
  shows "upload (int j) u = (None, u\<lparr>u_queue := q_fire (EvAlert (Suc n)) (u_queue u)\<rparr>)"
  using assms by (simp add: upload_def js_get_of_nat queue_size_def busy_def fire_def with_queue_def)

theorem upload_guard_witness:
  "upload 0 (sample_uploader\<lparr>u_cur := Some 1\<rparr>) =
     (None, sample_uploader\<lparr>u_cur := Some 1, u_queue := q_fire (EvAlert 1) sample_queue\<rparr>)"
  using upload_guard [of "sample_uploader\<lparr>u_cur := Some 1\<rparr>" 0 0] sample_length
  by (simp add: sample_uploader_def queue_size_def)

text \<open>
  The guard does not protect the first file. While file 0 is uploading, \<open>upload\<close> on another
  file starts a second transfer and takes over the current index; the answer for file 0 is then
  recorded on the other file, and file 0 keeps the status start for ever.
\<close>

theorem upload_first_unguarded:
  assumes "u_cur u = Some 0" "u_allow u" "u_batch u = None" "0 < j"
    and "queue_data (u_queue u) j" "queue_status (u_queue u) j \<noteq> Some ERROR"
  shows "\<exists>v w. upload (int j) u = (None, v) \<and> u_sent v = u_sent u @ [j] \<and> u_cur v = Some j \<and>
     uploadComplete (Some r) v = (None, w) \<and> queue_status (u_queue w) j = Some (done_status r) \<and>
     queue_status (u_queue w) 0 = queue_status (u_queue u) 0 \<and> u_cur w = None"
proof -
  obtain q' where q': "upload (int j) u =
      (None, u\<lparr>u_queue := q', u_cur := Some j, u_active := True, u_sent := u_sent u @ [j]\<rparr>)"
      "restatus (u_queue u) (\<lambda>k. if k = j then Some START else queue_status (u_queue u) k) q'"
    using upload_starts [of u j] assms by (auto simp: busy_def)
  let ?v = "u\<lparr>u_queue := q', u_cur := Some j, u_active := True, u_sent := u_sent u @ [j]\<rparr>"
  have j: "u_cur ?v = Some j" "j < queue_size (u_queue ?v)"
    using assms(5) q'(2) by (simp_all add: restatus_def queue_data_def queue_size_def)
  obtain q'' where q'': "uploadComplete (Some r) ?v = continueUpload (?v\<lparr>u_cur := None, u_queue := q''\<rparr>)"
      "restatus (u_queue ?v)
        (\<lambda>k. if k = j then Some (if r_ok r then SUCCESS else ERROR) else queue_status (u_queue ?v) k) q''"
    using complete_before [OF j, of r] by blast
  let ?w = "?v\<lparr>u_cur := None, u_queue := q''\<rparr>"
  have w: "uploadComplete (Some r) ?v = (None, ?w)"
    unfolding q''(1) using assms(3) by (simp add: continueUpload_def)
  have st: "queue_status q'' j = Some (done_status r)" "queue_status q'' 0 = queue_status (u_queue u) 0"
    using restatus_id [OF q'(2)] restatus_id [OF q''(2)] assms(4) by (simp_all add: done_status_def)
  show ?thesis
    by (rule exI [of _ ?v], rule exI [of _ ?w]) (use q'(1) w st in simp)
qed

theorem upload_first_unguarded_witness:
  "\<exists>v w. upload 1 (sample_uploader\<lparr>u_cur := Some 0\<rparr>) = (None, v) \<and> u_sent v = [1] \<and> u_cur v = Some 1 \<and>
     uploadComplete (Some good_answer) v = (None, w) \<and> queue_status (u_queue w) 1 = Some SUCCESS \<and>
     queue_status (u_queue w) 0 = Some WAITING"
  using upload_first_unguarded [of "sample_uploader\<lparr>u_cur := Some 0\<rparr>" 1 good_answer] sample_data [of 1]
    sample_status [of 0] sample_status [of 1]
  by (auto simp: sample_uploader_def new_uploader_def done_status_def good_answer_def)

text \<open>
  An answer that is not JSON fails two files of a batch: the iframe transport reports the parse
  error, which ends file \<open>i\<close> and starts the next one, and then reports an empty result as well, which
  marks the file just started as failed.
\<close>

theorem bad_answer_fails_next:
  assumes "in_batch (Some i) (j # js) u"
  shows "\<exists>v. iframeAnswer text NotJson u = (None, v) \<and> u_sent v = u_sent u @ j # take 1 js \<and>
     queue_status (u_queue v) i = Some ERROR \<and> queue_status (u_queue v) j = Some ERROR"
proof -
  have ij: "i \<noteq> j" using assms by (simp add: in_batch_def)
  obtain v where v: "uploadComplete (Some (bad_result text)) u = (None, v)" "in_batch (Some j) js v"
      "u_sent v = u_sent u @ [j]" "queue_status (u_queue v) i = Some ERROR"
    using answer_in_batch [OF assms, of "bad_result text"] ij by (auto simp: done_status_def bad_result_def)
  have notin: "i \<notin> set js" "j \<notin> set js"
    using assms v(2) by (auto simp: in_batch_def)
  have run: "iframeAnswer text NotJson u = uploadComplete (Some empty_result) v"
    using v(1) by (simp add: iframeAnswer_def processResponse_def)
  show ?thesis
  proof (cases js)
    case Nil
    then show ?thesis
      using answer_in_batch [OF v(2), of empty_result] run v(3,4) ij
      by (auto simp: done_status_def empty_result_def)
  next
    case (Cons k ks)
    then show ?thesis
      using answer_in_batch [OF v(2), of empty_result] run v(3,4) ij notin
      by (auto simp: done_status_def empty_result_def)
  qed
qed

theorem bad_answer_fails_next_witness:
  "\<exists>v. iframeAnswer ''<html>'' NotJson (snd (uploadFiles WAITING sample_uploader)) = (None, v) \<and>
     queue_status (u_queue v) 0 = Some ERROR \<and> queue_status (u_queue v) 1 = Some ERROR"
proof -
  have "in_batch (Some 0) [1] (snd (uploadFiles WAITING sample_uploader))"
    using uploadFiles_starts [of sample_uploader "[0, 1]"] sample_waiting sample_data
    by (auto simp: sample_uploader_def new_uploader_def)
  from bad_answer_fails_next [OF this] show ?thesis by blast
qed

text \<open>
  Cancelling the current file of an ajax batch fails the next one: \<open>cancel()\<close> ends file \<open>i\<close> and starts
  file \<open>j\<close>; the failure of the aborted request, which arrives later, is then taken for the answer of \<open>j\<close>.
\<close>

theorem cancel_fails_next:
  assumes "in_batch (Some i) (j # js) u" "u_kind u = Ajax" "u_active u"
  shows "\<exists>v w. cancel None u = (None, v) \<and> queue_status (u_queue v) i = Some CANCEL \<and>
     u_cur v = Some j \<and> u_sent v = u_sent u @ [j] \<and>
     ajaxError False v = (None, w) \<and> queue_status (u_queue w) i = Some CANCEL \<and>
     queue_status (u_queue w) j = Some ERROR"
proof -
  have i: "u_cur u = Some i" "i < queue_size (u_queue u)" "u_batch u = Some WAITING" "u_allow u"
    "i \<notin> set (j # js)" "getIndexs WAITING (u_queue u) = j # js" "\<forall>k \<in> set (j # js). queue_data (u_queue u) k"
    using assms(1) unfolding in_batch_def by simp_all
  let ?q = "q_fire (EvCancel (Some i)) (setFileStatus (Some (int i)) CANCEL (u_queue u))"
  let ?u = "u\<lparr>u_cur := None, u_queue := ?q\<rparr>"
  have q: "restatus (u_queue u) (\<lambda>k. if k = i then Some CANCEL else queue_status (u_queue u) k) ?q"
    by (rule restatus_cong [OF restatus_trans [OF restatus_set [OF i(2), of CANCEL] restatus_fire]])
      (use restatus_id [OF restatus_set [OF i(2), of CANCEL]] in simp)
  have run: "cancel None u = uploaderStatusFile WAITING ?u"
    using assms(2,3) i(1,3) by (simp add: cancel_def transport_stop_def uploadStopHandler_def Let_def
        with_queue_def cur_index_def set_cur_def fire_def andthen_def continueUpload_def)
  have w: "getIndexs WAITING ?q = j # js" using waiting_after [OF q _ i(2)] i(5,6) by simp
  have d: "\<forall>k \<in> set (j # js). queue_data ?q k" using i(7) q unfolding restatus_def by simp
  obtain v where v: "uploaderStatusFile WAITING ?u = (None, v)" "in_batch (Some j) js v"
      "u_sent v = u_sent u @ [j]"
      "\<forall>k. queue_status (u_queue v) k = (if k = j then Some START else queue_status ?q k)"
    using next_in_batch [of ?u "j # js"] i(3,4) w d by (auto simp: busy_def)
  have vi: "queue_status (u_queue v) i = Some CANCEL" "i \<notin> set js" "u_cur v = Some j"
    using v(2,4) i(5) restatus_id [OF q] by (auto simp: in_batch_def)
  obtain x where x: "uploadComplete (Some empty_result) v = (None, x)"
    "queue_status (u_queue x) i = Some CANCEL" "queue_status (u_queue x) j = Some ERROR"
    using answer_in_batch [OF v(2), of empty_result] v(2) vi i(5)
    by (cases js) (auto simp: done_status_def empty_result_def in_batch_def)
  have "ajaxError False v = (None, x)" using x(1) by (simp add: ajaxError_def)
  then show ?thesis using run v(1,3) vi x(2,3) by auto
qed

theorem cancel_fails_next_witness:
  "\<exists>v w. cancel None (snd (uploadFiles WAITING sample_uploader)) = (None, v) \<and>
     queue_status (u_queue v) 0 = Some CANCEL \<and> ajaxError False v = (None, w) \<and>
     queue_status (u_queue w) 1 = Some ERROR"
proof -
  have s: "u_allow sample_uploader" "u_cur sample_uploader = None" "u_queue sample_uploader = sample_queue"
      "\<not> busy (u_cur sample_uploader)" "u_kind sample_uploader = Ajax"
    by (simp_all add: sample_uploader_def new_uploader_def busy_def)
  obtain v where v: "uploadFiles WAITING sample_uploader = (None, v)" "in_batch (Some 0) [1] v"
    using uploadFiles_starts [of sample_uploader "[0, 1]"] s sample_waiting sample_data by auto
  have "upload 0 (sample_uploader\<lparr>u_batch := Some WAITING\<rparr>) = uploadFiles WAITING sample_uploader"
    using s by (simp add: uploadFiles_def set_batch_def andthen_def uploaderStatusFile_def sample_waiting)
  moreover obtain q where "upload (int 0) (sample_uploader\<lparr>u_batch := Some WAITING\<rparr>) =
      (None, sample_uploader\<lparr>u_batch := Some WAITING, u_queue := q, u_cur := Some 0, u_active := True,
        u_sent := u_sent sample_uploader @ [0]\<rparr>)"
    using upload_starts [of "sample_uploader\<lparr>u_batch := Some WAITING\<rparr>" 0] s sample_data [of 0] sample_status [of 0]
    by auto
  ultimately have "u_active v" "u_kind v = Ajax" using v(1) s(5) by auto
  from cancel_fails_next [OF v(2) this(2,1)] v(1) show ?thesis by auto
qed

text \<open>
  \<open>cancel\<close> on a waiting file also stops the file being uploaded, although its documentation says
  that it does not stop other files: both end as cancelled, and nothing is current.
\<close>

theorem cancel_stops_current:
  assumes "u_kind u = Ajax" "u_active u" "u_cur u = Some i" "i < queue_size (u_queue u)"
    and "j < queue_size (u_queue u)" "queue_status (u_queue u) j = Some WAITING"
  shows "\<exists>v. cancel (Some (int j)) u = (None, v) \<and> u_cur v = None \<and>
     queue_status (u_queue v) i = Some CANCEL \<and> queue_status (u_queue v) j = Some CANCEL"
proof -
  let ?q = "q_fire (EvCancel (Some i)) (setFileStatus (Some (int i)) CANCEL (u_queue u))"
  have q: "restatus (u_queue u) (\<lambda>k. if k = i then Some CANCEL else queue_status (u_queue u) k) ?q"
    by (rule restatus_cong [OF restatus_trans [OF restatus_set [OF assms(4), of CANCEL] restatus_fire]])
      (use restatus_id [OF restatus_set [OF assms(4), of CANCEL]] in simp)
  have "j < queue_size ?q" using q assms(5) by (simp add: restatus_def)
  from restatus_trans [OF q restatus_set [OF this, of CANCEL]]
  have r: "restatus (u_queue u) (\<lambda>k. if k = j then Some CANCEL else queue_status ?q k)
      (setFileStatus (Some (int j)) CANCEL ?q)" .
  have "cancel (Some (int j)) u =
      (None, u\<lparr>u_cur := None, u_queue := setFileStatus (Some (int j)) CANCEL ?q\<rparr>)"
    using assms by (simp add: cancel_def queue_status_def transport_stop_def uploadStopHandler_def Let_def
        with_queue_def cur_index_def set_cur_def fire_def andthen_def)
  then show ?thesis using restatus_id [OF q] restatus_id [OF r] by auto
qed

theorem cancel_stops_current_witness:
  "\<exists>v. cancel (Some 1) (sample_uploader\<lparr>u_cur := Some 0, u_active := True\<rparr>) = (None, v) \<and>
     queue_status (u_queue v) 0 = Some CANCEL \<and> queue_status (u_queue v) 1 = Some CANCEL"
  using cancel_stops_current [of "sample_uploader\<lparr>u_cur := Some 0, u_active := True\<rparr>" 0 1]
    sample_length sample_status [of 1]
  by (auto simp: sample_uploader_def new_uploader_def queue_size_def)

end
