(* ===== verification/AjaxType.thy ===== *)
theory AjaxType
  imports Uploader Uri
begin

section \<open>The ajax transport\<close>

text \<open>
  \<open>kg/uploader/2.0.2/type/ajax\<close> (in \<open>index.js\<close>): a file is posted in one request, or, with a positive
  \<open>blobSize\<close>, in pieces, the next when the server has answered the one before; the answer's \<open>Range\<close>
  header may say how much the server has. The answers are events (\<open>chunk_answered\<close>, \<open>full_answered\<close>,
  \<open>errorHandler\<close>). \<open>ax_sent\<close> lists the requests as they were when \<open>io\<close> was called. The transport is only
  used where the browser has \<open>FormData\<close>.
\<close>

type_synonym octet = "8 word"

record blob_file =
  bf_name :: ustr
  bf_content :: "octet list"

definition bf_size :: "blob_file \<Rightarrow> nat" where
  "bf_size f = length (bf_content f)"

text \<open>A form entry: a text, or octets with a file name (\<open>None\<close>: not given, a slice has no name).\<close>

datatype form_value = Field string | Upload "octet list" "ustr option"

record request =
  rq_url :: string
  rq_headers :: "(string, ustr) obj"
  rq_form :: "(string \<times> form_value) list"

text \<open>
  The events a transport fires. A result is \<open>None\<close> where the event has none or one that is no object.
\<close>

datatype type_event =
    TStart | TStop | TProgress nat nat | TSuccess "upload_result option" | TError "upload_result option"
  | TCreate | TRemove | TSwfReady

record ajax_type =
  ax_blobSize :: int
  ax_action :: string
  ax_data :: "(string \<times> string) list"
  ax_fileDataName :: string
  ax_headers :: "(string, ustr) obj"
  ax_formData :: "(string \<times> form_value) list"
  ax_io :: bool
  ax_sent :: "request list"
  ax_log :: "type_event list"
  ax_pending :: "(blob_file \<times> nat \<times> nat) option"

text \<open>
  \<open>ax_io\<close>: the attribute \<open>ajax\<close> holds an \<open>io\<close> object. \<open>ax_pending\<close> is what the functions that wait for
  the answer to a piece remember: the file, \<open>uploadedBytes\<close> and \<open>chunkSize\<close>.
\<close>

definition ax_fire :: "type_event \<Rightarrow> ajax_type cmd" where
  "ax_fire e a = (None, a\<lparr>ax_log := ax_log a @ [e]\<rparr>)"

subsection \<open>Forms and headers\<close>

definition setFormData :: "ajax_type cmd" where
  "setFormData a = (None, a\<lparr>ax_formData := map (\<lambda>(key, val). (key, Field val)) (ax_data a)\<rparr>)"

definition addFileData :: "octet list \<Rightarrow> ustr option \<Rightarrow> ajax_type cmd" where
  "addFileData content fileName a =
     (None, a\<lparr>ax_formData := ax_formData a @ [(ax_fileDataName a, Upload content fileName)]\<rparr>)"

definition setRequestHeader :: "string \<Rightarrow> ustr \<Rightarrow> ajax_type cmd" where
  "setRequestHeader name val a = (None, a\<lparr>ax_headers := obj_set name val (ax_headers a)\<rparr>)"

text \<open>\<open>encodeURI\<close> of the language: also \<open>; / ? : @ & = + $ , #\<close> are kept.\<close>

definition uri_kept :: "nat \<Rightarrow> bool" where
  "uri_kept n \<longleftrightarrow> unreserved n \<or> n \<in> {59, 47, 63, 58, 64, 38, 61, 43, 36, 44, 35}"

definition encodeURI :: "ustr \<Rightarrow> ustr res" where
  "encodeURI s = res_bind (code_points s) (\<lambda>vs. Inr (concat (map
     (\<lambda>v. if uri_kept v then [of_nat v] else concat (map pct_octet (utf8_octets v))) vs)))"

definition setContentDisposition :: "ustr \<Rightarrow> ajax_type cmd" where
  "setContentDisposition fileName =
     guarded (encodeURI fileName) (\<lambda>n. setRequestHeader ''Content-Disposition''
       (lit ''attachment; filename='' @ [34] @ n @ [34]))"

text \<open>A number in a text; a negative one has a sign.\<close>

definition dec_int :: "int \<Rightarrow> string" where
  "dec_int i = (if i < 0 then CHR ''-'' # dec_of_nat (nat (- i)) else dec_of_nat (nat i))"

definition content_range :: "nat \<Rightarrow> nat \<Rightarrow> nat \<Rightarrow> string" where
  "content_range uploadedBytes chunkSize fileSize =
     ''bytes '' @ dec_of_nat uploadedBytes @ ''-'' @
     dec_int (int uploadedBytes + int chunkSize - 1) @ ''/'' @ dec_of_nat fileSize"

definition setContentRange :: "nat \<Rightarrow> nat \<Rightarrow> nat \<Rightarrow> ajax_type cmd" where
  "setContentRange uploadedBytes chunkSize fileSize =
     setRequestHeader ''Content-Range'' (lit (content_range uploadedBytes chunkSize fileSize))"

text \<open>\<open>io(ajaxConfig)\<close>, \<open>ajaxConfig\<close> having the address, the headers and the form.\<close>

definition io_send :: "ajax_type cmd" where
  "io_send a = (None, a\<lparr>ax_sent := ax_sent a @
     [\<lparr>rq_url = ax_action a, rq_headers = ax_headers a, rq_form = ax_formData a\<rparr>]\<rparr>)"

subsection \<open>The Range header\<close>

text \<open>
  \<open>parseInt(s, 10)\<close> of a text without a minus sign (a piece of a text cut at it): leading white space,
  a plus sign and the digits that follow; \<open>None\<close> is \<open>NaN\<close>.
\<close>

definition is_digit :: "char \<Rightarrow> bool" where
  "is_digit c \<longleftrightarrow> c \<in> set ''0123456789''"

definition is_blank :: "char \<Rightarrow> bool" where
  "is_blank c \<longleftrightarrow> of_char c \<in> {9, 10, 11, 12, 13, 32 :: nat}"

definition parseInt10 :: "string \<Rightarrow> nat option" where
  "parseInt10 s =
     (let s = dropWhile is_blank s;
          s = (if take 1 s = ''+'' then tl s else s);
          ds = takeWhile is_digit s
      in if ds = [] then None else Some (nat_of_dec ds))"

text \<open>\<open>None\<close>: any value \<open>||\<close> takes for false (no header, an empty one, no number, 0).\<close>

definition getUploadedBytes :: "string option \<Rightarrow> nat option" where
  "getUploadedBytes rangeHeader =
     (case rangeHeader of
        None \<Rightarrow> None
      | Some r \<Rightarrow>
          (let parts = split_on CHR ''-'' r in
           if length parts > 1 then
             (case parseInt10 (parts ! 1) of
                None \<Rightarrow> None
              | Some upperBytesPos \<Rightarrow> if upperBytesPos = 0 then None else Some (upperBytesPos + 1))
           else None))"

subsection \<open>Uploading in pieces\<close>

definition blob_slice :: "blob_file \<Rightarrow> nat \<Rightarrow> nat \<Rightarrow> octet list" where
  "blob_slice f a b = take (b - a) (drop a (bf_content f))"

definition send_chunk :: "blob_file \<Rightarrow> nat \<Rightarrow> ajax_type cmd" where
  "send_chunk f uploadedBytes a =
     (let maxChunkSize = (if ax_blobSize a \<noteq> 0 then nat (ax_blobSize a) else bf_size f);
          blob = blob_slice f uploadedBytes (uploadedBytes + maxChunkSize);
          chunkSize = length blob in block
        [setContentDisposition (bf_name f),
         setContentRange uploadedBytes chunkSize (bf_size f),
         setFormData,
         addFileData blob None,
         io_send,
         (\<lambda>a. (None, a\<lparr>ax_pending := Some (f, uploadedBytes, chunkSize)\<rparr>))] a)"

definition chunkedUpload :: "blob_file \<Rightarrow> ajax_type cmd" where
  "chunkedUpload f = send_chunk f 0"

text \<open>The request for a piece succeeded, with this \<open>Range\<close> header and this result.\<close>

definition chunk_answered :: "string option \<Rightarrow> upload_result option \<Rightarrow> ajax_type cmd" where
  "chunk_answered rangeHeader result a =
     (case ax_pending a of
        None \<Rightarrow> skip a
      | Some (f, uploadedBytes, chunkSize) \<Rightarrow>
          (let uploadedBytes = (case getUploadedBytes rangeHeader of
                 Some n \<Rightarrow> n | None \<Rightarrow> uploadedBytes + chunkSize) in block
             [(\<lambda>a. (None, a\<lparr>ax_pending := None\<rparr>)),
              ax_fire (TProgress uploadedBytes (bf_size f)),
              (if uploadedBytes < bf_size f then send_chunk f uploadedBytes
               else ax_fire (TSuccess result))] a))"

subsection \<open>Uploading at once, errors and stopping\<close>

definition fullUpload :: "blob_file \<Rightarrow> ajax_type cmd" where
  "fullUpload f = block
     [setFormData, addFileData (bf_content f) (Some (bf_name f)), io_send,
      (\<lambda>a. (None, a\<lparr>ax_io := True\<rparr>))]"

text \<open>
  \<open>_processResponse\<close> returns an empty object for an answer that is neither a text nor an object; the
  answer has been decoded as JSON before and is taken not to be a text again.
\<close>

definition full_answered :: "upload_result option \<Rightarrow> ajax_type cmd" where
  "full_answered data = ax_fire (TSuccess (Some (case data of None \<Rightarrow> empty_result | Some r \<Rightarrow> r)))"

definition errorHandler :: "bool \<Rightarrow> ajax_type cmd" where
  "errorHandler timeout =
     ax_fire (TError (Some (if timeout then bad_result ''timeout'' else empty_result)))"

text \<open>
  An answer to the request for a piece that is waited for: a success, with its \<open>Range\<close> header and its result, or a failure,
  of which \<open>timeout\<close> tells the kind; after it nothing is sent again.
\<close>

datatype chunk_answer = Accepted "string option" "upload_result option" | Refused bool

fun chunk_event :: "chunk_answer \<Rightarrow> ajax_type cmd" where
  "chunk_event (Accepted rangeHeader result) a = chunk_answered rangeHeader result a"
| "chunk_event (Refused timeout) a =
     (case ax_pending a of None \<Rightarrow> skip a | Some _ \<Rightarrow> errorHandler timeout (a\<lparr>ax_pending := None\<rparr>))"

definition ajax_upload :: "blob_file option \<Rightarrow> ajax_type cmd" where
  "ajax_upload fileData a =
     (case fileData of
        None \<Rightarrow> skip a
      | Some f \<Rightarrow> if 0 < ax_blobSize a then chunkedUpload f a else fullUpload f a)"

text \<open>\<open>abort\<close> makes the request fail; that is reported later, through \<open>errorHandler\<close>.\<close>

definition ajax_stop :: "ajax_type cmd" where
  "ajax_stop a = (if ax_io a then ax_fire TStop a else skip a)"

subsection \<open>The positions of a transfer\<close>

text \<open>
  What a list of answers makes of a file of \<open>len\<close> octets whose piece from \<open>m\<close> on is under way: the positions from
  which the pieces answered were sent with those they were taken to have reached, and how the transfer stands.
\<close>

datatype outcome = Waiting | Broken bool | Whole "upload_result option"

definition next_position :: "nat \<Rightarrow> nat \<Rightarrow> nat \<Rightarrow> string option \<Rightarrow> nat" where
  "next_position b len m h = (case getUploadedBytes h of Some n \<Rightarrow> n | None \<Rightarrow> m + min b (len - m))"

fun transfer :: "nat \<Rightarrow> nat \<Rightarrow> nat \<Rightarrow> chunk_answer list \<Rightarrow> (nat \<times> nat) list \<times> outcome" where
  "transfer b len m [] = ([], Waiting)"
| "transfer b len m (Refused timeout # as) = ([], Broken timeout)"
| "transfer b len m (Accepted h r # as) =
     (let n = next_position b len m h in
      if n < len then (let (tr, out) = transfer b len n as in ((m, n) # tr, out)) else ([(m, n)], Whole r))"

text \<open>
  The positions reached are beyond those the pieces were sent from, and not beyond the pieces: the server acknowledges
  some of the octets it was sent, and none that it was not. A header that acknowledges octet 0 alone counts as none.
\<close>

definition acknowledged :: "nat \<Rightarrow> nat \<Rightarrow> (nat \<times> nat) list \<Rightarrow> bool" where
  "acknowledged b len tr \<longleftrightarrow> (\<forall>(m, n) \<in> set tr. m < n \<and> n \<le> m + b \<and> n \<le> len)"

definition starts :: "nat \<Rightarrow> nat \<Rightarrow> (nat \<times> nat) list \<Rightarrow> nat list" where
  "starts len m tr = m # filter (\<lambda>n. n < len) (map snd tr)"

lemma acknowledged_Cons: "acknowledged b len ((m, n) # tr) \<longleftrightarrow> m < n \<and> n \<le> m + b \<and> n \<le> len \<and> acknowledged b len tr"
  by (simp add: acknowledged_def)

lemma transfer_waits:
  "transfer b len m as = (tr, Waiting) \<Longrightarrow> acknowledged b len tr \<Longrightarrow> m < len \<Longrightarrow> m + length as < len"
proof (induction b len m as arbitrary: tr rule: transfer.induct)
  case (3 b len m h r as)
  let ?n = "next_position b len m h"
  have n: "?n < len" using 3(2) by (auto simp: Let_def split: if_splits)
  then obtain tr' where tr: "transfer b len ?n as = (tr', Waiting)" "tr = (m, ?n) # tr'"
    using 3(2) by (auto simp: Let_def split: prod.splits)
  then show ?case using 3(1) [OF refl n tr(1)] 3(3) n by (simp add: acknowledged_Cons)
qed simp_all

lemma transfer_starts:
  "transfer b len m as = (tr, Whole r) \<Longrightarrow> starts len m tr = map fst tr"
proof (induction b len m as arbitrary: tr rule: transfer.induct)
  case (3 b len m h r' as)
  let ?n = "next_position b len m h"
  show ?case
  proof (cases "?n < len")
    case True
    then obtain tr' where tr: "transfer b len ?n as = (tr', Whole r)" "tr = (m, ?n) # tr'"
      using 3(2) by (auto simp: Let_def split: prod.splits)
    then show ?thesis using 3(1) [OF refl True tr(1)] True by (simp add: starts_def)
  qed (use 3(2) in \<open>auto simp: Let_def starts_def\<close>)
qed simp_all

lemma transfer_covers:
  assumes "transfer b (length xs) m as = (tr, Whole r)" "acknowledged b (length xs) tr"
  shows "concat (map (\<lambda>(m, n). take (n - m) (take b (drop m xs))) tr) = drop m xs"
  using assms
proof (induction b "length xs" m as arbitrary: tr rule: transfer.induct)
  case (3 b m h r' as)
  let ?n = "next_position b (length xs) m h"
  have join: "take (k - m) (take b (drop m xs)) @ drop k xs = drop m xs" if "m < k" "k \<le> m + b" for k
  proof -
    have "take (k - m) (take b (drop m xs)) = take (k - m) (drop m xs)" using that by (simp add: min_def)
    moreover have "drop k xs = drop (k - m) (drop m xs)" using that by simp
    ultimately show ?thesis by (metis append_take_drop_id)
  qed
  show ?case
  proof (cases "?n < length xs")
    case True
    then obtain tr' where tr: "transfer b (length xs) ?n as = (tr', Whole r)" "tr = (m, ?n) # tr'"
      using 3(2) by (auto simp: Let_def split: prod.splits)
    then show ?thesis using 3(1) [OF refl True tr(1)] 3(3) join [of ?n] by (simp add: acknowledged_Cons)
  next
    case False
    then show ?thesis using 3(2,3) join [of ?n] by (auto simp: Let_def acknowledged_Cons)
  qed
qed simp_all

subsection \<open>Facts about requests\<close>

definition posted :: "request \<Rightarrow> octet list" where
  "posted r = (case last (rq_form r) of (_, Upload c _) \<Rightarrow> c | _ \<Rightarrow> [])"

definition range_of :: "request \<Rightarrow> ustr option" where
  "range_of r = map_of (rq_headers r) ''Content-Range''"

lemma encodeURI_ok: "wf_utf16 s \<Longrightarrow> \<exists>n. encodeURI s = Inr n"
  using code_points_wf [of s] by (auto simp: encodeURI_def)

lemma send_chunk_ok:
  assumes "wf_utf16 (bf_name f)" "ax_blobSize a = int b" "0 < b"
  obtains a' rq where "send_chunk f m a = (None, a')" "ax_sent a' = ax_sent a @ [rq]"
    "posted rq = take b (drop m (bf_content f))"
    "range_of rq = Some (lit (content_range m (min b (bf_size f - m)) (bf_size f)))"
    "ax_pending a' = Some (f, m, min b (bf_size f - m))" "ax_log a' = ax_log a" "ax_blobSize a' = int b"
proof -
  obtain n where "encodeURI (bf_name f) = Inr n" using encodeURI_ok [OF assms(1)] by auto
  then have "\<exists>a' rq. send_chunk f m a = (None, a') \<and> ax_sent a' = ax_sent a @ [rq] \<and>
    posted rq = take b (drop m (bf_content f)) \<and>
    range_of rq = Some (lit (content_range m (min b (bf_size f - m)) (bf_size f))) \<and>
    ax_pending a' = Some (f, m, min b (bf_size f - m)) \<and> ax_log a' = ax_log a \<and> ax_blobSize a' = int b"
    using assms(2,3)
    by (simp add: send_chunk_def Let_def setContentDisposition_def setRequestHeader_def setContentRange_def
        setFormData_def addFileData_def io_send_def andthen_def posted_def range_of_def blob_slice_def bf_size_def
        map_of_obj_set min.commute)
  then show thesis using that by blast
qed

definition chunks_done :: "chunk_answer list \<Rightarrow> ajax_type \<Rightarrow> ajax_type" where
  "chunks_done as a = fold (\<lambda>e a. snd (chunk_event e a)) as a"

lemma chunks_over: "ax_pending a = None \<Longrightarrow> chunks_done as a = a"
proof (induction as)
  case (Cons e as)
  then show ?case by (cases e) (simp_all add: chunks_done_def chunk_answered_def)
qed (simp add: chunks_done_def)

definition ending :: "outcome \<Rightarrow> type_event list" where
  "ending out = (case out of Waiting \<Rightarrow> [] | Whole r \<Rightarrow> [TSuccess r]
     | Broken timeout \<Rightarrow> [TError (Some (if timeout then bad_result ''timeout'' else empty_result))])"

text \<open>What a transfer has left behind, with the requests after the one under way.\<close>

definition transferred :: "nat \<Rightarrow> blob_file \<Rightarrow> nat \<Rightarrow> (nat \<times> nat) list \<times> outcome \<Rightarrow> ajax_type \<Rightarrow> ajax_type \<Rightarrow> bool" where
  "transferred b f m t a w \<longleftrightarrow> (case t of (tr, out) \<Rightarrow>
     \<exists>rqs. ax_sent w = ax_sent a @ rqs \<and>
       map posted rqs = map (\<lambda>n. take b (drop n (bf_content f))) (tl (starts (bf_size f) m tr)) \<and>
       map range_of rqs = map (\<lambda>n. Some (lit (content_range n (min b (bf_size f - n)) (bf_size f)))) (tl (starts (bf_size f) m tr)) \<and>
       ax_log w = ax_log a @ map (\<lambda>(m, n). TProgress n (bf_size f)) tr @ ending out \<and>
       (ax_pending w \<noteq> None \<longleftrightarrow> out = Waiting))"

lemma chunks_run:
  assumes "wf_utf16 (bf_name f)" "0 < b" "ax_blobSize a = int b" "ax_pending a = Some (f, m, min b (bf_size f - m))"
  shows "transferred b f m (transfer b (bf_size f) m as) a (chunks_done as a)"
  using assms(2-4)
proof (induction b "bf_size f" m as arbitrary: a rule: transfer.induct)
  case (1 b m)
  then show ?case by (simp add: transferred_def chunks_done_def starts_def ending_def)
next
  case (2 b m timeout as)
  let ?a = "a\<lparr>ax_pending := None, ax_log := ax_log a @ ending (Broken timeout)\<rparr>"
  have "chunks_done (Refused timeout # as) a = chunks_done as ?a"
    using 2(3) by (simp add: chunks_done_def errorHandler_def ax_fire_def ending_def)
  also have "\<dots> = ?a" by (rule chunks_over) simp
  finally show ?case by (simp add: transferred_def starts_def)
next
  case (3 b m h r as)
  let ?size = "bf_size f"
  let ?n = "next_position b ?size m h"
  let ?a = "a\<lparr>ax_pending := None, ax_log := ax_log a @ [TProgress ?n ?size]\<rparr>"
  have run: "chunk_event (Accepted h r) a = (if ?n < ?size then send_chunk f ?n else ax_fire (TSuccess r)) ?a"
    using 3(4) by (simp add: chunk_answered_def next_position_def ax_fire_def andthen_def Let_def split: option.splits)
  show ?case
  proof (cases "?n < ?size")
    case True
    obtain a' rq where a': "send_chunk f ?n ?a = (None, a')" "ax_sent a' = ax_sent a @ [rq]"
        "posted rq = take b (drop ?n (bf_content f))"
        "range_of rq = Some (lit (content_range ?n (min b (?size - ?n)) ?size))"
        "ax_pending a' = Some (f, ?n, min b (?size - ?n))"
        "ax_log a' = ax_log a @ [TProgress ?n ?size]" "ax_blobSize a' = int b"
      using send_chunk_ok [OF assms(1) _ 3(2), of ?a ?n] 3(3) by auto
    obtain tr out where t: "transfer b ?size ?n as = (tr, out)" by fastforce
    have w: "chunks_done (Accepted h r # as) a = chunks_done as a'"
      using run True a'(1) by (simp add: chunks_done_def)
    show ?thesis
      using 3(1) [OF refl True 3(2) a'(7,5)] a' True unfolding w
      by (auto simp: transferred_def t Let_def starts_def intro: exI [of _ "rq # _"])
  next
    case False
    then have "chunks_done (Accepted h r # as) a = chunks_done as (?a\<lparr>ax_log := ax_log ?a @ [TSuccess r]\<rparr>)"
      using run by (simp add: chunks_done_def ax_fire_def)
    also have "\<dots> = ?a\<lparr>ax_log := ax_log ?a @ [TSuccess r]\<rparr>" by (rule chunks_over) simp
    finally show ?thesis using False by (simp add: transferred_def Let_def starts_def ending_def)
  qed
qed

subsection \<open>Properties\<close>

text \<open>
  C19: A file uploaded in pieces arrives whole, if every position taken from the answers is beyond the start of the piece
  sent and not beyond its end, as it is for answers without a \<open>Range\<close> header, which count for the whole piece. Each request
  then carries the \<open>blobSize\<close> octets from the position reached on, or the rest, with their range, and each answer is
  reported as progress. A request that fails ends the upload with one error. Otherwise there is an end: after fewer
  answers than the file has octets the transport still waits for one, or it has reported one success, with the result
  of the last answer alone, and the parts of the pieces sent up to the positions reached make up the file.
\<close>

theorem chunks_cover:
  assumes "wf_utf16 (bf_name f)" "ax_blobSize a = int b" "0 < b" "bf_content f \<noteq> []"
    and "transfer b (bf_size f) 0 as = (tr, out)" "acknowledged b (bf_size f) tr"
  shows "\<exists>rqs. ax_sent (chunks_done as (snd (ajax_upload (Some f) a))) = ax_sent a @ rqs \<and>
     map posted rqs = map (\<lambda>n. take b (drop n (bf_content f))) (starts (bf_size f) 0 tr) \<and>
     map range_of rqs = map (\<lambda>n. Some (lit (content_range n (min b (bf_size f - n)) (bf_size f)))) (starts (bf_size f) 0 tr) \<and>
     ax_log (chunks_done as (snd (ajax_upload (Some f) a))) =
       ax_log a @ map (\<lambda>(m, n). TProgress n (bf_size f)) tr @ ending out \<and>
     (ax_pending (chunks_done as (snd (ajax_upload (Some f) a))) \<noteq> None \<longleftrightarrow> out = Waiting) \<and>
     (case out of Waiting \<Rightarrow> length as < bf_size f | Broken timeout \<Rightarrow> True
      | Whole r \<Rightarrow> concat (map2 (\<lambda>(m, n) rq. take (n - m) (posted rq)) tr rqs) = bf_content f)"
proof -
  have size: "0 < bf_size f" using assms(4) by (simp add: bf_size_def)
  obtain a' rq where a': "send_chunk f 0 a = (None, a')" "ax_sent a' = ax_sent a @ [rq]"
      "posted rq = take b (bf_content f)" "range_of rq = Some (lit (content_range 0 (min b (bf_size f)) (bf_size f)))"
      "ax_pending a' = Some (f, 0, min b (bf_size f - 0))" "ax_log a' = ax_log a" "ax_blobSize a' = int b"
    using send_chunk_ok [OF assms(1,2,3), of 0] by auto
  have run: "snd (ajax_upload (Some f) a) = a'"
    using a'(1) assms(2,3) by (simp add: ajax_upload_def chunkedUpload_def)
  obtain rqs where rqs: "ax_sent (chunks_done as a') = ax_sent a' @ rqs"
      "map posted rqs = map (\<lambda>n. take b (drop n (bf_content f))) (tl (starts (bf_size f) 0 tr))"
      "map range_of rqs = map (\<lambda>n. Some (lit (content_range n (min b (bf_size f - n)) (bf_size f)))) (tl (starts (bf_size f) 0 tr))"
      "ax_log (chunks_done as a') = ax_log a' @ map (\<lambda>(m, n). TProgress n (bf_size f)) tr @ ending out"
      "ax_pending (chunks_done as a') \<noteq> None \<longleftrightarrow> out = Waiting"
    using chunks_run [OF assms(1,3) a'(7,5), of as] unfolding assms(5) transferred_def by auto
  have hd: "starts (bf_size f) 0 tr = 0 # tl (starts (bf_size f) 0 tr)" by (simp add: starts_def)
  have posts: "map posted (rq # rqs) = map (\<lambda>n. take b (drop n (bf_content f))) (starts (bf_size f) 0 tr)"
    using rqs(2) a'(3) by (subst hd) simp
  have out: "case out of Waiting \<Rightarrow> length as < bf_size f | Broken timeout \<Rightarrow> True
      | Whole r \<Rightarrow> concat (map2 (\<lambda>(m, n) rq. take (n - m) (posted rq)) tr (rq # rqs)) = bf_content f"
  proof (cases out)
    case Waiting
    then show ?thesis using transfer_waits [of b "bf_size f" 0 as tr] assms(5,6) size by simp
  next
    case (Whole r)
    have p: "map posted (rq # rqs) = map (\<lambda>(m, n). take b (drop m (bf_content f))) tr"
      unfolding posts transfer_starts [OF assms(5) [unfolded Whole]] by (simp add: comp_def case_prod_beta)
    have "map2 (\<lambda>(m, n) rq. take (n - m) (posted rq)) tr xs = map2 (\<lambda>(m, n) x. take (n - m) x) tr (map posted xs)" for xs
      by (simp add: zip_map2 case_prod_beta comp_def)
    also have "map2 (\<lambda>(m, n) x. take (n - m) x) tr (map posted (rq # rqs)) =
        map (\<lambda>(m, n). take (n - m) (take b (drop m (bf_content f)))) tr"
      unfolding p by (simp add: map2_map_map [of _ "\<lambda>x. x", simplified] case_prod_beta)
    finally show ?thesis
      using transfer_covers [of b "bf_content f" 0 as tr r] assms(5,6) Whole by (simp add: bf_size_def)
  qed simp
  show ?thesis
    unfolding run using rqs(1,3,4,5) a'(2,4,6) posts out hd
    by (intro exI [of _ "rq # rqs"]) (auto simp: starts_def)
qed

definition sample_ajax :: ajax_type where
  "sample_ajax = \<lparr>ax_blobSize = 2, ax_action = ''/up'', ax_data = [(''a'', ''1'')], ax_fileDataName = ''f'',
     ax_headers = [], ax_formData = [], ax_io = False, ax_sent = [], ax_log = [], ax_pending = None\<rparr>"

definition sample_blob :: blob_file where
  "sample_blob = \<lparr>bf_name = lit ''a.txt'', bf_content = [1, 2, 3]\<rparr>"

text \<open>The first answer acknowledges two octets of three, the second, by having no header, the whole piece.\<close>

theorem chunks_cover_witness:
  "\<exists>rqs. ax_sent (chunks_done [Accepted (Some ''bytes 0-1'') None, Accepted None (Some good_answer)]
       (snd (ajax_upload (Some sample_blob) (sample_ajax\<lparr>ax_blobSize := 3\<rparr>)))) = rqs \<and>
     map posted rqs = [[1, 2, 3], [3 :: octet]] \<and>
     ax_log (chunks_done [Accepted (Some ''bytes 0-1'') None, Accepted None (Some good_answer)]
       (snd (ajax_upload (Some sample_blob) (sample_ajax\<lparr>ax_blobSize := 3\<rparr>)))) =
         [TProgress 2 3, TProgress 3 3, TSuccess (Some good_answer)]"
proof -
  let ?as = "[Accepted (Some ''bytes 0-1'') None, Accepted None (Some good_answer)]"
  let ?a = "sample_ajax\<lparr>ax_blobSize := 3\<rparr>"
  have s: "bf_content sample_blob = [1, 2, 3]" "bf_name sample_blob = lit ''a.txt''" "bf_size sample_blob = 3"
      "ax_blobSize ?a = int 3" "ax_sent ?a = []" "ax_log ?a = []"
    by (simp_all add: sample_blob_def sample_ajax_def bf_size_def)
  have t: "transfer 3 3 0 ?as = ([(0, 2), (2, 3)], Whole (Some good_answer))"
    by (simp add: next_position_def getUploadedBytes_def parseInt10_def is_blank_def is_digit_def nat_of_dec_def digit_val_def Let_def)
  have "acknowledged 3 3 [(0, 2), (2, 3)]" by (simp add: acknowledged_def)
  then show ?thesis
    using chunks_cover [of sample_blob ?a 3 ?as "[(0, 2), (2, 3)]" "Whole (Some good_answer)"] t
    unfolding s by (auto simp: wf_utf16_lit starts_def ending_def)
qed

text \<open>
  Nothing bounds the requests for one file. While the server acknowledges the same position \<open>n\<close>,
  short of the end, the transport sends the rest of the file from \<open>n\<close> again after every answer, and
  never reports an end.
\<close>

theorem chunks_resend:
  assumes "wf_utf16 (bf_name f)" "ax_blobSize a = int b" "0 < b"
    and "getUploadedBytes h = Some n" "n < bf_size f" "ax_pending a = Some (f, m, k)"
  shows "let w = fold (\<lambda>r a. snd (chunk_answered h r a)) rs a in
     map posted (ax_sent w) = map posted (ax_sent a) @ replicate (length rs) (take b (drop n (bf_content f))) \<and>
     ax_log w = ax_log a @ replicate (length rs) (TProgress n (bf_size f)) \<and> ax_pending w \<noteq> None"
  using assms(2,6)
proof (induction rs arbitrary: a m k)
  case (Cons r rs)
  let ?a = "a\<lparr>ax_pending := None, ax_log := ax_log a @ [TProgress n (bf_size f)]\<rparr>"
  obtain a' rq where a': "send_chunk f n ?a = (None, a')" "ax_sent a' = ax_sent ?a @ [rq]"
      "posted rq = take b (drop n (bf_content f))" "ax_pending a' = Some (f, n, min b (bf_size f - n))"
      "ax_log a' = ax_log ?a" "ax_blobSize a' = int b"
    by (rule send_chunk_ok [OF assms(1) _ assms(3), of ?a n]) (use Cons.prems(1) in auto)
  have "chunk_answered h r a = (None, a')"
    using Cons.prems(2) a'(1) assms(4,5) by (simp add: chunk_answered_def ax_fire_def andthen_def)
  then show ?case
    using Cons.IH [OF a'(6,4)] a'(2,3,5) by (simp add: Let_def)
qed (simp add: Let_def)

theorem chunks_resend_witness:
  "let w = fold (\<lambda>r a. snd (chunk_answered (Some ''bytes 0-1'') r a)) [None, None]
       (sample_ajax\<lparr>ax_pending := Some (sample_blob, 0, 2)\<rparr>) in
     map posted (ax_sent w) = [[3], [3]] \<and> ax_pending w \<noteq> None"
  using chunks_resend [of sample_blob "sample_ajax\<lparr>ax_pending := Some (sample_blob, 0, 2)\<rparr>" 2 "Some ''bytes 0-1''" 2 0 2 "[None, None]"]
  by (simp add: sample_blob_def sample_ajax_def wf_utf16_lit bf_size_def Let_def getUploadedBytes_def
      parseInt10_def is_blank_def is_digit_def nat_of_dec_def digit_val_def)

end
