(* ===== verification/IframeType.thy ===== *)
theory IframeType
  imports AjaxType
begin

section \<open>The iframe and flash transports\<close>

text \<open>
  \<open>kg/uploader/2.0.2/type/iframe\<close> and \<open>type/flash\<close> (in \<open>index.js\<close>). The iframe transport posts a form that
  holds the file input into a hidden frame, which it creates once; \<open>if_page\<close> are the elements it has put
  into the page. Elements and inputs are numbers. \<open>S.substitute\<close>, which fills a template, is the parameter
  \<open>subst\<close>; the listener \<open>on\<close> is what the uploader does when an event is fired.
\<close>

datatype element = FrameEl string bool | FormEl string nat

text \<open>A frame's text and whether its load is listened to; a form's text and the input in it.\<close>

record iframe_type =
  if_action :: string
  if_data :: "(string \<times> string) list"
  if_domain :: bool
  if_id :: string
  if_iframe :: "nat option"
  if_form :: "nat option"
  if_fileInput :: "nat option"
  if_guid :: nat
  if_fresh :: nat
  if_page :: "(nat \<times> element) list"
  if_submitted :: "nat list"
  if_log :: "type_event list"

type_synonym substitution = "string \<Rightarrow> (string \<times> string) list \<Rightarrow> string"
type_synonym listener = "type_event \<Rightarrow> iframe_type cmd"

definition iframe_fire :: "listener \<Rightarrow> type_event \<Rightarrow> iframe_type cmd" where
  "iframe_fire on e = block [(\<lambda>t. (None, t\<lparr>if_log := if_log t @ [e]\<rparr>)), on e]"

text \<open>The templates; \<open>q\<close> is the quote of HTML.\<close>

definition q :: string where
  "q = [CHR 0x22]"

definition tpl_IFRAME :: string where
  "tpl_IFRAME = concat [''<iframe src='', q, ''javascript:false;'', q, '' name='', q, ''{id}'', q, '' id='', q, ''{id}'', q,
     '' border='', q, ''no'', q, '' width='', q, ''1'', q, '' height='', q, ''1'', q, '' style='', q, ''display: none;'', q, '' />'']"

definition tpl_FORM :: string where
  "tpl_FORM = concat [''<form method='', q, ''post'', q, '' enctype='', q, ''multipart/form-data'', q, '' action='', q, ''{action}'', q,
     '' target='', q, ''{target}'', q, '' style='', q, ''visibility: hidden;'', q, ''>{hiddenInputs}</form>'']"

definition tpl_HIDDEN_INPUT :: string where
  "tpl_HIDDEN_INPUT = concat [''<input type='', q, ''hidden'', q, '' name='', q, ''{name}'', q, '' value='', q, ''{value}'', q, '' />'']"

definition dataToHidden :: "substitution \<Rightarrow> (string \<times> string) list \<Rightarrow> string" where
  "dataToHidden subst ps =
     concat (map (\<lambda>(k, v). subst tpl_HIDDEN_INPUT [(''name'', k), (''value'', v)]) ps)"

text \<open>\<open>S.guid()\<close> is called even if the frame exists already.\<close>

definition createIframe :: "substitution \<Rightarrow> iframe_type cmd" where
  "createIframe subst t =
     (let newId = ''ks-uploader-iframe-'' @ dec_of_nat (if_guid t); t = t\<lparr>if_guid := Suc (if_guid t)\<rparr> in
      if if_iframe t \<noteq> None then (None, t)
      else (None, t\<lparr>if_page := if_page t @ [(if_fresh t, FrameEl (subst tpl_IFRAME [(''id'', newId)]) (\<not> if_domain t))],
              if_fresh := Suc (if_fresh t), if_id := newId, if_iframe := Some (if_fresh t)\<rparr>))"

text \<open>Appending the file input to the form takes it from where it was.\<close>

definition createForm :: "substitution \<Rightarrow> nat \<Rightarrow> iframe_type cmd" where
  "createForm subst fileInput t =
     (let hiddens = dataToHidden subst (if_data t) @ dataToHidden subst [(''type'', ''iframe'')];
          html = subst tpl_FORM [(''action'', if_action t), (''target'', if_id t), (''hiddenInputs'', hiddens)]
      in (None, t\<lparr>if_page := if_page t @ [(if_fresh t, FormEl html fileInput)],
            if_fresh := Suc (if_fresh t), if_form := Some (if_fresh t)\<rparr>))"

definition submit_form :: "iframe_type cmd" where
  "submit_form t =
     (case if_form t of None \<Rightarrow> (None, t) | Some form \<Rightarrow> (None, t\<lparr>if_submitted := if_submitted t @ [form]\<rparr>))"

text \<open>\<open>None\<close>: the input is not there.\<close>

definition iframe_upload :: "substitution \<Rightarrow> listener \<Rightarrow> nat option \<Rightarrow> iframe_type cmd" where
  "iframe_upload subst on input t =
     (case input of
        None \<Rightarrow> skip t
      | Some i \<Rightarrow> block
          [iframe_fire on TStart,
           (\<lambda>t. (None, t\<lparr>if_fileInput := Some i\<rparr>)),
           createIframe subst, createForm subst i, iframe_fire on TCreate,
           submit_form] t)"

definition remove_form :: "listener \<Rightarrow> iframe_type cmd" where
  "remove_form on t =
     (case if_form t of
        None \<Rightarrow> skip t
      | Some form \<Rightarrow> block
          [(\<lambda>t. (None, t\<lparr>if_page := filter (\<lambda>(h, _). h \<noteq> form) (if_page t), if_form := None\<rparr>)),
           iframe_fire on TRemove] t)"

text \<open>Without a frame the attribute is \<open>{}\<close>, which has no \<open>attr\<close>.\<close>

definition iframe_stop :: "listener \<Rightarrow> iframe_type cmd" where
  "iframe_stop on t =
     (if if_iframe t = None then throw TypeError t
      else block [remove_form on, iframe_fire on TStop, iframe_fire on (TError None)] t)"

text \<open>The answer after \<open>JSON.parse\<close>, as in \<open>processResponse\<close>.\<close>

definition handleResult :: "listener \<Rightarrow> string \<Rightarrow> answer \<Rightarrow> iframe_type cmd" where
  "handleResult on text a =
     (case a of
        NotJson \<Rightarrow> block [iframe_fire on (TError (Some (bad_result text))),
                     iframe_fire on (TSuccess (Some empty_result)), remove_form on]
      | NoObject \<Rightarrow> block [iframe_fire on (TSuccess None), remove_form on]
      | Object r \<Rightarrow> block [iframe_fire on (TSuccess (Some r)), remove_form on])"

text \<open>
  The frame has loaded: \<open>None\<close> if its document cannot be read, else the text of its body. Errors, also
  those of the listeners, are caught.
\<close>

definition iframeLoadHandler :: "(string \<Rightarrow> answer) \<Rightarrow> listener \<Rightarrow> string option \<Rightarrow> iframe_type cmd" where
  "iframeLoadHandler parse on response t =
     (None, snd (case response of
        None \<Rightarrow> iframe_fire on (TError None) t
      | Some text \<Rightarrow> if text = [] then skip t else handleResult on text (parse text) t))"

subsection \<open>Flash\<close>

text \<open>\<open>fl_calls\<close>: the calls of the flash object's \<open>upload\<close> (id, address, data, name) and \<open>cancel\<close>.\<close>

datatype swf_call = SwfUpload string string "(string, string) obj" string | SwfCancel string

record flash_type =
  fl_action :: string
  fl_data :: "(string, string) obj"
  fl_fileDataName :: string
  fl_uploadingId :: string
  fl_calls :: "swf_call list"
  fl_log :: "type_event list"

definition fl_fire :: "type_event \<Rightarrow> flash_type cmd" where
  "fl_fire e t = (None, t\<lparr>fl_log := fl_log t @ [e]\<rparr>)"

text \<open>The getter of \<open>action\<close>: \<open>/^http/\<close>, else the address of the page up to its last slash.\<close>

definition flash_action :: "string \<Rightarrow> string \<Rightarrow> string" where
  "flash_action href v =
     (if take 4 v = ''http'' then v
      else join_on CHR ''/'' (butlast (split_on CHR ''/'' href)) @ ''/'' @ v)"

definition flash_upload :: "string \<Rightarrow> string \<Rightarrow> flash_type cmd" where
  "flash_upload href ident t =
     (let name = (if fl_fileDataName t = [] then ''Filedata'' else fl_fileDataName t);
          params = obj_set ''type'' ''flash'' (fl_data t)
      in (None, t\<lparr>fl_uploadingId := ident, fl_data := params,
            fl_calls := fl_calls t @ [SwfUpload ident (flash_action href (fl_action t)) params name]\<rparr>))"

definition flash_stop :: "flash_type cmd" where
  "flash_stop t =
     (if fl_uploadingId t \<noteq> [] then block
        [(\<lambda>t. (None, t\<lparr>fl_calls := fl_calls t @ [SwfCancel (fl_uploadingId t)]\<rparr>)), fl_fire TStop] t
      else skip t)"

definition flash_progress :: "nat \<Rightarrow> nat \<Rightarrow> flash_type cmd" where
  "flash_progress bytesLoaded bytesTotal = fl_fire (TProgress bytesLoaded bytesTotal)"

definition flash_complete :: "string \<Rightarrow> answer \<Rightarrow> flash_type cmd" where
  "flash_complete text a =
     (let done = (\<lambda>r. block [(\<lambda>t. (None, t\<lparr>fl_uploadingId := []\<rparr>)), fl_fire (TSuccess r)]) in
      case a of
        NotJson \<Rightarrow> block [fl_fire (TError (Some (bad_result text))), done (Some empty_result)]
      | NoObject \<Rightarrow> done None
      | Object r \<Rightarrow> done (Some r))"

definition flash_error :: "flash_type cmd" where
  "flash_error = block [(\<lambda>t. (None, t\<lparr>fl_uploadingId := []\<rparr>)), fl_fire (TError None)]"

subsection \<open>What the uploader does on these events\<close>

text \<open>\<open>_renderUploaderCore\<close> registers the uploader's handlers; the others are not listened to.\<close>

definition uploader_on :: "type_event \<Rightarrow> uploader cmd" where
  "uploader_on e =
     (case e of
        TSuccess r \<Rightarrow> uploadComplete r
      | TError r \<Rightarrow> uploadComplete r
      | TProgress _ _ \<Rightarrow> uploadProgress
      | TStop \<Rightarrow> uploadStopHandler
      | _ \<Rightarrow> skip)"

subsection \<open>Properties\<close>

text \<open>The listener in a batch: when a file succeeds, the next one is uploaded from the input \<open>j\<close>.\<close>

definition next_upload :: "substitution \<Rightarrow> nat \<Rightarrow> listener" where
  "next_upload subst j e =
     (case e of TSuccess _ \<Rightarrow> iframe_upload subst (\<lambda>_. skip) (Some j) | _ \<Rightarrow> skip)"

lemma next_upload_simps [simp]:
  "next_upload subst j (TSuccess r) = iframe_upload subst (\<lambda>_. skip) (Some j)"
  "next_upload subst j TRemove = skip" "next_upload subst j (TError r) = skip"
  by (simp_all add: next_upload_def)

text \<open>A transport whose elements are older than its next one, with a frame and a form in the page.\<close>

definition form_open :: "nat \<Rightarrow> iframe_type \<Rightarrow> bool" where
  "form_open form t \<longleftrightarrow> if_form t = Some form \<and> form \<in> fst ` set (if_page t) \<and> if_iframe t \<noteq> None \<and>
     list_all (\<lambda>(h, _). h < if_fresh t) (if_page t)"

lemma form_open_keys: "form_open form t \<Longrightarrow> filter (\<lambda>(h, _). h \<noteq> if_fresh t) (if_page t) = if_page t"
  by (auto simp: form_open_def list_all_iff intro!: filter_True)

text \<open>
  After a file of a batch the iframe transport removes the wrong form. The success event starts the
  next upload, which makes a form of its own; the handler then removes that one, just submitted, and the
  form of the finished file stays in the page with its input. Without a next file the finished file's
  form is removed.
\<close>

theorem iframe_keeps_form:
  assumes "form_open form t" "parse text = Object r" "text \<noteq> []"
  shows "\<exists>v w. iframeLoadHandler parse (next_upload subst j) (Some text) t = (None, v) \<and>
     if_page v = if_page t \<and> if_form v = None \<and> if_submitted v = if_submitted t @ [if_fresh t] \<and>
     iframeLoadHandler parse (\<lambda>_. skip) (Some text) t = (None, w) \<and>
     form \<notin> fst ` set (if_page w) \<and> if_submitted w = if_submitted t"
proof -
  have t: "if_form t = Some form" "if_iframe t \<noteq> None" using assms(1) by (simp_all add: form_open_def)
  have "filter (\<lambda>(h, _). h \<noteq> if_fresh t) (if_page t) = if_page t" by (rule form_open_keys [OF assms(1)])
  then show ?thesis
    using assms(2,3) t
    by (auto simp: iframeLoadHandler_def handleResult_def iframe_fire_def iframe_upload_def createIframe_def
        createForm_def submit_form_def remove_form_def andthen_def Let_def)
qed

definition sample_iframe :: iframe_type where
  "sample_iframe = \<lparr>if_action = ''/up'', if_data = [], if_domain = False, if_id = ''x'', if_iframe = Some 0,
     if_form = Some 1, if_fileInput = Some 7, if_guid = 0, if_fresh = 2,
     if_page = [(0, FrameEl [] True), (1, FormEl [] 7)], if_submitted = [1], if_log = []\<rparr>"

theorem iframe_keeps_form_witness:
  "\<exists>v. iframeLoadHandler (\<lambda>_. Object good_answer) (next_upload (\<lambda>s _. s) 8) (Some ''x'') sample_iframe = (None, v) \<and>
     1 \<in> fst ` set (if_page v) \<and> if_submitted v = [1, 2] \<and> if_form v = None"
  using iframe_keeps_form [of 1 sample_iframe "\<lambda>_. Object good_answer" "''x''" good_answer "\<lambda>s _. s" 8]
  by (auto simp: form_open_def sample_iframe_def)

text \<open>
  The address flash posts to: relative to the directory of the page.
\<close>

lemma split_last: "c \<notin> set ys \<Longrightarrow> split_on c (xs @ c # ys) = split_on c xs @ [ys]"
proof (induction xs)
  case (Cons x xs)
  then show ?case using split_on_ne [of c xs] by (cases "split_on c xs") auto
qed (simp add: split_on_plain)

lemma flash_action_relative:
  "CHR ''/'' \<notin> set page \<Longrightarrow> take 4 v \<noteq> ''http'' \<Longrightarrow> flash_action (dir @ CHR ''/'' # page) v = dir @ ''/'' @ v"
  by (simp add: flash_action_def split_last join_split)

end
