(* ===== verification/UploadWiring.thy ===== *)
theory UploadWiring
  imports IframeType
begin

section \<open>The uploader and its transports\<close>

text \<open>
  \<open>Uploader\<close> speaks of its transport through what the transport reports. Here the three transports, as \<open>AjaxType\<close> and
  \<open>IframeType\<close> have them, are shown to be what it takes them for: stopping one has on the uploader that hears its events
  the effect of \<open>transport_stop\<close>, and an answer in the iframe that of \<open>iframeAnswer\<close>. The locale \<open>stoppable\<close> is the
  interface the uploader relies on when it stops a transport; it is interpreted on each of the three.
\<close>

text \<open>The uploader's handlers for a list of events, in order.\<close>

definition hear :: "type_event list \<Rightarrow> uploader cmd" where
  "hear es = block (map uploader_on es)"

definition unheard :: "type_event \<Rightarrow> bool" where
  "unheard e \<longleftrightarrow> e \<in> {TStart, TCreate, TRemove, TSwfReady, TError None, TSuccess None}"

lemma uploader_on_simps [simp]:
  "uploader_on TStop = uploadStopHandler" "uploader_on (TSuccess r) = uploadComplete r"
  "uploader_on (TError r) = uploadComplete r" "uploader_on (TProgress n m) = uploadProgress"
  "uploader_on TStart = skip" "uploader_on TCreate = skip" "uploader_on TRemove = skip" "uploader_on TSwfReady = skip"
  by (simp_all add: uploader_on_def)

lemma complete_None [simp]: "uploadComplete None = skip"
  by (rule ext) (simp add: uploadComplete_def)

lemma unheard_skip: "unheard e \<Longrightarrow> uploader_on e = skip"
  by (auto simp: unheard_def)

lemma skip_andthen [simp]: "andthen skip c = c"
  by (rule ext) (simp add: andthen_def)

lemma hear_Nil [simp]: "hear [] = skip"
  by (simp add: hear_def)

lemma hear_heard: "hear es = hear (filter (\<lambda>e. \<not> unheard e) es)"
  by (induction es) (auto simp: hear_def unheard_skip)

text \<open>
  A transport that can be stopped: while it holds something, \<open>halt\<close> does not fail, and the one event it
  fires that the uploader hears is \<open>stop\<close>.
\<close>

locale stoppable =
  fixes events :: "'t \<Rightarrow> type_event list" and busy_with :: "'t \<Rightarrow> bool" and halt :: "'t cmd"
  assumes halt_busy: "busy_with t \<Longrightarrow>
    \<exists>t' es. halt t = (None, t') \<and> events t' = events t @ es \<and> filter (\<lambda>e. \<not> unheard e) es = [TStop]"
begin

lemma halt_heard:
  assumes "busy_with t"
  shows "\<exists>t'. halt t = (None, t') \<and> hear (drop (length (events t)) (events t')) = uploadStopHandler"
proof -
  obtain t' es where t: "halt t = (None, t')" "events t' = events t @ es" "filter (\<lambda>e. \<not> unheard e) es = [TStop]"
    using halt_busy [OF assms] by blast
  have "hear es = uploadStopHandler"
    using hear_heard [of es] t(3) by (simp add: hear_def)
  then show ?thesis using t(1,2) by simp
qed

end

interpretation ajax: stoppable ax_log ax_io ajax_stop
  by unfold_locales (auto simp: ajax_stop_def ax_fire_def unheard_def)

interpretation flash: stoppable fl_log "\<lambda>t. fl_uploadingId t \<noteq> []" flash_stop
  by unfold_locales (auto simp: flash_stop_def fl_fire_def andthen_def unheard_def)

interpretation iframe: stoppable if_log "\<lambda>t. if_iframe t \<noteq> None" "iframe_stop (\<lambda>_. skip)"
  by unfold_locales
    (auto simp: iframe_stop_def iframe_fire_def remove_form_def andthen_def unheard_def split: option.split)

text \<open>What each transport holds, as the uploader's model records it.\<close>

lemma stop_heard:
  assumes "u_kind u = k" "u_active u = held"
  shows "transport_stop u = (if held then uploadStopHandler u
    else if k = Iframe then throw TypeError u else skip u)"
  using assms by (cases k) (simp_all add: transport_stop_def andthen_def split: prod.split option.split)

text \<open>A transport's operation, seen by the uploader: its handlers run on the events fired.\<close>

definition as_heard :: "('t \<Rightarrow> type_event list) \<Rightarrow> 't cmd \<Rightarrow> 't \<Rightarrow> uploader cmd" where
  "as_heard events c t =
     (case c t of (e, t') \<Rightarrow> andthen (hear (drop (length (events t)) (events t'))) (\<lambda>u. (e, u)))"

lemma andthen_done [simp]: "andthen c (\<lambda>u. (None, u)) = c"
  by (rule ext) (simp add: andthen_def split: prod.split option.split)

lemma as_heard_fire:
  "as_heard ax_log (ax_fire e) a = uploader_on e"
  by (simp add: as_heard_def ax_fire_def hear_def)

lemma answer_heard:
  "as_heard if_log (handleResult (\<lambda>_. skip) text a) t = iframeAnswer text a"
proof -
  have "\<exists>t'. handleResult (\<lambda>_. skip) text a t = (None, t') \<and>
      (\<exists>es. if_log t' = if_log t @ es \<and> hear es = iframeAnswer text a)"
    by (cases a; cases "if_form t")
      (auto simp: handleResult_def iframe_fire_def remove_form_def andthen_def hear_def iframeAnswer_def
        processResponse_def fun_eq_iff split: prod.split option.split)
  then show ?thesis by (auto simp: as_heard_def)
qed

lemma stops_heard:
  "u_kind u = Ajax \<Longrightarrow> u_active u = ax_io a \<Longrightarrow> as_heard ax_log ajax_stop a u = transport_stop u"
  "u_kind v = Flash \<Longrightarrow> u_active v = (fl_uploadingId f \<noteq> []) \<Longrightarrow> as_heard fl_log flash_stop f v = transport_stop v"
  "u_kind w = Iframe \<Longrightarrow> u_active w = (if_iframe t \<noteq> None) \<Longrightarrow>
     as_heard if_log (iframe_stop (\<lambda>_. skip)) t w = transport_stop w"
  using ajax.halt_heard [of a] stop_heard [of u Ajax "ax_io a"]
    flash.halt_heard [of f] stop_heard [of v Flash "fl_uploadingId f \<noteq> []"]
    iframe.halt_heard [of t] stop_heard [of w Iframe "if_iframe t \<noteq> None"]
  by (auto simp: as_heard_def ajax_stop_def flash_stop_def iframe_stop_def)

end
