(* ===== verification/UploadInit.thy ===== *)
theory UploadInit
  imports Uploader
begin

section \<open>Setting an uploader up\<close>

text \<open>
  The choice of a transport by \<open>Uploader\<close> (in \<open>kg/uploader/2.0.2/index.js\<close>): \<open>_init\<close> asks \<open>getUploadType\<close> for
  one the browser supports, which also sets the attribute \<open>type\<close>, and then makes a button and the
  transport from that attribute. Types are texts or lists of texts.
\<close>

datatype type_arg = One string | Several "string list"

text \<open>What the browser has: \<open>FormData\<close>, a flash version, and the version of Internet Explorer, if it is one.\<close>

record agent =
  ag_FormData :: bool
  ag_flash :: "nat list option"
  ag_ie :: "nat option"

datatype button_kind = HtmlButton | SwfButton

record parts =
  pt_type :: type_arg
  pt_multiple :: bool
  pt_button :: "button_kind option"
  pt_queue :: bool
  pt_transport :: "transport option"

definition isSupportAjax :: "agent \<Rightarrow> bool" where
  "isSupportAjax b = ag_FormData b"

definition isSupportFlash :: "agent \<Rightarrow> bool" where
  "isSupportFlash b = (case ag_flash b of None \<Rightarrow> False | Some fpv \<Rightarrow> length fpv > 0)"

text \<open>\<open>_getType\<close>: \<open>None\<close> is \<open>false\<close>. The attribute is set for every known name, supported or not.\<close>

definition getType :: "agent \<Rightarrow> string \<Rightarrow> parts \<Rightarrow> transport option \<times> parts" where
  "getType b name p =
     (let set_type = p\<lparr>pt_type := One name\<rparr> in
      if name = ''iframe'' then (Some Iframe, set_type)
      else if name = ''ajax'' then (if isSupportAjax b then Some Ajax else None, set_type)
      else if name = ''flash'' then (if isSupportFlash b then Some Flash else None, set_type)
      else (None, p))"

text \<open>The loop stops at the first type that is supported.\<close>

fun first_type :: "agent \<Rightarrow> string list \<Rightarrow> parts \<Rightarrow> transport option \<times> parts" where
  "first_type b [] p = (None, p)"
| "first_type b (t # ts) p =
     (case getType b t p of
        (Some k, p') \<Rightarrow> (Some k, p')
      | (None, p') \<Rightarrow> if ts = [] then (None, p') else first_type b ts p')"

definition getUploadType :: "agent \<Rightarrow> type_arg \<Rightarrow> parts \<Rightarrow> transport option \<times> parts" where
  "getUploadType b arg p =
     (case (if arg = One ''auto'' then Several [''ajax'', ''iframe''] else arg) of
        One name \<Rightarrow> getType b name p
      | Several ts \<Rightarrow> if ts \<noteq> [] then first_type b ts p else (None, p))"

text \<open>The button's kind follows the attribute; a browser that is not Internet Explorer has no version to compare.\<close>

definition renderButton :: "agent \<Rightarrow> parts \<Rightarrow> parts" where
  "renderButton b p =
     (let p = p\<lparr>pt_button := Some (if pt_type p = One ''flash'' then SwfButton else HtmlButton)\<rparr>
      in if pt_type p = One ''iframe'' \<and> (case ag_ie b of None \<Rightarrow> False | Some v \<Rightarrow> v < 10)
         then p\<lparr>pt_multiple := False\<rparr> else p)"

definition renderUploaderCore :: "transport option \<Rightarrow> parts \<Rightarrow> parts" where
  "renderUploaderCore k p = (case k of None \<Rightarrow> p | Some t \<Rightarrow> p\<lparr>pt_transport := Some t\<rparr>)"

definition init_uploader :: "agent \<Rightarrow> bool \<Rightarrow> parts \<Rightarrow> parts" where
  "init_uploader b has_target p =
     (if \<not> has_target then p
      else case getUploadType b (pt_type p) p of
             (k, p') \<Rightarrow> renderUploaderCore k ((renderButton b p')\<lparr>pt_queue := True\<rparr>))"

definition new_parts :: "type_arg \<Rightarrow> bool \<Rightarrow> parts" where
  "new_parts arg multiple = \<lparr>pt_type = arg, pt_multiple = multiple, pt_button = None, pt_queue = False, pt_transport = None\<rparr>"

subsection \<open>Properties\<close>

definition type_name :: "transport \<Rightarrow> string" where
  "type_name k = (case k of Iframe \<Rightarrow> ''iframe'' | Ajax \<Rightarrow> ''ajax'' | Flash \<Rightarrow> ''flash'')"

definition supports :: "agent \<Rightarrow> transport \<Rightarrow> bool" where
  "supports b k = (case k of Iframe \<Rightarrow> True | Ajax \<Rightarrow> isSupportAjax b | Flash \<Rightarrow> isSupportFlash b)"

lemma getType_some: "getType b name p = (Some k, p') \<Longrightarrow> p' = p\<lparr>pt_type := One (type_name k)\<rparr> \<and> supports b k \<and> name = type_name k"
  by (auto simp: getType_def Let_def type_name_def supports_def split: if_splits transport.splits)

lemma getType_keeps: "getType b name p = (k, p') \<Longrightarrow>
    pt_button p' = pt_button p \<and> pt_transport p' = pt_transport p \<and> pt_multiple p' = pt_multiple p \<and> pt_queue p' = pt_queue p"
  by (auto simp: getType_def Let_def split: if_splits)

lemma first_type_some:
  "first_type b ts p = (Some k, p') \<Longrightarrow> pt_type p' = One (type_name k) \<and> supports b k \<and> type_name k \<in> set ts"
proof (induction ts arbitrary: p)
  case (Cons t ts)
  then show ?case
    by (auto split: prod.splits option.splits if_splits dest!: getType_some)
qed simp

lemma getUploadType_some:
  "getUploadType b arg p = (Some k, p') \<Longrightarrow> pt_type p' = One (type_name k) \<and> supports b k"
  by (auto simp: getUploadType_def split: type_arg.splits if_splits dest!: getType_some first_type_some)

lemma first_type_keeps: "first_type b ts p = (k, p') \<Longrightarrow> pt_transport p' = pt_transport p"
proof (induction ts arbitrary: p)
  case (Cons t ts)
  then show ?case
    by (auto split: prod.splits option.splits if_splits dest: getType_keeps)
qed simp

lemma getUploadType_keeps: "getUploadType b arg p = (k, p') \<Longrightarrow> pt_transport p' = pt_transport p"
  by (auto simp: getUploadType_def split: type_arg.splits if_splits dest: getType_keeps first_type_keeps)

lemma renderButton_type [simp]: "pt_type (renderButton b p) = pt_type p" "pt_transport (renderButton b p) = pt_transport p"
    "pt_button (renderButton b p) = Some (if pt_type p = One ''flash'' then SwfButton else HtmlButton)"
  by (simp_all add: renderButton_def Let_def)

text \<open>
  The parts fit together. If an uploader gets a transport, the browser supports it, the attribute
  \<open>type\<close> names it, and the button is the flash button exactly if the transport is flash, whatever the
  configured type was.
\<close>

theorem init_parts_fit:
  assumes "pt_transport (init_uploader b True (new_parts arg m)) = Some k"
  shows "supports b k \<and> pt_type (init_uploader b True (new_parts arg m)) = One (type_name k) \<and>
     pt_button (init_uploader b True (new_parts arg m)) = Some (if k = Flash then SwfButton else HtmlButton)"
proof -
  obtain c p' where g: "getUploadType b arg (new_parts arg m) = (c, p')" by (cases "getUploadType b arg (new_parts arg m)")
  have none: "pt_transport p' = None" using getUploadType_keeps [OF g] by (simp add: new_parts_def)
  have c: "c = Some k"
    using assms g none by (auto simp: init_uploader_def renderUploaderCore_def new_parts_def split: option.splits)
  then have "pt_type p' = One (type_name k)" "supports b k"
    using getUploadType_some [of b arg "new_parts arg m" k p'] g by simp_all
  then show ?thesis
    using g c by (cases k) (auto simp: init_uploader_def renderUploaderCore_def type_name_def new_parts_def)
qed

definition old_ie :: agent where
  "old_ie = \<lparr>ag_FormData = False, ag_flash = Some [9], ag_ie = Some 8\<rparr>"

theorem init_parts_fit_witness:
  "pt_transport (init_uploader old_ie True (new_parts (Several [''ajax'', ''flash'']) True)) = Some Flash \<and>
   pt_button (init_uploader old_ie True (new_parts (Several [''ajax'', ''flash'']) True)) = Some SwfButton"
proof -
  have "pt_transport (init_uploader old_ie True (new_parts (Several [''ajax'', ''flash'']) True)) = Some Flash"
    by (simp add: init_uploader_def new_parts_def old_ie_def getUploadType_def getType_def isSupportAjax_def
        isSupportFlash_def renderUploaderCore_def Let_def)
  from this init_parts_fit [OF this] show ?thesis by simp
qed

text \<open>
  The type \<open>auto\<close> never chooses flash, against its comment: it is ajax where the browser has
  \<open>FormData\<close> and iframe elsewhere, so there is always a transport; an unsupported type leaves none, but
  still makes a button and sets the attribute.
\<close>

theorem auto_transport:
  "pt_transport (init_uploader b True (new_parts (One ''auto'') m)) = Some (if ag_FormData b then Ajax else Iframe) \<and>
   (let p = init_uploader (b\<lparr>ag_flash := None\<rparr>) True (new_parts (One ''flash'') m) in
      pt_transport p = None \<and> pt_button p = Some SwfButton \<and> pt_type p = One ''flash'')"
  by (simp add: init_uploader_def new_parts_def getUploadType_def getType_def isSupportAjax_def isSupportFlash_def
      renderUploaderCore_def Let_def)

end
