(* ===== verification/UploadButton.thy ===== *)
theory UploadButton
  imports UploadInit
begin

section \<open>The buttons\<close>

text \<open>
  \<open>kg/uploader/2.0.2/button/base\<close> and \<open>button/swfButton\<close> (in \<open>index.js\<close>), what they use of
  \<open>plugins/ajbridge\<close>, and the attributes of \<open>Uploader\<close> that are passed on to a button or a transport. A button
  is a link with a file input over it, which is replaced after every choice. Inputs are numbered;
  \<open>bt_page\<close> are the containers in the link, one for each input. \<open>disabled\<close> and \<open>multiple\<close> are booleans, which is
  what the uploader passes on.
\<close>

subsection \<open>The HTML button\<close>

record file_input =
  in_id :: nat
  in_name :: "string option"
  in_multiple :: bool
  in_shown :: bool

record chosen_file =
  ch_name :: string
  ch_type :: string
  ch_size :: "nat option"

datatype button_event = BtChange "chosen_file list" nat | BtShow | BtHide

record html_button =
  bt_target :: bool
  bt_disabledCls :: bool
  bt_shown :: bool
  bt_tpl :: bool
  bt_src :: "file_input option"
  bt_input :: "file_input option"
  bt_page :: "nat list"
  bt_name :: string
  bt_disabled :: bool
  bt_multiple :: bool
  bt_fresh :: nat
  bt_log :: "button_event list"

text \<open>
  \<open>path.replace(/.*(\/|\\)/, "")\<close>: the dot does not match the end of a line, so the first line with a
  separator loses what is before its last one.
\<close>

definition separator :: "char \<Rightarrow> bool" where
  "separator c \<longleftrightarrow> c = CHR ''/'' \<or> c = CHR 0x5C"

definition line_end :: "char \<Rightarrow> bool" where
  "line_end c \<longleftrightarrow> c = CHR 0x0A \<or> c = CHR 0x0D"

definition after_last :: "string \<Rightarrow> string" where
  "after_last line = rev (takeWhile (\<lambda>c. \<not> separator c) (rev line))"

function getFileName :: "string \<Rightarrow> string" where
  "getFileName path =
     (let line = takeWhile (\<lambda>c. \<not> line_end c) path in
      case dropWhile (\<lambda>c. \<not> line_end c) path of
        [] \<Rightarrow> after_last line
      | e # rest \<Rightarrow> if list_ex separator line then after_last line @ e # rest else line @ e # getFileName rest)"
  by auto
termination
proof (relation "measure length")
  fix path line e rest
  assume "dropWhile (\<lambda>c. \<not> line_end c) path = e # rest"
  then have "length (e # rest) \<le> length path" by (metis length_dropWhile_le)
  then show "(rest, path) \<in> measure length" by simp
qed simp

declare getFileName.simps [simp del]

text \<open>\<open>_setDisabled\<close> and \<open>_setMultiple\<close>; \<open>attr\<close> gives the list of elements back, which is true.\<close>

definition setDisabled :: "bool \<Rightarrow> html_button cmd" where
  "setDisabled disabled b =
     (None, if \<not> bt_target b then b
            else b\<lparr>bt_disabledCls := disabled, bt_input := map_option (\<lambda>i. i\<lparr>in_shown := \<not> disabled\<rparr>) (bt_input b)\<rparr>)"

definition setMultiple :: "bool \<Rightarrow> html_button cmd" where
  "setMultiple multiple b = (None, b\<lparr>bt_input := map_option (\<lambda>i. i\<lparr>in_multiple := multiple\<rparr>) (bt_input b)\<rparr>)"

definition createInput :: "html_button cmd" where
  "createInput b =
     (case bt_src b of
        None \<Rightarrow> skip b
      | Some src \<Rightarrow>
          if \<not> bt_tpl b then skip b
          else block
            [(\<lambda>b. (None, b\<lparr>bt_input := Some (src\<lparr>in_id := bt_fresh b\<rparr>), bt_fresh := Suc (bt_fresh b),
                bt_page := (if bt_target b then bt_page b @ [bt_fresh b] else bt_page b)\<rparr>)),
             setDisabled (bt_disabled b), setMultiple (bt_multiple b)] b)"

definition render_button :: "html_button cmd" where
  "render_button b =
     (case bt_src b of
        None \<Rightarrow> skip b
      | Some src \<Rightarrow> createInput (b\<lparr>bt_src := Some (src\<lparr>in_id := bt_fresh b\<rparr>), bt_fresh := Suc (bt_fresh b)\<rparr>))"

definition button_show :: "html_button cmd" where
  "button_show b = (None, b\<lparr>bt_shown := True, bt_log := bt_log b @ [BtShow]\<rparr>)"

definition button_hide :: "html_button cmd" where
  "button_hide b = (None, b\<lparr>bt_shown := False, bt_log := bt_log b @ [BtHide]\<rparr>)"

definition button_reset :: "html_button cmd" where
  "button_reset b =
     createInput (b\<lparr>bt_page := (case bt_input b of None \<Rightarrow> bt_page b | Some i \<Rightarrow> filter (\<lambda>n. n \<noteq> in_id i) (bt_page b)),
       bt_input := None\<rparr>)"

text \<open>
  A change of the input: its value, and the files where the browser tells them. \<open>on\<close> is what listens to
  \<open>change\<close>; the old input stays with the event.
\<close>

definition changeHandler :: "(button_event \<Rightarrow> html_button cmd) \<Rightarrow> string \<Rightarrow> chosen_file list option \<Rightarrow> html_button cmd" where
  "changeHandler on val oFiles b =
     (if val = [] then skip b
      else case bt_input b of
             None \<Rightarrow> throw TypeError b
           | Some i \<Rightarrow>
               (let files = (case oFiles of Some fs \<Rightarrow> fs | None \<Rightarrow> [\<lparr>ch_name = getFileName val, ch_type = [], ch_size = None\<rparr>]);
                    e = BtChange files (in_id i)
                in block [(\<lambda>b. (None, b\<lparr>bt_log := bt_log b @ [e]\<rparr>)), on e, button_reset] b))"

text \<open>The setters of \<open>name\<close>, \<open>disabled\<close> and \<open>multiple\<close>.\<close>

definition set_name :: "string \<Rightarrow> html_button cmd" where
  "set_name v b =
     (None, b\<lparr>bt_input := map_option (\<lambda>i. i\<lparr>in_name := Some v\<rparr>) (bt_input b), bt_name := v\<rparr>)"

definition set_button_disabled :: "bool \<Rightarrow> html_button cmd" where
  "set_button_disabled v = block [setDisabled v, (\<lambda>b. (None, b\<lparr>bt_disabled := v\<rparr>))]"

definition set_button_multiple :: "bool \<Rightarrow> html_button cmd" where
  "set_button_multiple v = block [setMultiple v, (\<lambda>b. (None, b\<lparr>bt_multiple := v\<rparr>))]"

text \<open>The constructor runs the setters of what is configured.\<close>

definition new_button :: "bool \<Rightarrow> file_input option \<Rightarrow> string \<Rightarrow> bool \<Rightarrow> bool \<Rightarrow> html_button" where
  "new_button target src name disabled multiple =
     snd (block [set_name name, set_button_multiple multiple, set_button_disabled disabled]
       \<lparr>bt_target = target, bt_disabledCls = False, bt_shown = True, bt_tpl = True, bt_src = src, bt_input = None,
        bt_page = [], bt_name = ''fileInput'', bt_disabled = False, bt_multiple = True,
        bt_fresh = (case src of None \<Rightarrow> 0 | Some i \<Rightarrow> Suc (in_id i)), bt_log = []\<rparr>)"

subsection \<open>What a rendered button keeps\<close>

text \<open>
  The setters may run at any time, also from the listeners of a change, between the event and the new input.
\<close>

inductive setter_step :: "html_button \<Rightarrow> html_button \<Rightarrow> bool" where
  name: "setter_step b (snd (set_name v b))"
| disabled: "setter_step b (snd (set_button_disabled v b))"
| multiple: "setter_step b (snd (set_button_multiple v b))"
| shown: "setter_step b (snd (button_show b))"
| hidden: "setter_step b (snd (button_hide b))"

inductive button_step :: "html_button \<Rightarrow> html_button \<Rightarrow> bool" where
  setter: "setter_step b b' \<Longrightarrow> button_step b b'"
| change: "(\<And>e b. setter_step\<^sup>*\<^sup>* b (snd (on e b)) \<and> fst (on e b) = None) \<Longrightarrow>
    button_step b (snd (changeHandler on val oFiles b))"

inductive button_reachable :: "html_button \<Rightarrow> bool" where
  rendered: "button_reachable (snd (render_button (new_button True (Some src) name disabled multiple)))"
| step: "button_reachable b \<Longrightarrow> button_step b b' \<Longrightarrow> button_reachable b'"

definition button_ok :: "html_button \<Rightarrow> bool" where
  "button_ok b \<longleftrightarrow> bt_target b \<and> bt_tpl b \<and> bt_disabledCls b = bt_disabled b \<and>
     (\<exists>i s. bt_input b = Some i \<and> bt_src b = Some s \<and> bt_page b = [in_id i] \<and>
        in_shown i = (\<not> bt_disabled b) \<and> in_multiple i = bt_multiple b)"

lemmas button_defs = set_name_def set_button_disabled_def set_button_multiple_def button_show_def button_hide_def
  setDisabled_def setMultiple_def createInput_def andthen_def

lemma setter_ok: "setter_step b b' \<Longrightarrow> button_ok b \<Longrightarrow> button_ok b'"
  by (induction rule: setter_step.induct) (auto simp: button_ok_def button_defs)

lemma setters_ok: "setter_step\<^sup>*\<^sup>* b b' \<Longrightarrow> button_ok b \<Longrightarrow> button_ok b'"
  by (induction rule: rtranclp_induct) (auto intro: setter_ok)

lemma reset_ok: "button_ok b \<Longrightarrow> button_ok (snd (button_reset b))"
  by (auto simp: button_ok_def button_reset_def button_defs)

lemma reset_error: "fst (button_reset b) = None"
  by (simp add: button_reset_def button_defs split: option.split)

lemma change_ok:
  assumes "button_ok b" "\<And>e b. setter_step\<^sup>*\<^sup>* b (snd (on e b)) \<and> fst (on e b) = None"
  shows "button_ok (snd (changeHandler on val oFiles b))"
proof -
  have "button_ok (b\<lparr>bt_log := l\<rparr>)" for l using assms(1) by (simp add: button_ok_def)
  then have on: "button_ok (snd (on e (b\<lparr>bt_log := l\<rparr>)))" for e l using setters_ok assms(2) by blast
  have run: "andthen (on e) button_reset c = button_reset (snd (on e c))" for e c
    using assms(2) [of c e] by (cases "on e c") simp
  show ?thesis using assms(1) reset_ok [OF on]
    by (auto simp: changeHandler_def Let_def andthen_def [of "\<lambda>b. (None, bt_log_update _ b)"] run split: option.split)
qed

lemma button_reachable_ok: "button_reachable b \<Longrightarrow> button_ok b"
proof (induction rule: button_reachable.induct)
  case (rendered src name disabled multiple)
  show ?case by (simp add: button_ok_def render_button_def new_button_def button_defs)
next
  case (step b b')
  from step(2,3) show ?case by (cases rule: button_step.cases) (auto intro: setter_ok change_ok)
qed

text \<open>
  At every moment a rendered button has exactly one input in the page, the current one; it is hidden and
  the link marked exactly if the button is disabled, and it takes several files exactly if the button does;
  whatever was set and chosen before, also by the listeners of a choice.
\<close>

theorem button_fits:
  assumes "button_reachable b"
  shows "\<exists>i. bt_input b = Some i \<and> bt_page b = [in_id i] \<and> in_shown i = (\<not> bt_disabled b) \<and>
    bt_disabledCls b = bt_disabled b \<and> in_multiple i = bt_multiple b"
  using button_reachable_ok [OF assms] by (auto simp: button_ok_def)

definition plain_input :: file_input where
  "plain_input = \<lparr>in_id = 99, in_name = Some ''Filedata'', in_multiple = False, in_shown = True\<rparr>"

definition plain_button :: html_button where
  "plain_button = snd (render_button (new_button True (Some plain_input) ''Filedata'' False True))"

lemma plain_reachable: "button_reachable plain_button"
  unfolding plain_button_def by (rule button_reachable.rendered)

theorem button_fits_witness:
  "\<exists>i. bt_input (snd (changeHandler (\<lambda>_. set_button_disabled True) ''a.jpg'' None plain_button)) = Some i \<and> \<not> in_shown i"
proof -
  let ?b = "snd (changeHandler (\<lambda>_. set_button_disabled True) ''a.jpg'' None plain_button)"
  have on: "setter_step\<^sup>*\<^sup>* b (snd (set_button_disabled True b)) \<and> fst (set_button_disabled True b) = None" for b
    by (rule conjI, rule r_into_rtranclp, rule setter_step.disabled) (simp add: button_defs)
  have r: "button_reachable ?b"
    by (rule button_reachable.step [OF plain_reachable button_step.change [OF on]])
  have "bt_disabled ?b"
    by (simp add: plain_button_def render_button_def new_button_def changeHandler_def button_reset_def button_defs Let_def)
  then show ?thesis using button_fits [OF r] by auto
qed

text \<open>
  A name set on a rendered button is forgotten by the next choice: the attribute keeps it, the new input
  has the name of the input the button was made from.
\<close>

theorem name_forgotten:
  assumes "button_reachable b" "val \<noteq> []" "bt_src b = Some src"
    and "b' = snd (set_name v b)" "b'' = snd (changeHandler (\<lambda>_. skip) val oFiles b')"
  shows "map_option in_name (bt_input b') = Some (Some v) \<and> bt_name b'' = v \<and>
    map_option in_name (bt_input b'') = Some (in_name src)"
  using button_reachable_ok [OF assms(1)] assms(2-5)
  by (auto simp: button_ok_def changeHandler_def button_reset_def button_defs Let_def)

theorem name_forgotten_witness:
  "map_option in_name (bt_input (snd (changeHandler (\<lambda>_. skip) ''a.jpg'' None (snd (set_name ''other'' plain_button))))) =
     Some (Some ''Filedata'')"
proof -
  obtain s where s: "bt_src plain_button = Some s" "in_name s = Some ''Filedata''"
    by (simp add: plain_button_def render_button_def new_button_def button_defs plain_input_def)
  show ?thesis using name_forgotten [OF plain_reachable _ s(1) refl refl, of "''a.jpg''" "''other''" None] s(2) by simp
qed

subsection \<open>Names of files\<close>

lemma after_last_append:
  assumes "separator c" "\<forall>x \<in> set name. \<not> separator x"
  shows "after_last (dir @ c # name) = name"
proof -
  have "takeWhile (\<lambda>c. \<not> separator c) (rev name @ c # rev dir) = rev name"
    using assms by (subst takeWhile_append2) auto
  then show ?thesis by (simp add: after_last_def)
qed

lemma after_last_plain: "\<forall>x \<in> set name. \<not> separator x \<Longrightarrow> after_last name = name"
  by (simp add: after_last_def iffD2 [OF takeWhile_eq_all_conv])

text \<open>
  Where the browser gives no files, the name sent is what follows the last slash or backslash of the
  input's value; a value without any is kept.
\<close>

theorem getFileName_last:
  assumes "\<forall>x \<in> set name. \<not> separator x \<and> \<not> line_end x" "\<forall>x \<in> set dir. \<not> line_end x" "separator c"
  shows "getFileName (dir @ c # name) = name \<and> getFileName name = name"
proof -
  have "\<not> line_end c" using assms(3) by (auto simp: separator_def line_end_def)
  then have line: "takeWhile (\<lambda>x. \<not> line_end x) (dir @ c # name) = dir @ c # name"
      "dropWhile (\<lambda>x. \<not> line_end x) (dir @ c # name) = []"
    using assms(1,2) by (auto simp: takeWhile_eq_all_conv dropWhile_eq_Nil_conv)
  have name: "takeWhile (\<lambda>x. \<not> line_end x) name = name" "dropWhile (\<lambda>x. \<not> line_end x) name = []"
    using assms(1) by (auto simp: takeWhile_eq_all_conv dropWhile_eq_Nil_conv)
  have "getFileName (dir @ c # name) = after_last (dir @ c # name)" "getFileName name = after_last name"
    by (subst getFileName.simps, simp only: Let_def line name list.case)+
  then show ?thesis using after_last_append [OF assms(3)] after_last_plain assms(1) by simp
qed

theorem getFileName_last_witness:
  "getFileName (''C:'' @ [CHR 0x5C] @ ''fakepath'' @ [CHR 0x5C] @ ''a.jpg'') = ''a.jpg''"
  using getFileName_last [of "''a.jpg''" "''C:'' @ [CHR 0x5C] @ ''fakepath''" "CHR 0x5C"]
  by (simp add: separator_def line_end_def)

end
