(* ===== verification/UploadSettings.thy ===== *)
theory UploadSettings
  imports UploadButton
begin

section \<open>The flash button and the attributes of the uploader\<close>

text \<open>
  \<open>SwfButton\<close> and what it uses of \<open>AJBridge\<close>; the attributes of \<open>Uploader\<close> with setters, \<open>_replaceBtn\<close>,
  \<open>_renderButton\<close> and \<open>_renderUploaderCore\<close> with the configurations they hand on (all in
  \<open>kg/uploader/2.0.2/index.js\<close>). Filters of the flash dialog and server answers are named by texts.
\<close>

subsection \<open>The flash button\<close>

datatype flash_call = Browse bool "string list" | Multifile bool | FilterFiles "string list"

datatype filter_arg = OneFilter string | Filters "string list"

datatype swf_event = SwfRender | SwfMouse string | SwfChange "string list"

record swf_button =
  sb_disabledCls :: bool
  sb_disabled :: bool
  sb_multiple :: bool
  sb_filters :: "string list"
  sb_src :: bool
  sb_wrapperId :: string
  sb_swf :: "string option"
  sb_loaded :: bool
  sb_taken :: "bool \<times> string list"
  sb_content :: bool
  sb_inPlace :: bool
  sb_later :: "string list list"
  sb_guid :: nat
  sb_calls :: "flash_call list"
  sb_log :: "swf_event list"

text \<open>\<open>callSWF\<close>: before the flash object has been loaded it has no functions, and a call does nothing.\<close>

definition callSWF :: "flash_call \<Rightarrow> swf_button cmd" where
  "callSWF c b = (None, if sb_swf b \<noteq> None \<and> sb_loaded b then b\<lparr>sb_calls := sb_calls b @ [c]\<rparr> else b)"

definition setDisabled_swf :: "bool \<Rightarrow> swf_button cmd" where
  "setDisabled_swf disabled b =
     (None, if sb_swf b = None then b else b\<lparr>sb_disabledCls := disabled, sb_inPlace := \<not> disabled\<rparr>)"

text \<open>\<open>render\<close> reads \<open>multiple\<close> and \<open>fileFilters\<close> at once and uses them when the content is ready.\<close>

definition createSwfWrapper :: "swf_button cmd" where
  "createSwfWrapper b =
     (None, if sb_wrapperId b \<noteq> [] then b
            else b\<lparr>sb_wrapperId := ''swf-uploader-wrapper-'' @ dec_of_nat (sb_guid b), sb_guid := Suc (sb_guid b)\<rparr>)"

definition initSwfUploader :: "swf_button cmd" where
  "initSwfUploader b = (None, b\<lparr>sb_swf := Some (''swfUploader'' @ dec_of_nat (sb_guid b)), sb_guid := Suc (sb_guid b)\<rparr>)"

definition render_swf :: "swf_button cmd" where
  "render_swf b = block
     [(\<lambda>b. (None, b\<lparr>sb_taken := (sb_multiple b, sb_filters b)\<rparr>)), createSwfWrapper, initSwfUploader,
      (\<lambda>b. (None, b\<lparr>sb_src := False\<rparr>))] b"

definition contentReady :: "swf_button cmd" where
  "contentReady b =
     (if sb_content b then skip b
      else block
        [(\<lambda>b. (None, b\<lparr>sb_content := True\<rparr>)), callSWF (Browse (fst (sb_taken b)) (snd (sb_taken b))),
         setDisabled_swf (sb_disabled b), (\<lambda>b. (None, b\<lparr>sb_log := sb_log b @ [SwfRender]\<rparr>))] b)"

text \<open>\<open>_bindBtnEvent\<close> passes events on by name; choices of another flash object are not heard.\<close>

definition mouse_swf :: "string \<Rightarrow> swf_button cmd" where
  "mouse_swf ev b = (None, if sb_content b \<and> ev \<in> {''render'', ''change'', ''mouseOver'', ''mouseDown'', ''mouseUp'', ''mouseOut'', ''click''}
     then b\<lparr>sb_log := sb_log b @ [SwfMouse ev]\<rparr> else b)"

definition changeHandler_swf :: "string \<Rightarrow> string list \<Rightarrow> swf_button cmd" where
  "changeHandler_swf ident files b =
     (None, if sb_content b \<and> sb_swf b = Some ident then b\<lparr>sb_log := sb_log b @ [SwfChange files]\<rparr> else b)"

definition set_swf_multiple :: "bool \<Rightarrow> swf_button cmd" where
  "set_swf_multiple v = block
     [(\<lambda>b. if sb_swf b \<noteq> None then callSWF (Multifile v) b else skip b), (\<lambda>b. (None, b\<lparr>sb_multiple := v\<rparr>))]"

definition set_swf_filters :: "filter_arg \<Rightarrow> swf_button cmd" where
  "set_swf_filters arg b =
     (let v = (case arg of OneFilter f \<Rightarrow> [f] | Filters fs \<Rightarrow> fs) in
      (None, b\<lparr>sb_filters := v, sb_later := (if sb_swf b \<noteq> None then sb_later b @ [v] else sb_later b)\<rparr>))"

definition filters_later :: "swf_button cmd" where
  "filters_later b =
     (case sb_later b of [] \<Rightarrow> skip b | v # rest \<Rightarrow> callSWF (FilterFiles v) (b\<lparr>sb_later := rest\<rparr>))"

definition set_swf_disabled :: "bool \<Rightarrow> swf_button cmd" where
  "set_swf_disabled v = block
     [(\<lambda>b. if sb_swf b \<noteq> None then setDisabled_swf v b else skip b), (\<lambda>b. (None, b\<lparr>sb_disabled := v\<rparr>))]"

definition new_swf :: "bool \<Rightarrow> bool \<Rightarrow> swf_button" where
  "new_swf disabled multiple =
     \<lparr>sb_disabledCls = False, sb_disabled = disabled, sb_multiple = multiple, sb_filters = [], sb_src = True,
      sb_wrapperId = [], sb_swf = None, sb_loaded = False, sb_taken = (True, []), sb_content = False, sb_inPlace = True,
      sb_later = [], sb_guid = 0, sb_calls = [], sb_log = []\<rparr>"

text \<open>What the flash object was last told about several files.\<close>

fun several :: "flash_call list \<Rightarrow> bool option" where
  "several [] = None"
| "several (c # cs) =
     (case several cs of Some v \<Rightarrow> Some v
      | None \<Rightarrow> (case c of Browse v _ \<Rightarrow> Some v | Multifile v \<Rightarrow> Some v | FilterFiles _ \<Rightarrow> None))"

subsection \<open>The attributes of the uploader\<close>

text \<open>
  Before the parts are made the attributes are only stored; then their setters pass them on. \<open>data\<close> may be
  anything, only an object is passed on; \<open>multiple\<close> and \<open>disabled\<close> may be anything, only booleans are passed on: of
  another value the model keeps whether it counts as true. \<open>st_src\<close> is the input the uploader was made on: its name and the text
  on it (\<open>defaultValue\<close>).
\<close>

datatype data_arg = DataObj "(string \<times> string) list" | DataOther

datatype flag = Flag bool | NotBoolean bool

fun truthy :: "flag \<Rightarrow> bool" where
  "truthy (Flag v) = v"
| "truthy (NotBoolean v) = v"

datatype any_button = Html html_button | Swf swf_button

record type_settings =
  ty_kind :: transport
  ty_action :: string
  ty_data :: data_arg
  ty_filter :: "string option"
  ty_CORS :: bool
  ty_timeout :: nat
  ty_fileDataName :: "string option"
  ty_swf :: "string option"

record settings =
  st_text :: string
  st_name :: "string option"
  st_multiple :: flag
  st_disabled :: flag
  st_action :: string
  st_data :: data_arg
  st_filter :: "string option"
  st_CORS :: bool
  st_timeout :: nat
  st_label :: "string option"
  st_src :: file_input
  st_fileInput :: "file_input option"
  st_button :: "any_button option"
  st_core :: "type_settings option"

definition or_text :: "string option \<Rightarrow> string \<Rightarrow> string" where
  "or_text a b = (case a of Some t \<Rightarrow> if t \<noteq> [] then t else b | None \<Rightarrow> b)"

text \<open>\<open>_replaceBtn\<close>: the text of the link, the name of the input if none is configured.\<close>

definition replaceBtn :: "string \<Rightarrow> settings \<Rightarrow> settings" where
  "replaceBtn defaultValue s =
     (let text = (if defaultValue \<noteq> [] then defaultValue else st_text s);
          name = (if or_text (st_name s) [] = [] \<and> or_text (in_name (st_src s)) [] \<noteq> [] then in_name (st_src s) else st_name s)
      in s\<lparr>st_label := Some text, st_name := name, st_fileInput := Some (st_src s)\<rparr>)"

definition button_disable :: "bool \<Rightarrow> any_button \<Rightarrow> any_button" where
  "button_disable v b = (case b of Html h \<Rightarrow> Html (snd (set_button_disabled v h)) | Swf w \<Rightarrow> Swf (snd (set_swf_disabled v w)))"

definition button_several :: "bool \<Rightarrow> any_button \<Rightarrow> any_button" where
  "button_several v b = (case b of Html h \<Rightarrow> Html (snd (set_button_multiple v h)) | Swf w \<Rightarrow> Swf (snd (set_swf_multiple v w)))"

definition set_multiple :: "flag \<Rightarrow> settings \<Rightarrow> settings" where
  "set_multiple v s =
     (let s = (case v of Flag m \<Rightarrow> s\<lparr>st_button := map_option (button_several m) (st_button s)\<rparr> | NotBoolean _ \<Rightarrow> s)
      in s\<lparr>st_multiple := v\<rparr>)"

definition set_uploader_disabled :: "flag \<Rightarrow> settings \<Rightarrow> settings" where
  "set_uploader_disabled v s =
     (let s = (case v of Flag d \<Rightarrow> s\<lparr>st_button := map_option (button_disable d) (st_button s)\<rparr> | NotBoolean _ \<Rightarrow> s)
      in s\<lparr>st_disabled := v\<rparr>)"

definition set_action :: "string \<Rightarrow> settings \<Rightarrow> settings" where
  "set_action v s = s\<lparr>st_core := map_option (\<lambda>t. t\<lparr>ty_action := v\<rparr>) (st_core s), st_action := v\<rparr>"

definition set_uploader_data :: "data_arg \<Rightarrow> settings \<Rightarrow> settings" where
  "set_uploader_data v s = (let s = (case v of DataObj _ \<Rightarrow> s\<lparr>st_core := map_option (\<lambda>t. t\<lparr>ty_data := v\<rparr>) (st_core s)\<rparr> | DataOther \<Rightarrow> s)
     in s\<lparr>st_data := v\<rparr>)"

definition set_filter :: "string option \<Rightarrow> settings \<Rightarrow> settings" where
  "set_filter v s = s\<lparr>st_core := map_option (\<lambda>t. t\<lparr>ty_filter := v\<rparr>) (st_core s), st_filter := v\<rparr>"

definition set_timeout :: "nat \<Rightarrow> settings \<Rightarrow> settings" where
  "set_timeout v s = s\<lparr>st_core := map_option (\<lambda>t. t\<lparr>ty_timeout := v\<rparr>) (st_core s), st_timeout := v\<rparr>"

text \<open>\<open>name\<close> and \<open>CORS\<close> have no setter: they are only stored.\<close>

definition set_uploader_name :: "string option \<Rightarrow> settings \<Rightarrow> settings" where
  "set_uploader_name v s = s\<lparr>st_name := v\<rparr>"

definition set_CORS :: "bool \<Rightarrow> settings \<Rightarrow> settings" where
  "set_CORS v s = s\<lparr>st_CORS := v\<rparr>"

text \<open>
  The button of \<open>_renderButton\<close>, with what it is configured with. A button that is given something not boolean for \<open>disabled\<close>
  leaves itself as it is, enabled.
\<close>

definition make_button :: "agent \<Rightarrow> type_arg \<Rightarrow> settings \<Rightarrow> settings" where
  "make_button b type s =
     (let s = s\<lparr>st_button := Some
            (if type = One ''flash'' then Swf (snd (render_swf (new_swf (st_disabled s = Flag True) (truthy (st_multiple s)))))
             else Html (snd (render_button (new_button True (st_fileInput s) (or_text (st_name s) []) (st_disabled s = Flag True) (truthy (st_multiple s))))))\<rparr>
      in if type = One ''iframe'' \<and> (case ag_ie b of None \<Rightarrow> False | Some v \<Rightarrow> v < 10) then set_multiple (Flag False) s else s)"

text \<open>\<open>serverConfig\<close> of \<open>_renderUploaderCore\<close>: it has no \<open>timeout\<close>, whose default is 600 seconds.\<close>

definition make_core :: "transport option \<Rightarrow> settings \<Rightarrow> settings" where
  "make_core kind s =
     (case kind of
        None \<Rightarrow> s
      | Some k \<Rightarrow> s\<lparr>st_core := Some
          \<lparr>ty_kind = k, ty_action = st_action s, ty_data = st_data s, ty_filter = st_filter s, ty_CORS = st_CORS s,
           ty_timeout = 600, ty_fileDataName = st_name s,
           ty_swf = (case st_button s of Some (Swf w) \<Rightarrow> sb_swf w | _ \<Rightarrow> None)\<rparr>\<rparr>)"

definition init_settings :: "agent \<Rightarrow> type_arg \<Rightarrow> string \<Rightarrow> settings \<Rightarrow> settings" where
  "init_settings b arg defaultValue s =
     (case getUploadType b arg (new_parts arg (truthy (st_multiple s))) of
        (k, p) \<Rightarrow> make_core k (make_button b (pt_type p) (replaceBtn defaultValue s)))"

subsection \<open>What the parts have\<close>

text \<open>Settings while an uploader lives: setters, choices of files, and the loading of the flash object.\<close>

inductive settings_step :: "settings \<Rightarrow> settings \<Rightarrow> bool" where
  "settings_step s (set_multiple v s)"
| "settings_step s (set_uploader_disabled v s)"
| "settings_step s (set_action a s)"
| "settings_step s (set_uploader_data d s)"
| "settings_step s (set_filter f s)"
| "settings_step s (set_timeout n s)"
| "st_button s = Some (Html h) \<Longrightarrow> settings_step s (s\<lparr>st_button := Some (Html (snd (changeHandler (\<lambda>_. skip) val fs h)))\<rparr>)"
| "st_button s = Some (Swf w) \<Longrightarrow> settings_step s (s\<lparr>st_button := Some (Swf (w\<lparr>sb_loaded := True\<rparr>))\<rparr>)"
| "st_button s = Some (Swf w) \<Longrightarrow> settings_step s (s\<lparr>st_button := Some (Swf (snd (contentReady w)))\<rparr>)"
| "settings_step s (set_uploader_name n' s)"
| "settings_step s (set_CORS c s)"

inductive settings_reachable :: "settings \<Rightarrow> bool" where
  init: "st_core s = None \<Longrightarrow> settings_reachable (init_settings b arg defaultValue s)"
| step: "settings_reachable s \<Longrightarrow> settings_step s s' \<Longrightarrow> settings_reachable s'"

definition swf_ok :: "swf_button \<Rightarrow> bool" where
  "swf_ok w \<longleftrightarrow> sb_swf w \<noteq> None \<and> (sb_content w \<longrightarrow> sb_disabledCls w = sb_disabled w \<and> sb_inPlace w = (\<not> sb_disabled w))"

text \<open>A part follows an attribute that is boolean.\<close>

fun follows :: "flag \<Rightarrow> bool \<Rightarrow> bool" where
  "follows (Flag v) x \<longleftrightarrow> x = v"
| "follows (NotBoolean _) x \<longleftrightarrow> True"

definition settings_ok :: "settings \<Rightarrow> bool" where
  "settings_ok s \<longleftrightarrow>
     (case st_button s of
        None \<Rightarrow> False
      | Some (Html h) \<Rightarrow> button_ok h \<and> follows (st_disabled s) (bt_disabled h) \<and> follows (st_multiple s) (bt_multiple h)
      | Some (Swf w) \<Rightarrow> swf_ok w \<and> follows (st_disabled s) (sb_disabled w) \<and> follows (st_multiple s) (sb_multiple w)) \<and>
     (case st_core s of
        None \<Rightarrow> True
      | Some t \<Rightarrow> ty_action t = st_action s \<and> ty_filter t = st_filter s \<and> (ty_timeout t = 600 \<or> ty_timeout t = st_timeout s) \<and>
                   (st_data s \<noteq> DataOther \<longrightarrow> ty_data t = st_data s))"

lemmas swf_defs = set_swf_multiple_def set_swf_disabled_def setDisabled_swf_def callSWF_def andthen_def

lemma html_parts [simp]:
  "bt_disabled (snd (set_button_disabled v h)) = v" "bt_multiple (snd (set_button_disabled v h)) = bt_multiple h"
  "bt_multiple (snd (set_button_multiple v h)) = v" "bt_disabled (snd (set_button_multiple v h)) = bt_disabled h"
  by (simp_all add: button_defs)

lemma html_ok:
  "button_ok h \<Longrightarrow> button_ok (snd (set_button_disabled v h))" "button_ok h \<Longrightarrow> button_ok (snd (set_button_multiple v h))"
  using setter_ok [OF setter_step.disabled] setter_ok [OF setter_step.multiple] by blast+

lemma change_quiet:
  assumes "button_ok h"
  shows "button_ok (snd (changeHandler (\<lambda>_. skip) val fs h))"
    "bt_disabled (snd (changeHandler (\<lambda>_. skip) val fs h)) = bt_disabled h"
    "bt_multiple (snd (changeHandler (\<lambda>_. skip) val fs h)) = bt_multiple h"
proof -
  show "button_ok (snd (changeHandler (\<lambda>_. skip) val fs h))" by (rule change_ok [OF assms]) simp
  show "bt_disabled (snd (changeHandler (\<lambda>_. skip) val fs h)) = bt_disabled h"
    "bt_multiple (snd (changeHandler (\<lambda>_. skip) val fs h)) = bt_multiple h"
    by (simp_all add: changeHandler_def button_reset_def button_defs Let_def split: option.split)
qed

lemma swf_parts:
  "swf_ok w \<Longrightarrow> swf_ok (snd (set_swf_disabled v w)) \<and> sb_disabled (snd (set_swf_disabled v w)) = v \<and>
     sb_multiple (snd (set_swf_disabled v w)) = sb_multiple w"
  "swf_ok w \<Longrightarrow> swf_ok (snd (set_swf_multiple v w)) \<and> sb_multiple (snd (set_swf_multiple v w)) = v \<and>
     sb_disabled (snd (set_swf_multiple v w)) = sb_disabled w"
  "swf_ok w \<Longrightarrow> swf_ok (snd (contentReady w)) \<and> sb_disabled (snd (contentReady w)) = sb_disabled w \<and>
     sb_multiple (snd (contentReady w)) = sb_multiple w"
  by (auto simp: swf_ok_def contentReady_def swf_defs)

lemma settings_ok_step: "settings_step s s' \<Longrightarrow> settings_ok s \<Longrightarrow> settings_ok s'"
proof (induction rule: settings_step.induct)
  case (1 s v)
  then show ?case
    by (cases v) (auto simp: settings_ok_def set_multiple_def button_several_def html_ok swf_parts split: option.splits any_button.splits)
next
  case (2 s v)
  then show ?case
    by (cases v) (auto simp: settings_ok_def set_uploader_disabled_def button_disable_def html_ok swf_parts split: option.splits any_button.splits)
next
  case (7 s h val fs)
  then show ?case by (auto simp: settings_ok_def change_quiet split: option.splits)
next
  case (9 s w)
  then show ?case by (auto simp: settings_ok_def swf_parts split: option.splits)
qed (auto simp: settings_ok_def swf_ok_def set_action_def set_uploader_data_def set_filter_def set_timeout_def
    set_uploader_name_def set_CORS_def Let_def split: option.splits any_button.splits data_arg.splits)

lemma make_button_ok:
  assumes "st_fileInput s \<noteq> None" "st_core s = None"
  shows "settings_ok (make_button b type s)" "st_core (make_button b type s) = None"
proof -
  obtain src where src: "st_fileInput s = Some src" using assms(1) by auto
  let ?h = "snd (render_button (new_button True (Some src) (or_text (st_name s) []) (st_disabled s = Flag True) (truthy (st_multiple s))))"
  have h: "button_ok ?h" by (rule button_reachable_ok [OF button_reachable.rendered])
  have f: "follows v (v = Flag True)" "follows v (truthy v)" for v by (cases v; simp)+
  have hp: "bt_disabled ?h = (st_disabled s = Flag True)" "bt_multiple ?h = truthy (st_multiple s)"
    by (simp_all add: render_button_def new_button_def button_defs)
  let ?w = "snd (render_swf (new_swf (st_disabled s = Flag True) (truthy (st_multiple s))))"
  have w: "swf_ok ?w" "sb_disabled ?w = (st_disabled s = Flag True)" "sb_multiple ?w = truthy (st_multiple s)"
    by (simp_all add: render_swf_def new_swf_def createSwfWrapper_def initSwfUploader_def andthen_def swf_ok_def)
  let ?s = "s\<lparr>st_button := Some (if type = One ''flash'' then Swf ?w else Html ?h)\<rparr>"
  have ok: "settings_ok ?s" using h w(1) assms(2) by (simp add: settings_ok_def hp w(2,3) f)
  then have "settings_ok (set_multiple (Flag False) ?s)" by (rule settings_ok_step [OF settings_step.intros(1)])
  then have "settings_ok (if C then set_multiple (Flag False) ?s else ?s)" for C using ok by presburger
  then show "settings_ok (make_button b type s)" by (simp only: make_button_def Let_def src)
  show "st_core (make_button b type s) = None"
    using assms(2) by (simp add: make_button_def set_multiple_def Let_def)
qed

lemma settings_reachable_ok: "settings_reachable s \<Longrightarrow> settings_ok s"
proof (induction rule: settings_reachable.induct)
  case (init s b arg dv)
  obtain k p where kp: "getUploadType b arg (new_parts arg (truthy (st_multiple s))) = (k, p)"
    by (cases "getUploadType b arg (new_parts arg (truthy (st_multiple s)))")
  have r: "st_fileInput (replaceBtn dv s) \<noteq> None" "st_core (replaceBtn dv s) = None"
    using init by (simp_all add: replaceBtn_def Let_def)
  show ?case using make_button_ok [OF r, of b "pt_type p"]
    by (cases k) (simp_all add: init_settings_def kp make_core_def settings_ok_def cong: option.case_cong any_button.case_cong)
qed (rule settings_ok_step)

text \<open>What the transport is made with and nothing changes.\<close>

definition fixed_parts :: "settings \<Rightarrow> (transport \<times> string option \<times> bool \<times> string option) option" where
  "fixed_parts s = map_option (\<lambda>t. (ty_kind t, ty_fileDataName t, ty_CORS t, ty_swf t)) (st_core s)"

lemma fixed_step: "settings_step s s' \<Longrightarrow> fixed_parts s' = fixed_parts s"
proof (induction rule: settings_step.induct)
  case (1 s v)
  then show ?case by (cases v) (simp_all add: fixed_parts_def set_multiple_def Let_def)
next
  case (2 s v)
  then show ?case by (cases v) (simp_all add: fixed_parts_def set_uploader_disabled_def Let_def)
qed (simp_all add: fixed_parts_def set_action_def set_uploader_data_def set_filter_def set_timeout_def
    set_uploader_name_def set_CORS_def Let_def option.map_comp comp_def split: data_arg.splits)

lemma steps_reachable:
  assumes "settings_step\<^sup>*\<^sup>* s t" "settings_reachable s"
  shows "settings_reachable t \<and> fixed_parts t = fixed_parts s"
  using assms(1) by induction (use assms(2) fixed_step settings_reachable.step in auto)

lemma init_fixed:
  assumes "st_core cfg = None" "s0 = init_settings b arg defaultValue cfg" "st_core s0 = Some t"
  shows "ty_fileDataName t = st_name s0 \<and> ty_CORS t = st_CORS s0"
proof -
  obtain k p where "getUploadType b arg (new_parts arg (truthy (st_multiple cfg))) = (k, p)" by fastforce
  then have s0: "s0 = make_core k (make_button b (pt_type p) (replaceBtn defaultValue cfg))"
    using assms(2) by (simp add: init_settings_def)
  have "st_core (make_button b (pt_type p) (replaceBtn defaultValue cfg)) = None"
    by (rule make_button_ok(2)) (simp_all add: assms(1) replaceBtn_def Let_def)
  then show ?thesis using assms(3) unfolding s0 by (cases k) (auto simp: make_core_def)
qed

lemma ok_html:
  assumes "settings_ok s" "st_button s = Some (Html h)"
  shows "\<exists>i. bt_input h = Some i \<and> (st_multiple s = Flag m \<longrightarrow> bt_multiple h = m \<and> in_multiple i = m) \<and>
      (st_disabled s = Flag d \<longrightarrow> in_shown i = (\<not> d))"
proof -
  have "button_ok h" and f: "follows (st_disabled s) (bt_disabled h)" "follows (st_multiple s) (bt_multiple h)"
    using assms by (simp_all add: settings_ok_def)
  then obtain i where "bt_input h = Some i" "in_multiple i = bt_multiple h" "in_shown i = (\<not> bt_disabled h)"
    by (auto simp: button_ok_def)
  then show ?thesis using f by (intro exI [of _ i]) auto
qed

lemma ok_swf:
  assumes "settings_ok s" "st_button s = Some (Swf w)"
  shows "(st_multiple s = Flag m \<longrightarrow> sb_multiple w = m) \<and> (st_disabled s = Flag d \<and> sb_content w \<longrightarrow> sb_inPlace w = (\<not> d))"
proof -
  have "swf_ok w" and f: "follows (st_disabled s) (sb_disabled w)" "follows (st_multiple s) (sb_multiple w)"
    using assms by (simp_all add: settings_ok_def)
  then show ?thesis by (auto simp: swf_ok_def)
qed

lemma ok_core:
  "settings_ok s \<Longrightarrow> st_core s = Some t \<Longrightarrow> ty_action t = st_action s \<and> ty_filter t = st_filter s \<and>
     (st_data s \<noteq> DataOther \<longrightarrow> ty_data t = st_data s) \<and> (ty_timeout t = 600 \<or> ty_timeout t = st_timeout s)"
  by (simp add: settings_ok_def)

text \<open>
  C38: However the attributes of an uploader are set, before or after its parts are made: while \<open>multiple\<close> is boolean, the
  button takes several files exactly as the uploader says, and while \<open>disabled\<close> is boolean, the one input of an HTML
  button is hidden, and the flash object moved away, exactly if the uploader is disabled; the transport has the
  uploader's address and filter, and its data unless they were set to something that is not an object. Other attributes
  do not reach it: its name of the file data and \<open>CORS\<close> are those the uploader had when the parts were made, and its time
  limit is 600 seconds or that of the uploader.
\<close>

theorem settings_passed_on:
  assumes "st_core cfg = None" "s0 = init_settings b arg defaultValue cfg" "settings_step\<^sup>*\<^sup>* s0 s"
  shows "(\<forall>h m d. st_button s = Some (Html h) \<longrightarrow> (\<exists>i. bt_input h = Some i \<and>
        (st_multiple s = Flag m \<longrightarrow> bt_multiple h = m \<and> in_multiple i = m) \<and> (st_disabled s = Flag d \<longrightarrow> in_shown i = (\<not> d)))) \<and>
    (\<forall>w m d. st_button s = Some (Swf w) \<longrightarrow>
        (st_multiple s = Flag m \<longrightarrow> sb_multiple w = m) \<and> (st_disabled s = Flag d \<and> sb_content w \<longrightarrow> sb_inPlace w = (\<not> d))) \<and>
    (\<forall>t. st_core s = Some t \<longrightarrow> ty_action t = st_action s \<and> ty_filter t = st_filter s \<and>
        (st_data s \<noteq> DataOther \<longrightarrow> ty_data t = st_data s) \<and>
        ty_fileDataName t = st_name s0 \<and> ty_CORS t = st_CORS s0 \<and> (ty_timeout t = 600 \<or> ty_timeout t = st_timeout s))"
proof -
  have "settings_reachable s0" unfolding assms(2) by (rule settings_reachable.init [OF assms(1)])
  then have r: "settings_reachable s" "fixed_parts s = fixed_parts s0" using steps_reachable [OF assms(3)] by auto
  have fixed: "ty_fileDataName t = st_name s0 \<and> ty_CORS t = st_CORS s0" if "st_core s = Some t" for t
    using that r(2) init_fixed [OF assms(1,2)] by (cases "st_core s0") (simp_all add: fixed_parts_def)
  note ok = settings_reachable_ok [OF r(1)]
  show ?thesis
    by (intro conjI allI impI; (rule ok_html [OF ok] ok_swf [OF ok, THEN conjunct1, rule_format] ok_swf [OF ok, THEN conjunct2, rule_format])?)
      (use ok_core [OF ok] fixed in simp_all)
qed

definition sample_settings :: settings where
  "sample_settings = \<lparr>st_text = ''upload'', st_name = None, st_multiple = Flag True, st_disabled = Flag False, st_action = ''/up'',
     st_data = DataObj [(''a'', ''1'')], st_filter = None, st_CORS = False, st_timeout = 600, st_label = None,
     st_src = plain_input, st_fileInput = None, st_button = None, st_core = None\<rparr>"

definition sample_agent :: agent where
  "sample_agent = \<lparr>ag_FormData = True, ag_flash = None, ag_ie = None\<rparr>"

lemma sample_init:
  "settings_reachable (init_settings sample_agent (One ''auto'') [] sample_settings)"
  "\<exists>h. st_button (init_settings sample_agent (One ''auto'') [] sample_settings) = Some (Html h)"
  "\<exists>t. st_core (init_settings sample_agent (One ''auto'') [] sample_settings) = Some t \<and> ty_kind t = Ajax"
  by (rule settings_reachable.init)
    (simp_all add: sample_settings_def init_settings_def getUploadType_def getType_def isSupportAjax_def sample_agent_def
      Let_def new_parts_def make_core_def make_button_def)

theorem settings_passed_on_witness:
  "\<exists>h i t. let s = set_uploader_name (Some ''other'') (set_uploader_disabled (Flag True) (init_settings sample_agent (One ''auto'') [] sample_settings))
     in st_button s = Some (Html h) \<and> bt_input h = Some i \<and> \<not> in_shown i \<and> in_multiple i \<and>
       st_core s = Some t \<and> ty_action t = ''/up'' \<and> ty_fileDataName t = Some ''Filedata''"
proof -
  let ?init = "init_settings sample_agent (One ''auto'') [] sample_settings"
  let ?s = "set_uploader_name (Some ''other'') (set_uploader_disabled (Flag True) ?init)"
  have r: "settings_step\<^sup>*\<^sup>* ?init ?s"
    using settings_step.intros(2) settings_step.intros(10) by (meson converse_rtranclp_into_rtranclp rtranclp.rtrancl_refl)
  have c: "st_core sample_settings = None" by (simp add: sample_settings_def)
  obtain h t where p: "st_button ?s = Some (Html h)" "st_core ?s = Some t"
    using sample_init(2,3) by (auto simp: set_uploader_disabled_def set_uploader_name_def button_disable_def)
  have i: "st_multiple ?init = Flag True" "st_action ?init = ''/up''" "st_name ?init = Some ''Filedata''"
    by (code_simp, code_simp, simp add: sample_settings_def init_settings_def getUploadType_def getType_def isSupportAjax_def
        sample_agent_def Let_def new_parts_def make_core_def make_button_def replaceBtn_def or_text_def plain_input_def)
  then have a: "st_disabled ?s = Flag True" "st_multiple ?s = Flag True" "st_action ?s = ''/up''" "st_data ?s = st_data ?init"
    by (simp_all add: set_uploader_disabled_def set_uploader_name_def)
  show ?thesis using settings_passed_on [OF c refl r] p a i(3) by (auto simp: Let_def)
qed

text \<open>
  A time limit that is configured, or set before the transport is made, never reaches it: the transport
  has its own 600 seconds, while the uploader's attribute says otherwise. Only setting it afterwards works.
\<close>

theorem timeout_lost:
  assumes "st_core (init_settings b arg dv (set_timeout n s)) = Some t" "st_core s = None"
  shows "ty_timeout t = 600 \<and> st_timeout (init_settings b arg dv (set_timeout n s)) = n \<and>
    map_option ty_timeout (st_core (set_timeout n (init_settings b arg dv (set_timeout n s)))) = Some n"
proof -
  obtain k p where kp: "getUploadType b arg (new_parts arg (truthy (st_multiple (set_timeout n s)))) = (k, p)"
    by (cases "getUploadType b arg (new_parts arg (truthy (st_multiple (set_timeout n s))))")
  have frame: "st_timeout (make_core k' u) = st_timeout u" "st_timeout (make_button b ty u) = st_timeout u"
      "st_timeout (replaceBtn dv u) = st_timeout u" "st_core (make_button b ty u) = st_core u"
      "st_core (replaceBtn dv u) = st_core u" for k' ty u
    by (simp_all add: make_core_def make_button_def set_multiple_def replaceBtn_def Let_def split: option.split)
  have init: "init_settings b arg dv (set_timeout n s) = make_core k (make_button b (pt_type p) (replaceBtn dv (set_timeout n s)))"
    using kp by (simp add: init_settings_def)
  have none: "st_core (set_timeout n s) = None" "st_timeout (set_timeout n s) = n" using assms(2) by (simp_all add: set_timeout_def)
  have "ty_timeout t = 600" using assms(1) none frame unfolding init by (auto simp: make_core_def split: option.splits)
  moreover have "st_timeout (init_settings b arg dv (set_timeout n s)) = n" unfolding init by (simp only: frame none)
  ultimately show ?thesis using assms(1) by (simp add: set_timeout_def [of n "init_settings _ _ _ _"])
qed

theorem timeout_lost_witness:
  "\<exists>t. st_core (init_settings sample_agent (One ''auto'') [] (set_timeout 5 sample_settings)) = Some t \<and> ty_timeout t = 600"
proof -
  obtain t where t: "st_core (init_settings sample_agent (One ''auto'') [] (set_timeout 5 sample_settings)) = Some t"
    by (simp add: sample_settings_def init_settings_def getUploadType_def getType_def isSupportAjax_def sample_agent_def
      Let_def new_parts_def make_core_def make_button_def set_timeout_def)
  then show ?thesis using timeout_lost [OF t] by (simp add: sample_settings_def)
qed

text \<open>
  What is set on a flash button between its rendering and the loading of the flash object is lost: the
  dialog takes several files as it was at rendering, until the attribute is set again, and a filter whose timer
  ends before the loading never arrives.
\<close>

theorem swf_settings_lost:
  "(let w = snd (render_swf (new_swf d m));
        w1 = snd (filters_later (snd (set_swf_filters (OneFilter f) (snd (set_swf_multiple v w)))));
        w2 = snd (contentReady (w1\<lparr>sb_loaded := True\<rparr>))
    in sb_multiple w2 = v \<and> sb_filters w2 = [f] \<and> sb_calls w2 = [Browse m []] \<and>
       several (sb_calls w2) = Some m \<and> several (sb_calls (snd (set_swf_multiple v w2))) = Some v)"
  by (simp add: render_swf_def new_swf_def createSwfWrapper_def initSwfUploader_def contentReady_def filters_later_def
      set_swf_filters_def swf_defs Let_def)

end
