(* ===== verification/UploadPreview.thy ===== *)
theory UploadPreview
  imports UploadSettings StatScripts
begin

section \<open>Previews and dropped files\<close>

text \<open>
  \<open>kg/uploader/2.0.2/plugins/preview\<close>, which shows an image before it is uploaded, and \<open>plugins/filedrop\<close>, by
  which files are dropped on the button. What the browser's objects give is given as values: the data of the
  files of an input, its value, the text selected in it (\<open>None\<close> if reading it is denied). Files are named by
  their data.
\<close>

subsection \<open>How to show an image\<close>

datatype preview_mode = Html5 | Domfile | Filter | Simple | NoMode

text \<open>\<open>getPreviewMode\<close>: \<open>shell\<close> and \<open>ie\<close> are of the browser.\<close>

definition getPreviewMode :: "bool \<Rightarrow> string \<Rightarrow> nat option \<Rightarrow> preview_mode" where
  "getPreviewMode fileReader shell ie =
     (if \<not> fileReader
      then if shell = ''firefox'' then Domfile
           else if shell = ''ie'' then (if ie = Some 6 then Simple else Filter)
           else NoMode
      else Html5)"

text \<open>\<open>escape\<close> of the language.\<close>

definition escape_plain :: "nat \<Rightarrow> bool" where
  "escape_plain n \<longleftrightarrow> 65 \<le> n \<and> n \<le> 90 \<or> 97 \<le> n \<and> n \<le> 122 \<or> 48 \<le> n \<and> n \<le> 57 \<or> n \<in> {64, 42, 95, 43, 45, 46, 47}"

definition escape_unit :: "code_unit \<Rightarrow> ustr" where
  "escape_unit c =
     (let n = unat c in
      if escape_plain n then [c]
      else if n < 256 then pct_octet n
      else [percent, 117, hex_digit (n div 4096), hex_digit (n div 256 mod 16), hex_digit (n div 16 mod 16), hex_digit (n mod 16)])"

definition escape :: "ustr \<Rightarrow> ustr" where
  "escape s = concat (map escape_unit s)"

text \<open>\<open>data.replace(/[)'"%]/g, ...)\<close>\<close>

definition filter_special :: "code_unit \<Rightarrow> bool" where
  "filter_special c \<longleftrightarrow> c \<in> {41, 39, 34, 37}"

definition filter_src :: "ustr \<Rightarrow> ustr" where
  "filter_src data = concat (map (\<lambda>c. if filter_special c then escape (escape [c]) else [c]) data)"

datatype preview_event = PvGetData "ustr option" preview_mode | PvShowed | PvError

text \<open>The images of the page, by the id of their file; what a reader of a file was started for.\<close>

record image =
  im_src :: ustr
  im_filter :: ustr
  im_shown :: bool

datatype reader = ForInput "string option" | ForFile string

record preview =
  pv_mode :: preview_mode
  pv_data :: "ustr option"
  pv_images :: "(string, image) obj"
  pv_reading :: "(ustr \<times> reader) list"
  pv_log :: "preview_event list"

definition pv_fire :: "preview_event \<Rightarrow> preview cmd" where
  "pv_fire e p = (None, p\<lparr>pv_log := pv_log p @ [e]\<rparr>)"

definition upd_image :: "string \<Rightarrow> (image \<Rightarrow> image) \<Rightarrow> preview cmd" where
  "upd_image ident f p =
     (None, case map_of (pv_images p) ident of
        None \<Rightarrow> p | Some i \<Rightarrow> p\<lparr>pv_images := obj_set ident (f i) (pv_images p)\<rparr>)"

text \<open>\<open>data || ""\<close>; the filter is there (a failure is caught), an image without data is left as it is.\<close>

definition showPreviewImage :: "string option \<Rightarrow> ustr option \<Rightarrow> preview cmd" where
  "showPreviewImage img data p =
     (case img of
        None \<Rightarrow> skip p
      | Some i \<Rightarrow>
          if pv_mode p \<noteq> Filter then upd_image i (\<lambda>x. x\<lparr>im_src := (case data of None \<Rightarrow> [] | Some d \<Rightarrow> d)\<rparr>) p
          else case data of
                 None \<Rightarrow> skip p
               | Some d \<Rightarrow> if d = [] then skip p else upd_image i (\<lambda>x. x\<lparr>im_filter := filter_src d\<rparr>) p)"

text \<open>The event is \<open>_eventList.getData\<close>, which is \<open>undefined\<close>: nothing can listen to it.\<close>

definition onsuccess :: "string option \<Rightarrow> preview cmd" where
  "onsuccess img p = block
     [pv_fire (PvGetData (pv_data p) (pv_mode p)),
      (if img \<noteq> None then block [showPreviewImage img (pv_data p), pv_fire PvShowed] else skip)] p"

record input_state =
  is_files :: "ustr list option"
  is_value :: ustr
  is_selection :: "ustr option"

definition preview_data :: "string option \<Rightarrow> input_state \<Rightarrow> preview cmd" where
  "preview_data img inp p =
     (case pv_mode p of
        Domfile \<Rightarrow>
          (case is_files inp of
             Some (f # _) \<Rightarrow> (None, p\<lparr>pv_data := Some f\<rparr>)
           | _ \<Rightarrow> throw TypeError p)
      | Filter \<Rightarrow>
          (None, p\<lparr>pv_data := Some (case is_selection inp of None \<Rightarrow> is_value inp
             | Some t \<Rightarrow> if t = [] then is_value inp else t)\<rparr>)
      | Html5 \<Rightarrow>
          (case is_files inp of
             Some (f # _) \<Rightarrow> (None, p\<lparr>pv_reading := pv_reading p @ [(f, ForInput img)]\<rparr>)
           | _ \<Rightarrow> skip p)
      | _ \<Rightarrow> (None, p\<lparr>pv_data := Some (is_value inp)\<rparr>))"

text \<open>\<open>preview\<close>: Internet Explorer 10 changes the mode for good.\<close>

definition preview_file :: "bool \<Rightarrow> input_state option \<Rightarrow> string option \<Rightarrow> preview cmd" where
  "preview_file ie10 input img p =
     (let p = p\<lparr>pv_data := None\<rparr> in
      case input of
        None \<Rightarrow> skip p
      | Some inp \<Rightarrow> block
          [preview_data img inp,
           (\<lambda>p. if pv_data p \<noteq> None \<and> pv_data p \<noteq> Some [] then onsuccess img p
                else if pv_mode p \<noteq> Html5 then block [showPreviewImage img None, pv_fire PvError] p
                else skip p)] (if ie10 then p\<lparr>pv_mode := Filter\<rparr> else p))"

text \<open>\<open>show\<close>, for the file itself, and the end of the reader at any place of the list.\<close>

definition show_file :: "ustr option \<Rightarrow> string \<Rightarrow> preview cmd" where
  "show_file file img p =
     (case file of None \<Rightarrow> skip p | Some f \<Rightarrow> (None, p\<lparr>pv_reading := pv_reading p @ [(f, ForFile img)]\<rparr>))"

definition without_nth :: "nat \<Rightarrow> 'a list \<Rightarrow> 'a list" where
  "without_nth n xs = take n xs @ drop (Suc n) xs"

definition reader_loaded :: "nat \<Rightarrow> preview cmd" where
  "reader_loaded n p =
     (if n \<ge> length (pv_reading p) then skip p
      else let (f, why) = pv_reading p ! n; p = p\<lparr>pv_reading := without_nth n (pv_reading p), pv_data := Some f\<rparr> in
        case why of
          ForInput img \<Rightarrow> onsuccess img p
        | ForFile img \<Rightarrow> block
            [pv_fire (PvGetData (Some f) (pv_mode p)), upd_image img (\<lambda>x. x\<lparr>im_src := f\<rparr>),
             upd_image img (\<lambda>x. x\<lparr>im_shown := True\<rparr>), pv_fire PvShowed] p)"

definition reader_failed :: "nat \<Rightarrow> preview cmd" where
  "reader_failed n p =
     (if n \<ge> length (pv_reading p) then skip p
      else pv_fire PvError (p\<lparr>pv_reading := without_nth n (pv_reading p)\<rparr>))"

text \<open>
  A file was added: its image is looked for in the page. The input read is the uploader's \<open>fileInput\<close>.
\<close>

definition uploaderAddHandler :: "bool \<Rightarrow> bool \<Rightarrow> bool \<Rightarrow> bool \<Rightarrow> input_state option \<Rightarrow> string \<Rightarrow> ustr option \<Rightarrow> preview cmd" where
  "uploaderAddHandler hasRestore multiple ajax ie10 fileInput ident file_data p =
     (if hasRestore \<or> map_of (pv_images p) ident = None then skip p
      else if multiple \<and> ajax then show_file file_data ident p
      else block [preview_file ie10 fileInput (Some ident), upd_image ident (\<lambda>x. x\<lparr>im_shown := True\<rparr>)] p)"

subsection \<open>Dropped files\<close>

text \<open>Versions in tenths. \<open>None\<close>: a browser that is none of these.\<close>

datatype drop_mode = SupportDrop | NotSupportDropIe | NotSupportDrop

record drop_agent =
  da_webkit :: "nat option"
  da_firefox :: "nat option"
  da_ie :: "nat option"

definition at_least :: "nat option \<Rightarrow> nat \<Rightarrow> bool" where
  "at_least v n = (case v of None \<Rightarrow> False | Some v \<Rightarrow> n \<le> v)"

definition below :: "nat option \<Rightarrow> nat \<Rightarrow> bool" where
  "below v n = (case v of None \<Rightarrow> False | Some v \<Rightarrow> v < n)"

definition getMode :: "drop_agent \<Rightarrow> drop_mode option" where
  "getMode b =
     (if at_least (da_webkit b) 70 \<or> at_least (da_firefox b) 36 then Some SupportDrop
      else if at_least (da_ie b) 1 then Some NotSupportDropIe
      else if below (da_webkit b) 70 \<or> below (da_firefox b) 36 then Some NotSupportDrop
      else None)"

record filedrop =
  fd_mode :: "drop_mode option"
  fd_isSupport :: bool
  fd_area :: "bool option"
  fd_dropped :: "nat list"

text \<open>\<open>pluginInitializer\<close>: the area, if any, is over the button, and shown unless the uploader is disabled later.\<close>

definition init_drop :: "transport \<Rightarrow> filedrop \<Rightarrow> filedrop" where
  "init_drop kind d =
     (if kind = Flash \<or> fd_mode d \<noteq> Some SupportDrop then d\<lparr>fd_isSupport := False\<rparr> else d\<lparr>fd_area := Some True\<rparr>)"

definition drop_disabled :: "bool \<Rightarrow> filedrop \<Rightarrow> filedrop" where
  "drop_disabled newVal d = d\<lparr>fd_area := map_option (\<lambda>_. \<not> newVal) (fd_area d)\<rparr>"

text \<open>\<open>_clickHandler\<close>: the dialog that is opened is that of the button's input.\<close>

definition clickHandler :: "settings \<Rightarrow> nat option" where
  "clickHandler s = (case st_button s of Some (Html h) \<Rightarrow> map_option in_id (bt_input h) | _ \<Rightarrow> None)"

text \<open>\<open>_dropHandler\<close>, with the uploader's \<open>_select\<close>.\<close>

definition dropHandler :: "chosen_file list \<Rightarrow> filedrop \<times> uploader \<Rightarrow> js_error option \<times> (filedrop \<times> uploader)" where
  "dropHandler fs du =
     (case du of (d, u) \<Rightarrow>
        if fs = [] then (None, (d, u))
        else case select_files (map (\<lambda>f. \<lparr>f_id = [], f_name = ch_name f, f_size = (case ch_size f of None \<Rightarrow> 0 | Some n \<Rightarrow> n),
                    f_textSize = None, f_status = None, f_result = None, f_sUrl = None, f_data = True\<rparr>) fs) u of
               (e, u') \<Rightarrow> (e, (d\<lparr>fd_dropped := fd_dropped d @ [length fs]\<rparr>, u')))"

subsection \<open>Properties\<close>

lemma hex_digit_other [simp]: "d < 16 \<Longrightarrow> hex_digit d \<noteq> 37" "d < 16 \<Longrightarrow> hex_digit d \<noteq> 117"
  using hex_val_digit [of d] by (auto simp: hex_val_def)

lemma unescape_pct:
  assumes "b < 256"
  shows "unescape (percent # hex_digit (b div 16) # hex_digit (b mod 16) # r) = of_nat b # unescape r"
  using unescape_octet [of "hex_digit (b div 16)" "b div 16" "hex_digit (b mod 16)" "b mod 16" r] assms
  by (simp add: percent_def)

definition once_src :: "code_unit \<Rightarrow> ustr" where
  "once_src c = (if filter_special c then pct_octet (unat c) else [c])"

lemma special_cases: "filter_special c \<Longrightarrow> c = 41 \<or> c = 39 \<or> c = 34 \<or> c = 37"
  by (auto simp: filter_special_def)

lemma escape_digit: "d < 16 \<Longrightarrow> escape [hex_digit d] = [hex_digit d]"
  by (cases "d < 10") (auto simp: escape_def escape_unit_def Let_def escape_plain_def hex_digit_def unat_unit simp del: of_nat_add)

lemma escape_twice:
  assumes "filter_special c"
  shows "escape (escape [c]) = [percent, hex_digit 2, hex_digit 5, hex_digit (unat c div 16), hex_digit (unat c mod 16)]"
proof -
  have small: "unat c < 256" "\<not> escape_plain (unat c)" using special_cases [OF assms] by (auto simp: escape_plain_def)
  then have one: "escape [c] = pct_octet (unat c)" by (simp add: escape_def escape_unit_def Let_def)
  have p: "escape_unit percent = pct_octet 37"
    by (simp add: escape_unit_def percent_def escape_plain_def Let_def)
  have "escape_unit (hex_digit d) = [hex_digit d]" if "d < 16" for d
    using escape_digit [OF that] by (simp add: escape_def)
  then show ?thesis using small unfolding one by (simp add: pct_octet_def escape_def p)
qed

lemma unescape_filter: "unescape (filter_src data) = concat (map once_src data)"
proof (induction data)
  case (Cons c cs)
  show ?case
  proof (cases "filter_special c")
    case True
    have u: "unat c < 256" using special_cases [OF True] by auto
    have d: "unat c div 16 < 16" "unat c mod 16 < 16" using u by simp_all
    have "unescape (percent # hex_digit (37 div 16) # hex_digit (37 mod 16) # r) = of_nat 37 # unescape r" for r
      by (rule unescape_pct) simp
    then show ?thesis
      using Cons True d by (simp add: filter_src_def escape_twice once_src_def pct_octet_def percent_def)
  next
    case False
    then have "c \<noteq> percent" by (auto simp: filter_special_def percent_def)
    then show ?thesis using Cons False by (simp add: filter_src_def once_src_def)
  qed
qed (simp add: filter_src_def)

text \<open>
  What is written into the image filter reads back as the path of the file after two decodings, whatever
  characters the path has; quotes, brackets and percent signs do not appear bare.
\<close>

theorem filter_src_reads_back: "unescape (unescape (filter_src data)) = data"
proof -
  have "unescape (concat (map once_src data)) = data"
  proof (induction data)
    case (Cons c cs)
    show ?case
    proof (cases "filter_special c")
      case True
      then have "unat c < 256" using special_cases [OF True] by auto
      from unescape_pct [OF this] show ?thesis using Cons True by (simp add: once_src_def pct_octet_def)
    next
      case False
      then have "c \<noteq> percent" by (auto simp: filter_special_def percent_def)
      then show ?thesis using Cons False by (simp add: once_src_def)
    qed
  qed simp
  then show ?thesis by (simp add: unescape_filter)
qed

text \<open>The input an uploader was made on is never the one in the page.\<close>

definition button_above :: "nat \<Rightarrow> html_button \<Rightarrow> bool" where
  "button_above k h \<longleftrightarrow> k \<le> bt_fresh h \<and> (\<forall>i. bt_input h = Some i \<longrightarrow> k \<le> in_id i)"

lemma above_setter:
  "button_above k h \<Longrightarrow> button_above k (snd (set_button_disabled v h))"
  "button_above k h \<Longrightarrow> button_above k (snd (set_button_multiple v h))"
  by (auto simp: button_above_def button_defs)

lemma above_change: "button_above k h \<Longrightarrow> button_above k (snd (changeHandler (\<lambda>_. skip) val fs h))"
  by (auto simp: button_above_def changeHandler_def button_reset_def button_defs Let_def split: option.splits)

definition settings_apart :: "settings \<Rightarrow> bool" where
  "settings_apart s \<longleftrightarrow> (\<exists>orig. st_fileInput s = Some orig \<and>
     (\<forall>h. st_button s = Some (Html h) \<longrightarrow> button_above (Suc (in_id orig)) h))"

lemma apart_setters:
  assumes "settings_apart s"
  shows "settings_apart (set_multiple v s)" "settings_apart (set_uploader_disabled v s)"
proof -
  obtain orig where o: "st_fileInput s = Some orig" "\<And>h. st_button s = Some (Html h) \<Longrightarrow> button_above (Suc (in_id orig)) h"
    using assms by (auto simp: settings_apart_def)
  show "settings_apart (set_multiple v s)"
    unfolding settings_apart_def using o
    by (cases v; cases "st_button s"; cases "the (st_button s)")
      (auto simp: set_multiple_def button_several_def above_setter intro: exI [of _ orig])
  show "settings_apart (set_uploader_disabled v s)"
    unfolding settings_apart_def using o
    by (cases v; cases "st_button s"; cases "the (st_button s)")
      (auto simp: set_uploader_disabled_def button_disable_def above_setter intro: exI [of _ orig])
qed

lemma apart_step: "settings_step s s' \<Longrightarrow> settings_apart s \<Longrightarrow> settings_apart s'"
proof (induction rule: settings_step.induct)
  case (1 s v)
  then show ?case by (rule apart_setters)
next
  case (2 s v)
  then show ?case by (rule apart_setters)
next
  case (7 s h val fs)
  then show ?case by (auto simp: settings_apart_def above_change)
qed (auto simp: settings_apart_def set_action_def set_uploader_data_def set_filter_def set_timeout_def
    set_uploader_name_def set_CORS_def Let_def split: data_arg.splits)

lemma apart_reachable: "settings_reachable s \<Longrightarrow> settings_apart s"
proof (induction rule: settings_reachable.induct)
  case (init s b arg dv)
  have "button_above (Suc (in_id src)) (snd (render_button (new_button True (Some src) name disabled multiple)))"
    for src name disabled multiple
    by (simp add: button_above_def render_button_def new_button_def button_defs)
  then have "settings_apart (make_button b ty (replaceBtn dv s))" for ty
    using apart_setters(1) by (auto simp: make_button_def settings_apart_def replaceBtn_def Let_def set_multiple_def
        button_several_def above_setter split: if_splits)
  then show ?case
    by (auto simp: init_settings_def make_core_def settings_apart_def split: prod.split option.split)
qed (rule apart_step)

text \<open>
  An uploader that does not take several files by ajax shows no preview: the plugin reads the input the
  uploader was made on, which has been replaced in the page, so no file was ever chosen in it. With the file
  interface of HTML 5 the image stays as it was, nothing is read and no event tells of it.
\<close>

theorem preview_blind:
  assumes "settings_reachable s" "st_button s = Some (Html h)" "st_fileInput s = Some orig"
    and "\<forall>n. n \<notin> set (bt_page h) \<longrightarrow> files n = []"
    and "\<not> (truthy (st_multiple s) \<and> ajax)" "pv_mode p = Html5" "map_of (pv_images p) ident = Some i"
  shows "uploaderAddHandler False (truthy (st_multiple s)) ajax False
      (Some \<lparr>is_files = Some (files (in_id orig)), is_value = val, is_selection = sel\<rparr>) ident file_data p =
    (None, p\<lparr>pv_data := None, pv_images := obj_set ident (i\<lparr>im_shown := True\<rparr>) (pv_images p)\<rparr>)"
proof -
  obtain x where x: "bt_input h = Some x" "bt_page h = [in_id x]"
    using settings_reachable_ok [OF assms(1)] assms(2) by (auto simp: settings_ok_def button_ok_def)
  have "Suc (in_id orig) \<le> in_id x"
    using apart_reachable [OF assms(1)] assms(2,3) x(1) by (auto simp: settings_apart_def button_above_def)
  then have "files (in_id orig) = []" using assms(4) x(2) by simp
  then show ?thesis
    using assms(5-7) by (auto simp: uploaderAddHandler_def preview_file_def preview_data_def andthen_def Let_def upd_image_def)
qed

definition one_image :: preview where
  "one_image = \<lparr>pv_mode = Html5, pv_data = None, pv_images = [(''file-0'', \<lparr>im_src = [], im_filter = [], im_shown = False\<rparr>)],
     pv_reading = [], pv_log = []\<rparr>"

definition single_uploader :: settings where
  "single_uploader = set_multiple (Flag False) (init_settings sample_agent (One ''auto'') [] sample_settings)"

lemma single_uploader:
  "settings_reachable single_uploader" "\<exists>h. st_button single_uploader = Some (Html h)" "\<not> truthy (st_multiple single_uploader)"
  using settings_reachable.step [OF sample_init(1) settings_step.intros(1), of "Flag False"] sample_init(2)
  by (auto simp: single_uploader_def set_multiple_def button_several_def)

theorem preview_blind_witness:
  "\<exists>h orig. st_button single_uploader = Some (Html h) \<and> st_fileInput single_uploader = Some orig \<and>
     (\<forall>files. (\<forall>n. n \<notin> set (bt_page h) \<longrightarrow> files n = []) \<longrightarrow>
        pv_reading (snd (uploaderAddHandler False (truthy (st_multiple single_uploader)) True False
          (Some \<lparr>is_files = Some (files (in_id orig)), is_value = [], is_selection = None\<rparr>) ''file-0'' None one_image)) = [])"
proof -
  obtain h where h: "st_button single_uploader = Some (Html h)" using single_uploader(2) by blast
  obtain orig where orig: "st_fileInput single_uploader = Some orig"
    using apart_reachable [OF single_uploader(1)] by (auto simp: settings_apart_def)
  have "pv_reading (snd (uploaderAddHandler False (truthy (st_multiple single_uploader)) True False
      (Some \<lparr>is_files = Some (files (in_id orig)), is_value = [], is_selection = None\<rparr>) ''file-0'' None one_image)) = []"
    if "\<forall>n. n \<notin> set (bt_page h) \<longrightarrow> files n = []" for files
    by (subst preview_blind [OF single_uploader(1) h orig that]) (simp_all add: one_image_def single_uploader(3))
  then show ?thesis using h orig by blast
qed

lemma names_add: "map f_name (q_files (addFile f q)) = map f_name (q_files q) @ [f_name f]"
  by (auto simp: addFile_def setAddFileData_def Let_def split: prod.split if_splits)

lemma names_add_each: "map f_name (q_files (add_each None n k fs q)) = map f_name (q_files q) @ map f_name fs"
  by (induction fs arbitrary: k q) (simp_all add: names_add)

text \<open>
  Dropping files on an uploader that waits to be told adds all of them, in order, whether it takes
  several files or not: the plugin does not ask. Nothing is dropped on a flash uploader or an old browser, for
  which no area is made.
\<close>

lemma drop_adds_all:
  assumes "fs \<noteq> []" "u_allow u" "\<not> u_auto u" "u_max u = None" "u_multipleLen u < 0"
  shows "\<exists>d' u'. dropHandler fs (d, u) = (None, (d', u')) \<and>
      map f_name (q_files (u_queue u')) = map f_name (q_files (u_queue u)) @ map ch_name fs \<and>
      fd_dropped d' = fd_dropped d @ [length fs]"
    and "fd_area d = None \<Longrightarrow> fd_area (init_drop kind d) \<noteq> None \<longleftrightarrow> kind \<noteq> Flash \<and> fd_mode d = Some SupportDrop"
  using assms
  by (auto simp: dropHandler_def select_files_def processExceedMultiple_def andthen_def fire_def with_queue_def
      add_files_def names_add_each comp_def init_drop_def Let_def)

text \<open>
  A click on the drop area opens the dialog of the one input in the page, however often it was replaced and whatever was
  set since; but the area is also shown over an uploader that was disabled before the plugin came.
\<close>

lemma drop_click:
  assumes "settings_reachable s" "st_button s = Some (Html h)"
  shows "\<exists>n. clickHandler s = Some n \<and> bt_page h = [n]"
  using settings_reachable_ok [OF assms(1)] assms(2) by (auto simp: settings_ok_def button_ok_def clickHandler_def)

lemma drop_on_disabled: "kind \<noteq> Flash \<Longrightarrow> fd_mode d = Some SupportDrop \<Longrightarrow> fd_area (init_drop kind d) = Some True"
  by (simp add: init_drop_def)

end
