(* ===== verification/UploadRuns.thy ===== *)
theory UploadRuns
  imports Uploader
begin

section \<open>Runs of an uploader\<close>

text \<open>
  What an uploader is through any sequence of calls by the page and reports by its transport: a step
  relation over the operations of \<open>Uploader\<close>, with an invariant of all reachable states, and the abstract
  specification of a batch, a worker that takes waiting files in order, which the handlers refine.
\<close>

subsection \<open>Well-formed queues\<close>

definition file_ok :: "qfile \<Rightarrow> bool" where
  "file_ok f \<longleftrightarrow> f_id f \<noteq> [] \<and> f_status f \<noteq> None \<and>
     (f_size f \<noteq> 0 \<longrightarrow> f_textSize f = Some (convertByteSize (f_size f)))"

definition queue_ok :: "queue \<Rightarrow> bool" where
  "queue_ok q \<longleftrightarrow> ids_ok q \<and> list_all file_ok (q_files q)"

text \<open>A change of one file that leaves it well formed.\<close>

definition keeps_file :: "(qfile \<Rightarrow> qfile) \<Rightarrow> bool" where
  "keeps_file g \<longleftrightarrow> (\<forall>f. f_id (g f) = f_id f \<and> (file_ok f \<longrightarrow> file_ok (g f)))"

named_theorems keeps \<open>operations that keep the queue well formed\<close>

lemma list_all_upd: "list_all P xs \<Longrightarrow> P y \<Longrightarrow> list_all P (xs[i := y])"
  by (induction xs arbitrary: i) (auto split: nat.split)

lemma queue_ok_update_at:
  assumes "queue_ok q" "keeps_file g" "i < length (q_files q)"
  shows "queue_ok (q\<lparr>q_files := (q_files q)[i := g (q_files q ! i)]\<rparr>)"
proof -
  let ?q = "q\<lparr>q_files := (q_files q)[i := g (q_files q ! i)]\<rparr>"
  have "map f_id (q_files ?q) = map f_id (q_files q)"
    using assms(2,3) by (auto simp: keeps_file_def list_eq_iff_nth_eq nth_list_update)
  then have "ids_ok ?q" using ids_ok_files [of q ?q] assms(1) by (simp add: queue_ok_def)
  moreover have "file_ok (g (q_files q ! i))"
    using assms by (simp add: queue_ok_def keeps_file_def list_all_length)
  ultimately show ?thesis using assms(1) by (simp add: queue_ok_def list_all_upd)
qed

lemma queue_ok_fire [keeps]: "queue_ok q \<Longrightarrow> queue_ok (q_fire e q)"
  using ids_ok_files [of q "q_fire e q"] by (simp add: queue_ok_def)

lemma queue_ok_updateFile [keeps]:
  assumes "queue_ok q" "keeps_file g"
  shows "queue_ok (updateFile k g q)"
proof (cases k)
  case (Some i)
  show ?thesis
  proof (cases "js_get (q_files q) i")
    case (Some f)
    then have "nat i < length (q_files q)" "f = q_files q ! nat i" by (simp_all add: js_get_Some)
    then show ?thesis
      using queue_ok_fire [OF queue_ok_update_at [OF assms, of "nat i"]] Some \<open>k = Some i\<close>
      by (simp add: updateFile_def getFile_def)
  qed (use assms(1) \<open>k = Some i\<close> in \<open>simp add: updateFile_def getFile_def\<close>)
qed (use assms(1) in \<open>simp add: updateFile_def\<close>)

lemma keeps_file_fields [keeps]:
  "keeps_file (\<lambda>f. f\<lparr>f_status := Some st\<rparr>)" "keeps_file (\<lambda>f. f\<lparr>f_result := r\<rparr>)" "keeps_file (\<lambda>f. f\<lparr>f_sUrl := s\<rparr>)"
  by (simp_all add: keeps_file_def file_ok_def)

lemma queue_ok_status [keeps]: "queue_ok q \<Longrightarrow> queue_ok (setFileStatus k st q)"
  by (auto simp: setFileStatus_def split: option.splits intro!: keeps)

text \<open>A file as the page hands it over: without an id and a size text.\<close>

definition fresh_file :: "qfile \<Rightarrow> bool" where
  "fresh_file f \<longleftrightarrow> f_id f = [] \<and> f_textSize f = None"

lemma queue_ok_addFile [keeps]:
  assumes "queue_ok q" "fresh_file f"
  shows "queue_ok (addFile f q)"
proof -
  obtain f' q' where a: "setAddFileData f q = (f', q')" by (cases "setAddFileData f q")
  have "file_ok f'"
    using a assms(2) by (auto simp: setAddFileData_def Let_def fresh_file_def file_ok_def guid_def split: if_splits)
  then show ?thesis
    using assms ids_ok_addFile [of q f] setAddFileData_files [OF a]
    by (simp add: queue_ok_def fresh_file_def addFile_def a)
qed

lemma queue_ok_add_files [keeps]:
  "queue_ok q \<Longrightarrow> list_all fresh_file fs \<Longrightarrow> queue_ok (add_files m fs q)"
proof -
  have "queue_ok q \<Longrightarrow> list_all fresh_file fs \<Longrightarrow> queue_ok (add_each m len k fs q)" for len k
    by (induction fs arbitrary: k q) (auto simp: Let_def intro: keeps)
  then show "queue_ok q \<Longrightarrow> list_all fresh_file fs \<Longrightarrow> queue_ok (add_files m fs q)"
    by (simp add: add_files_def)
qed

lemma remove_subset: "remove_file r q = (x, q') \<Longrightarrow> set (q_files q') \<subseteq> set (q_files q)"
  by (auto simp: remove_file_def Let_def in_set_enumerate_eq split: option.splits)

lemma queue_ok_remove [keeps]: "queue_ok q \<Longrightarrow> queue_ok (snd (remove_file r q))"
  using ids_ok_remove [of q r] remove_subset [of r q]
  by (cases "remove_file r q") (auto simp: queue_ok_def list_all_iff)

lemma queue_ok_clear [keeps]: "queue_ok q \<Longrightarrow> queue_ok (clear_queue q)"
proof (induction q rule: clear_queue.induct)
  case (1 q)
  show ?case
  proof (cases "remove_file (ByIndex 0) q")
    case (Pair x q')
    have "queue_ok q'" using queue_ok_remove [OF "1.prems", of "ByIndex 0"] Pair by simp
    then show ?thesis
      using 1 Pair by (cases x) (auto simp: clear_queue.simps [of q] keeps)
  qed
qed

subsection \<open>Commands that keep the queue well formed\<close>

definition keeps_queue :: "uploader cmd \<Rightarrow> bool" where
  "keeps_queue c \<longleftrightarrow> (\<forall>u. queue_ok (u_queue u) \<longrightarrow> queue_ok (u_queue (snd (c u))))"

named_theorems keeps_rules

lemma keeps_queueI: "(\<And>u. queue_ok (u_queue u) \<Longrightarrow> queue_ok (u_queue (snd (c u)))) \<Longrightarrow> keeps_queue c"
  by (simp add: keeps_queue_def)

lemma keeps_queueD: "keeps_queue c \<Longrightarrow> queue_ok (u_queue u) \<Longrightarrow> queue_ok (u_queue (snd (c u)))"
  by (simp add: keeps_queue_def)

lemma keeps_skip [keeps_rules]: "keeps_queue skip" "keeps_queue (throw e)"
  by (simp_all add: keeps_queue_def)

lemma keeps_andthen [keeps_rules]: "keeps_queue a \<Longrightarrow> keeps_queue b \<Longrightarrow> keeps_queue (andthen a b)"
  unfolding keeps_queue_def andthen_def by (auto split: prod.splits option.splits)

lemma keeps_block [keeps_rules]: "list_all keeps_queue cs \<Longrightarrow> keeps_queue (block cs)"
  by (induction cs) (auto intro: keeps_rules)

lemma keeps_with_queue [keeps_rules]: "(\<And>q. queue_ok q \<Longrightarrow> queue_ok (g q)) \<Longrightarrow> keeps_queue (with_queue g)"
  by (simp add: keeps_queue_def with_queue_def)

lemma keeps_sets [keeps_rules]: "keeps_queue (set_cur i)" "keeps_queue (set_batch s)" "keeps_queue (fire e)"
    "keeps_queue (transport_upload n f)"
  by (simp_all add: keeps_queue_def set_cur_def set_batch_def fire_def with_queue_def transport_upload_def keeps)

lemma queue_after [simp]:
  "u_queue (snd (fire e u)) = q_fire e (u_queue u)" "u_queue (snd (with_queue g u)) = g (u_queue u)"
  by (simp_all add: fire_def with_queue_def)

lemma keeps_start: "keeps_queue (block [set_cur i, fire e, with_queue (setFileStatus k st), transport_upload n f])"
  by (rule keeps_rules) (simp add: keeps_rules keeps)

lemma keeps_upload [keeps_rules]: "keeps_queue (upload k)"
  by (rule keeps_queueI) (auto simp: upload_def simp del: block.simps
      split: option.split intro!: keeps_queueD [OF keeps_start] keeps)

lemma keeps_statusFile [keeps_rules]: "keeps_queue (uploaderStatusFile st)"
  by (rule keeps_queueI) (auto simp: uploaderStatusFile_def simp del: block.simps
      split: list.split intro!: keeps_queueD keeps_rules keeps)

lemma keeps_continue [keeps_rules]: "keeps_queue continueUpload"
  by (rule keeps_queueI) (auto simp: continueUpload_def split: option.split intro!: keeps_queueD keeps_rules)

lemma keeps_uploadFiles [keeps_rules]: "keeps_queue (uploadFiles st)"
  unfolding uploadFiles_def by (rule keeps_rules) (simp add: keeps_rules)

lemma queue_ok_note: "queue_ok (u_queue u) \<Longrightarrow> queue_ok (u_queue (snd (note_msg r u)))"
  by (auto simp: note_msg_def with_queue_def getFile_def js_get_Some split: option.split
      intro!: queue_ok_update_at keeps)

lemma keeps_results [keeps_rules]: "keeps_queue (note_msg r)" "keeps_queue (keep_url r)"
  by (auto simp: keeps_queue_def keep_url_def queue_ok_note keeps split: option.split)

lemma keeps_result_block:
  "keeps_queue (block
     [with_queue (updateFile k (\<lambda>f. f\<lparr>f_result := Some r\<rparr>)),
      (if b then block [with_queue (setFileStatus k SUCCESS), keep_url r, fire e]
       else block [note_msg r, with_queue (setFileStatus k ERROR), fire e']),
      set_cur None, fire e'', continueUpload])"
  by (auto simp del: block.simps intro!: keeps_rules keeps)

lemma keeps_complete [keeps_rules]: "keeps_queue (uploadComplete r)"
  by (rule keeps_queueI) (auto simp: uploadComplete_def Let_def simp del: block.simps split: option.split
      intro!: keeps_queueD [OF keeps_result_block [where b = True, simplified if_True]]
        keeps_queueD [OF keeps_result_block [where b = False, simplified if_False]])

lemma keeps_stop_block: "keeps_queue (block [with_queue (setFileStatus k st), set_cur i, fire e])"
    "keeps_queue (block [with_queue (setFileStatus k st), fire e])"
  by (rule keeps_rules, simp add: keeps_rules keeps)+

lemma keeps_handlers [keeps_rules]:
  "keeps_queue uploadProgress" "keeps_queue uploadStopHandler"
  by (rule keeps_queueI, simp only: uploadProgress_def uploadStopHandler_def Let_def,
      erule keeps_queueD [OF keeps_stop_block(2)] keeps_queueD [OF keeps_stop_block(1)])+

lemma keeps_answers [keeps_rules]:
  "keeps_queue (iframeAnswer t a)" "keeps_queue (flashComplete t a)" "keeps_queue flashError" "keeps_queue (ajaxError b)"
  by (auto simp: iframeAnswer_def flashComplete_def processResponse_def flashError_def ajaxError_def simp del: block.simps
      split: answer.split intro!: keeps_rules) (simp_all add: keeps_queue_def)

lemma keeps_stop [keeps_rules]: "keeps_queue transport_stop" "keeps_queue (cancel k)" "keeps_queue stop"
proof -
  show t: "keeps_queue transport_stop"
    by (rule keeps_queueI) (auto simp: transport_stop_def simp del: block.simps
        split: transport.split intro!: keeps_queueD keeps_rules)
  show c: "keeps_queue (cancel k)" for k
    by (rule keeps_queueI) (auto simp: cancel_def simp del: block.simps
        split: option.split intro!: keeps_queueD keeps_rules keeps t)
  show "keeps_queue stop" unfolding stop_def by (rule keeps_rules) (simp add: keeps_rules c)
qed

lemma exceed_subset: "set (processExceedMultiple m fs) \<subseteq> set fs"
  by (auto simp: processExceedMultiple_def in_set_enumerate_eq)

lemma keeps_select:
  assumes "list_all fresh_file chosen"
  shows "keeps_queue (select_files chosen)"
proof (rule keeps_queueI)
  fix u :: uploader
  assume u: "queue_ok (u_queue u)"
  let ?fs = "processExceedMultiple (u_multipleLen u) chosen"
  have fresh: "list_all fresh_file ?fs" using assms exceed_subset by (fastforce simp: list_all_iff)
  have add: "keeps_queue (block [with_queue (add_files m ?fs), if b then uploadFiles WAITING else skip])" for m b
    using fresh by (auto simp del: block.simps intro!: keeps_rules keeps)
  have "keeps_queue (\<lambda>v. if \<not> u_allow v then skip v
      else block [with_queue (add_files (u_max v) ?fs), if \<not> busy (u_cur u) \<and> u_auto v then uploadFiles WAITING else skip] v)"
    by (rule keeps_queueI) (auto simp del: block.simps if_split split: if_splits
      intro!: keeps_queueD [OF add [where b = True, simplified if_True]] keeps_queueD [OF add [where b = False, simplified if_False]])
  then have "keeps_queue (block [fire (EvSelect (length ?fs)), \<lambda>v. if \<not> u_allow v then skip v
      else block [with_queue (add_files (u_max v) ?fs), if \<not> busy (u_cur u) \<and> u_auto v then uploadFiles WAITING else skip] v])"
    by (auto simp del: block.simps intro!: keeps_rules)
  from keeps_queueD [OF this u] show "queue_ok (u_queue (snd (select_files chosen u)))"
    by (simp only: select_files_def Let_def)
qed

lemma keeps_restore [keeps_rules]: "keeps_queue (restore_listed rs)"
proof (induction rs)
  case (Cons r rs)
  have "keeps_queue (block [with_queue (addFile f), with_queue (setFileStatus k SUCCESS), fire e])"
    if "fresh_file f" for f k e
    using that by (auto simp del: block.simps intro!: keeps_rules keeps)
  from keeps_queueD [OF this] have "keeps_queue (restore_one r)"
    by (intro keeps_queueI) (auto simp: restore_one_def Let_def fresh_file_def simp del: block.simps split: prod.split)
  then show ?case using Cons by (auto intro: keeps_rules)
qed (simp add: keeps_queue_def)

subsection \<open>Steps and reachable states\<close>

text \<open>
  What the page and the transport can do, in any order: files are chosen, restored or removed, uploads
  are started, cancelled and stopped, uploading is allowed or forbidden, and the transport reports
  progress and answers. An operation that throws leaves the state it had reached.
\<close>

inductive up_step :: "uploader \<Rightarrow> uploader \<Rightarrow> bool" where
  Choose: "list_all fresh_file fs \<Longrightarrow> up_step u (snd (select_files fs u))"
| Restored: "up_step u (snd (restore_listed rs u))"
| Remove: "up_step u (u\<lparr>u_queue := snd (remove_file r (u_queue u))\<rparr>)"
| Clear: "up_step u (u\<lparr>u_queue := clear_queue (u_queue u)\<rparr>)"
| Allow: "up_step u (u\<lparr>u_allow := b\<rparr>)"
| Upload_one: "up_step u (snd (upload k u))"
| Upload_all: "up_step u (snd (uploadFiles st u))"
| Cancelled: "up_step u (snd (cancel k u))"
| Stopped: "up_step u (snd (stop u))"
| Progressed: "up_step u (snd (uploadProgress u))"
| Iframe_answer: "up_step u (snd (iframeAnswer t a u))"
| Flash_answer: "up_step u (snd (flashComplete t a u))"
| Flash_failed: "up_step u (snd (flashError u))"
| Ajax_answer: "up_step u (snd (uploadComplete r u))"
| Ajax_failed: "up_step u (snd (ajaxError b u))"

inductive reachable :: "uploader \<Rightarrow> bool" where
  Start: "reachable ((new_uploader k)\<lparr>u_max := m, u_multipleLen := n, u_auto := b\<rparr>)"
| Step: "reachable u \<Longrightarrow> up_step u v \<Longrightarrow> reachable v"

lemma step_keeps: "up_step u v \<Longrightarrow> queue_ok (u_queue u) \<Longrightarrow> queue_ok (u_queue v)"
  by (induction rule: up_step.induct) (auto intro: keeps_queueD keeps_select keeps_rules keeps)

text \<open>
  C21: In every state an uploader can reach the queue is well formed: the ids are distinct and given out by
  the counter, every file has an id and a status, and shows the size it has. So a file is always
  found by its id.
\<close>

theorem reachable_queue_ok:
  assumes "reachable u"
  shows "queue_ok (u_queue u) \<and>
     (\<forall>i < queue_size (u_queue u). getFileIndex (f_id (q_files (u_queue u) ! i)) (u_queue u) = int i)"
proof -
  from assms have ok: "queue_ok (u_queue u)"
  proof (induction rule: reachable.induct)
    case (Start k m n b)
    show ?case by (simp add: new_uploader_def new_queue_def queue_ok_def ids_ok_def)
  next
    case (Step u v)
    then show ?case using step_keeps by blast
  qed
  then show ?thesis
    using getFileIndex_unique [of "u_queue u"] by (simp add: queue_ok_def ids_ok_def queue_size_def)
qed

definition sample_run :: uploader where
  "sample_run = snd (select_files [sample_file, sample_file] (new_uploader Ajax))"

lemma sample_run_reachable: "reachable sample_run"
proof -
  have "new_uploader Ajax = (new_uploader Ajax)\<lparr>u_max := None, u_multipleLen := -1, u_auto := True\<rparr>"
    by (simp add: new_uploader_def)
  then have "reachable (new_uploader Ajax)" using Start [where k = Ajax and m = None and n = "-1" and b = True] by simp
  moreover have "up_step (new_uploader Ajax) sample_run"
    unfolding sample_run_def by (rule Choose) (simp add: fresh_file_def sample_file_def)
  ultimately show ?thesis by (rule Step)
qed

theorem reachable_queue_ok_witness: "queue_ok (u_queue sample_run)"
  using reachable_queue_ok [OF sample_run_reachable] by simp

subsection \<open>What a batch promises\<close>

text \<open>
  The specification: a worker with a current job, the jobs that wait, what became of each job and the
  jobs it has begun. An answer finishes the current job and begins the next one.
\<close>

record worker =
  w_current :: "nat option"
  w_waiting :: "nat list"
  w_state :: "nat \<Rightarrow> file_status option"
  w_begun :: "nat list"

definition work :: "upload_result \<Rightarrow> worker \<Rightarrow> worker" where
  "work r w =
     (case w_current w of
        None \<Rightarrow> w
      | Some i \<Rightarrow>
          (let state = (w_state w)(i \<mapsto> done_status r) in
           case w_waiting w of
             [] \<Rightarrow> w\<lparr>w_current := None, w_state := state\<rparr>
           | j # js \<Rightarrow> w\<lparr>w_current := Some j, w_waiting := js, w_state := state(j \<mapsto> START), w_begun := w_begun w @ [j]\<rparr>))"

definition abs_worker :: "uploader \<Rightarrow> worker" where
  "abs_worker u = \<lparr>w_current = u_cur u, w_waiting = getIndexs WAITING (u_queue u),
     w_state = queue_status (u_queue u), w_begun = u_sent u\<rparr>"

lemma answer_works:
  assumes "in_batch (Some i) js u"
  shows "\<exists>v. uploadComplete (Some r) u = (None, v) \<and> abs_worker v = work r (abs_worker u) \<and>
    in_batch (u_cur v) (tl js) v \<and> (js \<noteq> [] \<longrightarrow> u_cur v = Some (hd js))"
proof -
  have u: "u_cur u = Some i" "getIndexs WAITING (u_queue u) = js" using assms by (simp_all add: in_batch_def)
  obtain v where v: "uploadComplete (Some r) u = (None, v)"
    "case js of
       [] \<Rightarrow> in_batch None [] v \<and> u_sent v = u_sent u \<and>
         (\<forall>k. queue_status (u_queue v) k = (if k = i then Some (done_status r) else queue_status (u_queue u) k))
     | j # js' \<Rightarrow> in_batch (Some j) js' v \<and> u_sent v = u_sent u @ [j] \<and>
         (\<forall>k. queue_status (u_queue v) k =
            (if k = j then Some START else if k = i then Some (done_status r) else queue_status (u_queue u) k))"
    using answer_in_batch [OF assms] by blast
  have "i \<notin> set js" using assms by (simp add: in_batch_def)
  then show ?thesis
    using v u by (cases js) (auto simp: abs_worker_def work_def in_batch_def fun_upd_def fun_eq_iff)
qed

text \<open>
  C20: The handlers of a batch refine the worker: from a state in which \<open>i\<close> is uploading and \<open>js\<close> wait,
  any answers, one for each of the first files, take the uploader through the same states as the
  worker.
\<close>

theorem batch_refines:
  assumes "in_batch (Some i) js u" "length rs \<le> Suc (length js)"
  shows "abs_worker (answers rs u) = fold work rs (abs_worker u)"
  using assms
proof (induction rs arbitrary: i js u)
  case (Cons r rs)
  obtain v where v: "uploadComplete (Some r) u = (None, v)" "abs_worker v = work r (abs_worker u)"
      "in_batch (u_cur v) (tl js) v" "js \<noteq> [] \<longrightarrow> u_cur v = Some (hd js)"
    using answer_works [OF Cons.prems(1)] by blast
  show ?case
  proof (cases js)
    case Nil
    then show ?thesis using Cons.prems(2) v(1,2) by (simp add: answers_def)
  next
    case (Cons j js')
    then have "in_batch (Some j) js' v" "length rs \<le> Suc (length js')" using v(3,4) Cons.prems(2) by simp_all
    from Cons.IH [OF this] show ?thesis using v(1,2) by (simp add: answers_def)
  qed
qed (simp add: answers_def)

theorem batch_refines_witness:
  "w_state (abs_worker (answers [good_answer] (snd (uploadFiles WAITING sample_uploader)))) 1 = Some START"
proof -
  have s: "u_allow sample_uploader" "u_cur sample_uploader = None" "u_queue sample_uploader = sample_queue"
    by (simp_all add: sample_uploader_def new_uploader_def)
  obtain v where v: "uploadFiles WAITING sample_uploader = (None, v)" "in_batch (Some 0) [1] v"
    using uploadFiles_starts [of sample_uploader "[0, 1]"] s sample_waiting sample_data by auto
  have "u_cur v = Some 0" "getIndexs WAITING (u_queue v) = [1]" using v(2) by (simp_all add: in_batch_def)
  then have "w_state (work good_answer (abs_worker v)) 1 = Some START"
    by (simp add: abs_worker_def work_def)
  then show ?thesis using batch_refines [OF v(2), of "[good_answer]"] v(1) by simp
qed

end
