(* ===== verification/UploadAuth.thy ===== *)
theory UploadAuth
  imports Uploader
begin

section \<open>The plugin that validates uploads\<close>

text \<open>
  \<open>plugins/auth/auth.js\<close> and the uploader with the plugin listening: files are tested when they are
  added to the queue, the number of successful files after each success. A failed test marks the file
  and fires the uploader's \<open>error\<close> event, which the plugin itself listens to. \<open>g_errors\<close> are the
  plugin's own events (rule and index, -1 without a file), \<open>g_images\<close> the images whose size is being
  read. The texts of the messages fired are left out. Texts are ASCII.
\<close>

text \<open>
  The configuration; \<open>None\<close> is the empty string. \<open>widthHeight\<close> is called with the image's size; the
  documentation gives an array of two functions, which cannot be called.
\<close>

datatype size_rule = Fun "nat \<Rightarrow> nat \<Rightarrow> bool" | Array

record auth =
  au_max :: "int option"
  au_allowExts :: "string option"
  au_maxSize :: "nat option"
  au_allowRepeat :: bool
  au_widthHeight :: "size_rule option"
  au_msg :: "(string, string) obj"

record guarded =
  g_up :: uploader
  g_disabled :: bool
  g_errors :: "(string \<times> int) list"
  g_images :: "qfile list"

definition on_up :: "uploader cmd \<Rightarrow> guarded cmd" where
  "on_up c g = (case c (g_up g) of (e, u) \<Rightarrow> (e, g\<lparr>g_up := u\<rparr>))"

definition set_allow :: "bool \<Rightarrow> guarded cmd" where
  "set_allow b = on_up (\<lambda>u. (None, u\<lparr>u_allow := b\<rparr>))"

definition set_disabled :: "bool \<Rightarrow> guarded cmd" where
  "set_disabled b g = (None, g\<lparr>g_disabled := b\<rparr>)"

subsection \<open>Reporting an error\<close>

text \<open>
  \<open>_fireUploaderError\<close>: the file's status, the plugin's event and the uploader's; \<open>heard\<close> is what the
  plugin does when it hears the latter.
\<close>

definition fireUploaderError :: "guarded cmd \<Rightarrow> string \<Rightarrow> qfile option \<Rightarrow> guarded cmd" where
  "fireUploaderError heard rule f g =
     (let index = (case f of None \<Rightarrow> -1 | Some f \<Rightarrow> getFileIndex (f_id f) (u_queue (g_up g))) in block
        [on_up (with_queue (setFileStatus (Some index) ERROR)),
         (\<lambda>g. (None, g\<lparr>g_errors := g_errors g @ [(rule, index)]\<rparr>)),
         on_up (fire (EvError (if index < 0 then None else Some (nat index)))),
         heard] g)"

text \<open>What the plugin does when it hears an error that is not about the maximum.\<close>

definition report :: "string \<Rightarrow> qfile \<Rightarrow> guarded cmd" where
  "report rule f = fireUploaderError (set_allow True) rule (Some f)"

subsection \<open>The maximum\<close>

text \<open>\<open>max == EMPTY\<close> holds for 0, too.\<close>

definition max_rule :: "auth \<Rightarrow> int option" where
  "max_rule c = (case au_max c of None \<Rightarrow> None | Some m \<Rightarrow> if m = 0 then None else Some m)"

definition success_count :: "guarded \<Rightarrow> nat" where
  "success_count g = length (getFiles SUCCESS (u_queue (g_up g)))"

text \<open>\<open>queue.remove(id)\<close> with the plugin listening: \<open>tm\<close> is \<open>testMax\<close>.\<close>

definition remove_heard :: "guarded cmd \<Rightarrow> string \<Rightarrow> guarded cmd" where
  "remove_heard tm ident g =
     (case remove_file (ById ident) (u_queue (g_up g)) of
        (None, _) \<Rightarrow> skip g
      | (Some f, q) \<Rightarrow>
          (let g = g\<lparr>g_up := (g_up g)\<lparr>u_queue := q\<rparr>\<rparr>
           in if f_status f = Some SUCCESS then tm g else skip g))"

definition maxStopUpload :: "guarded cmd \<Rightarrow> auth \<Rightarrow> guarded cmd" where
  "maxStopUpload tm c g =
     (case (u_cur (g_up g), au_max c) of
        (Some cur, Some m) \<Rightarrow>
          if cur = 0 \<or> int cur < m then skip g
          else (let files = q_files (u_queue (g_up g)) in block
            [if m < int (success_count g) then on_up stop else skip,
             block (map (\<lambda>(_, f). remove_heard tm (f_id f)) (filter (\<lambda>(index, _). cur < index) (enumerate 0 files))),
             on_up (set_cur None)] g)
      | _ \<Rightarrow> skip g)"

text \<open>The listener of the uploader's \<open>error\<close> when the rule is \<open>max\<close>; for others only the second step.\<close>

definition max_heard :: "guarded cmd \<Rightarrow> auth \<Rightarrow> guarded cmd" where
  "max_heard tm c = block [maxStopUpload tm c, set_allow True]"

text \<open>
  \<open>testMax\<close> hears its own error and removes files, which may call it again. The first argument bounds
  how deep that goes: every call from within removes a file first, so one more than the number of
  files is enough.
\<close>

fun testMax :: "nat \<Rightarrow> auth \<Rightarrow> guarded cmd" where
  "testMax 0 c = skip"
| "testMax (Suc n) c = (\<lambda>g.
     (case max_rule c of
        None \<Rightarrow> skip g
      | Some m \<Rightarrow>
          if int (success_count g) < m then block [set_disabled False, set_allow True] g
          else block
            [set_disabled True, set_allow False,
             fireUploaderError (max_heard (testMax n c) c) ''max'' None] g))"

definition test_max :: "auth \<Rightarrow> guarded cmd" where
  "test_max c g = testMax (Suc (length (q_files (u_queue (g_up g))))) c g"

definition testRequired :: "guarded \<Rightarrow> bool" where
  "testRequired g \<longleftrightarrow> success_count g > 0"

subsection \<open>Extensions, sizes and repeated names\<close>

definition to_lower :: "char \<Rightarrow> char" where
  "to_lower c = (if 65 \<le> (of_char c :: nat) \<and> of_char c \<le> (90 :: nat) then char_of ((of_char c :: nat) + 32) else c)"

definition plain_char :: "char \<Rightarrow> bool" where
  "plain_char c \<longleftrightarrow> (let n = of_char c :: nat in 48 \<le> n \<and> n \<le> 57 \<or> 65 \<le> n \<and> n \<le> 90 \<or> 97 \<le> n \<and> n \<le> 122)"

text \<open>
  \<open>new RegExp('^.+\.' + ext + '$')\<close>: in a text \<open>\.\<close> is just a dot, so the expression is \<open>^.+.ext$\<close>: at
  least two characters, no line breaks, before an extension of letters and digits. An extension with
  other characters is an expression of its own: the parameter \<open>regexp\<close>.
\<close>

definition ext_test :: "(string \<Rightarrow> string \<Rightarrow> bool) \<Rightarrow> string \<Rightarrow> string \<Rightarrow> bool" where
  "ext_test regexp ext name =
     (if list_all plain_char ext then
        (let k = length name - length ext
         in length ext + 2 \<le> length name \<and> drop k name = ext \<and>
            list_all (\<lambda>c. c \<noteq> CHR 0x0A \<and> c \<noteq> CHR 0x0D) (take k name))
      else regexp ext name)"

definition isAllowUpload :: "(string \<Rightarrow> string \<Rightarrow> bool) \<Rightarrow> string list \<Rightarrow> string \<Rightarrow> bool" where
  "isAllowUpload regexp exts fileName = list_ex (\<lambda>ext. ext_test regexp ext (map to_lower fileName)) exts"

definition getFileExt :: "string \<Rightarrow> string" where
  "getFileExt name = last (split_on CHR ''.'' name)"

text \<open>Each test yields whether the file passes, and the command that reports it if not.\<close>

definition testAllowExt :: "(string \<Rightarrow> string \<Rightarrow> bool) \<Rightarrow> auth \<Rightarrow> qfile \<Rightarrow> bool \<times> guarded cmd" where
  "testAllowExt regexp c f =
     (if or_empty (au_allowExts c) = [] then (True, skip)
      else if isAllowUpload regexp (split_on CHR '','' (or_empty (au_allowExts c))) (f_name f) then (True, skip)
      else (False, report ''allowExts'' f))"

definition testMaxSize :: "auth \<Rightarrow> qfile \<Rightarrow> bool \<times> guarded cmd" where
  "testMaxSize c f =
     (case au_maxSize c of
        None \<Rightarrow> (True, skip)
      | Some m \<Rightarrow>
          if m = 0 \<or> f_size f = 0 \<or> f_size f \<le> m * 1024 then (True, skip)
          else (False, report ''maxSize'' f))"

text \<open>The loop goes on after a match; a match of the name alone is reported if the size is not known.\<close>

definition testRepeat :: "auth \<Rightarrow> qfile \<Rightarrow> guarded cmd" where
  "testRepeat c f g =
     (if \<not> au_allowRepeat c then skip g
      else block (map (\<lambda>h. if f_name h = f_name f \<and> (f_size h = 0 \<or> f_size h = f_size f)
                           then report ''allowRepeat'' f else skip)
                   (getFiles SUCCESS (u_queue (g_up g)))) g)"

definition test_size :: "auth \<Rightarrow> qfile \<Rightarrow> nat \<Rightarrow> nat \<Rightarrow> guarded cmd" where
  "test_size c f width height g =
     (case au_widthHeight c of
        Some (Fun ok) \<Rightarrow>
          if \<not> ok width height then report ''widthHeight'' f g
          else block [set_allow True,
            (\<lambda>g. on_up (upload (getFileIndex (f_id f) (u_queue (g_up g)))) g)] g
      | _ \<Rightarrow> throw TypeError g)"

text \<open>
  \<open>now\<close>: the size of an image that must be measured at once (Internet Explorer, no data); otherwise
  the image is read and \<open>image_read\<close> follows.
\<close>

definition testWidthHeight :: "auth \<Rightarrow> (nat \<times> nat) option \<Rightarrow> qfile \<Rightarrow> guarded cmd" where
  "testWidthHeight c now f =
     (if au_widthHeight c = None then skip
      else block [set_allow False,
        (case now of
           None \<Rightarrow> (\<lambda>g. (None, g\<lparr>g_images := g_images g @ [f]\<rparr>))
         | Some (width, height) \<Rightarrow> test_size c f width height)])"

definition image_read :: "auth \<Rightarrow> nat \<Rightarrow> nat \<Rightarrow> nat \<Rightarrow> guarded cmd" where
  "image_read c i width height g =
     (case js_get (g_images g) (int i) of
        None \<Rightarrow> skip g
      | Some f \<Rightarrow> block
          [(\<lambda>g. (None, g\<lparr>g_images := take i (g_images g) @ drop (Suc i) (g_images g)\<rparr>)),
           test_size c f width height] g)"

subsection \<open>The uploader with the plugin\<close>

text \<open>The listener of the queue's \<open>add\<close>, for a file that is not restored.\<close>

definition file_added :: "(string \<Rightarrow> string \<Rightarrow> bool) \<Rightarrow> auth \<Rightarrow> (nat \<times> nat) option \<Rightarrow> qfile \<Rightarrow> guarded cmd" where
  "file_added regexp c now f =
     (case testAllowExt regexp c f of
        (False, err) \<Rightarrow> err
      | (True, _) \<Rightarrow>
          (case testMaxSize c f of
             (False, err) \<Rightarrow> err
           | (True, _) \<Rightarrow> block [testRepeat c f, testWidthHeight c now f]))"

text \<open>\<open>_uploadCompleteHandler\<close> again, with the plugin hearing the events of success and error.\<close>

definition complete_heard :: "auth \<Rightarrow> upload_result option \<Rightarrow> guarded cmd" where
  "complete_heard c result g =
     (case result of
        None \<Rightarrow> skip g
      | Some r \<Rightarrow>
          (let index = u_cur (g_up g); i = cur_index (g_up g) in block
             [on_up (with_queue (updateFile i (\<lambda>f. f\<lparr>f_result := Some r\<rparr>))),
              (if r_ok r then block
                 [on_up (with_queue (setFileStatus i SUCCESS)), on_up (keep_url r),
                  on_up (fire (EvSuccess index)), test_max c]
               else block
                 [on_up (note_msg r), on_up (with_queue (setFileStatus i ERROR)),
                  on_up (fire (EvError index)), set_allow True]),
              on_up (set_cur None),
              on_up (fire (EvComplete index)),
              on_up continueUpload] g))"

subsection \<open>Configuration\<close>

definition to_upper :: "char \<Rightarrow> char" where
  "to_upper c = (if 97 \<le> (of_char c :: nat) \<and> of_char c \<le> (122 :: nat) then char_of ((of_char c :: nat) - 32) else c)"

text \<open>The description and the pattern of a flash filter, \<open>JPG,PNG\<close> and \<open>*.jpg;*.png\<close>.\<close>

definition setAllowExts :: "string \<Rightarrow> string \<times> string" where
  "setAllowExts exts =
     (let es = split_on CHR '','' exts
      in (join_on CHR '','' (map (map to_upper) es), join_on CHR '';'' (map (\<lambda>e. ''*.'' @ e) es)))"

text \<open>
  \<open>_setSwfButtonExt\<close>: what is set as the flash button's filters, if anything (the outer option). It reads
  element 0 of the object above, which has none: \<open>undefined\<close>.
\<close>

definition setSwfButtonExt :: "bool \<Rightarrow> bool \<Rightarrow> auth \<Rightarrow> (string \<times> string) option option" where
  "setSwfButtonExt isFlashType button c =
     (if \<not> isFlashType \<or> au_allowExts c = None then None else if button then Some None else None)"

text \<open>The extensions again and, behind them, in capitals without the star.\<close>

definition getExts :: "string \<Rightarrow> string list" where
  "getExts sExt =
     (let exts = split_on CHR '';'' sExt
      in exts @ map (\<lambda>e. map to_upper (if take 2 e = ''*.'' then drop 2 e else e)) exts)"

text \<open>\<open>testAll\<close> calls \<open>testRequire\<close>, which the class no longer has.\<close>

definition testAll :: "guarded cmd" where
  "testAll = throw TypeError"

text \<open>Reading and setting a message.\<close>

definition get_msg :: "string \<Rightarrow> auth \<Rightarrow> string option" where
  "get_msg rule c = map_of (au_msg c) rule"

definition set_msg :: "string \<Rightarrow> string \<Rightarrow> auth \<Rightarrow> auth" where
  "set_msg rule m c = c\<lparr>au_msg := obj_set rule m (au_msg c)\<rparr>"

text \<open>A rule given as an array: its value and its message, \<open>None\<close> if that is no text.\<close>

definition processRuleConfig :: "string \<Rightarrow> string option option \<Rightarrow> auth \<Rightarrow> auth" where
  "processRuleConfig rule config c =
     (case config of Some (Some m) \<Rightarrow> set_msg rule m c | _ \<Rightarrow> c)"

text \<open>
  The theme's messages and extensions, if the plugin has no messages of its own; \<open>None\<close>: no theme.
\<close>

definition useThemeConfig :: "((string, string) obj option \<times> string option) option \<Rightarrow> auth \<Rightarrow> auth" where
  "useThemeConfig theme c =
     (if au_msg c \<noteq> [] then c
      else (case theme of
              None \<Rightarrow> c
            | Some (authMsg, exts) \<Rightarrow>
                (let c = (case authMsg of None \<Rightarrow> c | Some m \<Rightarrow> c\<lparr>au_msg := m\<rparr>)
                 in if or_empty (au_allowExts c) = [] then c\<lparr>au_allowExts := exts\<rparr> else c)))"

subsection \<open>What the plugin leaves of the queue\<close>

definition g_queue :: "guarded \<Rightarrow> queue" where
  "g_queue g = u_queue (g_up g)"

lemma on_up_ok: "c (g_up g) = (None, u) \<Longrightarrow> on_up c g = (None, g\<lparr>g_up := u\<rparr>)"
  by (simp add: on_up_def)

lemma success_count_status:
  "success_count g = length (filter (\<lambda>i. queue_status (g_queue g) i = Some SUCCESS) [0 ..< queue_size (g_queue g)])"
proof -
  let ?fs = "q_files (g_queue g)"
  have "length (filter (\<lambda>f. f_status f = Some SUCCESS) ?fs) =
      length (filter (\<lambda>i. f_status (?fs ! i) = Some SUCCESS) [0 ..< length ?fs])"
    by (metis (no_types, lifting) comp_apply filter_map length_map map_nth filter_cong)
  moreover have "filter (\<lambda>i. f_status (?fs ! i) = Some SUCCESS) [0 ..< length ?fs] =
      filter (\<lambda>i. queue_status (g_queue g) i = Some SUCCESS) [0 ..< queue_size (g_queue g)]"
    by (rule filter_cong) (simp_all add: queue_status_def fileStatus_index queue_size_def)
  ultimately show ?thesis by (simp add: success_count_def getFiles_def g_queue_def)
qed

subsection \<open>What testMax does\<close>

lemma no_file_status [simp]: "setFileStatus (Some (-1)) st q = q"
  by (simp add: setFileStatus_def getFile_def js_get_def)

lemma enumerate_after: "map snd (filter (\<lambda>(i, _). n + k < i) (enumerate n xs)) = drop (Suc k) xs"
proof (induction xs arbitrary: n k)
  case (Cons x xs)
  show ?case
  proof (cases k)
    case 0
    have "filter (\<lambda>(i, _). n < i) (enumerate (Suc n) xs) = enumerate (Suc n) xs"
      by (rule filter_True) (auto simp: in_set_enumerate_eq)
    then show ?thesis using 0 by simp
  next
    case (Suc l)
    then show ?thesis using Cons.IH [of "Suc n" l] by simp
  qed
qed simp

lemma remove_suffix:
  assumes "distinct (map f_id (xs @ ys))" "\<forall>f \<in> set ys. f_status f \<noteq> Some SUCCESS"
    and "q_files (g_queue g) = xs @ ys" "map f_id zs = map f_id ys"
  shows "\<exists>q'. block (map (\<lambda>f. remove_heard tm (f_id f)) zs) g = (None, g\<lparr>g_up := (g_up g)\<lparr>u_queue := q'\<rparr>\<rparr>) \<and>
    q_files q' = xs"
  using assms
proof (induction ys arbitrary: zs g)
  case Nil
  then show ?case by (intro exI [of _ "g_queue g"]) (simp add: g_queue_def)
next
  case (Cons y ys)
  obtain z zs' where zs: "zs = z # zs'" "f_id z = f_id y" "map f_id zs' = map f_id ys"
    using Cons.prems(4) by (cases zs) auto
  let ?q = "g_queue g"
  have len: "length xs < length (q_files ?q)" using Cons.prems(3) by simp
  have at: "q_files ?q ! length xs = y" using Cons.prems(3) by simp
  have "distinct (map f_id (q_files ?q))" using Cons.prems(1,3) by simp
  from getFileIndex_unique [OF this len] have "getFileIndex (f_id z) ?q = int (length xs)"
    unfolding at zs(2) .
  then have "remove_file (ById (f_id z)) ?q = remove_file (ByIndex (int (length xs))) ?q"
    by (simp add: remove_file_def)
  also have "\<dots> = (Some y, q_fire (EvRemove (length xs)) (?q\<lparr>q_files := xs @ ys\<rparr>))"
    using remove_index [OF len] at Cons.prems(3) by simp
  finally have rm: "remove_heard tm (f_id z) g =
      (None, g\<lparr>g_up := (g_up g)\<lparr>u_queue := q_fire (EvRemove (length xs)) (?q\<lparr>q_files := xs @ ys\<rparr>)\<rparr>\<rparr>)"
    using Cons.prems(2) by (simp add: remove_heard_def g_queue_def)
  let ?g = "g\<lparr>g_up := (g_up g)\<lparr>u_queue := q_fire (EvRemove (length xs)) (?q\<lparr>q_files := xs @ ys\<rparr>)\<rparr>\<rparr>"
  have "q_files (g_queue ?g) = xs @ ys" by (simp add: g_queue_def)
  moreover have "distinct (map f_id (xs @ ys))" using Cons.prems(1) by auto
  ultimately obtain q' where "block (map (\<lambda>f. remove_heard tm (f_id f)) zs') ?g =
      (None, ?g\<lparr>g_up := (g_up ?g)\<lparr>u_queue := q'\<rparr>\<rparr>)" "q_files q' = xs"
    using Cons.IH [of ?g zs'] Cons.prems(2) zs(3) by auto
  then show ?case using rm by (intro exI [of _ q']) (simp add: zs(1))
qed

lemma stop_ajax:
  assumes "u_kind u = Ajax" "u_active u" "u_cur u = Some j"
  shows "stop u = (None, u\<lparr>u_batch := None, u_cur := None,
    u_queue := q_fire (EvCancel (Some j)) (setFileStatus (Some (int j)) CANCEL (u_queue u))\<rparr>)"
  using assms by (simp add: stop_def set_batch_def cancel_def transport_stop_def uploadStopHandler_def Let_def
      with_queue_def cur_index_def set_cur_def fire_def andthen_def continueUpload_def)

text \<open>The maximum is reached, but the current file is below it: nothing is stopped.\<close>

lemma test_max_below:
  assumes "au_max c = Some (int m)" "0 < m" "m \<le> success_count g" "u_cur (g_up g) = Some i" "i < m"
  shows "test_max c g = (None, g\<lparr>g_disabled := True, g_errors := g_errors g @ [(''max'', -1)],
    g_up := (g_up g)\<lparr>u_allow := True, u_queue := q_fire (EvError None) (u_queue (g_up g))\<rparr>\<rparr>)"
  using assms
  by (simp add: test_max_def max_rule_def set_disabled_def set_allow_def on_up_def fireUploaderError_def Let_def
      with_queue_def fire_def max_heard_def maxStopUpload_def success_count_def andthen_def)

text \<open>The maximum is exceeded: the current file is stopped, those after it are removed.\<close>

lemma test_max_above:
  assumes "au_max c = Some (int m)" "0 < m" "m < success_count g" "u_cur (g_up g) = Some j" "m \<le> j"
    and "u_kind (g_up g) = Ajax" "u_active (g_up g)" "j < queue_size (g_queue g)" "distinct (ids (g_queue g))"
    and "\<forall>f \<in> set (drop (Suc j) (q_files (g_queue g))). f_status f \<noteq> Some SUCCESS"
  shows "\<exists>g' q'. test_max c g = (None, g') \<and> g_up g' = (g_up g)\<lparr>u_allow := True, u_batch := None, u_cur := None, u_queue := q'\<rparr> \<and>
    g_disabled g' \<and> q_files q' = take (Suc j) ((q_files (g_queue g))[j := (q_files (g_queue g) ! j)\<lparr>f_status := Some CANCEL\<rparr>])"
proof -
  let ?fs = "q_files (g_queue g)"
  let ?fs' = "?fs[j := (?fs ! j)\<lparr>f_status := Some CANCEL\<rparr>]"
  let ?q1 = "q_fire (EvCancel (Some j)) (setFileStatus (Some (int j)) CANCEL (q_fire (EvError None) (g_queue g)))"
  let ?u1 = "(g_up g)\<lparr>u_allow := False, u_queue := q_fire (EvError None) (g_queue g)\<rparr>"
  let ?u2 = "?u1\<lparr>u_batch := None, u_cur := None, u_queue := ?q1\<rparr>"
  let ?g1 = "g\<lparr>g_disabled := True, g_errors := g_errors g @ [(''max'', -1)], g_up := ?u1\<rparr>"
  let ?tm = "testMax (length ?fs) c"
  have j: "j < length ?fs" using assms(8) by (simp add: queue_size_def)
  have st: "on_up stop ?g1 = (None, ?g1\<lparr>g_up := ?u2\<rparr>)"
    using stop_ajax [of ?u1 j] assms(4,6,7) by (simp add: on_up_def)
  have q1: "q_files ?q1 = take (Suc j) ?fs' @ drop (Suc j) ?fs"
    using j by (simp add: setFileStatus_files) (metis append_take_drop_id drop_update_cancel lessI)
  have "map f_id ?fs' = map f_id ?fs"
    using j by (metis (no_types, lifting) list_update_id map_update qfile.select_convs(1) qfile.surjective qfile.update_convs(5))
  then have d: "distinct (map f_id (take (Suc j) ?fs' @ drop (Suc j) ?fs))"
    using assms(9) j by (metis append_take_drop_id drop_update_cancel ids_def lessI)
  obtain q' where q': "block (map (\<lambda>f. remove_heard ?tm (f_id f)) (drop (Suc j) ?fs)) (?g1\<lparr>g_up := ?u2\<rparr>) =
      (None, ?g1\<lparr>g_up := ?u2\<lparr>u_queue := q'\<rparr>\<rparr>)" "q_files q' = take (Suc j) ?fs'"
    using remove_suffix [OF d assms(10), of "?g1\<lparr>g_up := ?u2\<rparr>" "drop (Suc j) ?fs" ?tm] q1
    by (auto simp: g_queue_def)
  have heads: "map (\<lambda>(_, f). remove_heard ?tm (f_id f)) (filter (\<lambda>(i, _). j < i) (enumerate 0 ?fs)) =
      map (\<lambda>f. remove_heard ?tm (f_id f)) (drop (Suc j) ?fs)"
    unfolding enumerate_after [of 0 j ?fs, symmetric, simplified] by (simp add: case_prod_unfold)
  have "maxStopUpload ?tm c ?g1 = (None, ?g1\<lparr>g_up := ?u2\<lparr>u_queue := q', u_cur := None\<rparr>\<rparr>)"
    using assms(1-5) st q'(1) heads
    by (simp add: maxStopUpload_def success_count_def getFiles_def g_queue_def Let_def andthen_def on_up_def set_cur_def)
  then have "test_max c g = (None, ?g1\<lparr>g_up := ?u2\<lparr>u_queue := q', u_cur := None, u_allow := True\<rparr>\<rparr>)"
    using assms(1-3)
    by (simp add: test_max_def max_rule_def set_disabled_def set_allow_def on_up_def fireUploaderError_def Let_def
        with_queue_def fire_def max_heard_def success_count_def andthen_def g_queue_def)
  moreover have "?u2\<lparr>u_queue := q', u_cur := None, u_allow := True\<rparr> =
      (g_up g)\<lparr>u_allow := True, u_batch := None, u_cur := None, u_queue := q'\<rparr>"
    by (cases "g_up g") simp
  ultimately have "test_max c g =
      (None, ?g1\<lparr>g_up := (g_up g)\<lparr>u_allow := True, u_batch := None, u_cur := None, u_queue := q'\<rparr>\<rparr>)"
    by (simp only:)
  then show ?thesis using q'(2) by (auto intro!: exI [of _ q'])
qed

subsection \<open>The bound of testMax\<close>

definition g_len :: "guarded \<Rightarrow> nat" where
  "g_len g = length (ids (g_queue g))"

definition shrinks :: "guarded cmd \<Rightarrow> bool" where
  "shrinks d \<longleftrightarrow> (\<forall>g. g_len (snd (d g)) \<le> g_len g)"

named_theorems shrink_rules

lemma shrinks_skip [shrink_rules]: "shrinks skip"
  by (simp add: shrinks_def)

lemma shrinks_andthen [shrink_rules]: "shrinks a \<Longrightarrow> shrinks b \<Longrightarrow> shrinks (andthen a b)"
  unfolding shrinks_def andthen_def by (auto split: prod.splits option.splits) (metis le_trans snd_conv)+

lemma shrinks_block [shrink_rules]: "\<forall>a \<in> set cs. shrinks a \<Longrightarrow> shrinks (block cs)"
  by (induction cs) (auto intro: shrink_rules)

lemma shrinks_keep: "(\<And>u e v. d u = (e, v) \<Longrightarrow> ids (u_queue v) = ids (u_queue u)) \<Longrightarrow> shrinks (on_up d)"
  by (auto simp: shrinks_def g_len_def g_queue_def on_up_def split: prod.split)

lemma shrinks_set [shrink_rules]: "shrinks (set_allow b)" "shrinks (set_disabled b)" "shrinks (on_up (set_cur i))"
  by (auto simp: shrinks_def g_len_def g_queue_def set_allow_def set_disabled_def on_up_def set_cur_def)

lemma upload_ids: "upload k u = (e, v) \<Longrightarrow> ids (u_queue v) = ids (u_queue u)"
  by (auto simp: upload_def js_get_Some fire_def with_queue_def set_cur_def transport_upload_def andthen_def
      split: option.splits if_splits)

lemma continue_ids: "continueUpload u = (e, v) \<Longrightarrow> ids (u_queue v) = ids (u_queue u)"
  by (auto simp: continueUpload_def uploaderStatusFile_def set_batch_def fire_def with_queue_def andthen_def
      split: option.splits list.splits dest: upload_ids)

lemma shrinks_stop [shrink_rules]: "shrinks (on_up stop)"
proof (rule shrinks_keep)
  fix u e v
  assume "stop u = (e, v)"
  then show "ids (u_queue v) = ids (u_queue u)"
    by (auto simp: stop_def cancel_def set_batch_def transport_stop_def uploadStopHandler_def uploadComplete_def Let_def
        with_queue_def set_cur_def fire_def andthen_def split: transport.splits if_splits dest!: continue_ids)
qed

lemma remove_shorter: "remove_file r q = (Some f, q') \<Longrightarrow> length (ids q') < length (ids q)"
proof -
  assume "remove_file r q = (Some f, q')"
  then obtain i where "js_get (q_files q) i = Some f" "remove_file r q = remove_file (ByIndex i) q"
    by (cases r) (auto simp: remove_file_def Let_def split: option.splits)
  moreover from this obtain n where "i = int n" "n < length (q_files q)"
    by (metis js_get_Some int_nat_eq)
  ultimately show ?thesis
    using remove_index [of n q] \<open>remove_file r q = (Some f, q')\<close> by (auto simp: ids_def)
qed

lemma remove_heard_shrinks:
  assumes "shrinks tm" shows "shrinks (remove_heard tm i)"
  unfolding shrinks_def
proof
  fix g
  show "g_len (snd (remove_heard tm i g)) \<le> g_len g"
  proof (cases "remove_file (ById i) (u_queue (g_up g))")
    case (Pair x q')
    let ?g = "g\<lparr>g_up := (g_up g)\<lparr>u_queue := q'\<rparr>\<rparr>"
    have "g_len (snd (tm ?g)) \<le> g_len ?g" using assms by (simp add: shrinks_def)
    moreover have "x = Some f \<Longrightarrow> g_len ?g < g_len g" for f
      using remove_shorter [of "ById i" "u_queue (g_up g)" f q'] Pair by (simp add: g_len_def g_queue_def)
    ultimately show ?thesis
      using Pair by (cases x) (force simp: remove_heard_def Let_def)+
  qed
qed

lemma shrinks_maxStop: "shrinks tm \<Longrightarrow> shrinks (maxStopUpload tm c)"
proof -
  assume tm: "shrinks tm"
  have "shrinks (block [if b then on_up stop else skip,
      block (map (\<lambda>(_, f). remove_heard tm (f_id f)) fs), on_up (set_cur None)])" for b fs
    using remove_heard_shrinks [OF tm] by (auto intro!: shrink_rules)
  from this [of True] this [of False] show ?thesis
    unfolding shrinks_def maxStopUpload_def by (auto simp: Let_def split: option.splits)
qed

lemma shrinks_error: "shrinks heard \<Longrightarrow> shrinks (fireUploaderError heard rule f)"
proof -
  assume h: "shrinks heard"
  have "shrinks (block [on_up (with_queue (setFileStatus (Some k) ERROR)),
      (\<lambda>g. (None, g\<lparr>g_errors := g_errors g @ [e]\<rparr>)), on_up (fire ev), heard])" for k e ev
    using h by (intro shrinks_block)
      (auto simp: shrinks_def g_len_def g_queue_def on_up_def with_queue_def fire_def)
  then show ?thesis by (auto simp: shrinks_def fireUploaderError_def Let_def)
qed

lemma shrinks_testMax: "shrinks (testMax n c)"
proof (induction n)
  case (Suc n)
  have "shrinks (block [set_disabled True, set_allow False, fireUploaderError (max_heard (testMax n c) c) ''max'' None])"
    using Suc by (intro shrinks_block) (auto simp: max_heard_def intro!: shrink_rules shrinks_error shrinks_maxStop)
  moreover have "shrinks (block [set_disabled False, set_allow True])" by (intro shrinks_block) (auto intro: shrink_rules)
  ultimately show ?case by (auto simp: shrinks_def split: option.splits)
qed (simp add: shrinks_def)

text \<open>What the inner calls do matters only on shorter queues.\<close>

definition same_below :: "nat \<Rightarrow> guarded cmd \<Rightarrow> guarded cmd \<Rightarrow> bool" where
  "same_below n a b \<longleftrightarrow> (\<forall>g. g_len g < n \<longrightarrow> a g = b g)"

lemma remove_heard_same:
  assumes "same_below n tm tm'" "g_len g \<le> n"
  shows "remove_heard tm i g = remove_heard tm' i g"
proof (cases "remove_file (ById i) (u_queue (g_up g))")
  case (Pair x q')
  let ?g = "g\<lparr>g_up := (g_up g)\<lparr>u_queue := q'\<rparr>\<rparr>"
  have "x = Some f \<Longrightarrow> g_len ?g < n" for f
    using remove_shorter [of "ById i" "u_queue (g_up g)" f q'] Pair assms(2) by (simp add: g_len_def g_queue_def)
  then show ?thesis
    using Pair assms(1) by (cases x) (auto simp: remove_heard_def Let_def same_below_def)
qed

lemma removals_same:
  assumes "same_below n tm tm'" "shrinks tm" "g_len g \<le> n"
  shows "block (map (\<lambda>(_, f). remove_heard tm (f_id f)) fs) g = block (map (\<lambda>(_, f). remove_heard tm' (f_id f)) fs) g"
  using assms(3)
proof (induction fs arbitrary: g)
  case (Cons f fs)
  obtain e h where h: "remove_heard tm (f_id (snd f)) g = (e, h)" by (cases "remove_heard tm (f_id (snd f)) g")
  have "g_len h \<le> n"
    using remove_heard_shrinks [OF assms(2), of "f_id (snd f)"] h Cons.prems unfolding shrinks_def
    by (metis le_trans snd_conv)
  then show ?case
    using Cons.IH [of h] h remove_heard_same [OF assms(1) Cons.prems, of "f_id (snd f)"]
    by (cases e) (simp_all add: case_prod_unfold)
qed simp

lemma maxStop_same:
  assumes "same_below n tm tm'" "shrinks tm" "g_len g \<le> n"
  shows "maxStopUpload tm c g = maxStopUpload tm' c g"
proof -
  have "andthen (if b then on_up stop else skip) (andthen (block (map (\<lambda>(_, f). remove_heard tm (f_id f)) fs)) d) g =
      andthen (if b then on_up stop else skip) (andthen (block (map (\<lambda>(_, f). remove_heard tm' (f_id f)) fs)) d) g" for b fs d
  proof (cases "(if b then on_up stop else skip) g")
    case (Pair e h)
    have "shrinks (if b then on_up stop else skip)" by (simp add: shrink_rules)
    then have "g_len h \<le> g_len g" using Pair unfolding shrinks_def by (metis snd_conv)
    then have "g_len h \<le> n" using assms(3) by simp
    from removals_same [OF assms(1,2) this, of fs] show ?thesis using Pair by (cases e) (simp_all add: andthen_def)
  qed
  note steps = this [of True, simplified] this [of False, simplified]
  show ?thesis by (auto simp: maxStopUpload_def Let_def split: option.split intro: steps)
qed

lemma error_same:
  assumes "same_below n tm tm'" "shrinks tm" "g_len g \<le> n"
  shows "block [set_disabled True, set_allow False, fireUploaderError (max_heard tm c) ''max'' None] g =
    block [set_disabled True, set_allow False, fireUploaderError (max_heard tm' c) ''max'' None] g"
proof -
  let ?h = "g\<lparr>g_disabled := True, g_errors := g_errors g @ [(''max'', -1)],
    g_up := (g_up g)\<lparr>u_allow := False, u_queue := q_fire (EvError None) (u_queue (g_up g))\<rparr>\<rparr>"
  have "maxStopUpload tm c ?h = maxStopUpload tm' c ?h"
    by (rule maxStop_same [OF assms(1,2)]) (use assms(3) in \<open>simp add: g_len_def g_queue_def\<close>)
  then show ?thesis
    by (simp add: set_disabled_def set_allow_def on_up_def fireUploaderError_def Let_def with_queue_def fire_def
        max_heard_def andthen_def)
qed

lemma testMax_enough: "g_len g < k \<Longrightarrow> g_len g < l \<Longrightarrow> testMax k c g = testMax l c g"
proof (induction k arbitrary: l g)
  case (Suc k)
  obtain l' where l: "l = Suc l'" using Suc.prems(2) by (cases l) auto
  have "testMax k c h = testMax l' c h" if "g_len h < g_len g" for h
    by (rule Suc.IH) (use that Suc.prems l in simp_all)
  then have "same_below (g_len g) (testMax k c) (testMax l' c)" by (simp add: same_below_def)
  from error_same [OF this shrinks_testMax order_refl] show ?case by (simp add: l split: option.split)
qed simp

text \<open>
  C37: Counting the maximum ends. The bound on the depth of \<open>testMax\<close> is never reached: with any larger
  bound it does the same, and so it satisfies the equation of the source, in which it is called again,
  without a bound, from the removals of its own error handler.
\<close>

theorem test_max_equation:
  "test_max c g = testMax (Suc (g_len g) + k) c g \<and>
   test_max c g =
     (case max_rule c of
        None \<Rightarrow> skip g
      | Some m \<Rightarrow>
          if int (success_count g) < m then block [set_disabled False, set_allow True] g
          else block [set_disabled True, set_allow False, fireUploaderError (max_heard (test_max c) c) ''max'' None] g)"
proof -
  have len: "g_len h = length (q_files (u_queue (g_up h)))" for h by (simp add: g_len_def ids_def g_queue_def)
  have run: "test_max c h = testMax (Suc (g_len h)) c h" for h by (simp only: test_max_def len)
  have "testMax (g_len g) c h = test_max c h" if "g_len h < g_len g" for h
    unfolding run by (rule testMax_enough) (use that in simp_all)
  then have "same_below (g_len g) (testMax (g_len g) c) (test_max c)" by (simp add: same_below_def)
  note eq = error_same [OF this shrinks_testMax order_refl]
  have "testMax (Suc (g_len g)) c g =
     (case max_rule c of
        None \<Rightarrow> skip g
      | Some m \<Rightarrow>
          if int (success_count g) < m then block [set_disabled False, set_allow True] g
          else block [set_disabled True, set_allow False, fireUploaderError (max_heard (test_max c) c) ''max'' None] g)"
    unfolding testMax.simps eq [of c] ..
  moreover have "testMax (Suc (g_len g)) c g = testMax (Suc (g_len g) + k) c g"
    by (rule testMax_enough) simp_all
  ultimately show ?thesis unfolding run [of g] by (rule conjI [rotated])
qed

subsection \<open>A success that the plugin hears\<close>

lemma on_up_andthen: "andthen (on_up a) (on_up b) = on_up (andthen a b)"
  by (rule ext) (simp add: andthen_def on_up_def split: prod.splits option.splits)

lemma complete_heard_success:
  assumes "r_ok r"
  shows "complete_heard c (Some r) g = block
    [on_up (block [with_queue (updateFile (cur_index (g_up g)) (\<lambda>f. f\<lparr>f_result := Some r\<rparr>)),
       with_queue (setFileStatus (cur_index (g_up g)) SUCCESS), keep_url r, fire (EvSuccess (u_cur (g_up g)))]),
     test_max c,
     on_up (block [set_cur None, fire (EvComplete (u_cur (g_up g))), continueUpload])] g"
  using assms by (simp add: complete_heard_def Let_def andthen_assoc flip: on_up_andthen)

lemma count_toggle:
  assumes "i < n" "\<not> P i"
  shows "length (filter (\<lambda>k. k = i \<or> P k) [0 ..< n]) = Suc (length (filter P [0 ..< n]))"
proof -
  have len: "length (filter Q [0 ..< n]) = card {k. k < n \<and> Q k}" for Q
    using distinct_card [of "filter Q [0 ..< n]"] by simp
  have "{k. k < n \<and> (k = i \<or> P k)} = insert i {k. k < n \<and> P k}" using assms(1) by auto
  then show ?thesis using assms(2) by (simp add: len)
qed

lemma success_count_next:
  assumes "restatus (g_queue g) (\<lambda>j. if j = i then Some SUCCESS else queue_status (g_queue g) j) (g_queue g')"
    and "i < queue_size (g_queue g)" "queue_status (g_queue g) i \<noteq> Some SUCCESS"
  shows "success_count g' = Suc (success_count g)"
proof -
  have "filter (\<lambda>k. queue_status (g_queue g') k = Some SUCCESS) [0 ..< queue_size (g_queue g')] =
      filter (\<lambda>k. k = i \<or> queue_status (g_queue g) k = Some SUCCESS) [0 ..< queue_size (g_queue g)]"
    using assms(1) unfolding restatus_def by (intro filter_cong) auto
  then show ?thesis
    using count_toggle [OF assms(2), of "\<lambda>k. queue_status (g_queue g) k = Some SUCCESS"] assms(3)
    by (simp add: success_count_status)
qed

lemma upload_keeps:
  "upload k u = (e, v) \<Longrightarrow> ids (u_queue v) = ids (u_queue u) \<and> u_kind v = u_kind u \<and> (u_active u \<longrightarrow> u_active v)"
  by (auto simp: upload_def js_get_Some fire_def with_queue_def set_cur_def transport_upload_def andthen_def
      split: option.splits if_splits)

text \<open>One success below the maximum's index: the next file is started although the maximum is reached.\<close>

lemma max_reached_step:
  assumes "au_max c = Some (int m)" "0 < m" "in_batch (Some i) (j # js) (g_up g)" "i < m"
    and "Suc (success_count g) = m" "queue_status (g_queue g) i \<noteq> Some SUCCESS" "r_ok r"
  shows "\<exists>g'. complete_heard c (Some r) g = (None, g') \<and> g_disabled g' \<and> in_batch (Some j) js (g_up g') \<and>
    u_sent (g_up g') = u_sent (g_up g) @ [j] \<and> success_count g' = m \<and> ids (g_queue g') = ids (g_queue g) \<and>
    u_kind (g_up g') = u_kind (g_up g) \<and> (u_active (g_up g) \<longrightarrow> u_active (g_up g')) \<and>
    (\<forall>k. queue_status (g_queue g') k = (if k = j then Some START else if k = i then Some SUCCESS else queue_status (g_queue g) k))"
proof -
  let ?u = "g_up g"
  have i: "u_cur ?u = Some i" "i < queue_size (u_queue ?u)" "u_batch ?u = Some WAITING" "u_allow ?u"
    "i \<notin> set (j # js)" "getIndexs WAITING (u_queue ?u) = j # js" "\<forall>k \<in> set (j # js). queue_data (u_queue ?u) k"
    using assms(3) unfolding in_batch_def by simp_all
  obtain q1 where q1: "block [with_queue (updateFile (cur_index ?u) (\<lambda>f. f\<lparr>f_result := Some r\<rparr>)),
      with_queue (setFileStatus (cur_index ?u) SUCCESS), keep_url r, fire (EvSuccess (Some i))] ?u =
        (None, ?u\<lparr>u_queue := q1\<rparr>)"
    "restatus (u_queue ?u) (\<lambda>k. if k = i then Some SUCCESS else queue_status (u_queue ?u) k) q1"
    "ids q1 = ids (u_queue ?u)"
    using success_steps [OF i(1,2) assms(7)] by blast
  let ?g1 = "g\<lparr>g_up := ?u\<lparr>u_queue := q1\<rparr>\<rparr>"
  have count: "success_count ?g1 = m"
    using success_count_next [of g i ?g1] q1(2) i(2) assms(5,6) unfolding g_queue_def by simp
  let ?q2 = "q_fire (EvComplete (Some i)) (q_fire (EvError None) q1)"
  let ?u2 = "?u\<lparr>u_allow := True, u_cur := None, u_queue := ?q2\<rparr>"
  let ?h = "g\<lparr>g_disabled := True, g_errors := g_errors g @ [(''max'', -1)]\<rparr>"
  have q2: "restatus (u_queue ?u) (\<lambda>k. if k = i then Some SUCCESS else queue_status (u_queue ?u) k) ?q2"
    using restatus_trans [OF q1(2) restatus_trans [OF restatus_fire restatus_fire]]
      restatus_id [OF restatus_fire] restatus_id [OF q1(2)] by (auto intro: restatus_cong)
  have test: "test_max c ?g1 = (None, ?h\<lparr>g_up := ?u\<lparr>u_queue := q_fire (EvError None) q1, u_allow := True\<rparr>\<rparr>)"
    using test_max_below [OF assms(1,2), of ?g1 i] count i(1) assms(4) by (cases g; cases ?u) simp
  have run: "complete_heard c (Some r) g = on_up (uploaderStatusFile WAITING) (?h\<lparr>g_up := ?u2\<rparr>)"
    unfolding complete_heard_success [OF assms(7)] i(1)
    using q1(1) test i(3)
    by (simp add: on_up_def andthen_def set_cur_def fire_def with_queue_def continueUpload_def)
  have w: "getIndexs WAITING (u_queue ?u2) = j # js" using waiting_after [OF q2 _ i(2)] i(5,6) by simp
  have d: "\<forall>k \<in> set (j # js). queue_data (u_queue ?u2) k" using i(7) q2 unfolding restatus_def by simp
  obtain v where v: "uploaderStatusFile WAITING ?u2 = (None, v)" "in_batch (Some j) js v"
      "u_sent v = u_sent ?u @ [j]"
      "\<forall>k. queue_status (u_queue v) k = (if k = j then Some START else queue_status ?q2 k)"
    using next_in_batch [of ?u2 "j # js"] i(3) w d by (auto simp: busy_def)
  have "upload (int j) ?u2 = (None, v)" using v(1) w by (simp add: uploaderStatusFile_def)
  from upload_keeps [OF this] have keep: "ids (u_queue v) = ids (u_queue ?u)" "u_kind v = u_kind ?u" "u_active ?u \<longrightarrow> u_active v"
    using q1(3) by simp_all
  have st: "queue_status (u_queue v) k = (if k = j then Some START else if k = i then Some SUCCESS else queue_status (u_queue ?u) k)" for k
    using v(4) restatus_id [OF q2] by simp
  have size: "queue_size (u_queue v) = queue_size (u_queue ?u)" using keep(1) by (metis ids_def length_map queue_size_def)
  have "j \<in> set (getIndexs WAITING (u_queue ?u))" unfolding i(6) by simp
  then have jw: "queue_status (u_queue ?u) j = Some WAITING" unfolding uq.indexs_status by simp
  have "success_count (?h\<lparr>g_up := v\<rparr>) = success_count ?g1"
    unfolding success_count_status
    using st restatus_id [OF q1(2)] q1(2) size i(5) jw
    by (intro arg_cong [of _ _ length] filter_cong) (auto simp: g_queue_def restatus_def)
  then show ?thesis using run v(1-3) keep st count by (simp add: on_up_def g_queue_def)
qed

text \<open>One success beyond: the file is cancelled, the others are removed.\<close>

lemma max_exceeded_step:
  assumes "au_max c = Some (int m)" "0 < m" "in_batch (Some j) js (g_up g)" "m \<le> j" "success_count g = m"
    and "queue_status (g_queue g) j \<noteq> Some SUCCESS" "r_ok r" "u_kind (g_up g) = Ajax" "u_active (g_up g)"
    and "distinct (ids (g_queue g))" "\<forall>k>j. queue_status (g_queue g) k \<noteq> Some SUCCESS"
  shows "\<exists>g'. complete_heard c (Some r) g = (None, g') \<and> queue_size (g_queue g') = Suc j \<and>
    queue_status (g_queue g') j = Some CANCEL \<and> u_batch (g_up g') = None \<and> u_cur (g_up g') = None \<and>
    (\<forall>k<j. queue_status (g_queue g') k = queue_status (g_queue g) k)"
proof -
  let ?u = "g_up g"
  have j: "u_cur ?u = Some j" "j < queue_size (u_queue ?u)" using assms(3) unfolding in_batch_def by simp_all
  obtain q1 where q1: "block [with_queue (updateFile (cur_index ?u) (\<lambda>f. f\<lparr>f_result := Some r\<rparr>)),
      with_queue (setFileStatus (cur_index ?u) SUCCESS), keep_url r, fire (EvSuccess (Some j))] ?u =
        (None, ?u\<lparr>u_queue := q1\<rparr>)"
    "restatus (u_queue ?u) (\<lambda>k. if k = j then Some SUCCESS else queue_status (u_queue ?u) k) q1"
    "ids q1 = ids (u_queue ?u)"
    using success_steps [OF j assms(7)] by blast
  let ?g1 = "g\<lparr>g_up := ?u\<lparr>u_queue := q1\<rparr>\<rparr>"
  have count: "m < success_count ?g1"
    using success_count_next [of g j ?g1] q1(2) j(2) assms(5,6) unfolding g_queue_def by simp
  have gq: "g_queue ?g1 = q1" by (simp add: g_queue_def)
  have jl: "j < queue_size q1" using q1(2) j(2) by (simp add: restatus_def)
  have "f_status f \<noteq> Some SUCCESS" if f: "f \<in> set (drop (Suc j) (q_files q1))" for f
  proof -
    obtain k where "k < length (q_files q1) - Suc j" "f = drop (Suc j) (q_files q1) ! k"
      using f by (auto simp: in_set_conv_nth)
    then have k: "Suc j + k < length (q_files q1)" "f = q_files q1 ! (Suc j + k)" by simp_all
    have "queue_status q1 (Suc j + k) = queue_status (g_queue g) (Suc j + k)"
      using restatus_id [OF q1(2)] by (simp add: g_queue_def)
    moreover have "queue_status q1 (Suc j + k) = f_status f"
      unfolding queue_status_def fileStatus_index using k by simp
    moreover have "j < Suc j + k" by simp
    ultimately show ?thesis using assms(11) by metis
  qed
  then obtain g' q' where g': "test_max c ?g1 = (None, g')"
      "g_up g' = ?u\<lparr>u_allow := True, u_batch := None, u_cur := None, u_queue := q'\<rparr>"
      "q_files q' = take (Suc j) ((q_files q1)[j := (q_files q1 ! j)\<lparr>f_status := Some CANCEL\<rparr>])"
    using test_max_above [OF assms(1,2) count, of j] j assms(4,8,9,10) q1(3) gq jl by (auto simp: g_queue_def)
  have "complete_heard c (Some r) g = (None, g'\<lparr>g_up := (g_up g')\<lparr>u_cur := None, u_queue := q_fire (EvComplete (Some j)) q'\<rparr>\<rparr>)"
    unfolding complete_heard_success [OF assms(7)] j(1)
    using q1(1) g'(1,2)
    by (simp add: on_up_def andthen_def set_cur_def fire_def with_queue_def continueUpload_def)
  moreover have "queue_size q' = Suc j" using g'(3) jl by (simp add: queue_size_def)
  moreover have "queue_status (q_fire (EvComplete (Some j)) q') k = (if k = j then Some CANCEL else queue_status (g_queue g) k)"
    if "k \<le> j" for k
  proof (cases "k = j")
    case False
    have "queue_status q1 k = queue_status (g_queue g) k"
      using restatus_id [OF q1(2)] False by (simp add: g_queue_def)
    moreover have "queue_status q1 k = f_status (q_files q1 ! k)"
      using that jl by (simp add: queue_status_def fileStatus_index queue_size_def)
    ultimately show ?thesis
      using that jl False g'(3) by (simp add: queue_status_def fileStatus_index queue_size_def)
  qed (use jl g'(3) in \<open>simp add: queue_status_def fileStatus_index queue_size_def\<close>)
  ultimately show ?thesis using g'(2) by (simp add: g_queue_def queue_size_def)
qed

subsection \<open>Properties\<close>

text \<open>
  C18: The maximum lets one file too many through and then cancels it. In an ajax batch with \<open>max = m\<close>, the
  success that reaches the maximum disables the button and forbids uploading, but the plugin hears its
  own error and allows it again, so the next file is started; when that one has succeeded, too, it is
  marked as cancelled, the files after it are removed from the queue and the batch ends.
\<close>

theorem max_one_too_many:
  assumes "au_max c = Some (int m)" "0 < m" "in_batch (Some i) (j # js) (g_up g)" "i < m" "m \<le> j"
    and "Suc (success_count g) = m" "queue_status (g_queue g) i \<noteq> Some SUCCESS"
    and "\<forall>k>j. queue_status (g_queue g) k \<noteq> Some SUCCESS" "distinct (ids (g_queue g))"
    and "u_kind (g_up g) = Ajax" "u_active (g_up g)" "r_ok r" "r_ok r'"
  shows "\<exists>v w. complete_heard c (Some r) g = (None, v) \<and> g_disabled v \<and> u_cur (g_up v) = Some j \<and>
     u_sent (g_up v) = u_sent (g_up g) @ [j] \<and>
     complete_heard c (Some r') v = (None, w) \<and> queue_status (g_queue w) j = Some CANCEL \<and>
     queue_size (g_queue w) = Suc j \<and> u_batch (g_up w) = None \<and> u_cur (g_up w) = None"
proof -
  obtain v where v: "complete_heard c (Some r) g = (None, v)" "g_disabled v" "in_batch (Some j) js (g_up v)"
      "u_sent (g_up v) = u_sent (g_up g) @ [j]" "success_count v = m" "ids (g_queue v) = ids (g_queue g)"
      "u_kind (g_up v) = Ajax" "u_active (g_up v)"
      "\<forall>k. queue_status (g_queue v) k = (if k = j then Some START else if k = i then Some SUCCESS else queue_status (g_queue g) k)"
    using max_reached_step [OF assms(1-4,6,7,12)] assms(10,11) by auto
  have "queue_status (g_queue v) j \<noteq> Some SUCCESS" "\<forall>k>j. queue_status (g_queue v) k \<noteq> Some SUCCESS"
    using v(9) assms(4,5,8) by auto
  from max_exceeded_step [OF assms(1,2) v(3) assms(5) v(5) this(1) assms(13) v(7,8) _ this(2)]
  obtain w where "complete_heard c (Some r') v = (None, w)" "queue_size (g_queue w) = Suc j"
      "queue_status (g_queue w) j = Some CANCEL" "u_batch (g_up w) = None" "u_cur (g_up w) = None"
    using v(6) assms(9) by auto
  then show ?thesis using v(1-4) by (auto simp: in_batch_def)
qed

definition sample_auth :: auth where
  "sample_auth = \<lparr>au_max = Some 1, au_allowExts = Some ''jpg,png'', au_maxSize = Some 2, au_allowRepeat = True,
     au_widthHeight = None, au_msg = []\<rparr>"

definition sample_guarded :: guarded where
  "sample_guarded = \<lparr>g_up = sample_uploader, g_disabled = False, g_errors = [], g_images = []\<rparr>"

lemma sample_ids: "distinct (ids sample_queue)"
  by (simp add: ids_def sample_queue_def new_queue_def addFile_def setAddFileData_def sample_file_def Let_def guid_def
      dec_of_nat_inj)

theorem max_one_too_many_witness:
  "\<exists>v w. complete_heard sample_auth (Some good_answer) (snd (on_up (uploadFiles WAITING) sample_guarded)) = (None, v) \<and>
     g_disabled v \<and> u_sent (g_up v) = [0, 1] \<and> complete_heard sample_auth (Some good_answer) v = (None, w) \<and>
     queue_status (g_queue w) 1 = Some CANCEL"
proof -
  have s: "u_allow sample_uploader" "u_cur sample_uploader = None" "u_queue sample_uploader = sample_queue"
      "\<not> busy (u_cur sample_uploader)" "u_kind sample_uploader = Ajax" "u_sent sample_uploader = []"
    by (simp_all add: sample_uploader_def new_uploader_def busy_def)
  obtain v where v: "uploadFiles WAITING sample_uploader = (None, v)" "in_batch (Some 0) [1] v"
      "\<forall>k. queue_status (u_queue v) k = (if k = 0 then Some START else queue_status sample_queue k)" "u_sent v = [0]"
    using uploadFiles_starts [of sample_uploader "[0, 1]"] s sample_waiting sample_data by auto
  have up: "upload 0 (sample_uploader\<lparr>u_batch := Some WAITING\<rparr>) = (None, v)"
    using s v(1) by (simp add: uploadFiles_def set_batch_def andthen_def uploaderStatusFile_def sample_waiting)
  have k: "ids (u_queue v) = ids sample_queue" "u_kind v = Ajax"
    using upload_keeps [OF up] s by simp_all
  obtain q where "upload (int 0) (sample_uploader\<lparr>u_batch := Some WAITING\<rparr>) =
      (None, sample_uploader\<lparr>u_batch := Some WAITING, u_queue := q, u_cur := Some 0, u_active := True,
        u_sent := u_sent sample_uploader @ [0]\<rparr>)"
    using upload_starts [of "sample_uploader\<lparr>u_batch := Some WAITING\<rparr>" 0] s sample_data [of 0] sample_status [of 0]
    by auto
  then have act: "u_active v" using up by auto
  let ?g = "sample_guarded\<lparr>g_up := v\<rparr>"
  have size: "queue_size (u_queue v) = 2"
    using k(1) sample_length by (metis ids_def length_map queue_size_def)
  have none: "queue_status (u_queue v) n \<noteq> Some SUCCESS" for n
    using v(3) sample_status [of n] sample_length
    by (cases "n < 2") (auto simp: queue_status_def fileStatus_index)
  have count: "success_count ?g = 0" using none by (simp add: success_count_status g_queue_def)
  have g: "snd (on_up (uploadFiles WAITING) sample_guarded) = ?g"
    using v(1) by (simp add: on_up_def sample_guarded_def)
  show ?thesis
    unfolding g
    using max_one_too_many [of sample_auth 1 0 1 "[]" ?g good_answer good_answer] v(2,4) k act count none sample_ids
    by (auto simp: sample_auth_def g_queue_def good_answer_def)
qed

lemma report_ok:
  assumes "distinct (ids (g_queue g))" "i < queue_size (g_queue g)"
  shows "\<exists>g'. report rule (q_files (g_queue g) ! i) g = (None, g') \<and>
    restatus (g_queue g) (\<lambda>j. if j = i then Some ERROR else queue_status (g_queue g) j) (g_queue g') \<and>
    u_allow (g_up g') \<and> g_errors g' = g_errors g @ [(rule, int i)] \<and> g_images g' = g_images g \<and>
    u_sent (g_up g') = u_sent (g_up g)"
proof -
  have idx: "getFileIndex (f_id (q_files (g_queue g) ! i)) (u_queue (g_up g)) = int i"
    using getFileIndex_unique [of "g_queue g" i] assms by (simp add: ids_def g_queue_def queue_size_def)
  let ?q = "q_fire (EvError (Some i)) (setFileStatus (Some (int i)) ERROR (g_queue g))"
  have "restatus (g_queue g) (\<lambda>j. if j = i then Some ERROR else queue_status (g_queue g) j) ?q"
    by (rule restatus_cong [OF restatus_trans [OF restatus_set [OF assms(2), of ERROR] restatus_fire]])
      (use restatus_id [OF restatus_set [OF assms(2), of ERROR]] in simp)
  then show ?thesis
    using idx
    by (simp add: report_def fireUploaderError_def Let_def on_up_def with_queue_def fire_def set_allow_def
        andthen_def g_queue_def)
qed

text \<open>
  A file that fails the test of its extension or of its size is never uploaded by a batch: it is
  marked as failed and reported, no other file changes, no image is read for it, and uploading stays
  allowed.
\<close>

theorem file_rejected:
  assumes "distinct (ids (g_queue g))" "i < queue_size (g_queue g)" "f = q_files (g_queue g) ! i"
    and "\<not> fst (testAllowExt regexp c f) \<or> \<not> fst (testMaxSize c f)"
  shows "\<exists>g'. file_added regexp c now f g = (None, g') \<and> i \<notin> set (getIndexs WAITING (g_queue g')) \<and>
     queue_status (g_queue g') = (queue_status (g_queue g))(i := Some ERROR) \<and>
     snd (last (g_errors g')) = int i \<and> g_images g' = g_images g \<and> u_allow (g_up g') \<and>
     u_sent (g_up g') = u_sent (g_up g)"
proof -
  obtain rule where r: "file_added regexp c now f = report rule f"
    using assms(4) by (auto simp: file_added_def testAllowExt_def testMaxSize_def split: if_splits option.splits)
  obtain g' where g': "report rule f g = (None, g')"
    "restatus (g_queue g) (\<lambda>j. if j = i then Some ERROR else queue_status (g_queue g) j) (g_queue g')"
    "u_allow (g_up g')" "g_errors g' = g_errors g @ [(rule, int i)]" "g_images g' = g_images g"
    "u_sent (g_up g') = u_sent (g_up g)"
    using report_ok [OF assms(1,2), of rule] assms(3) by auto
  have "i \<notin> set (getIndexs WAITING (g_queue g'))" unfolding restatus_getIndexs [OF g'(2)] by simp
  then show ?thesis using r g' restatus_id [OF g'(2)] by (auto simp: fun_upd_def)
qed

theorem file_rejected_witness:
  "\<exists>g'. file_added (\<lambda>_ _. False) (sample_auth\<lparr>au_allowExts := Some ''gif''\<rparr>) None (q_files sample_queue ! 1) sample_guarded = (None, g') \<and>
     1 \<notin> set (getIndexs WAITING (g_queue g')) \<and> u_allow (g_up g')"
proof -
  have q: "g_queue sample_guarded = sample_queue"
    by (simp add: g_queue_def sample_guarded_def sample_uploader_def)
  have n: "f_name (q_files sample_queue ! 1) = ''a.jpg''"
    by (simp add: sample_queue_def new_queue_def addFile_def setAddFileData_def sample_file_def Let_def)
  have "\<not> fst (testAllowExt (\<lambda>_ _. False) (sample_auth\<lparr>au_allowExts := Some ''gif''\<rparr>) (q_files sample_queue ! 1))"
    unfolding testAllowExt_def n
    by (simp add: sample_auth_def isAllowUpload_def ext_test_def plain_char_def to_lower_def Let_def char_of_eq_iff)
  from file_rejected [of sample_guarded 1 _ _ _ None, unfolded q, OF sample_ids _ refl] this show ?thesis
    using sample_length by (auto simp: queue_size_def)
qed

text \<open>
  The extension rule asks for less and for more than an extension: a name that ends with the letters
  of an allowed extension passes without a dot, and an extension configured with a capital letter
  lets no file through.
\<close>

theorem ext_rule:
  assumes "list_all plain_char ext" "map to_lower e = ext" "2 \<le> length stem"
    and "list_all (\<lambda>ch. ch \<noteq> CHR 0x0A \<and> ch \<noteq> CHR 0x0D) (map to_lower stem)"
    and "list_all plain_char cap" "to_lower ch \<noteq> ch" "ch \<in> set cap"
  shows "isAllowUpload regexp (ext # exts) (stem @ e) \<and> \<not> isAllowUpload regexp [cap] name"
proof -
  have len: "length e = length ext" using assms(2) by auto
  have idem: "to_lower (to_lower x) = to_lower x" for x
    by (auto simp: to_lower_def)
  have "drop k (map to_lower name) \<noteq> cap" for k
  proof
    assume "drop k (map to_lower name) = cap"
    then have "ch \<in> set (map to_lower name)" using assms(7) in_set_dropD [of ch k "map to_lower name"] by simp
    then show False using assms(6) idem by auto
  qed
  then have "\<not> ext_test regexp cap (map to_lower name)"
    using assms(5) by (auto simp: ext_test_def Let_def)
  then show ?thesis
    using assms len by (simp add: isAllowUpload_def ext_test_def Let_def)
qed

theorem ext_rule_witness:
  "isAllowUpload (\<lambda>_ _. False) [''jpg''] ''xxjpg'' \<and> \<not> isAllowUpload (\<lambda>_ _. False) [''JPG''] ''x.JPG''"
  using ext_rule [of "''jpg''" "''jpg''" "''xx''" "''JPG''" "CHR ''J''" "\<lambda>_ _. False" "[]" "''x.JPG''"]
  by (simp add: plain_char_def to_lower_def Let_def char_of_eq_iff)

end
