(* ===== verification/ImageTheme.thy ===== *)
theory ImageTheme
  imports UploadAuth
begin

section \<open>The image theme\<close>

text \<open>
  \<open>themes/imageUploader/index.js\<close>: the base class \<open>Theme\<close>, which shows each file of the queue as a list
  item, and \<open>ImageUploader\<close>, with previews, error messages, a counter and a delete button. The state is
  the uploader and, by file id, what the page shows: the status classes of an item, and where the theme
  has set them its mask, its error message, its progress bar and the address of its preview (the empty text at first).
\<close>

record image_page =
  im_up :: uploader
  im_hasCount :: bool
  im_count :: "int option"
  im_classes :: "(string, file_status list) obj"
  im_masks :: "(string, bool) obj"
  im_msgs :: "(string, string) obj"
  im_srcs :: "(string, string) obj"
  im_proBars :: bool
  im_bars :: "(string, bool) obj"

definition on_uploader :: "uploader cmd \<Rightarrow> image_page cmd" where
  "on_uploader c p = (case c (im_up p) of (e, u) \<Rightarrow> (e, p\<lparr>im_up := u\<rparr>))"

subsection \<open>Status and messages\<close>

text \<open>
  \<open>_setStatusVisibility\<close>: the listed statuses are taken off (\<open>cancel\<close> is not among them), the file's
  status is put on; \<open>None\<close> is an event without a file. A file without a status or item is not shown.
\<close>

definition setStatusVisibility :: "qfile option \<Rightarrow> image_page cmd" where
  "setStatusVisibility file p =
     (case file of
        None \<Rightarrow> skip p
      | Some f \<Rightarrow>
          (case (f_status f, map_of (im_classes p) (f_id f)) of
             (Some st, Some old) \<Rightarrow>
               (None, p\<lparr>im_classes := obj_set (f_id f)
                  (filter (\<lambda>c. c \<notin> {WAITING, START, PROGRESS, ERROR, SUCCESS} \<and> c \<noteq> st) old @ [st]) (im_classes p)\<rparr>)
           | _ \<Rightarrow> skip p))"

definition renderHandler :: "image_page cmd \<Rightarrow> qfile option \<Rightarrow> image_page cmd" where
  "renderHandler handler file = block [setStatusVisibility file, handler]"

text \<open>Nothing hides the mask of a file that failed, and nothing shows it again.\<close>

definition setDisplayMsg :: "bool \<Rightarrow> string \<Rightarrow> image_page cmd" where
  "setDisplayMsg isShow ident p =
     (if ERROR \<in> set (case map_of (im_classes p) ident of None \<Rightarrow> [] | Some cs \<Rightarrow> cs) then skip p
      else (None, p\<lparr>im_masks := obj_set ident isShow (im_masks p)\<rparr>))"

text \<open>An item is appended for an added file; its mask and its message are those of the template.\<close>

definition appendFileDom :: "qfile \<Rightarrow> image_page cmd" where
  "appendFileDom f p = (None, p\<lparr>im_classes := obj_set (f_id f) [] (im_classes p),
     im_srcs := obj_set (f_id f) [] (im_srcs p), im_bars := obj_set (f_id f) True (im_bars p)\<rparr>)"

text \<open>\<open>ev.msg || ev.result.msg || ev.result.message\<close>, given as texts.\<close>

definition error_shown :: "string \<Rightarrow> qfile option \<Rightarrow> image_page cmd" where
  "error_shown msg file p =
     (case file of
        None \<Rightarrow> skip p
      | Some f \<Rightarrow> block [(\<lambda>p. (None, p\<lparr>im_msgs := obj_set (f_id f) msg (im_msgs p)\<rparr>)), setDisplayMsg True (f_id f)] p)"

subsection \<open>The counter and the previews\<close>

definition getFilesLen :: "file_status option \<Rightarrow> image_page \<Rightarrow> nat" where
  "getFilesLen st p = length (getFiles (case st of None \<Rightarrow> SUCCESS | Some s \<Rightarrow> s) (u_queue (im_up p)))"

text \<open>The maximum is that of the validation plugin, if there is one.\<close>

definition setCount :: "auth option \<Rightarrow> image_page cmd" where
  "setCount auth p =
     (case auth of
        None \<Rightarrow> skip p
      | Some c \<Rightarrow>
          (case max_rule c of
             None \<Rightarrow> skip p
           | Some m \<Rightarrow> if \<not> im_hasCount p then skip p
                       else (None, p\<lparr>im_count := Some (m - int (getFilesLen None p))\<rparr>)))"

definition changeImageSrc :: "bool \<Rightarrow> string \<Rightarrow> string \<Rightarrow> image_page cmd" where
  "changeImageSrc safari ident url p =
     (if map_of (im_srcs p) ident = Some [] \<or> safari
      then (None, p\<lparr>im_srcs := obj_set ident url (im_srcs p)\<rparr>) else skip p)"

text \<open>Without the plugin for progress bars the place of the bar is hidden at the end.\<close>

definition success_shown :: "auth option \<Rightarrow> bool \<Rightarrow> qfile \<Rightarrow> string \<Rightarrow> image_page cmd" where
  "success_shown auth safari f url = block
     [setCount auth,
      (if f_result f \<noteq> None then changeImageSrc safari (f_id f) url else skip),
      (\<lambda>p. (None, p\<lparr>im_masks := obj_set (f_id f) False (im_masks p)\<rparr>)),
      (\<lambda>p. if im_proBars p then skip p else (None, p\<lparr>im_bars := obj_set (f_id f) False (im_bars p)\<rparr>))]"

subsection \<open>Deleting\<close>

text \<open>
  The click on a file's delete button: \<open>f\<close> is the file as it is now. \<open>_removeFileDom\<close> and
  \<open>_removeHandler\<close> follow from the queue's event.
\<close>

definition removed_shown :: "auth option \<Rightarrow> string \<Rightarrow> image_page cmd" where
  "removed_shown auth ident = block
     [(\<lambda>p. (None, p\<lparr>im_classes := filter (\<lambda>(k, _). k \<noteq> ident) (im_classes p),
         im_masks := filter (\<lambda>(k, _). k \<noteq> ident) (im_masks p),
         im_msgs := filter (\<lambda>(k, _). k \<noteq> ident) (im_msgs p),
         im_srcs := filter (\<lambda>(k, _). k \<noteq> ident) (im_srcs p),
         im_bars := filter (\<lambda>(k, _). k \<noteq> ident) (im_bars p)\<rparr>)),
      setCount auth]"

definition remove_shown :: "auth option \<Rightarrow> int \<Rightarrow> image_page cmd" where
  "remove_shown auth index p =
     (case remove_file (ByIndex index) (u_queue (im_up p)) of
        (None, _) \<Rightarrow> skip p
      | (Some f, q) \<Rightarrow> removed_shown auth (f_id f) (p\<lparr>im_up := (im_up p)\<lparr>u_queue := q\<rparr>\<rparr>))"

definition delHandler :: "auth option \<Rightarrow> qfile \<Rightarrow> image_page cmd" where
  "delHandler auth f p =
     (let index = getFileIndex (f_id f) (u_queue (im_up p)) in block
        [(if f_status f = Some START \<or> f_status f = Some PROGRESS then on_uploader (cancel (Some index)) else skip),
         remove_shown auth index] p)"

subsection \<open>Properties\<close>

lemma setCount_up: "\<exists>p'. setCount auth p = (None, p') \<and> im_up p' = im_up p"
  by (auto simp: setCount_def split: option.splits)

lemma removed_up: "\<exists>p'. removed_shown auth i p = (None, p') \<and> im_up p' = im_up p"
  by (simp add: removed_shown_def andthen_def) (metis (no_types, lifting) image_page.select_convs(1)
      image_page.surjective image_page.update_convs(4-9) setCount_up)

text \<open>
  C23: Deleting a finished or waiting file while a later one is uploading misdirects the answer. The queue
  moves up, but the current index stays: the answer is recorded for the file behind the one that was
  uploaded, which keeps its old status.
\<close>

theorem delete_misdirects:
  assumes "distinct (ids (u_queue (im_up p)))" "u_cur (im_up p) = Some i" "k < i"
    and "Suc i < queue_size (u_queue (im_up p))" "u_batch (im_up p) = None"
    and "queue_status (u_queue (im_up p)) k \<noteq> Some START" "queue_status (u_queue (im_up p)) k \<noteq> Some PROGRESS"
  shows "\<exists>v w. delHandler auth (q_files (u_queue (im_up p)) ! k) p = (None, v) \<and>
     q_files (u_queue (im_up v)) ! (i - 1) = q_files (u_queue (im_up p)) ! i \<and>
     q_files (u_queue (im_up v)) ! i = q_files (u_queue (im_up p)) ! Suc i \<and>
     uploadComplete (Some r) (im_up v) = (None, w) \<and> u_cur w = None \<and>
     queue_status (u_queue w) i = Some (done_status r) \<and>
     queue_status (u_queue w) (i - 1) = queue_status (u_queue (im_up p)) i"
proof -
  let ?q = "u_queue (im_up p)"
  let ?fs = "q_files ?q"
  have k: "k < length ?fs" using assms(3,4) by (simp add: queue_size_def)
  have idx: "getFileIndex (f_id (?fs ! k)) ?q = int k"
    using getFileIndex_unique [of ?q k] assms(1) k by (simp add: ids_def)
  let ?q' = "q_fire (EvRemove k) (?q\<lparr>q_files := take k ?fs @ drop (Suc k) ?fs\<rparr>)"
  let ?p = "p\<lparr>im_up := (im_up p)\<lparr>u_queue := ?q'\<rparr>\<rparr>"
  obtain v where v: "removed_shown auth (f_id (?fs ! k)) ?p = (None, v)" "im_up v = im_up ?p"
    using removed_up by blast
  have "f_status (?fs ! k) \<noteq> Some START" "f_status (?fs ! k) \<noteq> Some PROGRESS"
    using assms(6,7) k by (simp_all add: queue_status_def fileStatus_index)
  then have run: "delHandler auth (?fs ! k) p = (None, v)"
    using v(1) k idx by (simp add: delHandler_def remove_shown_def remove_index)
  have at: "(take k ?fs @ drop (Suc k) ?fs) ! n = ?fs ! Suc n" if "k \<le> n" "Suc n < length ?fs" for n
    using that k by (simp add: nth_append min_def)
  have files: "q_files (u_queue (im_up v)) = take k ?fs @ drop (Suc k) ?fs" using v(2) by simp
  have size: "i < queue_size (u_queue (im_up v))" using assms(4) k by (simp add: queue_size_def files)
  obtain q'' where c: "uploadComplete (Some r) (im_up v) = continueUpload ((im_up v)\<lparr>u_cur := None, u_queue := q''\<rparr>)"
      "restatus (u_queue (im_up v)) (\<lambda>j. if j = i then Some (if r_ok r then SUCCESS else ERROR)
        else queue_status (u_queue (im_up v)) j) q''"
    using complete_before [of "im_up v" i r] size v(2) assms(2) by auto
  let ?w = "(im_up v)\<lparr>u_cur := None, u_queue := q''\<rparr>"
  have w: "uploadComplete (Some r) (im_up v) = (None, ?w)"
    unfolding c(1) using assms(5) v(2) by (simp add: continueUpload_def)
  have "queue_status (u_queue (im_up v)) (i - 1) = queue_status ?q i"
  proof -
    have "i - 1 < length ?fs - 1" using assms(3,4) by (simp add: queue_size_def)
    then show ?thesis
      unfolding queue_status_def fileStatus_index files
      using at [of "i - 1"] assms(3,4) k by (simp add: queue_size_def)
  qed
  moreover have "i - 1 \<noteq> i" using assms(3) by simp
  ultimately have st: "queue_status q'' i = Some (done_status r)" "queue_status q'' (i - 1) = queue_status ?q i"
    using restatus_id [OF c(2)] by (simp_all add: done_status_def)
  have "q_files (u_queue (im_up v)) ! (i - 1) = ?fs ! i" "q_files (u_queue (im_up v)) ! i = ?fs ! Suc i"
    using at [of "i - 1"] at [of i] assms(3,4) by (simp_all add: files queue_size_def)
  then show ?thesis using run w st by (intro exI [of _ v] exI [of _ ?w]) simp
qed

definition three_files :: queue where
  "three_files = fold addFile [sample_file, sample_file, sample_file] new_queue"

definition sample_page :: image_page where
  "sample_page = \<lparr>im_up = (new_uploader Ajax)\<lparr>u_queue := three_files, u_cur := Some 1\<rparr>, im_hasCount = False,
     im_count = None, im_classes = [], im_masks = [], im_msgs = [], im_srcs = [], im_proBars = False, im_bars = []\<rparr>"

theorem delete_misdirects_witness:
  "\<exists>v w. delHandler None (q_files three_files ! 0) sample_page = (None, v) \<and>
     uploadComplete (Some good_answer) (im_up v) = (None, w) \<and> queue_status (u_queue w) 1 = Some SUCCESS \<and>
     queue_status (u_queue w) 0 = Some WAITING"
proof -
  have fs: "map f_id (q_files three_files) = [''file-0'', ''file-1'', ''file-2'']"
      "map f_status (q_files three_files) = [Some WAITING, Some WAITING, Some WAITING]"
    by (simp_all add: three_files_def new_queue_def addFile_def setAddFileData_def sample_file_def Let_def guid_def
        dec_of_nat.simps digit_char_def char_of_eq_iff)
  have len: "length (q_files three_files) = 3" using arg_cong [OF fs(1), of length] by simp
  have st: "queue_status three_files n = Some WAITING" if "n < 3" for n
  proof -
    have "map f_status (q_files three_files) ! n = Some WAITING"
      using that unfolding fs(2) by (auto simp: nth_Cons' )
    then show ?thesis using that len by (simp add: queue_status_def fileStatus_index)
  qed
  have p: "u_queue (im_up sample_page) = three_files" "u_cur (im_up sample_page) = Some 1" "u_batch (im_up sample_page) = None"
    by (simp_all add: sample_page_def new_uploader_def)
  have d: "distinct (ids three_files)" unfolding ids_def fs(1) by simp
  show ?thesis
    using delete_misdirects [of sample_page 1 0 None good_answer] d len st [of 0] st [of 1]
    unfolding p by (auto simp: queue_size_def done_status_def good_answer_def)
qed

end
