(* ===== verification/UploadRestore.thy ===== *)
theory UploadRestore
  imports UploadAuth
begin

section \<open>Restoring uploaded files\<close>

text \<open>
  \<open>Uploader.restore\<close> (in \<open>kg/uploader/2.0.2/index.js\<close>): files of an earlier visit, described in the page as
  JSON, are put into the queue as uploaded. It runs with the validation plugin, which leaves restored files
  alone when they are added, but counts them. \<open>JSON.parse\<close> is the parameter \<open>parse\<close>: an error, \<open>null\<close>, a value without
  entries (an object, a number), or an array of objects, of which the names and addresses are kept. The file's
  own \<open>url\<close>, which nothing reads, is left out.
\<close>

record restoring =
  rs_guarded :: guarded
  rs_hasRestore :: bool

definition on_guarded :: "guarded cmd \<Rightarrow> restoring cmd" where
  "on_guarded c r = (case c (rs_guarded r) of (e, g) \<Rightarrow> (e, r\<lparr>rs_guarded := g\<rparr>))"

type_synonym entry = "string option \<times> string option"

datatype parsed = NotJson | NullValue | NoEntries | Entries "entry list"

definition saved_file :: "entry \<Rightarrow> string \<times> upload_result" where
  "saved_file x = (case fst x of None \<Rightarrow> [] | Some n \<Rightarrow> n, \<lparr>r_ok = True, r_msg = None, r_url = snd x\<rparr>)"

text \<open>One entry is added and made \<open>success\<close>, which the plugin hears.\<close>

definition restore_entry :: "auth \<Rightarrow> entry \<Rightarrow> guarded cmd" where
  "restore_entry c x = block [on_up (restore_one (saved_file x)), test_max c]"

text \<open>
  Where the description is: the scripts of the theme's list, as type and text, of which the last of the right
  type counts, or the text of an element. A theme without such a script leaves \<open>undefined\<close> to be parsed.
\<close>

datatype restore_from = NoTheme | NoList | Scripts "(string \<times> string) list" | NoElement | Element string

definition last_script :: "string \<Rightarrow> (string \<times> string) list \<Rightarrow> string option" where
  "last_script wanted scripts = fold (\<lambda>(ty, html) found. if ty = wanted then Some html else found) scripts None"

definition restore_text :: "restore_from \<Rightarrow> string option option" where
  "restore_text src =
     (case src of
        NoTheme \<Rightarrow> None | NoList \<Rightarrow> None | NoElement \<Rightarrow> None
      | Scripts scripts \<Rightarrow> Some (last_script ''text/uploader-files'' scripts) | Element text \<Rightarrow> Some (Some text))"

definition restore_entries :: "auth \<Rightarrow> entry list \<Rightarrow> guarded cmd" where
  "restore_entries c xs = block (map (restore_entry c) xs)"

definition restore :: "(string \<Rightarrow> parsed) \<Rightarrow> auth \<Rightarrow> restore_from \<Rightarrow> restoring cmd" where
  "restore parse c src r =
     (let r = r\<lparr>rs_hasRestore := True\<rparr> in
      case restore_text src of
        None \<Rightarrow> skip r
      | Some text \<Rightarrow>
          (case (case text of None \<Rightarrow> NotJson | Some t \<Rightarrow> parse t) of
             NotJson \<Rightarrow> throw SyntaxError r
           | NullValue \<Rightarrow> throw TypeError r
           | NoEntries \<Rightarrow> skip r
           | Entries xs \<Rightarrow> on_guarded (restore_entries c xs) r))"

lemma last_script_none: "\<forall>(ty, html) \<in> set scripts. ty \<noteq> wanted \<Longrightarrow> last_script wanted scripts = None"
  unfolding last_script_def by (induction scripts) auto

subsection \<open>Properties\<close>

text \<open>The file as it is in the queue afterwards.\<close>

definition restored_as :: "nat \<Rightarrow> entry \<Rightarrow> qfile" where
  "restored_as n x = \<lparr>f_id = ''file-'' @ dec_of_nat n, f_name = fst (saved_file x), f_size = 0, f_textSize = None,
     f_status = Some SUCCESS, f_result = Some (snd (saved_file x)), f_sUrl = None, f_data = False\<rparr>"

lemma restore_one_steps:
  assumes "ids_ok (u_queue u)"
  shows "\<exists>q. restore_one (saved_file x) u = (None, u\<lparr>u_queue := q\<rparr>) \<and> ids_ok q \<and>
    q_files q = q_files (u_queue u) @ [restored_as (q_guid (u_queue u)) x] \<and> q_guid q = Suc (q_guid (u_queue u))"
proof -
  let ?q = "u_queue u"
  let ?n = "length (q_files ?q)"
  let ?f = "\<lparr>f_id = [], f_name = fst (saved_file x), f_size = 0, f_textSize = None, f_status = None,
     f_result = Some (snd (saved_file x)), f_sUrl = None, f_data = False\<rparr>"
  let ?f1 = "?f\<lparr>f_id := guid ?q, f_status := Some WAITING\<rparr>"
  obtain q' where a: "setAddFileData ?f ?q = (?f1, q')" "q_files q' = q_files ?q @ [?f1]" "q_guid q' = Suc (q_guid ?q)"
    by (simp add: setAddFileData_def Let_def)
  have ok: "ids_ok (addFile ?f ?q)" by (rule ids_ok_addFile [OF assms]) simp
  then have "distinct (map f_id (q_files q'))" using a by (simp add: addFile_def ids_ok_def)
  then have index: "getFileIndex (f_id ?f1) q' = int ?n"
    using getFileIndex_unique [of q' ?n] a(2) by simp
  let ?q1 = "q_fire (EvSuccess None) (setFileStatus (Some (int ?n)) SUCCESS (addFile ?f ?q))"
  have "restore_one (saved_file x) u = (None, u\<lparr>u_queue := ?q1\<rparr>)"
    using a(1) index by (simp add: restore_one_def Let_def with_queue_def fire_def andthen_def)
  moreover have "ids_ok ?q1" using ids_ok_setFileStatus [OF ok, of ?n SUCCESS] by (simp add: ids_ok_def)
  moreover have "q_files ?q1 = q_files ?q @ [restored_as (q_guid ?q) x]"
    using a by (simp add: setFileStatus_files addFile_def restored_as_def guid_def)
  moreover have "q_guid ?q1 = Suc (q_guid ?q)"
    using a by (simp add: addFile_def setFileStatus_def updateFile_def split: option.split)
  ultimately show ?thesis by blast
qed

lemma restore_entry_steps:
  assumes "ids_ok (g_queue g)"
  shows "\<exists>g'. restore_entry c x g = test_max c g' \<and> g_disabled g' = g_disabled g \<and> u_cur (g_up g') = u_cur (g_up g) \<and>
    q_files (g_queue g') = q_files (g_queue g) @ [restored_as (q_guid (g_queue g)) x] \<and>
    q_guid (g_queue g') = Suc (q_guid (g_queue g)) \<and> ids_ok (g_queue g')"
proof -
  obtain q where q: "restore_one (saved_file x) (g_up g) = (None, (g_up g)\<lparr>u_queue := q\<rparr>)" "ids_ok q"
      "q_files q = q_files (g_queue g) @ [restored_as (q_guid (g_queue g)) x]" "q_guid q = Suc (q_guid (g_queue g))"
    using restore_one_steps [of "g_up g" x] assms by (auto simp: g_queue_def)
  let ?g = "g\<lparr>g_up := (g_up g)\<lparr>u_queue := q\<rparr>\<rparr>"
  have "restore_entry c x g = test_max c ?g" using q(1) by (simp add: restore_entry_def on_up_def andthen_def)
  then show ?thesis using q(2-4) by (intro exI [of _ ?g]) (simp add: g_queue_def)
qed

lemma test_max_idle:
  assumes "u_cur (g_up g) = None"
  shows "\<exists>g'. test_max c g = (None, g') \<and> u_cur (g_up g') = None \<and> q_files (g_queue g') = q_files (g_queue g) \<and>
    q_guid (g_queue g') = q_guid (g_queue g) \<and>
    g_disabled g' = (case max_rule c of None \<Rightarrow> g_disabled g | Some m \<Rightarrow> m \<le> int (success_count g'))"
proof (cases "max_rule c")
  case None
  then show ?thesis using assms by (simp add: test_max_def)
next
  case (Some m)
  show ?thesis
  proof (cases "int (success_count g) < m")
    case True
    then show ?thesis using Some assms
      by (simp add: test_max_def set_disabled_def set_allow_def on_up_def andthen_def success_count_def g_queue_def)
  next
    case False
    then show ?thesis using Some assms
      by (simp add: test_max_def set_disabled_def set_allow_def on_up_def andthen_def success_count_def g_queue_def
          fireUploaderError_def max_heard_def maxStopUpload_def with_queue_def fire_def getFiles_def Let_def)
  qed
qed

lemma ids_ok_same: "q_files q' = q_files q \<Longrightarrow> q_guid q' = q_guid q \<Longrightarrow> ids_ok q' = ids_ok q"
  by (simp add: ids_ok_def)

lemma restore_entries_add:
  assumes "ids_ok (g_queue g)" "u_cur (g_up g) = None"
  shows "\<exists>g'. restore_entries c xs g = (None, g') \<and> ids_ok (g_queue g') \<and> u_cur (g_up g') = None \<and>
    q_files (g_queue g') = q_files (g_queue g) @ map (\<lambda>(k, x). restored_as k x) (enumerate (q_guid (g_queue g)) xs) \<and>
    g_disabled g' = (case max_rule c of None \<Rightarrow> g_disabled g
      | Some m \<Rightarrow> if xs = [] then g_disabled g else m \<le> int (success_count g'))"
  using assms
proof (induction xs arbitrary: g)
  case Nil
  then show ?case by (simp add: restore_entries_def split: option.split)
next
  case (Cons x xs)
  obtain g1 where g1: "restore_entry c x g = test_max c g1" "g_disabled g1 = g_disabled g" "u_cur (g_up g1) = None"
      "q_files (g_queue g1) = q_files (g_queue g) @ [restored_as (q_guid (g_queue g)) x]"
      "q_guid (g_queue g1) = Suc (q_guid (g_queue g))" "ids_ok (g_queue g1)"
    using restore_entry_steps [OF Cons.prems(1), of c x] Cons.prems(2) by auto
  obtain g2 where g2: "test_max c g1 = (None, g2)" "u_cur (g_up g2) = None" "q_files (g_queue g2) = q_files (g_queue g1)"
      "q_guid (g_queue g2) = q_guid (g_queue g1)"
      "g_disabled g2 = (case max_rule c of None \<Rightarrow> g_disabled g1 | Some m \<Rightarrow> m \<le> int (success_count g2))"
    using test_max_idle [OF g1(3)] by blast
  have "ids_ok (g_queue g2)" using ids_ok_same [OF g2(3,4)] g1(6) by simp
  from Cons.IH [OF this g2(2)]
  obtain g' where g': "restore_entries c xs g2 = (None, g')" "ids_ok (g_queue g')" "u_cur (g_up g') = None"
      "q_files (g_queue g') = q_files (g_queue g2) @ map (\<lambda>(k, x). restored_as k x) (enumerate (q_guid (g_queue g2)) xs)"
      "g_disabled g' = (case max_rule c of None \<Rightarrow> g_disabled g2
        | Some m \<Rightarrow> if xs = [] then g_disabled g2 else m \<le> int (success_count g'))"
    by blast
  have "restore_entries c (x # xs) g = (None, g')"
    using g1(1) g2(1) g'(1) by (simp add: restore_entries_def andthen_def)
  moreover have "xs = [] \<Longrightarrow> g' = g2" using g'(1) by (simp add: restore_entries_def)
  ultimately show ?case
    using g'(2-5) g2(3-5) g1(2,4,5) by (auto split: option.splits)
qed

text \<open>
  C22: Restoring a list that describes files, while none is being uploaded, puts every one of them at the end of the queue,
  in order, as uploaded, with a fresh id and its address; the files before are untouched, nothing fails, and with a
  maximum the uploader is disabled afterwards exactly if the maximum has been reached, and enabled otherwise.
\<close>

theorem restore_adds:
  assumes "ids_ok (g_queue (rs_guarded r))" "u_cur (g_up (rs_guarded r)) = None"
    and "restore_text src = Some (Some txt)" "parse txt = Entries xs" "xs \<noteq> []"
  shows "\<exists>r'. restore parse c src r = (None, r') \<and> rs_hasRestore r' \<and> ids_ok (g_queue (rs_guarded r')) \<and>
    q_files (g_queue (rs_guarded r')) = q_files (g_queue (rs_guarded r)) @
      map (\<lambda>(k, x). restored_as k x) (enumerate (q_guid (g_queue (rs_guarded r))) xs) \<and>
    g_disabled (rs_guarded r') = (case max_rule c of None \<Rightarrow> g_disabled (rs_guarded r)
      | Some m \<Rightarrow> m \<le> int (success_count (rs_guarded r')))"
proof -
  obtain g' where g': "restore_entries c xs (rs_guarded r) = (None, g')" "ids_ok (g_queue g')"
      "q_files (g_queue g') = q_files (g_queue (rs_guarded r)) @
        map (\<lambda>(k, x). restored_as k x) (enumerate (q_guid (g_queue (rs_guarded r))) xs)"
      "g_disabled g' = (case max_rule c of None \<Rightarrow> g_disabled (rs_guarded r) | Some m \<Rightarrow> m \<le> int (success_count g'))"
    using restore_entries_add [OF assms(1,2), of c xs] by (simp only: assms(5) if_False) blast
  have "restore parse c src r = (None, r\<lparr>rs_hasRestore := True, rs_guarded := g'\<rparr>)"
    using assms(3,4) g'(1) by (simp add: restore_def Let_def on_guarded_def)
  then show ?thesis using g'(2-4) by (simp cong: option.case_cong)
qed

definition page_guarded :: guarded where
  "page_guarded = \<lparr>g_up = new_uploader Ajax, g_disabled = False, g_errors = [], g_images = []\<rparr>"

theorem restore_adds_witness:
  "\<exists>r'. restore (\<lambda>_. Entries [(Some ''a.gif'', Some ''/a'')]) (sample_auth\<lparr>au_max := Some 1\<rparr>)
     (Element ''[..]'') \<lparr>rs_guarded = page_guarded, rs_hasRestore = False\<rparr> = (None, r') \<and>
     map f_name (q_files (g_queue (rs_guarded r'))) = [''a.gif''] \<and> g_disabled (rs_guarded r')"
proof -
  let ?r = "\<lparr>rs_guarded = page_guarded, rs_hasRestore = False\<rparr>" and ?c = "sample_auth\<lparr>au_max := Some 1\<rparr>"
  have g: "g_queue (rs_guarded ?r) = new_queue" "u_cur (g_up (rs_guarded ?r)) = None"
    by (simp_all add: page_guarded_def g_queue_def new_uploader_def)
  have ok: "ids_ok new_queue" by (simp add: ids_ok_def new_queue_def)
  have m: "max_rule ?c = Some 1" by (simp add: max_rule_def)
  obtain r' where r': "restore (\<lambda>_. Entries [(Some ''a.gif'', Some ''/a'')]) ?c (Element ''[..]'') ?r = (None, r')"
      "q_files (g_queue (rs_guarded r')) = q_files new_queue @
        map (\<lambda>(k, x). restored_as k x) (enumerate (q_guid new_queue) [(Some ''a.gif'', Some ''/a'')])"
      "g_disabled (rs_guarded r') = (1 \<le> int (success_count (rs_guarded r')))"
    using restore_adds [of ?r "Element ''[..]''" "''[..]''" "\<lambda>_. Entries [(Some ''a.gif'', Some ''/a'')]" "[(Some ''a.gif'', Some ''/a'')]" ?c]
      ok g m by (auto simp: restore_text_def)
  have "q_files (g_queue (rs_guarded r')) = [restored_as 0 (Some ''a.gif'', Some ''/a'')]"
    using r'(2) by (simp add: new_queue_def)
  moreover from this have "success_count (rs_guarded r') = 1"
    by (simp add: success_count_def getFiles_def g_queue_def restored_as_def)
  ultimately show ?thesis using r' by (simp add: restored_as_def saved_file_def)
qed

text \<open>
  A theme whose list holds no description makes restoring fail on \<open>undefined\<close>, with the queue as it was;
  the uploader counts as restored all the same, which switches the previews off.
\<close>

theorem restore_missing:
  assumes "\<forall>(ty, html) \<in> set scripts. ty \<noteq> ''text/uploader-files''"
  shows "restore parse c (Scripts scripts) r = (Some SyntaxError, r\<lparr>rs_hasRestore := True\<rparr>)"
  using last_script_none [OF assms] by (simp add: restore_def restore_text_def)

theorem restore_missing_witness:
  "\<forall>r0. restore (\<lambda>_. NullValue) sample_auth (Scripts [(''text/uploader-theme'', ''<li></li>'')]) r0 = (Some SyntaxError, r0\<lparr>rs_hasRestore := True\<rparr>)"
  by (rule allI, rule restore_missing) simp

end
