(* ===== verification/ThemeEvents.thy ===== *)
theory ThemeEvents
  imports ImageTheme UploadRestore
begin

section \<open>A theme at work\<close>

text \<open>
  \<open>themes/imageUploader/index.js\<close>: how a theme is set on an uploader (\<open>Uploader.theme\<close> in
  \<open>kg/uploader/2.0.2/index.js\<close>, \<open>Theme.render\<close>) and how it hears the uploader's events (\<open>_bind\<close>), with the
  handlers of \<open>ImageUploader\<close>. Filling a template, a function of the
  library, and the appearance of items are not modelled.
\<close>

subsection \<open>Setting a theme\<close>

record theme =
  th_name :: string
  th_fileTpl :: string
  th_queue :: "(string \<times> string) list option"
  th_bound :: bool

record themed =
  td_theme :: "theme option"
  td_queueCls :: "string list"
  td_buttonCls :: "string list"
  td_rendered :: "theme option list"

text \<open>The scripts in the theme's list, by type and text; \<open>None\<close>: there is no list.\<close>

definition tplFormHtml :: "theme \<Rightarrow> theme" where
  "tplFormHtml t =
     (case th_queue t of
        None \<Rightarrow> t
      | Some scripts \<Rightarrow>
          (case last_script ''text/uploader-theme'' scripts of None \<Rightarrow> t | Some html \<Rightarrow> t\<lparr>th_fileTpl := html\<rparr>))"

definition addThemeCssName :: "theme \<Rightarrow> themed \<Rightarrow> themed" where
  "addThemeCssName t d =
     (if th_queue t = None \<or> th_name t = [] then d
      else d\<lparr>td_queueCls := td_queueCls d @ [''ks-uploader-queue'', th_name t @ ''-queue''],
             td_buttonCls := td_buttonCls d @ [th_name t @ ''-button'']\<rparr>)"

definition theme_render :: "theme \<Rightarrow> themed \<Rightarrow> themed" where
  "theme_render t d = (let t' = (tplFormHtml t)\<lparr>th_bound := True\<rparr> in (addThemeCssName t d)\<lparr>td_theme := Some t'\<rparr>)"

text \<open>\<open>theme\<close>: the event \<open>themeRender\<close> carries the theme read at the start.\<close>

definition set_theme :: "theme option \<Rightarrow> themed \<Rightarrow> themed" where
  "set_theme oTheme d =
     (case oTheme of
        None \<Rightarrow> d
      | Some t \<Rightarrow>
          if td_theme d \<noteq> None then d
          else let d' = theme_render t d in d'\<lparr>td_rendered := td_rendered d' @ [td_theme d]\<rparr>)"

subsection \<open>Hearing events\<close>

text \<open>
  What an event brings: the file (for an error perhaps none), the address of an answer, and for an error its
  message and that of its result (\<open>None\<close>: no result).
\<close>

datatype theme_event =
    ThAdd nat qfile | ThRemove qfile | ThSelect | ThStart qfile | ThProgress "qfile option"
  | ThSuccess qfile string | ThError string "(string \<times> string) option" "qfile option" | ThComplete "qfile option"

text \<open>\<open>ev.msg || ev.result.msg || ev.result.message\<close>\<close>

definition themeErrorHandler :: "string \<Rightarrow> (string \<times> string) option \<Rightarrow> qfile option \<Rightarrow> image_page cmd" where
  "themeErrorHandler msg result file =
     (if msg \<noteq> [] then error_shown msg file
      else case result of
             None \<Rightarrow> throw TypeError
           | Some (m, message) \<Rightarrow> error_shown (if m \<noteq> [] then m else message) file)"

definition removeFileDom :: "qfile \<Rightarrow> image_page cmd" where
  "removeFileDom f p = (None, p\<lparr>im_classes := filter (\<lambda>(k, _). k \<noteq> f_id f) (im_classes p)\<rparr>)"

text \<open>
  The listeners in the order \<open>_bind\<close> sets them: those of \<open>add\<close> and \<open>remove\<close> first, then for each event the
  status and the handler of its name; \<open>complete\<close> has none. Updating the queue with the new item is left out.
\<close>

definition on_theme :: "auth option \<Rightarrow> bool \<Rightarrow> theme_event \<Rightarrow> image_page cmd" where
  "on_theme auth safari ev =
     (case ev of
        ThAdd index f \<Rightarrow> block [appendFileDom f, renderHandler skip (Some f)]
      | ThRemove f \<Rightarrow> block [removeFileDom f, renderHandler (setCount auth) (Some f)]
      | ThSelect \<Rightarrow> renderHandler skip None
      | ThStart f \<Rightarrow> renderHandler skip (Some f)
      | ThProgress f \<Rightarrow> renderHandler skip f
      | ThSuccess f url \<Rightarrow> renderHandler (success_shown auth safari f url) (Some f)
      | ThError msg result f \<Rightarrow> renderHandler (themeErrorHandler msg result f) f
      | ThComplete f \<Rightarrow> renderHandler skip f)"

definition event_file :: "theme_event \<Rightarrow> qfile option" where
  "event_file ev =
     (case ev of
        ThAdd _ f \<Rightarrow> Some f | ThRemove f \<Rightarrow> None | ThSelect \<Rightarrow> None | ThStart f \<Rightarrow> Some f | ThProgress f \<Rightarrow> f
      | ThSuccess f _ \<Rightarrow> Some f | ThError _ _ f \<Rightarrow> f | ThComplete f \<Rightarrow> f)"

subsection \<open>Properties\<close>

text \<open>Commands that leave the classes of items alone.\<close>

definition keeps_classes :: "image_page cmd \<Rightarrow> bool" where
  "keeps_classes c \<longleftrightarrow> (\<forall>p. im_classes (snd (c p)) = im_classes p)"

lemma keeps_classes_basic [intro]: "keeps_classes skip" "keeps_classes (throw e)" "keeps_classes (setCount auth)"
    "keeps_classes (changeImageSrc s i u)" "keeps_classes (setDisplayMsg b i)" "keeps_classes (\<lambda>p. (None, p\<lparr>im_masks := f p\<rparr>))"
    "keeps_classes (\<lambda>p. (None, p\<lparr>im_msgs := g p\<rparr>))"
    "keeps_classes (\<lambda>p. if im_proBars p then skip p else (None, p\<lparr>im_bars := h p\<rparr>))"
  by (simp_all add: keeps_classes_def setCount_def changeImageSrc_def setDisplayMsg_def split: option.split)

lemma keeps_classes_andthen [intro]: "keeps_classes c \<Longrightarrow> keeps_classes d \<Longrightarrow> keeps_classes (andthen c d)"
  unfolding keeps_classes_def andthen_def by (auto split: prod.split option.split) (metis snd_conv)+

lemma keeps_classes_success: "keeps_classes (success_shown auth safari f url)"
  unfolding success_shown_def block.simps by (auto intro!: keeps_classes_andthen keeps_classes_basic simp del: andthen_skip)

lemma keeps_classes_error: "keeps_classes (themeErrorHandler msg result f)"
proof -
  have "keeps_classes (error_shown m f)" for m
  proof (cases f)
    case (Some x)
    have "keeps_classes (block [(\<lambda>p. (None, p\<lparr>im_msgs := obj_set (f_id x) m (im_msgs p)\<rparr>)), setDisplayMsg True (f_id x)])"
      unfolding block.simps by (intro keeps_classes_andthen keeps_classes_basic)
    then show ?thesis using Some by (simp add: keeps_classes_def error_shown_def)
  qed (simp add: keeps_classes_def error_shown_def)
  then show ?thesis by (auto simp: themeErrorHandler_def split: option.split)
qed

lemma setStatus_shown:
  assumes "f_status f = Some st" "map_of (im_classes p) (f_id f) = Some old"
  shows "\<exists>p' cs. setStatusVisibility (Some f) p = (None, p') \<and> map_of (im_classes p') (f_id f) = Some cs \<and>
    set cs \<inter> {WAITING, START, PROGRESS, ERROR, SUCCESS} \<subseteq> {st} \<and> st \<in> set cs"
  using assms by (auto simp: setStatusVisibility_def map_of_obj_set)

lemma renderHandler_shown:
  assumes "keeps_classes h" "f_status f = Some st" "map_of (im_classes p) (f_id f) = Some old"
  shows "\<exists>cs. map_of (im_classes (snd (renderHandler h (Some f) p))) (f_id f) = Some cs \<and>
    set cs \<inter> {WAITING, START, PROGRESS, ERROR, SUCCESS} \<subseteq> {st} \<and> st \<in> set cs"
proof -
  obtain p' cs where p': "setStatusVisibility (Some f) p = (None, p')" "map_of (im_classes p') (f_id f) = Some cs"
      "set cs \<inter> {WAITING, START, PROGRESS, ERROR, SUCCESS} \<subseteq> {st}" "st \<in> set cs"
    using setStatus_shown [OF assms(2,3)] by blast
  then have "snd (renderHandler h (Some f) p) = snd (h p')" by (simp add: renderHandler_def)
  then show ?thesis using p' assms(1) by (simp add: keeps_classes_def)
qed

text \<open>
  After every event about a file that has an item (an added file gets one) the item is marked with the
  file's status, and with none of the other statuses an upload passes, also if the handler fails. A mark of
  \<open>cancel\<close>, which no listener takes off, may stay beside it.
\<close>

theorem item_status:
  assumes "event_file ev = Some f" "f_status f = Some st"
    and "(\<forall>k g. ev \<noteq> ThAdd k g) \<longrightarrow> map_of (im_classes p) (f_id f) \<noteq> None"
  shows "\<exists>cs. map_of (im_classes (snd (on_theme auth safari ev p))) (f_id f) = Some cs \<and>
    set cs \<inter> {WAITING, START, PROGRESS, ERROR, SUCCESS} \<subseteq> {st} \<and> st \<in> set cs"
proof (cases ev)
  case (ThAdd k g)
  then have "g = f" using assms(1) by (simp add: event_file_def)
  moreover have "map_of (im_classes (snd (appendFileDom f p))) (f_id f) = Some []"
    by (simp add: appendFileDom_def map_of_obj_set)
  ultimately show ?thesis
    using ThAdd renderHandler_shown [OF keeps_classes_basic(1) assms(2), of "snd (appendFileDom f p)" "[]"]
    by (auto simp: on_theme_def andthen_def appendFileDom_def)
qed (use assms renderHandler_shown [of _ f st p] keeps_classes_success keeps_classes_error in
    \<open>auto simp: event_file_def on_theme_def\<close>)

theorem item_status_witness:
  "\<exists>cs. map_of (im_classes (snd (on_theme None False (ThAdd 0 (sample_file\<lparr>f_status := Some WAITING\<rparr>)) sample_page))) (f_id sample_file) = Some cs \<and>
     WAITING \<in> set cs"
  using item_status [of "ThAdd 0 (sample_file\<lparr>f_status := Some WAITING\<rparr>)" "sample_file\<lparr>f_status := Some WAITING\<rparr>" WAITING sample_page None False]
  by (auto simp: event_file_def)

text \<open>
  An error event with neither a message nor a result makes the handler fail, after the item has been marked.
\<close>

lemma error_without_result:
  assumes "f_status f = Some ERROR" "map_of (im_classes p) (f_id f) \<noteq> None"
  shows "fst (on_theme auth safari (ThError [] None (Some f)) p) = Some TypeError"
proof -
  obtain p' where "setStatusVisibility (Some f) p = (None, p')" using setStatus_shown [OF assms(1)] assms(2) by blast
  then show ?thesis by (simp add: on_theme_def renderHandler_def themeErrorHandler_def)
qed

text \<open>
  An uploader keeps its first theme: a second one changes nothing. The first takes its template from the
  last script of the right type in its list, and \<open>themeRender\<close> is fired without it.
\<close>

theorem theme_once:
  assumes "td_theme d = None"
  shows "\<exists>t'. td_theme (set_theme (Some t) d) = Some t' \<and> th_bound t' \<and>
      th_fileTpl t' = (case Option.bind (th_queue t) (last_script ''text/uploader-theme'') of None \<Rightarrow> th_fileTpl t | Some html \<Rightarrow> html) \<and>
      td_rendered (set_theme (Some t) d) = td_rendered d @ [None]"
    and "set_theme u (set_theme (Some t) d) = set_theme (Some t) d"
  using assms
  by (auto simp: set_theme_def theme_render_def tplFormHtml_def addThemeCssName_def Let_def split: option.splits)

end
