(* ===== verification/ThemeHover.thy ===== *)
theory ThemeHover
  imports ThemeEvents
begin

section \<open>The mouse over the image theme\<close>

text \<open>
  \<open>_addHandler\<close> of \<open>themes/imageUploader/index.js\<close> binds handlers to the item of an added file: the mouse shows and
  hides its delete button and its mask. \<open>_restore\<close>, which shows files of an earlier visit, belongs to the base class.
\<close>

record hover_page =
  hv_page :: image_page
  hv_bound :: "string list"
  hv_del :: "(string, bool) obj"

definition on_page :: "image_page cmd \<Rightarrow> hover_page cmd" where
  "on_page c h = (case c (hv_page h) of (e, p) \<Rightarrow> (e, h\<lparr>hv_page := p\<rparr>))"

definition addHandler :: "string \<Rightarrow> hover_page cmd" where
  "addHandler ident h = (None, h\<lparr>hv_bound := hv_bound h @ [ident]\<rparr>)"

text \<open>Every handler that is bound does the same again.\<close>

definition mouse :: "bool \<Rightarrow> string \<Rightarrow> hover_page cmd" where
  "mouse isOver ident h =
     (if ident \<in> set (hv_bound h)
      then block [(\<lambda>h. (None, h\<lparr>hv_del := obj_set ident isOver (hv_del h)\<rparr>)), on_page (setDisplayMsg isOver ident)] h
      else skip h)"

text \<open>The theme hears an event; the item of a removed file goes with its handlers.\<close>

definition hear_theme :: "auth option \<Rightarrow> bool \<Rightarrow> theme_event \<Rightarrow> hover_page cmd" where
  "hear_theme auth safari ev =
     (case ev of
        ThAdd _ f \<Rightarrow> block [on_page (on_theme auth safari ev), addHandler (f_id f)]
      | ThRemove f \<Rightarrow> block
          [on_page (on_theme auth safari ev), (\<lambda>h. (None, h\<lparr>hv_bound := filter (\<lambda>i. i \<noteq> f_id f) (hv_bound h)\<rparr>))]
      | _ \<Rightarrow> on_page (on_theme auth safari ev))"

text \<open>
  \<open>_restore\<close>: the status is written into the file itself, without an event of the queue; the item is added by the event
  that is fired.
\<close>

definition restore_item :: "auth option \<Rightarrow> bool \<Rightarrow> nat \<Rightarrow> hover_page cmd" where
  "restore_item auth safari i h =
     (let q = u_queue (im_up (hv_page h)); f = (q_files q ! i)\<lparr>f_status := Some SUCCESS\<rparr>;
          url = (case f_result f of None \<Rightarrow> [] | Some r \<Rightarrow> case r_url r of None \<Rightarrow> [] | Some u \<Rightarrow> u) in block
        [on_page (on_uploader (\<lambda>u. (None, u\<lparr>u_queue := q\<lparr>q_files := (q_files q)[i := f]\<rparr>\<rparr>))),
         hear_theme auth safari (ThAdd i f),
         on_page (renderHandler (success_shown auth safari f url) (Some f))] h)"

definition restore_theme :: "bool option \<Rightarrow> auth option \<Rightarrow> bool \<Rightarrow> hover_page cmd" where
  "restore_theme autoRestore auth safari h =
     (if autoRestore = Some True
      then block (map (restore_item auth safari) [0..<queue_size (u_queue (im_up (hv_page h)))]) h
      else skip h)"

subsection \<open>The item of a file\<close>

definition same_item :: "string \<Rightarrow> image_page \<Rightarrow> image_page \<Rightarrow> bool" where
  "same_item i p q \<longleftrightarrow> map_of (im_classes q) i = map_of (im_classes p) i \<and> map_of (im_masks q) i = map_of (im_masks p) i \<and>
     map_of (im_msgs q) i = map_of (im_msgs p) i"

definition leaves :: "string \<Rightarrow> image_page cmd \<Rightarrow> bool" where
  "leaves i c \<longleftrightarrow> (\<forall>p. same_item i p (snd (c p)))"

lemma leaves_andthen [intro]: "leaves i c \<Longrightarrow> leaves i d \<Longrightarrow> leaves i (andthen c d)"
  unfolding leaves_def same_item_def andthen_def by (auto split: prod.split option.split) (metis snd_conv)+

lemma map_of_filter_other [simp]: "i \<noteq> k \<Longrightarrow> map_of (filter (\<lambda>(j, _). j \<noteq> k) xs) i = map_of xs i"
  by (induction xs) auto

lemma leaves_basic [intro]:
  "leaves i skip" "leaves i (throw e)" "leaves i (setCount auth)" "leaves i (changeImageSrc s k u)"
  "leaves i (\<lambda>p. if im_proBars p then skip p else (None, p\<lparr>im_bars := h p\<rparr>))"
  "k \<noteq> i \<Longrightarrow> leaves i (setDisplayMsg b k)" "k \<noteq> i \<Longrightarrow> leaves i (\<lambda>p. (None, p\<lparr>im_masks := obj_set k b (im_masks p)\<rparr>))"
  "k \<noteq> i \<Longrightarrow> leaves i (\<lambda>p. (None, p\<lparr>im_msgs := obj_set k m (im_msgs p)\<rparr>))"
  "f_id f \<noteq> i \<Longrightarrow> leaves i (setStatusVisibility (Some f))" "leaves i (setStatusVisibility None)"
  "f_id f \<noteq> i \<Longrightarrow> leaves i (appendFileDom f)" "f_id f \<noteq> i \<Longrightarrow> leaves i (removeFileDom f)"
  by (auto simp: leaves_def same_item_def setCount_def changeImageSrc_def setDisplayMsg_def setStatusVisibility_def appendFileDom_def
      removeFileDom_def map_of_obj_set split: option.split)

text \<open>The file an event is about.\<close>

definition about :: "theme_event \<Rightarrow> qfile option" where
  "about ev = (case ev of ThRemove f \<Rightarrow> Some f | _ \<Rightarrow> event_file ev)"

lemma leaves_error: "(\<forall>g. f = Some g \<longrightarrow> f_id g \<noteq> i) \<Longrightarrow> leaves i (themeErrorHandler msg result f)"
proof -
  assume f: "\<forall>g. f = Some g \<longrightarrow> f_id g \<noteq> i"
  have "leaves i (error_shown m f)" for m
  proof (cases f)
    case None
    then show ?thesis by (simp add: leaves_def same_item_def error_shown_def)
  next
    case (Some g)
    have "leaves i (block [(\<lambda>p. (None, p\<lparr>im_msgs := obj_set (f_id g) m (im_msgs p)\<rparr>)), setDisplayMsg True (f_id g)])"
      unfolding block.simps using f Some by (intro leaves_andthen leaves_basic) auto
    then show ?thesis using Some by (simp add: leaves_def error_shown_def)
  qed
  then show ?thesis by (auto simp: themeErrorHandler_def split: option.split)
qed

lemma leaves_success: "f_id f \<noteq> i \<Longrightarrow> leaves i (success_shown auth safari f url)"
  unfolding success_shown_def block.simps by (auto intro!: leaves_andthen leaves_basic simp del: andthen_skip)

lemma leaves_render: "leaves i c \<Longrightarrow> (\<forall>g. f = Some g \<longrightarrow> f_id g \<noteq> i) \<Longrightarrow> leaves i (renderHandler c f)"
  unfolding renderHandler_def block.simps by (cases f) (auto intro!: leaves_andthen leaves_basic simp del: andthen_skip)

lemma leaves_theme:
  assumes "\<forall>g. about ev = Some g \<longrightarrow> f_id g \<noteq> i"
  shows "leaves i (on_theme auth safari ev)"
  using assms
  by (cases ev)
    (auto simp: on_theme_def about_def event_file_def simp del: andthen_skip intro!: leaves_andthen leaves_render leaves_basic leaves_error leaves_success)

text \<open>What happens beside a file: the mouse is moved over any item, and events about others are heard.\<close>

inductive quiet_step :: "string \<Rightarrow> hover_page \<Rightarrow> hover_page \<Rightarrow> bool" for i where
  Mouse: "quiet_step i h (snd (mouse isOver k h))"
| Other: "\<forall>g. about ev = Some g \<longrightarrow> f_id g \<noteq> i \<Longrightarrow> quiet_step i h (snd (hear_theme auth safari ev h))"

definition failed_item :: "string \<Rightarrow> hover_page \<Rightarrow> bool" where
  "failed_item i h \<longleftrightarrow> (\<exists>cs. map_of (im_classes (hv_page h)) i = Some cs \<and> ERROR \<in> set cs)"

lemma hear_page: "hv_page (snd (hear_theme auth safari ev h)) = snd (on_theme auth safari ev (hv_page h))"
  by (cases ev) (auto simp: hear_theme_def on_page_def addHandler_def andthen_def split: prod.split option.split)

lemma mouse_page: "hv_page (snd (mouse isOver k h)) = (if k \<in> set (hv_bound h) then snd (setDisplayMsg isOver k (hv_page h)) else hv_page h)"
  by (auto simp: mouse_def on_page_def andthen_def split: prod.split option.split)

lemma failed_mask_kept: "failed_item i h \<Longrightarrow> same_item i (hv_page h) (snd (setDisplayMsg b k (hv_page h)))"
  using leaves_basic(6) [of k i b] by (cases "k = i") (auto simp: leaves_def failed_item_def setDisplayMsg_def same_item_def)

lemma quiet_kept:
  assumes "quiet_step i h h'" "failed_item i h"
  shows "failed_item i h' \<and> same_item i (hv_page h) (hv_page h')"
proof -
  have "same_item i (hv_page h) (hv_page h')"
    using assms(1)
  proof cases
    case (Mouse isOver k)
    then show ?thesis using failed_mask_kept [OF assms(2)] by (simp add: mouse_page same_item_def)
  next
    case (Other ev auth safari)
    then show ?thesis using leaves_theme [OF Other(2)] by (simp add: hear_page leaves_def)
  qed
  then show ?thesis using assms(2) by (simp add: failed_item_def same_item_def)
qed

lemma error_heard:
  assumes "f_status f = Some ERROR" "map_of (im_classes p) (f_id f) = Some old" "msg \<noteq> []"
  shows "\<exists>p'. on_theme auth safari (ThError msg result (Some f)) p = (None, p') \<and>
    map_of (im_classes p') (f_id f) = Some (filter (\<lambda>c. c \<notin> {WAITING, START, PROGRESS, ERROR, SUCCESS} \<and> c \<noteq> ERROR) old @ [ERROR]) \<and>
    map_of (im_masks p') (f_id f) = map_of (im_masks p) (f_id f) \<and> map_of (im_msgs p') (f_id f) = Some msg"
  using assms
  by (simp add: on_theme_def renderHandler_def setStatusVisibility_def themeErrorHandler_def error_shown_def setDisplayMsg_def map_of_obj_set)

subsection \<open>Properties\<close>

text \<open>
  C34: The mask below the message of a file that failed is not shown by the failure: the item is marked first, and the mask
  of a marked item is neither hidden nor shown. It stays as the mouse left it before, while other files are uploaded
  and wherever the mouse goes; the message stays as well.
\<close>

theorem error_mask_frozen:
  assumes "f_status f = Some ERROR" "map_of (im_classes (hv_page h)) (f_id f) \<noteq> None" "msg \<noteq> []"
    and "(quiet_step (f_id f))\<^sup>*\<^sup>* (snd (hear_theme auth safari (ThError msg result (Some f)) h)) h'"
  shows "map_of (im_masks (hv_page h')) (f_id f) = map_of (im_masks (hv_page h)) (f_id f) \<and>
    map_of (im_msgs (hv_page h')) (f_id f) = Some msg"
proof -
  let ?h = "snd (hear_theme auth safari (ThError msg result (Some f)) h)"
  obtain old where "map_of (im_classes (hv_page h)) (f_id f) = Some old" using assms(2) by blast
  from error_heard [OF assms(1) this assms(3), of auth safari result] have
    h: "failed_item (f_id f) ?h" "map_of (im_masks (hv_page ?h)) (f_id f) = map_of (im_masks (hv_page h)) (f_id f)"
      "map_of (im_msgs (hv_page ?h)) (f_id f) = Some msg"
    by (auto simp: failed_item_def hear_page)
  have "failed_item (f_id f) h' \<and> same_item (f_id f) (hv_page ?h) (hv_page h')"
    using assms(4)
  proof (induction rule: rtranclp_induct)
    case base
    show ?case using h(1) by (simp add: same_item_def)
  next
    case (step y z)
    then show ?case using quiet_kept [OF step(2)] by (simp add: same_item_def)
  qed
  then show ?thesis using h by (simp add: same_item_def)
qed

text \<open>A file whose item the mouse has left before it fails, and over which it is moved again.\<close>

theorem error_mask_frozen_witness:
  "\<exists>h. map_of (im_masks (hv_page h)) (f_id sample_file) = Some False \<and>
     map_of (im_masks (hv_page (snd (mouse True (f_id sample_file)
       (snd (hear_theme None False (ThError ''failed'' None (Some (sample_file\<lparr>f_status := Some ERROR\<rparr>))) h)))))) (f_id sample_file) = Some False"
proof -
  define h where "h = snd (block [hear_theme None False (ThAdd 0 sample_file), mouse True (f_id sample_file), mouse False (f_id sample_file)]
    \<lparr>hv_page = sample_page, hv_bound = [], hv_del = []\<rparr>)"
  have facts: "map_of (im_classes (hv_page h)) (f_id sample_file) \<noteq> None" "map_of (im_masks (hv_page h)) (f_id sample_file) = Some False"
    unfolding h_def
    by (simp_all add: hear_theme_def on_page_def addHandler_def mouse_def andthen_def on_theme_def appendFileDom_def renderHandler_def
        setStatusVisibility_def setDisplayMsg_def sample_page_def sample_file_def map_of_obj_set)
  let ?f = "sample_file\<lparr>f_status := Some ERROR\<rparr>"
  let ?e = "snd (hear_theme None False (ThError ''failed'' None (Some ?f)) h)"
  have id: "f_id ?f = f_id sample_file" by simp
  have "(quiet_step (f_id ?f))\<^sup>*\<^sup>* ?e (snd (mouse True (f_id ?f) ?e))" by (intro r_into_rtranclp Mouse)
  from error_mask_frozen [OF _ _ _ this] facts
  have "map_of (im_masks (hv_page (snd (mouse True (f_id sample_file) ?e)))) (f_id sample_file) = Some False"
    unfolding id by simp
  then show ?thesis using facts(2) by blast
qed

end
