(* ===== verification/JsNumber.thy ===== *)
theory JsNumber
  imports Complex_Main "HOL-Library.Log_Nat"
begin

section \<open>Numbers of JavaScript\<close>

text \<open>
  The numbers of the language are the doubles of IEEE 754. A finite one is the rational it stands for (the two
  zeros are not told apart: nothing modelled divides by them). Arithmetic is exact arithmetic followed by
  rounding to the nearest double, ties to even.
\<close>

datatype js_num = NaN | Infinity bool | Num rat

text \<open>\<open>Infinity True\<close> is \<open>-Infinity\<close>. The exponent of a positive rational: \<open>2 powi binade x \<le> x < 2 powi (binade x + 1)\<close>.\<close>

definition binade :: "rat \<Rightarrow> int" where
  "binade x = (if 1 \<le> x then bitlen \<lfloor>x\<rfloor> - 1 else - bitlen (\<lceil>1 / x\<rceil> - 1))"

definition round_even :: "rat \<Rightarrow> int" where
  "round_even y =
     (let n = \<lfloor>y\<rfloor>; d = y - of_int n in
      if d < 1 / 2 then n else if d > 1 / 2 then n + 1 else if even n then n else n + 1)"

text \<open>The distance of the doubles around \<open>x\<close>: 52 bits follow the first one; below \<open>2 powi -1022\<close> it stays.\<close>

definition least_exponent :: int where
  "least_exponent = -1022"

definition ulp :: "rat \<Rightarrow> rat" where
  "ulp x = 2 powi (max least_exponent (binade x) - 52)"

definition round_pos :: "rat \<Rightarrow> rat" where
  "round_pos x = of_int (round_even (x / ulp x)) * ulp x"

definition double_limit :: rat where
  "double_limit = 2 ^ 1024"

definition to_double :: "rat \<Rightarrow> js_num" where
  "to_double x =
     (let y = (if x = 0 then 0 else if x < 0 then - round_pos (- x) else round_pos x) in
      if \<bar>y\<bar> \<ge> double_limit then Infinity (x < 0) else Num y)"

definition js_div :: "js_num \<Rightarrow> js_num \<Rightarrow> js_num" where
  "js_div a b =
     (case (a, b) of
        (Num x, Num y) \<Rightarrow> if y \<noteq> 0 then to_double (x / y) else if x = 0 then NaN else Infinity (x < 0)
      | (Num x, Infinity _) \<Rightarrow> Num 0
      | (Infinity s, Num y) \<Rightarrow> Infinity (s \<noteq> (y < 0))
      | _ \<Rightarrow> NaN)"

definition js_mul :: "js_num \<Rightarrow> js_num \<Rightarrow> js_num" where
  "js_mul a b =
     (case (a, b) of
        (Num x, Num y) \<Rightarrow> to_double (x * y)
      | (Num x, Infinity s) \<Rightarrow> if x = 0 then NaN else Infinity (s \<noteq> (x < 0))
      | (Infinity s, Num y) \<Rightarrow> if y = 0 then NaN else Infinity (s \<noteq> (y < 0))
      | (Infinity s, Infinity t) \<Rightarrow> Infinity (s \<noteq> t)
      | _ \<Rightarrow> NaN)"

definition js_ceil :: "js_num \<Rightarrow> js_num" where
  "js_ceil a = (case a of Num x \<Rightarrow> Num (of_int \<lceil>x\<rceil>) | _ \<Rightarrow> a)"

text \<open>\<open>a < b\<close>; \<open>NaN\<close> is neither below nor above anything. \<open>a <= b\<close> is not the negation of \<open>b < a\<close>.\<close>

definition js_less :: "js_num \<Rightarrow> js_num \<Rightarrow> bool" where
  "js_less a b =
     (case (a, b) of
        (Num x, Num y) \<Rightarrow> x < y
      | (Infinity s, Num y) \<Rightarrow> s
      | (Num x, Infinity t) \<Rightarrow> \<not> t
      | (Infinity s, Infinity t) \<Rightarrow> s \<and> \<not> t
      | _ \<Rightarrow> False)"

text \<open>The operators of the language are those of the library's classes.\<close>

instantiation js_num :: "{times, inverse, ord}"
begin

definition "(a :: js_num) * b = js_mul a b"
definition "(a :: js_num) div b = js_div a b"
definition "inverse (a :: js_num) = js_div (Num 1) a"
definition "(a :: js_num) < b \<longleftrightarrow> js_less a b"
definition "(a :: js_num) \<le> b \<longleftrightarrow> js_less a b \<or> (a = b \<and> a \<noteq> NaN)"

instance ..

end

lemmas js_ops [simp] = times_js_num_def divide_js_num_def less_js_num_def

lemma js_less_Num [simp]: "js_less (Num x) (Num y) \<longleftrightarrow> x < y" "\<not> js_less NaN b" "\<not> js_less a NaN"
    "js_less (Infinity s) (Num y) \<longleftrightarrow> s" "js_less (Num x) (Infinity s) \<longleftrightarrow> \<not> s"
  by (simp_all add: js_less_def split: js_num.split)

subsection \<open>Rounding\<close>

lemma round_even_near: "\<bar>of_int (round_even y) - y\<bar> \<le> 1 / 2"
proof -
  have "of_int \<lfloor>y\<rfloor> \<le> y" "y < of_int \<lfloor>y\<rfloor> + 1" using floor_correct [of y] by simp_all
  then show ?thesis by (auto simp: round_even_def Let_def)
qed

lemma round_even_int [simp]: "round_even (of_int n) = n"
  by (simp add: round_even_def)

text \<open>The number of bits of a positive number, read in the rationals.\<close>

lemma bitlen_rat:
  assumes "0 < m"
  shows "1 \<le> bitlen m" "(2::rat) powi (bitlen m - 1) \<le> of_int m" "of_int m + 1 \<le> (2::rat) powi bitlen m"
proof -
  have b: "2 ^ nat (bitlen m - 1) \<le> m" "m + 1 \<le> 2 ^ nat (bitlen m)"
    using bitlen_bounds [of m] assms by auto
  show p: "1 \<le> bitlen m" using assms by (simp add: bitlen_def floorlog_def)
  have "(of_int (2 ^ nat (bitlen m - 1)) :: rat) \<le> of_int m" using b(1) by (simp only: of_int_le_iff)
  then show "(2::rat) powi (bitlen m - 1) \<le> of_int m" using p by (simp add: power_int_def)
  have "(of_int (m + 1) :: rat) \<le> of_int (2 ^ nat (bitlen m))" using b(2) by (simp only: of_int_le_iff)
  then show "of_int m + 1 \<le> (2::rat) powi bitlen m" using p by (simp add: power_int_def)
qed

lemma powi_less: "(2::rat) powi a < 2 powi b \<Longrightarrow> a < b"
  using power_int_increasing [of b a "2::rat"] by (cases "a < b") auto

lemma binade_bounds:
  assumes "0 < x"
  shows "2 powi binade x \<le> x" "x < 2 powi (binade x + 1)"
proof -
  have "2 powi binade x \<le> x \<and> x < 2 powi (binade x + 1)"
  proof (cases "1 \<le> x")
    case True
    then have "0 < \<lfloor>x\<rfloor>" by simp
    moreover have "of_int \<lfloor>x\<rfloor> \<le> x" "x < of_int \<lfloor>x\<rfloor> + 1" using floor_correct [of x] by simp_all
    ultimately have "2 powi (bitlen \<lfloor>x\<rfloor> - 1) \<le> x" "x < 2 powi bitlen \<lfloor>x\<rfloor>"
      using bitlen_rat [of "\<lfloor>x\<rfloor>"] by linarith+
    then show ?thesis using True by (simp add: binade_def)
  next
    case False
    let ?m = "\<lceil>1 / x\<rceil> - 1"
    have m: "0 < ?m" using False assms by (simp add: less_ceiling_iff)
    have "of_int ?m < 1 / x" "1 / x \<le> of_int ?m + 1" using ceiling_correct [of "1 / x"] by simp_all
    then have lo: "2 powi (bitlen ?m - 1) < 1 / x" and hi: "1 / x \<le> 2 powi bitlen ?m"
      using bitlen_rat [OF m] by linarith+
    have flip: "x < 1 / a" if "a < 1 / x" "0 < a" for a
      using that assms by (simp add: pos_less_divide_eq mult.commute)
    have flop: "1 / a \<le> x" if "1 / x \<le> a" "0 < a" for a
      using that assms by (simp add: pos_divide_le_eq mult.commute)
    have e: "binade x = - bitlen ?m" using False by (simp add: binade_def)
    have "(2::rat) powi (- bitlen ?m + 1) = 1 / 2 powi (bitlen ?m - 1)"
      using power_int_minus [of "2::rat" "bitlen ?m - 1"] by (simp add: inverse_eq_divide)
    moreover have "(2::rat) powi (- bitlen ?m) = 1 / 2 powi bitlen ?m"
      using power_int_minus [of "2::rat" "bitlen ?m"] by (simp only: inverse_eq_divide)
    ultimately show ?thesis
      unfolding e using flip [OF lo] flop [OF hi] by (simp only: zero_less_power_int zero_less_numeral simp_thms)
  qed
  then show "2 powi binade x \<le> x" "x < 2 powi (binade x + 1)" by auto
qed

lemma ulp_pos [simp]: "0 < ulp x"
  by (simp add: ulp_def)

lemma round_pos_ulp: "\<bar>round_pos x - x\<bar> \<le> ulp x / 2"
proof -
  have "ulp x \<noteq> 0" using ulp_pos [of x] by linarith
  then have "round_pos x - x = (of_int (round_even (x / ulp x)) - x / ulp x) * ulp x"
    by (simp add: round_pos_def left_diff_distrib)
  then have "\<bar>round_pos x - x\<bar> = \<bar>of_int (round_even (x / ulp x)) - x / ulp x\<bar> * ulp x"
    by (simp add: abs_mult abs_of_pos)
  then show ?thesis 
    using mult_right_mono [OF round_even_near [of "x / ulp x"] less_imp_le [OF ulp_pos [of x]]] by simp
qed

text \<open>Relative error, for numbers that are not tiny.\<close>

lemma round_pos_error:
  assumes "2 powi least_exponent \<le> x"
  shows "\<bar>round_pos x - x\<bar> \<le> x / 2 ^ 53"
proof -
  have x: "0 < x" by (rule less_le_trans [OF _ assms]) simp
  have "2 powi least_exponent < (2::rat) powi (binade x + 1)" using binade_bounds(2) [OF x] assms by linarith
  then have "least_exponent \<le> binade x"
    using powi_less [of least_exponent "binade x + 1"] by simp
  then have "ulp x = 2 powi binade x / 2 powi 52" by (simp add: ulp_def power_int_diff)
  then have "ulp x \<le> x / 2 ^ 52" using binade_bounds(1) [OF x] by (simp add: divide_right_mono)
  then show ?thesis using round_pos_ulp [of x] by simp
qed

subsection \<open>Evaluation\<close>

lemma binade_unique:
  assumes "2 powi e \<le> x" "x < 2 powi (e + 1)"
  shows "binade x = e"
proof -
  have "0 < x" by (rule less_le_trans [OF _ assms(1)]) simp
  note b = binade_bounds [OF this]
  show ?thesis
    using powi_less [OF le_less_trans [OF b(1) assms(2)]] powi_less [OF le_less_trans [OF assms(1) b(2)]] by simp
qed

lemma round_pos_eval:
  assumes "2 powi e \<le> x" "x < 2 powi (e + 1)" "least_exponent \<le> e" "round_even (x / 2 powi (e - 52)) = n"
  shows "round_pos x = of_int n * 2 powi (e - 52)"
  using assms(3,4) by (simp add: round_pos_def ulp_def binade_unique [OF assms(1,2)] max_absorb2)

lemma floor_fraction: "\<lfloor>numeral a / numeral b :: rat\<rfloor> = numeral a div numeral b"
  "\<lceil>numeral a / numeral b :: rat\<rceil> = - (- numeral a div numeral b)"
  using floor_divide_of_int_eq [of "numeral a" "numeral b", where 'a = rat]
    floor_divide_of_int_eq [of "- numeral a" "numeral b", where 'a = rat] by (simp_all add: ceiling_def)

subsection \<open>Whole numbers are exact\<close>

lemma ulp_whole:
  assumes "0 < n" "n < 2 ^ 53"
  shows "\<exists>m. of_nat n / ulp (of_nat n) = of_int m"
proof -
  let ?k = "binade (of_nat n)"
  have "(of_nat n :: rat) < of_nat (2 ^ 53)" using assms(2) by (simp only: of_nat_less_iff)
  moreover have "(of_nat (2 ^ 53) :: rat) = 2 powi 53" by simp
  ultimately have n: "(1::rat) \<le> of_nat n" "(of_nat n :: rat) < 2 powi 53" using assms(1) by (simp, simp only:)
  have "(2::rat) powi ?k < 2 powi 53"
    using binade_bounds(1) [of "of_nat n"] n by linarith
  then have hi: "?k \<le> 52" using powi_less [of ?k 53] by simp
  have "(2::rat) powi 0 < 2 powi (?k + 1)" using binade_bounds(2) [of "of_nat n"] n by simp
  then have lo: "0 \<le> ?k" using powi_less [of 0 "?k + 1"] by simp
  then have "max least_exponent ?k = ?k" by (simp add: least_exponent_def)
  then have "ulp (of_nat n) = inverse (2 powi (52 - ?k))"
    using power_int_minus [of "2::rat" "52 - ?k"] by (simp add: ulp_def)
  then have "of_nat n / ulp (of_nat n) = of_nat n * 2 ^ nat (52 - ?k)"
    using hi by (simp add: divide_inverse power_int_def)
  then have "of_nat n / ulp (of_nat n) = of_int (int n * 2 ^ nat (52 - ?k))" by simp
  then show ?thesis by blast
qed

lemma round_pos_whole:
  assumes "0 < n" "n < 2 ^ 53"
  shows "round_pos (of_nat n) = of_nat n"
proof -
  obtain m where "of_nat n / ulp (of_nat n) = of_int m" using ulp_whole [OF assms] by blast
  moreover have "ulp (of_nat n) \<noteq> 0" using ulp_pos [of "of_nat n"] by linarith
  ultimately show ?thesis by (metis nonzero_divide_eq_eq round_even_int round_pos_def)
qed

lemma below_limit: "x \<le> 2 ^ 54 \<Longrightarrow> x < double_limit"
  using power_strict_increasing [of 54 1024 "2::rat"] by (simp add: double_limit_def)

lemma to_double_whole: "n < 2 ^ 53 \<Longrightarrow> to_double (of_nat n) = Num (of_nat n)"
proof (cases "n = 0")
  case False
  assume n: "n < 2 ^ 53"
  then have "(of_nat n :: rat) < of_nat (2 ^ 53)" by (simp only: of_nat_less_iff)
  then have "of_nat n < double_limit" using below_limit [of "of_nat n"] by simp
  then show ?thesis using False n by (simp add: to_double_def round_pos_whole)
qed (use below_limit [of 0] in \<open>simp add: to_double_def\<close>)

lemma to_double_eval: "0 < x \<Longrightarrow> round_pos x = y \<Longrightarrow> 0 \<le> y \<Longrightarrow> y \<le> 2 ^ 54 \<Longrightarrow> to_double x = Num y"
  using below_limit [of y] by (simp add: to_double_def)

lemma to_double_near:
  assumes "2 powi least_exponent \<le> x" "x \<le> 2 ^ 53"
  shows "\<exists>y. to_double x = Num y \<and> \<bar>y - x\<bar> \<le> x / 2 ^ 53"
proof -
  have x: "0 < x" by (rule less_le_trans [OF _ assms(1)]) simp
  have e: "\<bar>round_pos x - x\<bar> \<le> x / 2 ^ 53" by (rule round_pos_error [OF assms(1)])
  moreover have "x / 2 ^ 53 \<le> x" using x by simp
  moreover have "(2::rat) ^ 54 = 2 * 2 ^ 53" by simp
  ultimately have "0 \<le> round_pos x" "round_pos x \<le> 2 ^ 54" using x assms(2) by linarith+
  then show ?thesis using below_limit [of "round_pos x"] x e by (simp add: to_double_def)
qed

subsection \<open>A share of a whole number\<close>

text \<open>
  \<open>Math.ceil((a / b) * c)\<close> for whole numbers \<open>a \<le> b\<close> and \<open>c\<close>: what is computed is near to the exact value, nearer
  than the values with denominator \<open>b\<close> are to each other.
\<close>

definition ceil_share :: "nat \<Rightarrow> nat \<Rightarrow> nat \<Rightarrow> int" where
  "ceil_share a b c = \<lceil>(of_nat a / of_nat b) * of_nat c :: rat\<rceil>"

lemma small_normal: "1 / 2 ^ 53 \<le> x \<Longrightarrow> 2 powi least_exponent \<le> (x :: rat)"
proof -
  have "least_exponent \<le> - 53" by (simp add: least_exponent_def)
  then have "(2::rat) powi least_exponent \<le> 2 powi (- 53)" by (rule power_int_increasing) simp
  also have "\<dots> = 1 / 2 ^ 53" using power_int_minus [of "2::rat" 53] by (simp add: inverse_eq_divide)
  finally show "1 / 2 ^ 53 \<le> x \<Longrightarrow> 2 powi least_exponent \<le> x" by (rule order_trans)
qed

lemma share_near:
  assumes "0 < a" "a \<le> b" "0 < c" "b * c \<le> 2 ^ 51"
  shows "\<exists>r y. to_double (of_nat a / of_nat b) = Num r \<and> to_double (r * of_nat c) = Num y \<and>
    \<bar>y - of_nat a / of_nat b * of_nat c\<bar> * of_nat b < 1"
proof -
  let ?c = "of_nat c :: rat" and ?b = "of_nat b :: rat"
  define q where "q = (of_nat a / of_nat b :: rat)"
  have bc: "?b * ?c \<le> 2 ^ 51"
  proof -
    have "(of_nat (b * c) :: rat) \<le> of_nat (2 ^ 51)" using assms(4) by (simp only: of_nat_le_iff)
    then show ?thesis by simp
  qed
  have pos: "1 \<le> ?b" "1 \<le> ?c" "1 \<le> (of_nat a :: rat)" "(of_nat a :: rat) \<le> ?b" using assms by simp_all
  then have cb: "?c \<le> ?b * ?c" "?b \<le> ?b * ?c" by simp_all
  have q: "q \<le> 1" "1 \<le> q * ?b" "1 / ?b \<le> q" using pos by (simp_all add: q_def divide_right_mono)
  have "?b \<le> 2 ^ 51" using cb(2) bc by (rule order_trans)
  then have "1 / 2 ^ 51 \<le> 1 / ?b" using pos(1) by (intro divide_left_mono) simp_all
  then have ql: "1 / 2 ^ 51 \<le> q" using q(3) by linarith
  have small: "1 / 2 ^ 53 \<le> q / 2"
    by (rule order_trans [OF _ divide_right_mono [OF ql]]) simp_all
  have "1 / 2 ^ 53 \<le> q" by (rule order_trans [OF _ ql]) simp
  then obtain r where r: "to_double q = Num r" "\<bar>r - q\<bar> \<le> q / 2 ^ 53"
    using to_double_near [OF small_normal, of q] q(1) by fastforce
  have r2: "r \<le> 2" "q / 2 \<le> r" "0 < r" 
  proof -
    have q0: "0 < q" using assms(1,2) by (simp add: q_def)
    have "q / 2 ^ 53 \<le> q / 2" by (rule divide_left_mono) (use q0 in simp_all)
    moreover have "q / 2 \<le> 1" using q(1) by linarith
    moreover note q0
    ultimately show "r \<le> 2" "q / 2 \<le> r" "0 < r" using r(2) q(1) by linarith+
  qed
  have "r * 1 \<le> r * ?c" using r2(3) pos(2) by (intro mult_left_mono) simp_all
  then have "1 / 2 ^ 53 \<le> r * ?c" using order_trans [OF small r2(2)] by linarith
  moreover have rc: "r * ?c \<le> 2 * ?c" using r2(1) pos(2) by (intro mult_right_mono) simp_all
  moreover have "2 * ?c \<le> 2 ^ 53" using cb(1) bc by simp
  ultimately obtain y where y: "to_double (r * ?c) = Num y" "\<bar>y - r * ?c\<bar> \<le> r * ?c / 2 ^ 53"
    using to_double_near [OF small_normal, of "r * ?c"] by fastforce
  have "\<bar>r * ?c - q * ?c\<bar> = \<bar>r - q\<bar> * ?c" using pos(2) by (simp add: left_diff_distrib [symmetric] abs_mult)
  also have "\<dots> \<le> (q / 2 ^ 53) * ?c" using r(2) pos(2) by (intro mult_right_mono) simp_all
  also have "\<dots> \<le> ?c / 2 ^ 53" using mult_right_mono [OF q(1), of ?c] pos(2) by simp
  finally have "\<bar>r * ?c - q * ?c\<bar> \<le> ?c / 2 ^ 53" .
  moreover have "\<bar>y - q * ?c\<bar> \<le> \<bar>y - r * ?c\<bar> + \<bar>r * ?c - q * ?c\<bar>" by linarith
  moreover have "r * ?c / 2 ^ 53 \<le> 2 * ?c / 2 ^ 53" using rc by (rule divide_right_mono) simp
  moreover have "3 * ?c / 2 ^ 53 = 2 * ?c / 2 ^ 53 + ?c / 2 ^ 53" by simp
  ultimately have "\<bar>y - q * ?c\<bar> \<le> 3 * ?c / 2 ^ 53" using y(2) by linarith
  then have "\<bar>y - q * ?c\<bar> * ?b \<le> 3 * ?c / 2 ^ 53 * ?b" using pos(1) by (intro mult_right_mono) simp_all
  also have "\<dots> = 3 * (?b * ?c) / 2 ^ 53" by simp
  also have "\<dots> < 1" using bc by simp
  finally show ?thesis using r(1) y(1) unfolding q_def by blast
qed

lemma near_ceiling:
  fixes y :: rat
  assumes "0 < b" "\<bar>y - of_nat m / of_nat b\<bar> * of_nat b < 1"
  shows "\<lceil>y\<rceil> = \<lceil>of_nat m / of_nat b :: rat\<rceil> \<or> b dvd m \<and> \<lceil>y\<rceil> = \<lceil>of_nat m / of_nat b :: rat\<rceil> + 1"
proof -
  let ?b = "of_nat b :: rat" and ?k = "\<lceil>of_nat m / of_nat b :: rat\<rceil>"
  have b: "0 < ?b" using assms(1) by simp
  have "\<bar>y - of_nat m / ?b\<bar> * ?b = \<bar>y * ?b - of_nat m\<bar>"
    using b by (simp add: abs_mult_pos left_diff_distrib)
  then have y: "of_nat m - 1 < y * ?b" "y * ?b < of_nat m + 1" using assms(2) by linarith+
  have "of_int ?k - 1 < of_nat m / ?b" "of_nat m / ?b \<le> of_int ?k" using ceiling_correct [of "of_nat m / ?b"] by simp_all
  then have "(of_int ?k - 1) * ?b < of_nat m" "of_nat m \<le> of_int ?k * ?b"
    by (simp_all only: pos_less_divide_eq [OF b] pos_divide_le_eq [OF b])
  then have "of_int ((?k - 1) * int b) < (of_int (int m) :: rat)" "(of_int (int m) :: rat) \<le> of_int (?k * int b)"
    by (simp_all add: left_diff_distrib)
  then have k: "(?k - 1) * int b < int m" "int m \<le> ?k * int b" by (simp_all only: of_int_less_iff of_int_le_iff)
  have up: "of_int ((?k - 1) * int b) \<le> (of_int (int m - 1) :: rat)" using k(1) by (simp only: of_int_le_iff)
  have "of_int (?k - 1) * ?b < y * ?b" using up y(1) by simp
  then have lo: "of_int (?k - 1) < y" using b by (simp only: mult_less_cancel_right_pos)
  show ?thesis
  proof (cases "int m = ?k * int b")
    case True
    then have "int b dvd int m" by simp
    then have d: "b dvd m" by (simp only: of_nat_dvd_iff)
    have "of_nat m = of_int ?k * ?b" using arg_cong [OF True, of "of_int :: int \<Rightarrow> rat"] by simp
    moreover have "1 \<le> ?b" using assms(1) by simp
    ultimately have "y * ?b < of_int (?k + 1) * ?b" using y(2) by (simp add: distrib_right)
    then have "y < of_int (?k + 1)" using b by (simp only: mult_less_cancel_right_pos)
    then have "\<lceil>y\<rceil> \<le> ?k + 1" "?k - 1 < \<lceil>y\<rceil>" using lo by (simp_all only: ceiling_le_iff less_ceiling_iff less_imp_le)
    then show ?thesis using d by linarith
  next
    case False
    then have "int m + 1 \<le> ?k * int b" using k(2) by linarith
    then have "of_int (int m + 1) \<le> (of_int (?k * int b) :: rat)" by (simp only: of_int_le_iff)
    then have "y * ?b < of_int ?k * ?b" using y(2) by simp
    then have "y < of_int ?k" using b by (simp only: mult_less_cancel_right_pos)
    then have "\<lceil>y\<rceil> \<le> ?k" "?k - 1 < \<lceil>y\<rceil>" using lo by (simp_all only: ceiling_le_iff less_ceiling_iff less_imp_le)
    then show ?thesis by linarith
  qed
qed

lemma ceil_share_bound:
  assumes "0 < b" "a \<le> b"
  shows "0 \<le> ceil_share a b c" "ceil_share a b c \<le> int c"
    and "a < b \<Longrightarrow> 0 < c \<Longrightarrow> b dvd a * c \<Longrightarrow> ceil_share a b c < int c"
proof -
  let ?x = "of_nat a / of_nat b * of_nat c :: rat"
  have q: "0 \<le> (of_nat a / of_nat b :: rat)" "(of_nat a / of_nat b :: rat) \<le> 1" using assms by simp_all
  have "(-1 :: rat) < ?x" by (rule less_le_trans [of _ 0]) simp_all
  then show "0 \<le> ceil_share a b c" by (simp add: ceil_share_def zero_le_ceiling)
  have "?x \<le> 1 * of_nat c" using q(2) by (rule mult_right_mono) simp
  then have "?x \<le> of_int (int c)" by simp
  then show "ceil_share a b c \<le> int c" unfolding ceil_share_def by (simp only: ceiling_le_iff)
  show "ceil_share a b c < int c" if ab: "a < b" and c: "0 < c" and d: "b dvd a * c"
  proof -
    obtain k where k: "a * c = b * k" using d by blast
    then have "b * k < b * c" using ab c by (metis mult_less_cancel2)
    then have kc: "k < c" by simp
    have "?x = of_nat (a * c) / of_nat b" by simp
    also have "\<dots> = of_nat k" using assms(1) unfolding k by simp
    finally have "ceil_share a b c = int k" by (simp only: ceil_share_def ceiling_of_nat)
    then show ?thesis using kc by simp
  qed
qed

text \<open>The computed value is the exact one, or one more where the exact share is a whole number.\<close>

lemma ceil_share_computed:
  assumes "0 < b" "a \<le> b" "0 < c" "b * c \<le> 2 ^ 51"
  shows "\<exists>v. js_ceil (js_mul (js_div (Num (of_nat a)) (Num (of_nat b))) (Num (of_nat c))) = Num (of_int v) \<and>
    (v = ceil_share a b c \<or> a < b \<and> b dvd a * c \<and> v = ceil_share a b c + 1)"
proof -
  have z: "to_double 0 = Num 0" using to_double_whole [of 0] by simp
  have "c * 1 \<le> b * c" using assms(1) by simp
  also have "\<dots> < 2 ^ 53" by (rule le_less_trans [OF assms(4)]) simp
  finally have "c < 2 ^ 53" by simp
  then have c: "to_double (of_nat c) = Num (of_nat c)" by (rule to_double_whole)
  have one: "to_double 1 = Num 1" using to_double_whole [of 1] by simp
  consider "a = 0" | "a = b" | "0 < a" "a < b" using assms(2) by linarith
  then show ?thesis
  proof cases
    case 1
    then show ?thesis using assms z by (intro exI [of _ 0]) (simp add: js_div_def js_mul_def js_ceil_def ceil_share_def)
  next
    case 2
    then show ?thesis using assms c one
      by (intro exI [of _ "int c"]) (simp add: js_div_def js_mul_def js_ceil_def ceil_share_def)
  next
    case 3
    obtain r y where ry: "to_double (of_nat a / of_nat b) = Num r" "to_double (r * of_nat c) = Num y"
        "\<bar>y - of_nat a / of_nat b * of_nat c\<bar> * of_nat b < 1"
      using share_near [of a b c] assms 3 by auto
    have eq: "of_nat a / of_nat b * of_nat c = (of_nat (a * c) / of_nat b :: rat)" by simp
    have "\<lceil>y\<rceil> = ceil_share a b c \<or> b dvd a * c \<and> \<lceil>y\<rceil> = ceil_share a b c + 1"
      using near_ceiling [OF assms(1) ry(3) [unfolded eq]] unfolding ceil_share_def eq .
    then show ?thesis
      using ry(1,2) assms(1) 3 by (intro exI [of _ "\<lceil>y\<rceil>"]) (simp add: js_div_def js_mul_def js_ceil_def)
  qed
qed

end
