(* ===== verification/ProBars.thy ===== *)
theory ProBars
  imports JsNumber JsCommand
begin

section \<open>Progress bars\<close>

text \<open>
  \<open>kg/uploader/2.0.2/plugins/proBars\<close>: \<open>ProgressBar\<close>, one bar in an element of the page, and \<open>ProBars\<close>, which
  makes a bar for each file whose upload starts and moves it. Bars are numbered in the order they are made; a
  file that is started again gets a new bar in the same element. A running animation of a bar is the value and
  the width it leads to; \<open>stop()\<close> ends one without calling what was to follow it. Widths on the way, and the
  drawing itself, are left out.
\<close>

datatype bar_event = BarRender | BarChange js_num js_num | BarShow | BarHide

record bar =
  br_id :: string
  br_drawn :: bool
  br_value :: js_num
  br_data :: js_num
  br_width :: "js_num option"
  br_anim :: "(js_num \<times> js_num) option"
  br_visible :: bool
  br_fades :: "bool list"
  br_log :: "bar_event list"

text \<open>The element \<open>J_ProgressBar_<id>\<close>, and \<open>J_ProgressCount_<id>\<close> if there is one.\<close>

record wrapper =
  wr_track :: nat
  wr_now :: js_num
  wr_shown :: bool
  wr_hasCount :: bool
  wr_count :: "js_num option"

record probars =
  pb_made :: "bar list"
  pb_bars :: "(string, nat) obj"
  pb_wrappers :: "(string, wrapper) obj"
  pb_isHide :: bool
  pb_later :: "string list"

definition upd_bar :: "nat \<Rightarrow> (bar \<Rightarrow> bar) \<Rightarrow> probars cmd" where
  "upd_bar n f p = (None, p\<lparr>pb_made := (pb_made p)[n := f (pb_made p ! n)]\<rparr>)"

definition upd_wrapper :: "string \<Rightarrow> (wrapper \<Rightarrow> wrapper) \<Rightarrow> probars cmd" where
  "upd_wrapper ident f p =
     (case map_of (pb_wrappers p) ident of
        None \<Rightarrow> skip p
      | Some w \<Rightarrow> (None, p\<lparr>pb_wrappers := obj_set ident (f w) (pb_wrappers p)\<rparr>))"

subsection \<open>One bar\<close>

definition clamp_value :: "js_num \<Rightarrow> js_num" where
  "clamp_value v = (let v = (if v > Num 100 then Num 100 else v) in if v < Num 0 then Num 0 else v)"

definition pixel_width :: "nat \<Rightarrow> js_num \<Rightarrow> js_num" where
  "pixel_width track v = js_ceil (Num (of_nat track) * (v / Num 100))"

text \<open>The setter of \<open>value\<close>. A bar that was not drawn is the empty text, which has no \<open>stop\<close>.\<close>

definition set_value :: "nat \<Rightarrow> js_num \<Rightarrow> probars cmd" where
  "set_value n v p =
     (let b = pb_made p ! n; v = clamp_value v in
      if \<not> br_drawn b then throw TypeError p
      else case map_of (pb_wrappers p) (br_id b) of
             None \<Rightarrow> throw TypeError p
           | Some w \<Rightarrow> upd_bar n (\<lambda>b. b\<lparr>br_anim := Some (v, pixel_width (wr_track w) v), br_value := v\<rparr>) p)"

definition anim_done :: "nat \<Rightarrow> probars cmd" where
  "anim_done n p =
     (case br_anim (pb_made p ! n) of
        None \<Rightarrow> skip p
      | Some (v, width) \<Rightarrow> block
          [upd_wrapper (br_id (pb_made p ! n)) (\<lambda>w. w\<lparr>wr_now := v\<rparr>),
           upd_bar n (\<lambda>b. b\<lparr>br_width := Some width, br_anim := None, br_data := v, br_log := br_log b @ [BarChange v width]\<rparr>),
           upd_wrapper (br_id (pb_made p ! n)) (\<lambda>w. if wr_hasCount w then w\<lparr>wr_count := Some v\<rparr> else w)] p)"

definition bar_show :: "nat \<Rightarrow> probars cmd" where
  "bar_show n p = block
     [upd_wrapper (br_id (pb_made p ! n)) (\<lambda>w. w\<lparr>wr_shown := True\<rparr>),
      upd_bar n (\<lambda>b. b\<lparr>br_fades := br_fades b @ [True]\<rparr>)] p"

definition bar_hide :: "nat \<Rightarrow> probars cmd" where
  "bar_hide n = upd_bar n (\<lambda>b. b\<lparr>br_fades := br_fades b @ [False]\<rparr>)"

definition fade_done :: "nat \<Rightarrow> probars cmd" where
  "fade_done n p =
     (case br_fades (pb_made p ! n) of
        [] \<Rightarrow> skip p
      | shown # rest \<Rightarrow> block
          [upd_wrapper (br_id (pb_made p ! n)) (\<lambda>w. w\<lparr>wr_shown := shown\<rparr>),
           upd_bar n (\<lambda>b. b\<lparr>br_fades := rest, br_visible := shown,
             br_log := br_log b @ [if shown then BarShow else BarHide]\<rparr>)] p)"

text \<open>\<open>render\<close>: without an element nothing is drawn; \<open>_addAttr\<close> and \<open>_create\<close> write the value.\<close>

definition render_bar :: "nat \<Rightarrow> probars cmd" where
  "render_bar n p =
     (let b = pb_made p ! n in
      case map_of (pb_wrappers p) (br_id b) of
        None \<Rightarrow> skip p
      | Some w \<Rightarrow> block
          [upd_wrapper (br_id b) (\<lambda>w. w\<lparr>wr_now := br_value b\<rparr>),
           (if br_visible b then skip else bar_hide n),
           upd_bar n (\<lambda>b. b\<lparr>br_drawn := True, br_data := br_value b, br_log := br_log b @ [BarRender]\<rparr>)] p)"

definition new_bar :: "string \<Rightarrow> bar" where
  "new_bar ident = \<lparr>br_id = ident, br_drawn = False, br_value = Num 0, br_data = Num 0, br_width = None,
     br_anim = None, br_visible = True, br_fades = [], br_log = []\<rparr>"

subsection \<open>The bars of the files\<close>

definition add_bar :: "string \<Rightarrow> probars cmd" where
  "add_bar ident p =
     (let n = length (pb_made p) in block
        [(\<lambda>p. (None, p\<lparr>pb_made := pb_made p @ [new_bar ident]\<rparr>)),
         render_bar n,
         (\<lambda>p. (None, p\<lparr>pb_bars := obj_set ident n (pb_bars p)\<rparr>))] p)"

definition progress_percent :: "nat \<Rightarrow> nat \<Rightarrow> js_num" where
  "progress_percent loaded whole = js_ceil ((Num (of_nat loaded) / Num (of_nat whole)) * Num 100)"

definition progress_bar :: "string \<Rightarrow> nat \<Rightarrow> nat \<Rightarrow> probars cmd" where
  "progress_bar ident loaded whole p =
     (case map_of (pb_bars p) ident of
        None \<Rightarrow> skip p
      | Some n \<Rightarrow> set_value n (progress_percent loaded whole) p)"

definition success_bar :: "string \<Rightarrow> probars cmd" where
  "success_bar ident p = block
     [(case map_of (pb_bars p) ident of None \<Rightarrow> skip | Some n \<Rightarrow> set_value n (Num 100)),
      (\<lambda>p. (None, if pb_isHide p then p\<lparr>pb_later := pb_later p @ [ident]\<rparr> else p))] p"

text \<open>The timers all wait 500 ms, so the first one is the first to fire.\<close>

definition later_hide :: "probars cmd" where
  "later_hide p =
     (case pb_later p of
        [] \<Rightarrow> skip p
      | ident # rest \<Rightarrow> upd_wrapper ident (\<lambda>w. w\<lparr>wr_shown := False\<rparr>) (p\<lparr>pb_later := rest\<rparr>))"

definition new_probars :: "(string, wrapper) obj \<Rightarrow> bool \<Rightarrow> probars" where
  "new_probars ws isHide = \<lparr>pb_made = [], pb_bars = [], pb_wrappers = ws, pb_isHide = isHide, pb_later = []\<rparr>"

subsection \<open>Percentages\<close>

text \<open>
  C39: The percentage shown is the share of the file rounded up, except that a share that is exactly a whole
  percentage may come out one higher, by the rounding of the division and the multiplication. It never exceeds
  100, for files up to \<open>2 ^ 44\<close> bytes.
\<close>

theorem percent_near:
  assumes "0 < whole" "loaded \<le> whole" "whole \<le> 2 ^ 44"
  shows "\<exists>v. progress_percent loaded whole = Num (of_int v) \<and> 0 \<le> v \<and> v \<le> 100 \<and>
    (v = \<lceil>(of_nat loaded / of_nat whole) * 100 :: rat\<rceil> \<or>
     whole dvd loaded * 100 \<and> v = \<lceil>(of_nat loaded / of_nat whole) * 100 :: rat\<rceil> + 1)"
proof -
  have "whole * 100 \<le> 2 ^ 44 * 100" using assms(3) by (rule mult_right_mono) simp
  also have "\<dots> \<le> 2 ^ 51" by simp
  finally obtain v where v: "progress_percent loaded whole = Num (of_int v)"
      "v = ceil_share loaded whole 100 \<or> loaded < whole \<and> whole dvd loaded * 100 \<and> v = ceil_share loaded whole 100 + 1"
    using ceil_share_computed [OF assms(1,2), of 100] by (auto simp: progress_percent_def)
  have "0 \<le> v" "v \<le> 100" using v(2) ceil_share_bound [OF assms(1,2), of 100] by auto
  then show ?thesis using v unfolding ceil_share_def by (intro exI [of _ v]) auto
qed

lemma percent_7: "progress_percent 7 100 = Num 8"
proof -
  have "round_pos (7 / 100) = 1261007895663739 / 18014398509481984"
    by (rule trans [OF round_pos_eval [of "-4" _ 5044031582654956]])
      (simp_all add: least_exponent_def round_even_def floor_fraction Let_def)
  then have r: "to_double (7 / 100) = Num (1261007895663739 / 18014398509481984)" by (simp add: to_double_eval)
  have "round_pos (1261007895663739 / 18014398509481984 * 100) = 7881299347898369 / 1125899906842624"
    by (rule trans [OF round_pos_eval [of 2 _ 7881299347898369]])
      (simp_all add: least_exponent_def round_even_def floor_fraction Let_def)
  then have y: "to_double (1261007895663739 / 18014398509481984 * 100) = Num (7881299347898369 / 1125899906842624)"
    by (rule to_double_eval [rotated]) simp_all
  have "progress_percent 7 100 = js_ceil (js_mul (to_double (7 / 100)) (Num 100))" by (simp add: progress_percent_def js_div_def)
  also have "\<dots> = js_ceil (to_double (1261007895663739 / 18014398509481984 * 100))" unfolding r by (simp only: js_mul_def prod.case js_num.case)
  also have "\<dots> = Num 8" unfolding y by (simp add: js_ceil_def floor_fraction)
  finally show ?thesis .
qed

theorem percent_near_witness: "progress_percent 7 100 = Num 8 \<and> \<lceil>(7 / 100) * 100 :: rat\<rceil> = 7 \<and>
    (\<exists>v. progress_percent 7 100 = Num (of_int v) \<and> v \<le> 100)"
  using percent_near [of 100 7] percent_7 by auto

subsection \<open>What a bar shows\<close>

text \<open>
  The steps of a page: elements come (they are never lost to a bar that was made in them), the uploader's
  events arrive, animations, fades and timers end.
\<close>

inductive bars_step :: "probars \<Rightarrow> probars \<Rightarrow> bool" where
  element: "map_of (pb_wrappers p) ident = None \<Longrightarrow> bars_step p (p\<lparr>pb_wrappers := obj_set ident w (pb_wrappers p)\<rparr>)"
| start: "bars_step p (snd (add_bar ident p))"
| progress: "bars_step p (snd (progress_bar ident loaded whole p))"
| success: "bars_step p (snd (success_bar ident p))"
| anim: "n < length (pb_made p) \<Longrightarrow> bars_step p (snd (anim_done n p))"
| fade: "n < length (pb_made p) \<Longrightarrow> bars_step p (snd (fade_done n p))"
| later: "bars_step p (snd (later_hide p))"
| shown: "bars_step p (snd (bar_show n p))"
| hidden: "bars_step p (snd (bar_hide n p))"

inductive bars_reachable :: "probars \<Rightarrow> bool" where
  init: "bars_reachable (new_probars ws isHide)"
| step: "bars_reachable p \<Longrightarrow> bars_step p p' \<Longrightarrow> bars_reachable p'"

definition whole_value :: "js_num \<Rightarrow> bool" where
  "whole_value v \<longleftrightarrow> v = NaN \<or> (\<exists>k \<le> 100. v = Num (of_nat k))"

definition bar_ok :: "(string, wrapper) obj \<Rightarrow> bar \<Rightarrow> bool" where
  "bar_ok ws b \<longleftrightarrow> whole_value (br_value b) \<and>
     (case map_of ws (br_id b) of
        None \<Rightarrow> \<not> br_drawn b \<and> br_anim b = None \<and> br_data b = br_value b \<and> br_width b = None
      | Some w \<Rightarrow>
          (case br_anim b of
             None \<Rightarrow> br_data b = br_value b \<and> br_width b \<in> {None, Some (pixel_width (wr_track w) (br_value b))}
           | Some (v, width) \<Rightarrow> v = br_value b \<and> width = pixel_width (wr_track w) v))"

definition bars_ok :: "probars \<Rightarrow> bool" where
  "bars_ok p \<longleftrightarrow> (\<forall>b \<in> set (pb_made p). bar_ok (pb_wrappers p) b) \<and>
     (\<forall>ident n. map_of (pb_bars p) ident = Some n \<longrightarrow> n < length (pb_made p) \<and> br_id (pb_made p ! n) = ident)"

lemma whole_clamp_ceil: "whole_value (clamp_value (js_ceil x))"
proof (cases x)
  case (Num y)
  then consider "\<lceil>y\<rceil> > 100" | "\<lceil>y\<rceil> < 0" | "0 \<le> \<lceil>y\<rceil>" "\<lceil>y\<rceil> \<le> 100" by linarith
  then show ?thesis
  proof cases
    case 3
    then have "clamp_value (js_ceil x) = Num (of_nat (nat \<lceil>y\<rceil>))"
      using Num by (simp add: clamp_value_def js_ceil_def)
    moreover have "nat \<lceil>y\<rceil> \<le> 100" using 3 by linarith
    ultimately show ?thesis unfolding whole_value_def by blast
  qed (use Num in \<open>auto simp: clamp_value_def js_ceil_def whole_value_def
      intro: exI [of _ "100::nat"] exI [of _ "0::nat"]\<close>)
qed (auto simp: clamp_value_def js_ceil_def whole_value_def
      intro: exI [of _ "100::nat"] exI [of _ "0::nat"])

lemma clamp_100: "clamp_value (Num 100) = Num 100"
  by (simp add: clamp_value_def)

lemma whole_100: "whole_value (clamp_value (Num 100))" "whole_value (Num 0)"
  by (auto simp: clamp_100 whole_value_def intro: exI [of _ "100::nat"] exI [of _ "0::nat"])

text \<open>Changes of wrappers that keep their width do not matter.\<close>

definition same_tracks :: "(string, wrapper) obj \<Rightarrow> (string, wrapper) obj \<Rightarrow> bool" where
  "same_tracks ws ws' \<longleftrightarrow> (\<forall>i. map_option wr_track (map_of ws' i) = map_option wr_track (map_of ws i))"

lemma bar_ok_tracks: "same_tracks ws ws' \<Longrightarrow> bar_ok ws' b \<longleftrightarrow> bar_ok ws b"
  by (cases "map_of ws (br_id b)"; cases "map_of ws' (br_id b)")
    (auto simp: same_tracks_def bar_ok_def dest!: spec [of _ "br_id b"] split: option.splits)

lemma same_tracks_refl [simp]: "same_tracks ws ws"
  by (simp add: same_tracks_def)

lemma upd_wrapper_same:
  assumes "\<And>w. wr_track (f w) = wr_track w"
  shows "\<exists>ws. upd_wrapper i f p = (None, p\<lparr>pb_wrappers := ws\<rparr>) \<and> same_tracks (pb_wrappers p) ws"
proof (cases "map_of (pb_wrappers p) i")
  case None
  then show ?thesis by (intro exI [of _ "pb_wrappers p"]) (simp add: upd_wrapper_def)
next
  case (Some w)
  then show ?thesis using assms
    by (intro exI [of _ "obj_set i (f w) (pb_wrappers p)"]) (simp add: upd_wrapper_def same_tracks_def map_of_obj_set)
qed

lemma bars_okI:
  assumes "bars_ok p" "same_tracks (pb_wrappers p) (pb_wrappers p')" "pb_bars p' = pb_bars p"
    and "length (pb_made p') = length (pb_made p)"
    and "\<And>n. n < length (pb_made p) \<Longrightarrow> br_id (pb_made p' ! n) = br_id (pb_made p ! n) \<and>
      (bar_ok (pb_wrappers p) (pb_made p ! n) \<longrightarrow> bar_ok (pb_wrappers p) (pb_made p' ! n))"
  shows "bars_ok p'"
  using assms unfolding bars_ok_def bar_ok_tracks [OF assms(2)] all_set_conv_all_nth by metis

lemma nth_update_any: "m < length xs \<Longrightarrow> xs[n := x] ! m = (if m = n then x else xs ! m)"
  by simp

lemma bars_ok_upd_bar:
  assumes "bars_ok p" "br_id (f (pb_made p ! n)) = br_id (pb_made p ! n)"
    and "n < length (pb_made p) \<Longrightarrow> bar_ok (pb_wrappers p) (pb_made p ! n) \<Longrightarrow> bar_ok (pb_wrappers p) (f (pb_made p ! n))"
  shows "bars_ok (snd (upd_bar n f p))"
  by (rule bars_okI [OF assms(1)]) (use assms(2,3) in \<open>auto simp: upd_bar_def nth_update_any\<close>)

lemma bars_ok_upd_wrapper:
  assumes "bars_ok p" "\<And>w. wr_track (f w) = wr_track w"
  shows "bars_ok (snd (upd_wrapper i f p))"
proof -
  obtain ws where "upd_wrapper i f p = (None, p\<lparr>pb_wrappers := ws\<rparr>)" "same_tracks (pb_wrappers p) ws"
    using upd_wrapper_same [of f i p] assms(2) by blast
  then show ?thesis by (intro bars_okI [OF assms(1)]) simp_all
qed

lemma bars_ok_set_value:
  assumes "bars_ok p" "whole_value (clamp_value v)" "n < length (pb_made p)"
  shows "bars_ok (snd (set_value n v p))"
proof (cases "map_of (pb_wrappers p) (br_id (pb_made p ! n))")
  case (Some w)
  then show ?thesis using assms
    by (auto simp: set_value_def Let_def upd_bar_def bar_ok_def nth_update_any intro!: bars_okI [OF assms(1)]
        split: option.splits)
qed (use assms(1) in \<open>simp add: set_value_def Let_def\<close>)

text \<open>The page's part of a step: only wrappers change.\<close>

lemma upd_wrapper_frame [simp]:
  "fst (upd_wrapper i f p) = None" "pb_made (snd (upd_wrapper i f p)) = pb_made p"
  "pb_bars (snd (upd_wrapper i f p)) = pb_bars p"
  by (simp_all add: upd_wrapper_def split: option.split)

lemma upd_bar_frame [simp]: "fst (upd_bar n f p) = None" "pb_wrappers (snd (upd_bar n f p)) = pb_wrappers p"
  by (simp_all add: upd_bar_def)

lemma andthen_snd: "fst (c p) = None \<Longrightarrow> andthen c d p = d (snd (c p))"
  by (cases "c p") simp

lemma tracks_upd_wrapper:
  "(\<And>w. wr_track (f w) = wr_track w) \<Longrightarrow> same_tracks (pb_wrappers p) (pb_wrappers (snd (upd_wrapper i f p)))"
  using upd_wrapper_same [of f i p] by auto

lemma bars_ok_anim:
  assumes "bars_ok p" "n < length (pb_made p)"
  shows "bars_ok (snd (anim_done n p))"
proof (cases "br_anim (pb_made p ! n)")
  case (Some vw)
  obtain v width where vw: "vw = (v, width)" by (cases vw)
  let ?i = "br_id (pb_made p ! n)"
  let ?f = "\<lambda>b. b\<lparr>br_width := Some width, br_anim := None, br_data := v, br_log := br_log b @ [BarChange v width]\<rparr>"
  let ?p1 = "snd (upd_wrapper ?i (\<lambda>w. w\<lparr>wr_now := v\<rparr>) p)"
  have "bars_ok ?p1" by (rule bars_ok_upd_wrapper [OF assms(1)]) simp
  then have "bars_ok (snd (upd_bar n ?f ?p1))"
    by (rule bars_ok_upd_bar) (use Some vw in \<open>auto simp: bar_ok_def split: option.splits\<close>)
  then have "bars_ok (snd (upd_wrapper ?i (\<lambda>w. if wr_hasCount w then w\<lparr>wr_count := Some v\<rparr> else w) (snd (upd_bar n ?f ?p1))))"
    by (rule bars_ok_upd_wrapper) simp
  then show ?thesis using Some vw by (simp add: anim_done_def andthen_snd)
qed (use assms in \<open>simp add: anim_done_def\<close>)

lemma bar_ok_frame [simp]:
  "bar_ok ws (b\<lparr>br_fades := fs, br_visible := x, br_log := l\<rparr>) \<longleftrightarrow> bar_ok ws b"
  "bar_ok ws (b\<lparr>br_fades := fs\<rparr>) \<longleftrightarrow> bar_ok ws b"
  by (simp_all add: bar_ok_def cong: option.case_cong)

lemma bars_ok_later_irrelevant [simp]: "bars_ok (p\<lparr>pb_later := l\<rparr>) \<longleftrightarrow> bars_ok p"
  by (simp add: bars_ok_def)

lemma bars_ok_fade:
  assumes "bars_ok p"
  shows "bars_ok (snd (fade_done n p))"
proof (cases "br_fades (pb_made p ! n)")
  case (Cons x rest)
  let ?p1 = "snd (upd_wrapper (br_id (pb_made p ! n)) (\<lambda>w. w\<lparr>wr_shown := x\<rparr>) p)"
  have "bars_ok ?p1" by (rule bars_ok_upd_wrapper [OF assms]) simp
  then have "bars_ok (snd (upd_bar n (\<lambda>b. b\<lparr>br_fades := rest, br_visible := x,
      br_log := br_log b @ [if x then BarShow else BarHide]\<rparr>) ?p1))"
    by (rule bars_ok_upd_bar) simp_all
  then show ?thesis using Cons by (simp add: fade_done_def andthen_snd)
qed (use assms in \<open>simp add: fade_done_def\<close>)

lemma bars_ok_hide: "bars_ok p \<Longrightarrow> bars_ok (snd (bar_hide n p))"
  unfolding bar_hide_def by (rule bars_ok_upd_bar) simp_all

lemma bars_ok_show:
  assumes "bars_ok p"
  shows "bars_ok (snd (bar_show n p))"
proof -
  have "bars_ok (snd (upd_wrapper (br_id (pb_made p ! n)) (\<lambda>w. w\<lparr>wr_shown := True\<rparr>) p))"
    by (rule bars_ok_upd_wrapper [OF assms]) simp
  then have "bars_ok (snd (upd_bar n (\<lambda>b. b\<lparr>br_fades := br_fades b @ [True]\<rparr>)
      (snd (upd_wrapper (br_id (pb_made p ! n)) (\<lambda>w. w\<lparr>wr_shown := True\<rparr>) p))))"
    by (rule bars_ok_upd_bar) simp_all
  then show ?thesis by (simp add: bar_show_def andthen_snd)
qed

lemma bars_ok_later:
  assumes "bars_ok p"
  shows "bars_ok (snd (later_hide p))"
proof (cases "pb_later p")
  case (Cons i rest)
  have "bars_ok (p\<lparr>pb_later := rest\<rparr>)" using assms by simp
  then have "bars_ok (snd (upd_wrapper i (\<lambda>w. w\<lparr>wr_shown := False\<rparr>) (p\<lparr>pb_later := rest\<rparr>)))"
    by (rule bars_ok_upd_wrapper) simp
  then show ?thesis using Cons by (simp add: later_hide_def)
qed (use assms in \<open>simp add: later_hide_def\<close>)

lemma bars_index: "bars_ok p \<Longrightarrow> map_of (pb_bars p) ident = Some n \<Longrightarrow> n < length (pb_made p) \<and> br_id (pb_made p ! n) = ident"
  by (simp add: bars_ok_def)

lemma bars_ok_progress:
  assumes "bars_ok p"
  shows "bars_ok (snd (progress_bar ident loaded whole p))"
  using assms bars_index [OF assms]
  by (auto simp: progress_bar_def progress_percent_def whole_clamp_ceil intro: bars_ok_set_value split: option.split)

lemma bars_ok_success:
  assumes "bars_ok p"
  shows "bars_ok (snd (success_bar ident p))"
proof -
  have "bars_ok (snd ((case map_of (pb_bars p) ident of None \<Rightarrow> skip | Some n \<Rightarrow> set_value n (Num 100)) p))"
    using assms bars_index [OF assms] by (auto intro: bars_ok_set_value simp: whole_100 split: option.split)
  then show ?thesis
    by (cases "(case map_of (pb_bars p) ident of None \<Rightarrow> skip | Some n \<Rightarrow> set_value n (Num 100)) p")
      (auto simp: success_bar_def andthen_def split: option.split)
qed

lemma bars_ok_add:
  assumes "bars_ok p"
  shows "bars_ok (snd (add_bar ident p))"
proof -
  let ?n = "length (pb_made p)"
  let ?p = "p\<lparr>pb_made := pb_made p @ [new_bar ident]\<rparr>"
  have new: "pb_made ?p ! ?n = new_bar ident" by (simp add: nth_append)
  have made: "n < length (pb_made p) \<Longrightarrow> (pb_made p @ bs) ! n = pb_made p ! n" for n bs by (simp add: nth_append)
  let ?b = "(new_bar ident)\<lparr>br_drawn := True, br_log := [BarRender]\<rparr>"
  show ?thesis
  proof (cases "map_of (pb_wrappers p) ident")
    case None
    then have "snd (add_bar ident p) = ?p\<lparr>pb_bars := obj_set ident ?n (pb_bars p)\<rparr>"
      by (simp add: add_bar_def render_bar_def new new_bar_def Let_def andthen_snd)
    moreover have "bar_ok (pb_wrappers p) (new_bar ident)"
      using None by (simp add: bar_ok_def new_bar_def whole_100)
    ultimately show ?thesis
      using assms made bars_index [OF assms] by (auto simp: bars_ok_def map_of_obj_set new_bar_def less_Suc_eq nth_append)
  next
    case (Some w)
    let ?ws = "obj_set ident (w\<lparr>wr_now := Num 0\<rparr>) (pb_wrappers p)"
    have run: "snd (add_bar ident p) =
        p\<lparr>pb_made := pb_made p @ [?b], pb_wrappers := ?ws, pb_bars := obj_set ident ?n (pb_bars p)\<rparr>"
      using Some by (simp add: add_bar_def render_bar_def new_bar_def Let_def andthen_snd upd_wrapper_def upd_bar_def nth_append)
    have tr: "same_tracks (pb_wrappers p) ?ws" using Some by (simp add: same_tracks_def map_of_obj_set)
    have "bar_ok (pb_wrappers p) ?b" using Some by (simp add: bar_ok_def new_bar_def whole_100)
    then have "\<forall>b \<in> set (pb_made p @ [?b]). bar_ok ?ws b"
      using assms unfolding bar_ok_tracks [OF tr] by (simp add: bars_ok_def)
    then show ?thesis
      unfolding run using bars_index [OF assms] made by (auto simp: bars_ok_def map_of_obj_set new_bar_def less_Suc_eq nth_append)
  qed
qed

text \<open>A new element cannot belong to a bar that was drawn, and a bar that was not drawn stays so.\<close>

lemma bars_ok_element:
  assumes "bars_ok p" "map_of (pb_wrappers p) ident = None"
  shows "bars_ok (p\<lparr>pb_wrappers := obj_set ident w (pb_wrappers p)\<rparr>)"
proof -
  have "bar_ok (pb_wrappers p) b \<Longrightarrow> bar_ok (obj_set ident w (pb_wrappers p)) b" for b
    using assms(2) by (cases "br_id b = ident") (auto simp: bar_ok_def map_of_obj_set)
  then show ?thesis using assms(1) by (simp add: bars_ok_def)
qed

lemma bars_ok_step: "bars_step p p' \<Longrightarrow> bars_ok p \<Longrightarrow> bars_ok p'"
  by (induction rule: bars_step.induct)
    (simp_all add: bars_ok_element bars_ok_add bars_ok_progress bars_ok_success bars_ok_anim bars_ok_fade bars_ok_later
      bars_ok_show bars_ok_hide)

lemma bars_reachable_ok: "bars_reachable p \<Longrightarrow> bars_ok p"
proof (induction rule: bars_reachable.induct)
  case (init ws isHide)
  show ?case by (simp add: new_probars_def bars_ok_def)
qed (rule bars_ok_step)

text \<open>
  C40: In every reachable state every bar holds a whole number from 0 to 100, or \<open>NaN\<close>, and a bar without a
  running animation shows what it holds: its \<open>data-value\<close> is the value, and its width, once set, is the
  value's share of the element's width.
\<close>

theorem bars_consistent:
  assumes "bars_reachable p" "b \<in> set (pb_made p)"
  shows "(br_value b = NaN \<or> (\<exists>k \<le> 100. br_value b = Num (of_nat k))) \<and>
    (br_anim b = None \<longrightarrow> br_data b = br_value b \<and>
      (br_width b = None \<or> (\<exists>w. map_of (pb_wrappers p) (br_id b) = Some w \<and>
         br_width b = Some (pixel_width (wr_track w) (br_value b)))))"
  using bars_reachable_ok [OF assms(1)] assms(2)
  by (fastforce simp: bars_ok_def bar_ok_def whole_value_def split: option.splits)

definition some_page :: "(string, wrapper) obj" where
  "some_page = [(''file-0'', \<lparr>wr_track = 50, wr_now = Num 0, wr_shown = True, wr_hasCount = True, wr_count = None\<rparr>)]"

definition one_bar :: probars where
  "one_bar = snd (add_bar ''file-0'' (new_probars some_page True))"

lemma one_bar:
  "bars_reachable one_bar" "map_of (pb_bars one_bar) ''file-0'' = Some 0" "br_drawn (pb_made one_bar ! 0)"
  "\<exists>w. map_of (pb_wrappers one_bar) ''file-0'' = Some w \<and> wr_track w = 50" "length (pb_made one_bar) = 1"
  unfolding one_bar_def
  by (rule bars_reachable.step [OF bars_reachable.init bars_step.start])
    (simp_all add: add_bar_def render_bar_def new_bar_def new_probars_def some_page_def Let_def andthen_snd
      upd_wrapper_def upd_bar_def)

theorem bars_consistent_witness:
  "\<exists>b. pb_made (snd (success_bar ''file-0'' one_bar)) = [b] \<and> whole_value (br_value b) \<and> br_value b = Num 100"
proof -
  let ?p = "snd (success_bar ''file-0'' one_bar)"
  have r: "bars_reachable ?p" by (rule bars_reachable.step [OF one_bar(1) bars_step.success])
  obtain b where b: "pb_made ?p = [b]" "br_value b = Num 100"
    by (simp add: one_bar_def add_bar_def render_bar_def new_bar_def new_probars_def some_page_def Let_def andthen_snd
      upd_wrapper_def upd_bar_def success_bar_def set_value_def andthen_def clamp_100)
  then show ?thesis using bars_consistent [OF r, of b] by (simp add: whole_value_def)
qed

lemma js_mul_commute: "js_mul a b = js_mul b a"
  by (auto simp: js_mul_def mult.commute split: js_num.splits)

lemma pixel_width_100: "track < 2 ^ 53 \<Longrightarrow> pixel_width track (Num 100) = Num (of_nat track)"
  using to_double_whole [of 1] to_double_whole [of track]
  by (simp add: pixel_width_def js_div_def js_mul_def js_ceil_def)

text \<open>A bar is never wider than its element.\<close>

lemma pixel_width_bound:
  assumes "k \<le> 100" "track \<le> 2 ^ 44"
  shows "\<exists>v. pixel_width track (Num (of_nat k)) = Num (of_int v) \<and> 0 \<le> v \<and> v \<le> int track"
proof (cases "track = 0")
  case True
  have "to_double (of_nat k / 100) \<noteq> NaN \<and> (\<forall>s. to_double (of_nat k / 100) \<noteq> Infinity s)"
    using share_near [of k 100 1] assms(1) to_double_whole [of 0] by (cases "k = 0") auto
  then obtain r where "to_double (of_nat k / 100) = Num r" by (cases "to_double (of_nat k / 100)") auto
  then show ?thesis using True to_double_whole [of 0]
    by (intro exI [of _ 0]) (simp add: pixel_width_def js_div_def js_mul_def js_ceil_def)
next
  case False
  have "100 * track \<le> 100 * 2 ^ 44" using assms(2) by simp
  also have "\<dots> \<le> 2 ^ 51" by simp
  finally obtain v where v: "pixel_width track (Num (of_nat k)) = Num (of_int v)"
      "v = ceil_share k 100 track \<or> k < 100 \<and> 100 dvd k * track \<and> v = ceil_share k 100 track + 1"
    using ceil_share_computed [of 100 k track] assms(1) False unfolding pixel_width_def js_ops js_mul_commute [of "Num (of_nat track)"] by auto
  then show ?thesis using ceil_share_bound [of 100 k track] assms(1) False by (intro exI [of _ v]) auto
qed

text \<open>
  When an upload succeeds and the animation has ended, the bar fills its element and all its readings are
  100, whatever the bar had shown before; the element is hidden later if so configured.
\<close>

theorem success_fills:
  assumes "bars_reachable p" "map_of (pb_bars p) ident = Some n" "br_drawn (pb_made p ! n)"
    and "map_of (pb_wrappers p) ident = Some w" "wr_track w < 2 ^ 53"
  shows "\<exists>p1 p2 b w'. success_bar ident p = (None, p1) \<and> anim_done n p1 = (None, p2) \<and>
    pb_made p2 ! n = b \<and> br_value b = Num 100 \<and> br_data b = Num 100 \<and>
    br_width b = Some (Num (of_nat (wr_track w))) \<and> br_anim b = None \<and>
    map_of (pb_wrappers p2) ident = Some w' \<and> wr_now w' = Num 100 \<and> (wr_hasCount w \<longrightarrow> wr_count w' = Some (Num 100)) \<and>
    (ident \<in> set (pb_later p2) \<or> \<not> pb_isHide p)"
proof -
  have n: "n < length (pb_made p)" "br_id (pb_made p ! n) = ident"
    using bars_index [OF bars_reachable_ok [OF assms(1)] assms(2)] by auto
  let ?f = "\<lambda>b. b\<lparr>br_anim := Some (Num 100, Num (of_nat (wr_track w))), br_value := Num 100\<rparr>"
  let ?p = "p\<lparr>pb_made := (pb_made p)[n := ?f (pb_made p ! n)]\<rparr>"
  let ?p1 = "if pb_isHide p then ?p\<lparr>pb_later := pb_later p @ [ident]\<rparr> else ?p"
  have "set_value n (Num 100) p = (None, ?p)"
    using assms(3,4) n pixel_width_100 [OF assms(5)] by (simp add: set_value_def Let_def clamp_100 upd_bar_def)
  then have "success_bar ident p = (None, ?p1)" using assms(2) by (simp add: success_bar_def andthen_def)
  then show ?thesis
    using n assms(4) by (simp add: anim_done_def andthen_def upd_wrapper_def upd_bar_def map_of_obj_set)
qed

theorem success_fills_witness:
  "\<exists>p b. anim_done 0 (snd (success_bar ''file-0'' one_bar)) = (None, p) \<and> pb_made p ! 0 = b \<and> br_width b = Some (Num 50)"
proof -
  obtain w where w: "map_of (pb_wrappers one_bar) ''file-0'' = Some w" "wr_track w = 50" using one_bar(4) by blast
  have "wr_track w < 2 ^ 53" unfolding w(2) by simp
  from success_fills [OF one_bar(1,2,3) w(1) this] w(2) show ?thesis by auto
qed

text \<open>
  A file whose item has no element for a bar when its upload starts makes every progress and success
  handler fail, also if the element comes later.
\<close>

theorem bar_missing:
  assumes "map_of (pb_wrappers p) ident = None"
  shows "(\<exists>p'. add_bar ident p = (None, p') \<and> progress_bar ident loaded whole p' = (Some TypeError, p') \<and>
      success_bar ident p' = (Some TypeError, p') \<and>
      (let p'' = p'\<lparr>pb_wrappers := obj_set ident w (pb_wrappers p')\<rparr> in
         progress_bar ident loaded whole p'' = (Some TypeError, p'')))"
  using assms
  by (simp add: add_bar_def render_bar_def andthen_def Let_def progress_bar_def success_bar_def set_value_def
      map_of_obj_set new_bar_def nth_append)

theorem bar_missing_witness:
  "progress_bar ''file-9'' 1 2 (snd (add_bar ''file-9'' one_bar)) = (Some TypeError, snd (add_bar ''file-9'' one_bar))"
proof -
  have "map_of (pb_wrappers one_bar) ''file-9'' = None"
    by (simp add: one_bar_def add_bar_def render_bar_def new_bar_def new_probars_def some_page_def Let_def andthen_snd
      upd_wrapper_def upd_bar_def)
  then obtain p' where "add_bar ''file-9'' one_bar = (None, p')" "progress_bar ''file-9'' 1 2 p' = (Some TypeError, p')"
    using bar_missing [of one_bar "''file-9''" 1 2 "snd (hd some_page)"] by blast
  then show ?thesis by simp
qed

end
