(* ===== verification/UrlsInput.thy ===== *)
theory UrlsInput
  imports JsCommand
begin

section \<open>The list of uploaded addresses\<close>

text \<open>
  \<open>plugins/urlsInput/urlsInput.js\<close>: the addresses of the files uploaded, kept in an array and, joined, in
  a hidden input. Whether an address is present is asked with the regular expression it makes. Texts are
  ASCII.
\<close>

record urls_input =
  ui_urls :: "string list"
  ui_split :: string
  ui_target :: string
  ui_useName :: bool

text \<open>\<open>ui_target\<close> is the input's value; the input exists.\<close>

subsection \<open>Regular expressions\<close>

text \<open>
  An expression of ordinary characters and dots: it is found where each of its characters is the text's
  or a dot, which stands for anything but a line break.
\<close>

definition special_char :: "char \<Rightarrow> bool" where
  "special_char c \<longleftrightarrow> c \<in> set (CHR 0x5C # ''^$*+?()[]{}|'')"

fun re_prefix :: "string \<Rightarrow> string \<Rightarrow> bool" where
  "re_prefix [] s = True"
| "re_prefix (p # ps) [] = False"
| "re_prefix (p # ps) (c # s) =
     ((if p = CHR ''.'' then c \<noteq> CHR 0x0A \<and> c \<noteq> CHR 0x0D else p = c) \<and> re_prefix ps s)"

fun re_found :: "string \<Rightarrow> string \<Rightarrow> bool" where
  "re_found p [] = (p = [])"
| "re_found p (c # s) = (re_prefix p (c # s) \<or> re_found p s)"

text \<open>
  \<open>new RegExp(url)\<close>: other expressions are given by the parameter \<open>regexp\<close>, \<open>None\<close> for one that is no
  expression and throws (a \<open>SyntaxError\<close>).
\<close>

type_synonym regexps = "string \<Rightarrow> (string \<Rightarrow> bool) option"

definition plain_url :: "string \<Rightarrow> bool" where
  "plain_url url \<longleftrightarrow> \<not> list_ex special_char url"

definition new_RegExp :: "regexps \<Rightarrow> string \<Rightarrow> (string \<Rightarrow> bool) option" where
  "new_RegExp regexp url = (if plain_url url then Some (re_found url) else regexp url)"

subsection \<open>The operations\<close>

datatype 'a outcome = Threw | Done 'a

definition isExist :: "regexps \<Rightarrow> string \<Rightarrow> urls_input \<Rightarrow> bool outcome" where
  "isExist regexp url t =
     (case new_RegExp regexp url of
        None \<Rightarrow> Threw
      | Some reg \<Rightarrow> Done (list_ex reg (ui_urls t)))"

text \<open>\<open>xs.join(split)\<close> and \<open>s.split(split)\<close> for a separator of any length; an empty one cuts into characters.\<close>

fun join_str :: "string \<Rightarrow> string list \<Rightarrow> string" where
  "join_str sep [] = []"
| "join_str sep [x] = x"
| "join_str sep (x # y # ys) = x @ sep @ join_str sep (y # ys)"

function split_str :: "string \<Rightarrow> string \<Rightarrow> string \<Rightarrow> string list" where
  "split_str sep acc [] = [rev acc]"
| "split_str sep acc (c # s) =
     (if sep \<noteq> [] \<and> take (length sep) (c # s) = sep
      then rev acc # split_str sep [] (drop (length sep) (c # s))
      else split_str sep (c # acc) s)"
  by pat_completeness auto
termination by (relation "measure (\<lambda>(sep, acc, s). length s)") (auto simp: Suc_le_eq)

definition js_split :: "string \<Rightarrow> string \<Rightarrow> string list" where
  "js_split sep s = (if sep = [] then map (\<lambda>c. [c]) s else split_str sep [] s)"

definition ui_val :: "urls_input \<Rightarrow> urls_input" where
  "ui_val t = t\<lparr>ui_target := join_str (ui_split t) (ui_urls t)\<rparr>"

text \<open>
  \<open>add\<close>: a first address that is empty drops the whole list, but only if the new address is not found;
  \<open>None\<close> is a value that is no text.
\<close>

definition add_url :: "regexps \<Rightarrow> string option \<Rightarrow> urls_input \<Rightarrow> urls_input outcome" where
  "add_url regexp url t =
     (case url of
        None \<Rightarrow> Done t
      | Some u \<Rightarrow>
          (case isExist regexp u t of
             Threw \<Rightarrow> Threw
           | Done True \<Rightarrow> Done t
           | Done False \<Rightarrow>
               (let urls = (if js_get (ui_urls t) 0 = Some [] then [] else ui_urls t)
                in Done (ui_val (t\<lparr>ui_urls := urls @ [u]\<rparr>)))))"

definition remove_url :: "regexps \<Rightarrow> string option \<Rightarrow> urls_input \<Rightarrow> urls_input outcome" where
  "remove_url regexp url t =
     (if or_empty url = [] then Done t
      else (case isExist regexp (or_empty url) t of
              Threw \<Rightarrow> Threw
            | Done False \<Rightarrow> Done t
            | Done True \<Rightarrow>
                (case new_RegExp regexp (or_empty url) of
                   None \<Rightarrow> Threw
                 | Some reg \<Rightarrow> Done (ui_val (t\<lparr>ui_urls := filter (\<lambda>s. \<not> reg s) (ui_urls t)\<rparr>)))))"

text \<open>The element list that \<open>target\<close> gives is never false, so the last branch of \<open>parse\<close> is not reached.\<close>

definition parse_urls :: "urls_input \<Rightarrow> string list \<times> urls_input" where
  "parse_urls t =
     (if ui_target t = [] then ([], t)
      else (let files = js_split (ui_split t) (ui_target t) in (files, t\<lparr>ui_urls := files\<rparr>)))"

text \<open>The setter of \<open>split\<close> writes the input before the new separator is set.\<close>

definition set_split :: "string \<Rightarrow> urls_input \<Rightarrow> urls_input" where
  "set_split v t = (ui_val t)\<lparr>ui_split := v\<rparr>"

text \<open>A success event's result: its \<open>url\<close> and its \<open>name\<close>; \<open>None\<close> for a result that is no object.\<close>

definition url_uploaded :: "regexps \<Rightarrow> (string option \<times> string option) option \<Rightarrow> urls_input \<Rightarrow> urls_input outcome" where
  "url_uploaded regexp result t =
     (case result of None \<Rightarrow> Done t | Some (url, name) \<Rightarrow> add_url regexp (if ui_useName t then name else url) t)"

definition file_url_removed :: "regexps \<Rightarrow> (string option \<times> string option) option \<Rightarrow> urls_input \<Rightarrow> urls_input outcome" where
  "file_url_removed regexp result t =
     (case result of None \<Rightarrow> Done t | Some (url, name) \<Rightarrow> remove_url regexp (if ui_useName t then name else url) t)"

subsection \<open>Facts\<close>

lemma re_prefix_self: "re_prefix p (q @ s)" if "list_all2 (\<lambda>x y. x = y \<and> y \<noteq> CHR 0x0A \<and> y \<noteq> CHR 0x0D) p q"
  using that by (induction p q rule: list_all2_induct) auto

lemma re_found_part: "re_prefix p s \<Longrightarrow> re_found p (r @ s)"
proof (induction r)
  case Nil
  then show ?case by (cases s) (cases p; simp)+
qed simp

definition one_line :: "string \<Rightarrow> bool" where
  "one_line s \<longleftrightarrow> CHR 0x0A \<notin> set s \<and> CHR 0x0D \<notin> set s"

lemma re_found_infix: "one_line p \<Longrightarrow> re_found p (r @ p @ s)"
  by (intro re_found_part re_prefix_self) (auto simp: one_line_def list_all2_same)

lemma re_found_self: "one_line p \<Longrightarrow> re_found p p"
  using re_found_infix [of p "[]" "[]"] by simp

lemma split_one_acc: "split_str [c] acc s = (case split_on c s of [] \<Rightarrow> [] | x # xs \<Rightarrow> (rev acc @ x) # xs)"
proof (induction s arbitrary: acc)
  case (Cons d s)
  then show ?case using split_on_ne [of c s] by (cases "split_on c s") auto
qed simp

lemma js_split_one: "js_split [c] s = split_on c s"
  using split_one_acc [of c "[]" s] split_on_ne [of c s] by (cases "split_on c s") (simp_all add: js_split_def)

lemma join_str_one: "join_str [c] xs = (if xs = [] then [] else join_on c xs)"
proof (induction xs)
  case (Cons x xs)
  then show ?case by (cases xs) simp_all
qed simp

lemma join_one_empty: "join_str [c] xs = [] \<longleftrightarrow> xs = [] \<or> xs = [[]]"
  by (cases xs; cases "tl xs") (auto simp: join_str_one)

subsection \<open>Properties\<close>

text \<open>The calls a page makes, on addresses that are ordinary texts.\<close>

datatype url_op = AddUrl string | RemoveUrl string

fun url_text :: "url_op \<Rightarrow> string" where
  "url_text (AddUrl u) = u"
| "url_text (RemoveUrl u) = u"

fun run_urls :: "regexps \<Rightarrow> url_op list \<Rightarrow> urls_input \<Rightarrow> urls_input outcome" where
  "run_urls regexp [] t = Done t"
| "run_urls regexp (AddUrl u # ops) t =
     (case add_url regexp (Some u) t of Threw \<Rightarrow> Threw | Done t' \<Rightarrow> run_urls regexp ops t')"
| "run_urls regexp (RemoveUrl u # ops) t =
     (case remove_url regexp (Some u) t of Threw \<Rightarrow> Threw | Done t' \<Rightarrow> run_urls regexp ops t')"

definition good_url :: "char \<Rightarrow> string \<Rightarrow> bool" where
  "good_url c u \<longleftrightarrow> u \<noteq> [] \<and> plain_url u \<and> one_line u \<and> c \<notin> set u"

definition urls_ok :: "char \<Rightarrow> urls_input \<Rightarrow> bool" where
  "urls_ok c t \<longleftrightarrow> ui_split t = [c] \<and> distinct (ui_urls t) \<and> list_all (good_url c) (ui_urls t) \<and>
     ui_target t = join_str [c] (ui_urls t)"

lemma add_url_ok:
  assumes "urls_ok c t" "good_url c u"
  shows "\<exists>t'. add_url regexp (Some u) t = Done t' \<and> urls_ok c t'"
proof (cases "list_ex (re_found u) (ui_urls t)")
  case True
  then show ?thesis
    using assms by (simp add: add_url_def isExist_def new_RegExp_def good_url_def)
next
  case False
  then have new: "u \<notin> set (ui_urls t)"
    using re_found_self assms(2) by (auto simp: good_url_def list_ex_iff)
  have "js_get (ui_urls t) 0 \<noteq> Some []"
    using assms(1) by (auto simp: urls_ok_def js_get_Some good_url_def list_all_length)
  then show ?thesis
    using assms False new
    by (auto simp: add_url_def isExist_def new_RegExp_def good_url_def urls_ok_def ui_val_def Let_def)
qed

lemma remove_url_ok:
  assumes "urls_ok c t" "good_url c u"
  shows "\<exists>t'. remove_url regexp (Some u) t = Done t' \<and> urls_ok c t'"
proof -
  have "list_all (good_url c) (filter (\<lambda>s. \<not> re_found u s) (ui_urls t))"
    using assms(1) by (auto simp: urls_ok_def list_all_iff)
  then show ?thesis
    using assms
    by (auto simp: remove_url_def isExist_def new_RegExp_def good_url_def urls_ok_def ui_val_def
        split: outcome.splits bool.splits)
qed

text \<open>
  The hidden input holds the list. After any calls of \<open>add\<close> and \<open>remove\<close> with addresses that are
  ordinary texts without the separator, starting empty, no call has thrown, no address is held twice,
  and parsing the input gives the addresses again and changes nothing.
\<close>

theorem urls_roundtrip:
  assumes "list_all (good_url c) (map url_text ops)"
  shows "\<exists>t. run_urls regexp ops \<lparr>ui_urls = [], ui_split = [c], ui_target = [], ui_useName = b\<rparr> = Done t \<and>
     distinct (ui_urls t) \<and> parse_urls t = (ui_urls t, t)"
proof -
  have run: "urls_ok c t \<Longrightarrow> list_all (good_url c) (map url_text ops) \<Longrightarrow>
      \<exists>t'. run_urls regexp ops t = Done t' \<and> urls_ok c t'" for t
  proof (induction ops arbitrary: t)
    case (Cons op ops)
    obtain t' where "urls_ok c t'" "run_urls regexp (op # ops) t = run_urls regexp ops t'"
    proof (cases op)
      case (AddUrl u)
      then obtain t' where "add_url regexp (Some u) t = Done t'" "urls_ok c t'"
        using add_url_ok [OF Cons.prems(1), of u regexp] Cons.prems(2) by auto
      then show ?thesis using that AddUrl by simp
    next
      case (RemoveUrl u)
      then obtain t' where "remove_url regexp (Some u) t = Done t'" "urls_ok c t'"
        using remove_url_ok [OF Cons.prems(1), of u regexp] Cons.prems(2) by auto
      then show ?thesis using that RemoveUrl by simp
    qed
    then show ?case using Cons.IH [of t'] Cons.prems(2) by simp
  qed simp
  have "urls_ok c \<lparr>ui_urls = [], ui_split = [c], ui_target = [], ui_useName = b\<rparr>"
    by (simp add: urls_ok_def)
  from run [OF this assms] obtain t where t: "urls_ok c t"
    "run_urls regexp ops \<lparr>ui_urls = [], ui_split = [c], ui_target = [], ui_useName = b\<rparr> = Done t" by blast
  have "parse_urls t = (ui_urls t, t)"
  proof (cases "ui_urls t = []")
    case True
    then show ?thesis using t(1) by (simp add: parse_urls_def urls_ok_def)
  next
    case False
    then have "ui_target t \<noteq> []"
      using t(1) join_one_empty [of c "ui_urls t"] by (auto simp: urls_ok_def good_url_def)
    moreover have "js_split [c] (join_str [c] (ui_urls t)) = ui_urls t"
      using False t(1) split_join [of "ui_urls t" c]
      by (auto simp: js_split_one join_str_one urls_ok_def good_url_def list_all_iff)
    ultimately show ?thesis using t(1) by (simp add: parse_urls_def urls_ok_def)
  qed
  then show ?thesis using t by (auto simp: urls_ok_def)
qed

theorem urls_roundtrip_witness:
  "\<exists>t. run_urls (\<lambda>_. None) [AddUrl ''u/1.jpg'', AddUrl ''u/2.jpg'', RemoveUrl ''u/1.jpg'']
       \<lparr>ui_urls = [], ui_split = '','', ui_target = [], ui_useName = False\<rparr> = Done t \<and> parse_urls t = (ui_urls t, t)"
  using urls_roundtrip [of "CHR '',''" "[AddUrl ''u/1.jpg'', AddUrl ''u/2.jpg'', RemoveUrl ''u/1.jpg'']" "\<lambda>_. None" False]
  by (auto simp: good_url_def plain_url_def special_char_def one_line_def)

text \<open>
  Addresses are found inside others. If an address of the list contains \<open>u\<close>, then \<open>u\<close> is not added, and
  removing \<open>u\<close> removes that other address.
\<close>

theorem url_in_other:
  assumes "u \<noteq> []" "plain_url u" "one_line u" "r @ u @ s \<in> set (ui_urls t)"
  shows "add_url regexp (Some u) t = Done t \<and>
     (\<exists>t'. remove_url regexp (Some u) t = Done t' \<and> r @ u @ s \<notin> set (ui_urls t'))"
proof -
  have f: "re_found u (r @ u @ s)" by (rule re_found_infix [OF assms(3)])
  then have "list_ex (re_found u) (ui_urls t)" using assms(4) by (auto simp: list_ex_iff)
  then show ?thesis
    using f assms(1,2) by (simp add: add_url_def remove_url_def isExist_def new_RegExp_def ui_val_def)
qed

theorem url_in_other_witness:
  "add_url (\<lambda>_. None) (Some ''1.jpg'') \<lparr>ui_urls = [''11.jpg''], ui_split = '','', ui_target = ''11.jpg'', ui_useName = False\<rparr> =
     Done \<lparr>ui_urls = [''11.jpg''], ui_split = '','', ui_target = ''11.jpg'', ui_useName = False\<rparr>"
  using url_in_other [of "''1.jpg''" "''1''" "[]"]
  by (simp add: plain_url_def special_char_def one_line_def)

end
