(* ===== verification/JsText.thy ===== *)
theory JsText
  imports JsPrelude
begin

section \<open>Texts of form fields\<close>

text \<open>
  What the pages do with the texts of their fields: white space and \<open>$.trim\<close>, decimal digits,
  \<open>parseInt\<close>, and the order \<open><\<close> on strings. A text is an Isabelle string,
  whose characters are the code units below 256.
\<close>

definition is_digit :: "char \<Rightarrow> bool" where
  "is_digit c \<longleftrightarrow> 48 \<le> (of_char c :: nat) \<and> (of_char c :: nat) \<le> 57"

text \<open>White space: tab, line feed, vertical tab, form feed, carriage return, space, no-break space.\<close>

definition is_space :: "char \<Rightarrow> bool" where
  "is_space c \<longleftrightarrow> of_char c \<in> {9, 10, 11, 12, 13, 32, 160 :: nat}"

definition trim :: "string \<Rightarrow> string" where
  "trim s = rev (dropWhile is_space (rev (dropWhile is_space s)))"

text \<open>\<open>parseInt\<close> of a decimal text: spaces, a sign and the digits that follow; \<open>None\<close> is \<open>NaN\<close>.\<close>

definition parse_int :: "string \<Rightarrow> int option" where
  "parse_int s =
     (let s = dropWhile is_space s;
          (sign, s) = (case s of c # r \<Rightarrow> if c = CHR ''-'' then (-1, r) else if c = CHR ''+'' then (1, r) else (1, s)
                       | [] \<Rightarrow> (1, s));
          ds = takeWhile is_digit s
      in if ds = [] then None else Some (sign * int (nat_of_dec ds)))"

text \<open>\<open>s < t\<close> compares code units from the left; a proper prefix is smaller.\<close>

fun str_less :: "string \<Rightarrow> string \<Rightarrow> bool" where
  "str_less s [] = False"
| "str_less [] (d # t) = True"
| "str_less (c # s) (d # t) =
     ((of_char c :: nat) < of_char d \<or> c = d \<and> str_less s t)"

subsection \<open>Digits\<close>

lemma digit_chars:
  "digit_char 0 = CHR ''0''" "digit_char (Suc 0) = CHR ''1''" "digit_char 2 = CHR ''2''" "digit_char 3 = CHR ''3''"
  "digit_char 4 = CHR ''4''" "digit_char 5 = CHR ''5''" "digit_char 6 = CHR ''6''" "digit_char 7 = CHR ''7''"
  "digit_char 8 = CHR ''8''" "digit_char 9 = CHR ''9''"
  by (simp_all add: digit_char_def char_of_eq_iff)

lemma is_digit_char: "d < 10 \<Longrightarrow> is_digit (digit_char d)"
  by (simp add: is_digit_def digit_char_def)

lemma dec_is_digit: "c \<in> set (dec_of_nat n) \<Longrightarrow> is_digit c"
  using dec_of_nat_digits is_digit_char by blast

lemma dec_no_letter: "\<not> is_digit c \<Longrightarrow> c \<notin> set (dec_of_nat n)"
  using dec_is_digit by blast

lemma digit_not_space: "is_digit c \<Longrightarrow> \<not> is_space c"
  by (auto simp: is_digit_def is_space_def)

lemma digit_not_sign: "is_digit c \<Longrightarrow> c \<noteq> CHR ''-'' \<and> c \<noteq> CHR ''+''"
  by (auto simp: is_digit_def)

lemma parse_int_digits:
  assumes "ds \<noteq> []" "\<forall>c \<in> set ds. is_digit c" "r = [] \<or> \<not> is_digit (hd r)"
  shows "parse_int (ds @ r) = Some (int (nat_of_dec ds))"
proof -
  obtain c cs where ds: "ds = c # cs" using assms(1) by (cases ds) auto
  have "takeWhile is_digit (ds @ r) = ds"
    using assms(2,3) by (cases r) (auto simp: takeWhile_append)
  then show ?thesis
    using assms(1,2) ds digit_not_space [of c] digit_not_sign [of c] by (simp add: parse_int_def Let_def)
qed

lemma parse_int_dec [simp]: "parse_int (dec_of_nat n) = Some (int n)"
  using parse_int_digits [of "dec_of_nat n" "[]"] dec_is_digit by simp

subsection \<open>Trimming\<close>

lemma trim_Nil [simp]: "trim [] = []"
  by (simp add: trim_def)

lemma trim_empty: "trim s = [] \<longleftrightarrow> (\<forall>c \<in> set s. is_space c)"
proof
  assume "trim s = []"
  then have "\<forall>c \<in> set (rev (dropWhile is_space s)). is_space c"
    unfolding trim_def rev_is_Nil_conv dropWhile_eq_Nil_conv .
  then have "\<forall>c \<in> set (dropWhile is_space s). is_space c" by (simp only: set_rev)
  moreover have "set s = set (takeWhile is_space s) \<union> set (dropWhile is_space s)"
    by (metis set_append takeWhile_dropWhile_id)
  ultimately show "\<forall>c \<in> set s. is_space c" by (auto dest: set_takeWhileD)
next
  assume "\<forall>c \<in> set s. is_space c"
  then have e: "dropWhile is_space s = []" by (simp only: dropWhile_eq_Nil_conv)
  show "trim s = []" unfolding trim_def e by simp
qed

lemma trim_id: "s = [] \<or> \<not> is_space (hd s) \<and> \<not> is_space (last s) \<Longrightarrow> trim s = s"
proof (cases "s = []")
  case False
  moreover assume "s = [] \<or> \<not> is_space (hd s) \<and> \<not> is_space (last s)"
  ultimately have ends: "\<not> is_space (hd s)" "\<not> is_space (hd (rev s))" by (simp_all add: hd_rev)
  have "dropWhile is_space s = s" "dropWhile is_space (rev s) = rev s"
    using ends False by (simp_all add: dropWhile_eq_self_iff)
  then show "trim s = s" by (simp add: trim_def)
qed simp

lemma trim_no_space: "\<forall>c \<in> set s. \<not> is_space c \<Longrightarrow> trim s = s"
  by (rule trim_id) (cases "s = []"; simp)

lemma trim_infix: "\<exists>p q. s = p @ trim s @ q \<and> (\<forall>c \<in> set p. is_space c) \<and> (\<forall>c \<in> set q. is_space c)"
proof -
  let ?d = "dropWhile is_space s"
  have "rev ?d = takeWhile is_space (rev ?d) @ rev (trim s)"
    by (simp add: trim_def)
  then have "?d = trim s @ rev (takeWhile is_space (rev ?d))"
    by (metis rev_append rev_rev_ident)
  then have "s = takeWhile is_space s @ trim s @ rev (takeWhile is_space (rev ?d))"
    by (metis takeWhile_dropWhile_id)
  then show ?thesis by (metis set_rev set_takeWhileD)
qed

subsection \<open>The order of strings\<close>

lemma str_less_irrefl [simp]: "\<not> str_less s s"
  by (induction s) auto

lemma str_less_common: "str_less (p @ s) (p @ t) \<longleftrightarrow> str_less s t"
  by (induction p) auto

lemma str_less_total: "str_less s t \<or> s = t \<or> str_less t s"
proof (induction s t rule: str_less.induct)
  case (1 s)
  then show ?case by (cases s) auto
qed auto

lemma str_less_asym: "str_less s t \<Longrightarrow> \<not> str_less t s"
  by (induction s t rule: str_less.induct) auto

text \<open>Numerals of the same length are ordered as their numbers.\<close>

lemma nat_of_dec_foldl: "foldl (\<lambda>n c. 10 * n + digit_val c) a s = a * 10 ^ length s + nat_of_dec s"
proof (induction s arbitrary: a)
  case Nil
  then show ?case by (simp add: nat_of_dec_def)
next
  case (Cons c s)
  show ?case
    using Cons [of "10 * a + digit_val c"] Cons [of "digit_val c"]
    by (simp add: nat_of_dec_def algebra_simps)
qed

lemma nat_of_dec_Cons: "nat_of_dec (c # s) = digit_val c * 10 ^ length s + nat_of_dec s"
  using nat_of_dec_foldl [of "digit_val c" s] by (simp add: nat_of_dec_def)

lemma nat_of_dec_less: "\<forall>c \<in> set s. is_digit c \<Longrightarrow> nat_of_dec s < 10 ^ length s"
proof (induction s)
  case (Cons c s)
  then have "digit_val c \<le> 9" "nat_of_dec s < 10 ^ length s"
    by (auto simp: is_digit_def digit_val_def)
  then have "digit_val c * 10 ^ length s + nat_of_dec s < 9 * 10 ^ length s + 10 ^ length s"
    by (intro add_le_less_mono mult_right_mono) auto
  then show ?case by (simp add: nat_of_dec_Cons)
qed (simp add: nat_of_dec_def)

lemma str_less_digits:
  assumes "length s = length t" "\<forall>c \<in> set (s @ t). is_digit c"
  shows "str_less s t \<longleftrightarrow> nat_of_dec s < nat_of_dec t"
  using assms
proof (induction s t rule: list_induct2)
  case (Cons c s d t)
  let ?c = "digit_val c" and ?d = "digit_val d" and ?p = "10 ^ length s :: nat"
  have small: "nat_of_dec s < ?p" "nat_of_dec t < ?p"
    using Cons.prems Cons.hyps nat_of_dec_less [of s] nat_of_dec_less [of t] by auto
  have val: "(of_char c :: nat) < of_char d \<longleftrightarrow> ?c < ?d" "c = d \<longleftrightarrow> ?c = ?d"
  proof -
    have ge: "48 \<le> (of_char c :: nat)" "48 \<le> (of_char d :: nat)"
      using Cons.prems by (auto simp: is_digit_def)
    then show "(of_char c :: nat) < of_char d \<longleftrightarrow> ?c < ?d" by (auto simp: digit_val_def)
    show "c = d \<longleftrightarrow> ?c = ?d"
      using ge by (auto simp: digit_val_def) (metis eq_diff_iff of_char_eq_iff)
  qed
  have step: "a * ?p + x < b * ?p + y \<longleftrightarrow> a < b \<or> a = b \<and> x < y" if "x < ?p" "y < ?p" for a b x y :: nat
  proof (cases a b rule: linorder_cases)
    case less
    then have "Suc a * ?p \<le> b * ?p" by (intro mult_right_mono) auto
    with that less show ?thesis by (auto simp: algebra_simps)
  next
    case greater
    then have "Suc b * ?p \<le> a * ?p" by (intro mult_right_mono) auto
    with that greater show ?thesis by (auto simp: algebra_simps)
  qed simp
  show ?case
    using Cons step [OF small, of ?c ?d] val by (simp add: nat_of_dec_Cons)
qed simp

end
