(* ===== verification/JsDate.thy ===== *)
theory JsDate
  imports JsText
begin

section \<open>Dates as the report scripts use them\<close>

text \<open>
  The part of JavaScript's \<open>Date\<close> the scripts use, by the definitions of the language standard
  (day numbers counted from 1970-01-01, \<open>Day\<close>, \<open>DayFromYear\<close>, \<open>MonthFromTime\<close>, \<open>MakeDay\<close>), with the
  offset of the local time zone as an argument, and on it \<open>Date.prototype.Format\<close> and \<open>dateDiff\<close> of
  \<open>admanager/.../common/common.js\<close> and the default date of \<open>sspserver/.../date.init.js\<close>. An instant is
  its number of milliseconds; the offset is constant, as it is in China.
\<close>

subsection \<open>The calendar\<close>

definition day_from_year :: "int \<Rightarrow> int" where
  "day_from_year y = 365 * (y - 1970) + (y - 1969) div 4 - (y - 1901) div 100 + (y - 1601) div 400"

definition leap :: "int \<Rightarrow> bool" where
  "leap y \<longleftrightarrow> y mod 4 = 0 \<and> (y mod 100 \<noteq> 0 \<or> y mod 400 = 0)"

text \<open>Months are numbered from 0; \<open>month_start lp 12\<close> is the length of the year.\<close>

definition month_start :: "bool \<Rightarrow> nat \<Rightarrow> int" where
  "month_start lp m = [0, 31, 59, 90, 120, 151, 181, 212, 243, 273, 304, 334, 365] ! m +
     (if lp \<and> 2 \<le> m then 1 else 0)"

lemma div_step: "0 < n \<Longrightarrow> (a + 1) div n = a div n + (if (a + 1) mod n = 0 then 1 else 0)" for a n :: int
proof -
  assume n: "0 < n"
  have a: "a = n * (a div n) + a mod n" "0 \<le> a mod n" "a mod n < n" using n by simp_all
  show ?thesis
  proof (cases "a mod n = n - 1")
    case True
    have "a + 1 = n * (a div n) + (a mod n + 1)" using a(1) by simp
    also have "\<dots> = n * (a div n + 1)" unfolding True by (simp add: distrib_left)
    finally have e: "a + 1 = n * (a div n + 1)" .
    have "(a + 1) mod n = 0" "(a + 1) div n = a div n + 1" unfolding e using n by simp_all
    then show ?thesis by simp
  next
    case False
    then have r: "0 \<le> a mod n + 1" "a mod n + 1 < n" using a(2,3) by simp_all
    have e: "a + 1 = n * (a div n) + (a mod n + 1)" using a(1) by simp
    have "(a + 1) div n = a div n" using int_div_pos_eq [OF e r] .
    moreover have "(a + 1) mod n = a mod n + 1" using int_mod_pos_eq [OF e r] .
    ultimately show ?thesis using a(2) by simp
  qed
qed

lemma year_mods:
  "(y - 1968) mod 4 = y mod 4" "(y - 1900) mod 100 = y mod 100" "(y - 1600) mod 400 = y mod 400" for y :: int
  using mod_mult_self1 [of y "- 492" 4] mod_mult_self1 [of y "- 19" 100] mod_mult_self1 [of y "- 4" 400] by simp_all

lemma year_dvd: "y mod 400 = 0 \<longrightarrow> y mod 100 = 0" "y mod 100 = 0 \<longrightarrow> y mod 4 = 0" for y :: int
proof -
  have "(100 :: int) dvd 400" "(4 :: int) dvd 100" by simp_all
  then show "y mod 400 = 0 \<longrightarrow> y mod 100 = 0" "y mod 100 = 0 \<longrightarrow> y mod 4 = 0"
    by (auto simp only: mod_eq_0_iff_dvd intro: dvd_trans)
qed

lemma year_arith:
  fixes c4 c100 c400 a4 a100 a400 y :: int
  assumes "c4 = a4 + (if p then 1 else 0)" "c100 = a100 + (if q then 1 else 0)"
    and "c400 = a400 + (if r then 1 else 0)" "r \<longrightarrow> q" "q \<longrightarrow> p"
  shows "(365 * (y + 1 - 1970) + c4 - c100 + c400) - (365 * (y - 1970) + a4 - a100 + a400) =
    (if p \<and> (\<not> q \<or> r) then 366 else 365)"
  using assms by (cases p; cases q; cases r) simp_all

lemma year_length: "day_from_year (y + 1) - day_from_year y = (if leap y then 366 else 365)"
proof -
  have e: "y - 1969 + 1 = y - 1968" "y - 1901 + 1 = y - 1900" "y - 1601 + 1 = y - 1600"
    "y + 1 - 1969 = y - 1968" "y + 1 - 1901 = y - 1900" "y + 1 - 1601 = y - 1600" by simp_all
  note d = div_step [of 4 "y - 1969", OF zero_less_numeral, unfolded e year_mods]
    div_step [of 100 "y - 1901", OF zero_less_numeral, unfolded e year_mods]
    div_step [of 400 "y - 1601", OF zero_less_numeral, unfolded e year_mods]
  show ?thesis
    unfolding day_from_year_def leap_def e by (rule year_arith [OF d year_dvd])
qed

lemma day_from_year_step: "day_from_year y < day_from_year (y + 1)"
  using year_length [of y] by (simp split: if_splits)

lemma day_from_year_add: "day_from_year y + 365 * int n \<le> day_from_year (y + int n)"
proof (induction n)
  case (Suc n)
  then show ?case using year_length [of "y + int n"] by (simp add: algebra_simps split: if_splits)
qed simp

lemma day_from_year_mono: "y \<le> z \<Longrightarrow> day_from_year y \<le> day_from_year z"
  using day_from_year_add [of y "nat (z - y)"] by simp

text \<open>The year of a day: from a year that is not too late, the first whose next year starts later.\<close>

function year_search :: "int \<Rightarrow> int \<Rightarrow> int" where
  "year_search d y = (if day_from_year (y + 1) \<le> d then year_search d (y + 1) else y)"
  by pat_completeness auto
termination
  by (relation "measure (\<lambda>(d, y). nat (d - day_from_year y))")
    (auto intro: less_le_trans [OF day_from_year_step])

declare year_search.simps [simp del]

definition year_of :: "int \<Rightarrow> int" where
  "year_of d = year_search d (1970 + (if 0 \<le> d then d div 366 else d div 365))"

definition month_of :: "int \<Rightarrow> nat" where
  "month_of d = length (filter (\<lambda>m. month_start (leap (year_of d)) m \<le> d - day_from_year (year_of d)) [1 ..< 12])"

definition date_of :: "int \<Rightarrow> int" where
  "date_of d = d - day_from_year (year_of d) - month_start (leap (year_of d)) (month_of d) + 1"

text \<open>0 is Sunday.\<close>

definition weekday :: "int \<Rightarrow> int" where
  "weekday d = (d + 4) mod 7"

definition make_day :: "int \<Rightarrow> int \<Rightarrow> int \<Rightarrow> int" where
  "make_day y m dt =
     (let ym = y + m div 12 in day_from_year ym + month_start (leap ym) (nat (m mod 12)) + dt - 1)"

subsection \<open>Facts about the calendar\<close>

lemma year_search_bounds:
  "day_from_year y \<le> d \<Longrightarrow>
     day_from_year (year_search d y) \<le> d \<and> d < day_from_year (year_search d y + 1)"
proof (induction d y rule: year_search.induct)
  case (1 d y)
  then show ?case by (cases "day_from_year (y + 1) \<le> d") (simp_all add: year_search.simps [of d y])
qed

lemma year_start_nonneg: "day_from_year (1970 + int n) \<le> 366 * int n"
proof (induction n)
  case 0
  show ?case by (simp add: day_from_year_def)
next
  case (Suc n)
  then show ?case using year_length [of "1970 + int n"] by (simp add: algebra_simps split: if_splits)
qed

lemma year_start_neg: "day_from_year (1970 - int n) \<le> - 365 * int n"
proof (induction n)
  case 0
  show ?case by (simp add: day_from_year_def)
next
  case (Suc n)
  have "1970 - int (Suc n) + 1 = 1970 - int n" by simp
  then show ?case using Suc year_length [of "1970 - int (Suc n)"] by (simp split: if_splits)
qed

lemma year_guess: "day_from_year (1970 + (if 0 \<le> d then d div 366 else d div 365)) \<le> d"
proof (cases "0 \<le> d")
  case True
  then have "day_from_year (1970 + d div 366) \<le> 366 * (d div 366)"
    using year_start_nonneg [of "nat (d div 366)"] by (simp add: pos_imp_zdiv_nonneg_iff)
  also have "\<dots> \<le> d" by simp
  finally show ?thesis using True by simp
next
  case False
  then have "d div 365 < 0" by simp
  then have "day_from_year (1970 + d div 365) \<le> 365 * (d div 365)"
    using year_start_neg [of "nat (- (d div 365))"] by simp
  also have "\<dots> \<le> d" by simp
  finally show ?thesis using False by simp
qed

lemma year_of_bounds: "day_from_year (year_of d) \<le> d" "d < day_from_year (year_of d + 1)"
  using year_search_bounds [OF year_guess] by (simp_all add: year_of_def)

lemma year_of_unique: "day_from_year y \<le> d \<Longrightarrow> d < day_from_year (y + 1) \<Longrightarrow> year_of d = y"
  using year_of_bounds [of d] day_from_year_mono [of "year_of d + 1" y]
    day_from_year_mono [of "y + 1" "year_of d"] by fastforce

lemma all_months: "(\<forall>m < 12. P m) \<longleftrightarrow> P 0 \<and> P 1 \<and> P 2 \<and> P 3 \<and> P 4 \<and> P 5 \<and> P 6 \<and> P 7 \<and> P 8 \<and> P 9 \<and> P 10 \<and> P (11::nat)"
  by (simp add: numeral_eq_Suc All_less_Suc conj_ac)

lemma month_start_vals:
  "month_start lp 0 = 0" "month_start lp 1 = 31" "month_start lp (Suc 0) = 31" "month_start lp 2 = 59 + of_bool lp"
  "month_start lp 3 = 90 + of_bool lp" "month_start lp 4 = 120 + of_bool lp"
  "month_start lp 5 = 151 + of_bool lp" "month_start lp 6 = 181 + of_bool lp"
  "month_start lp 7 = 212 + of_bool lp" "month_start lp 8 = 243 + of_bool lp"
  "month_start lp 9 = 273 + of_bool lp" "month_start lp 10 = 304 + of_bool lp"
  "month_start lp 11 = 334 + of_bool lp" "month_start lp 12 = 365 + of_bool lp"
  by (simp_all add: month_start_def)

lemma month_start_mono: "m \<le> n \<Longrightarrow> n \<le> 12 \<Longrightarrow> month_start lp m \<le> month_start lp n"
proof -
  have step: "\<forall>m < 12. month_start lp m \<le> month_start lp (m + 1)"
    unfolding all_months by (simp add: month_start_vals numeral_2_eq_2 [symmetric])
  assume "m \<le> n" "n \<le> 12"
  then show ?thesis
  proof (induction n)
    case (Suc n)
    have "month_start lp n \<le> month_start lp (Suc n)" using step Suc.prems by simp
    then show ?case using Suc by (cases "m = Suc n") simp_all
  qed simp
qed

text \<open>Counting the month starts passed finds the month a day of the year lies in.\<close>

lemma count_steps:
  assumes "\<And>m. m < n \<Longrightarrow> f m \<le> (f (Suc m) :: int)" "f 0 \<le> k"
  defines "c \<equiv> length (filter (\<lambda>m. f m \<le> k) [1 ..< Suc n])"
  shows "c \<le> n" "f c \<le> k" "c < n \<Longrightarrow> k < f (Suc c)"
proof -
  have mono: "i \<le> j \<Longrightarrow> j \<le> n \<Longrightarrow> f i \<le> f j" for i j
  proof (induction j)
    case (Suc j)
    then show ?case using assms(1) [of j] by (cases "i = Suc j") fastforce+
  qed simp
  define cnt where "cnt j = length (filter (\<lambda>m. f m \<le> k) [1 ..< Suc j])" for j
  have cnt: "cnt 0 = 0" "cnt (Suc j) = cnt j + (if f (Suc j) \<le> k then 1 else 0)" for j
    by (simp_all add: cnt_def)
  have "j \<le> n \<Longrightarrow> cnt j \<le> j \<and> f (cnt j) \<le> k \<and> (cnt j < j \<longrightarrow> k < f (Suc (cnt j)))" for j
  proof (induction j)
    case 0
    then show ?case using assms(2) by (simp add: cnt)
  next
    case (Suc j)
    then have IH: "cnt j \<le> j" "f (cnt j) \<le> k" "cnt j < j \<Longrightarrow> k < f (Suc (cnt j))" by simp_all
    show ?case
    proof (cases "f (Suc j) \<le> k")
      case True
      then have "cnt j = j" using IH(1,3) mono [of "Suc (cnt j)" "Suc j"] Suc.prems by fastforce
      then show ?thesis using True by (simp add: cnt)
    next
      case False
      then show ?thesis using IH by (cases "cnt j = j") (simp_all add: cnt)
    qed
  qed
  moreover have "c = cnt n" by (simp only: c_def cnt_def)
  ultimately show "c \<le> n" "f c \<le> k" "c < n \<Longrightarrow> k < f (Suc c)"
    by (simp_all only: order_refl)
qed

definition month_in :: "bool \<Rightarrow> int \<Rightarrow> nat" where
  "month_in lp k = length (filter (\<lambda>m. month_start lp m \<le> k) [1 ..< 12])"

lemma month_in_bounds:
  assumes "0 \<le> k" "k < month_start lp 12"
  shows "month_in lp k < 12" "month_start lp (month_in lp k) \<le> k" "k < month_start lp (month_in lp k + 1)"
proof -
  have m: "m < 11 \<Longrightarrow> month_start lp m \<le> month_start lp (Suc m)" for m
    by (rule month_start_mono) simp_all
  have c: "month_in lp k = length (filter (\<lambda>m. month_start lp m \<le> k) [1 ..< Suc 11])"
    by (simp add: month_in_def)
  have k: "month_start lp 0 \<le> k" using assms(1) by (simp add: month_start_vals)
  note b = count_steps [of 11 "month_start lp", OF m k, folded c]
  show "month_in lp k < 12" "month_start lp (month_in lp k) \<le> k" using b(1,2) by simp_all
  show "k < month_start lp (month_in lp k + 1)"
  proof (cases "month_in lp k < 11")
    case True
    then show ?thesis using b(3) by simp
  next
    case False
    then have "month_in lp k = 11" using b(1) by simp
    then show ?thesis using assms(2) by simp
  qed
qed

lemma month_in_unique:
  assumes "m < 12" "month_start lp m \<le> k" "k < month_start lp (m + 1)"
  shows "month_in lp k = m"
proof -
  have k: "0 \<le> k" "k < month_start lp 12"
    using assms month_start_mono [of 0 m lp] month_start_mono [of "m + 1" 12 lp] by (simp_all add: month_start_vals)
  note b = month_in_bounds [OF k]
  have "\<not> month_in lp k < m" using month_start_mono [of "month_in lp k + 1" m lp] b assms by auto
  moreover have "\<not> m < month_in lp k" using month_start_mono [of "m + 1" "month_in lp k" lp] b assms by auto
  ultimately show ?thesis by simp
qed

definition days_in_month :: "int \<Rightarrow> nat \<Rightarrow> int" where
  "days_in_month y m = month_start (leap y) (m + 1) - month_start (leap y) m"

lemma year_day: "0 \<le> d - day_from_year (year_of d)" "d - day_from_year (year_of d) < month_start (leap (year_of d)) 12"
  using year_of_bounds [of d] year_length [of "year_of d"]
  by (auto simp: month_start_vals split: if_splits)

lemma month_of_in: "month_of d = month_in (leap (year_of d)) (d - day_from_year (year_of d))"
  by (simp add: month_of_def month_in_def)

lemma month_of_less: "month_of d < 12"
  unfolding month_of_in by (rule month_in_bounds [OF year_day])

lemma date_of_bounds: "1 \<le> date_of d" "date_of d \<le> days_in_month (year_of d) (month_of d)"
  using month_in_bounds [OF year_day, of d] unfolding date_of_def days_in_month_def month_of_in by simp_all

text \<open>A day is the day made of its fields; a valid triple of fields is the fields of its day.\<close>

lemma make_day_month: "m < 12 \<Longrightarrow> make_day y (int m) dt = day_from_year y + month_start (leap y) m + dt - 1"
  by (simp add: make_day_def)

lemma make_day_fields: "make_day (year_of d) (int (month_of d)) dt = d - date_of d + dt"
  using month_of_less [of d] by (simp add: make_day_month date_of_def)

lemma fields_make_day:
  assumes "m < 12" "1 \<le> dt" "dt \<le> days_in_month y m"
  shows "year_of (make_day y (int m) dt) = y" "month_of (make_day y (int m) dt) = m"
    "date_of (make_day y (int m) dt) = dt"
proof -
  let ?k = "month_start (leap y) m + dt - 1"
  have k: "month_start (leap y) m \<le> ?k" "?k < month_start (leap y) (m + 1)"
    using assms by (simp_all add: days_in_month_def)
  have "0 \<le> ?k" using k(1) month_start_mono [of 0 m "leap y"] assms(1) by (simp add: month_start_vals)
  moreover have "?k < month_start (leap y) 12"
    using k(2) month_start_mono [of "m + 1" 12 "leap y"] assms(1) by simp
  ultimately show y: "year_of (make_day y (int m) dt) = y"
    using assms(1) year_length [of y]
    by (intro year_of_unique) (auto simp: make_day_month month_start_vals split: if_splits)
  show m: "month_of (make_day y (int m) dt) = m"
    using month_in_unique [OF assms(1) k] assms(1) unfolding month_of_in y by (simp add: make_day_month algebra_simps)
  show "date_of (make_day y (int m) dt) = dt"
    using assms(1) unfolding date_of_def y m by (simp add: make_day_month)
qed

subsection \<open>Instants\<close>

definition ms_day :: int where
  "ms_day = 86400000"

definition local_day :: "int \<Rightarrow> int \<Rightarrow> int" where
  "local_day tz t = (t + tz) div ms_day"

definition getFullYear :: "int \<Rightarrow> int \<Rightarrow> int" where
  "getFullYear tz t = year_of (local_day tz t)"

definition getMonth :: "int \<Rightarrow> int \<Rightarrow> nat" where
  "getMonth tz t = month_of (local_day tz t)"

definition getDate :: "int \<Rightarrow> int \<Rightarrow> int" where
  "getDate tz t = date_of (local_day tz t)"

definition getDay :: "int \<Rightarrow> int \<Rightarrow> int" where
  "getDay tz t = weekday (local_day tz t)"

definition clock_field :: "int \<Rightarrow> int \<Rightarrow> int \<Rightarrow> int \<Rightarrow> nat" where
  "clock_field unit modulus tz t = nat ((t + tz) div unit mod modulus)"

text \<open>\<open>setDate\<close> keeps the time of the day; \<open>new Date(y, m, d)\<close> is local midnight.\<close>

definition setDate :: "int \<Rightarrow> int \<Rightarrow> int \<Rightarrow> int" where
  "setDate tz dt t =
     make_day (getFullYear tz t) (int (getMonth tz t)) dt * ms_day + (t + tz) mod ms_day - tz"

definition new_date :: "int \<Rightarrow> int \<Rightarrow> int \<Rightarrow> int \<Rightarrow> int" where
  "new_date tz y m dt = make_day y m dt * ms_day - tz"

lemma local_day_shift: "local_day tz (t + k * ms_day) = local_day tz t + k"
  by (simp add: local_day_def ms_day_def algebra_simps)

lemma setDate_shift: "setDate tz dt t = t + (dt - getDate tz t) * ms_day"
proof -
  have "(t + tz) div ms_day * ms_day + (t + tz) mod ms_day = t + tz" by (rule div_mult_mod_eq)
  then show ?thesis
    unfolding setDate_def getFullYear_def getMonth_def getDate_def make_day_fields
    by (simp add: local_day_def algebra_simps)
qed

lemma local_day_setDate: "local_day tz (setDate tz (getDate tz t + k) t) = local_day tz t + k"
  by (simp add: setDate_shift local_day_shift)

lemma local_day_new: "local_day tz (new_date tz y m dt) = make_day y m dt"
  by (simp add: new_date_def local_day_def ms_day_def)

subsection \<open>Format\<close>

text \<open>
  \<open>Date.prototype.Format\<close>: each pattern \<open>k+\<close> is a run of one letter; its first run in the format is
  replaced by the field, cut or padded to the run. Replacement texts hold digits only, so a later
  letter never matches an earlier field. \<open>substr\<close> counts a negative start from the end. Years are
  taken to be positive.
\<close>

definition js_substr :: "int \<Rightarrow> string \<Rightarrow> string" where
  "js_substr i s = (if i < 0 then drop (length s - nat (- i)) s else drop (nat i) s)"

definition replace_run :: "char \<Rightarrow> (nat \<Rightarrow> string) \<Rightarrow> string \<Rightarrow> string" where
  "replace_run c g fmt =
     (let rest = dropWhile (\<lambda>x. x \<noteq> c) fmt; run = takeWhile (\<lambda>x. x = c) rest
      in if run = [] then fmt
         else takeWhile (\<lambda>x. x \<noteq> c) fmt @ g (length run) @ dropWhile (\<lambda>x. x = c) rest)"

definition field_text :: "nat \<Rightarrow> nat \<Rightarrow> string" where
  "field_text v run =
     (if run = 1 then dec_of_nat v
      else js_substr (int (length (dec_of_nat v))) (''00'' @ dec_of_nat v))"

definition replace_one :: "char \<Rightarrow> string \<Rightarrow> string \<Rightarrow> string" where
  "replace_one c r fmt =
     (if c \<in> set fmt then takeWhile (\<lambda>x. x \<noteq> c) fmt @ r @ tl (dropWhile (\<lambda>x. x \<noteq> c) fmt) else fmt)"

definition Format :: "int \<Rightarrow> int \<Rightarrow> string \<Rightarrow> string" where
  "Format tz t fmt =
     (let fmt = replace_run CHR ''y''
            (\<lambda>run. js_substr (4 - int run) (dec_of_nat (nat (getFullYear tz t)))) fmt;
          fmt = fold (\<lambda>(k, v). replace_run k (field_text v))
            [(CHR ''M'', getMonth tz t + 1), (CHR ''d'', nat (getDate tz t)),
             (CHR ''h'', clock_field 3600000 24 tz t), (CHR ''m'', clock_field 60000 60 tz t),
             (CHR ''s'', clock_field 1000 60 tz t), (CHR ''q'', (getMonth tz t + 3) div 3)] fmt
      in replace_one CHR ''S'' (dec_of_nat (clock_field 1 1000 tz t)) fmt)"

definition ymd :: string where
  "ymd = ''yyyy-MM-dd''"

text \<open>\<open>dateDiff\<close>: the ceiling of the quotient plus 1.\<close>

definition dateDiff :: "int \<Rightarrow> int \<Rightarrow> int" where
  "dateDiff startDate endDate = (endDate - startDate + (ms_day - 1)) div ms_day + 1"

text \<open>
  \<open>new Date(s)\<close> for a date in the standard's form \<open>YYYY-MM-DD\<close>, which is midnight of that day in
  UTC; \<open>None\<close> is an invalid date.
\<close>

definition parse_date :: "string \<Rightarrow> int option" where
  "parse_date s =
     (let y = take 4 s; m = take 2 (drop 5 s); d = take 2 (drop 8 s);
          yv = int (nat_of_dec y); mv = nat_of_dec m; dv = int (nat_of_dec d)
      in if length s = 10 \<and> s ! 4 = CHR ''-'' \<and> s ! 7 = CHR ''-'' \<and> list_all is_digit (y @ m @ d) \<and>
            1 \<le> mv \<and> mv \<le> 12 \<and> 1 \<le> dv \<and> dv \<le> days_in_month yv (mv - 1)
         then Some (make_day yv (int (mv - 1)) dv * ms_day) else None)"

text \<open>The default date of \<open>date.init.js\<close> and the inputs \<open>setDefaultDate\<close> writes it to.\<close>

definition pad2 :: "nat \<Rightarrow> string" where
  "pad2 n = (if n < 10 then ''0'' @ dec_of_nat n else dec_of_nat n)"

definition getCurdate :: "int \<Rightarrow> int \<Rightarrow> string" where
  "getCurdate tz now = dec_of_nat (nat (getFullYear tz now)) @ ''-'' @ pad2 (getMonth tz now + 1) @ ''-'' @
     pad2 (nat (getDate tz now))"

definition setDefaultDate :: "string \<Rightarrow> string option \<Rightarrow> (string \<times> string) list" where
  "setDefaultDate defaultDate obj =
     (case obj of None \<Rightarrow> [(''startTime'', defaultDate), (''endTime'', defaultDate)]
      | Some i \<Rightarrow> [(i, defaultDate)])"

subsection \<open>Facts about the formatted date\<close>

lemma replace_run_at:
  assumes "c \<notin> set pre" "run \<noteq> []" "\<forall>x \<in> set run. x = c" "rest = [] \<or> hd rest \<noteq> c"
  shows "replace_run c g (pre @ run @ rest) = pre @ g (length run) @ rest"
proof -
  have "dropWhile (\<lambda>x. x \<noteq> c) (pre @ run @ rest) = run @ rest"
    using assms(1-3) by (subst dropWhile_append2) (auto simp: neq_Nil_conv)
  moreover have "takeWhile (\<lambda>x. x \<noteq> c) (pre @ run @ rest) = pre"
    using assms(1-3) by (subst takeWhile_append2) (auto simp: neq_Nil_conv)
  moreover have "takeWhile (\<lambda>x. x = c) (run @ rest) = run" "dropWhile (\<lambda>x. x = c) (run @ rest) = rest"
    using assms(3,4) by (cases rest; simp add: takeWhile_append dropWhile_append)+
  ultimately show ?thesis using assms(2) by (simp add: replace_run_def Let_def)
qed

lemma replace_run_none: "c \<notin> set fmt \<Longrightarrow> replace_run c g fmt = fmt"
proof -
  assume "c \<notin> set fmt"
  then have e: "dropWhile (\<lambda>x. x \<noteq> c) fmt = []" by (auto simp: dropWhile_eq_Nil_conv)
  show ?thesis unfolding replace_run_def e by simp
qed

lemma digit_zero: "CHR ''0'' = digit_char 0"
  unfolding digit_char_def by (rule sym) (simp add: char_of_eq_iff)

lemma dec_two: "n < 100 \<Longrightarrow> dec_of_nat n = (if n < 10 then [digit_char n] else [digit_char (n div 10), digit_char (n mod 10)])"
  using dec_of_nat.simps [of n] dec_of_nat.simps [of "n div 10"] by (auto simp: less_mult_imp_div_less)

lemma field_text_two: "n < 100 \<Longrightarrow> field_text n 2 = [digit_char (n div 10), digit_char (n mod 10)]"
  by (simp add: field_text_def js_substr_def dec_two digit_zero)

lemma pad2_two: "n < 100 \<Longrightarrow> pad2 n = field_text n 2"
  by (auto simp: pad2_def field_text_two dec_two digit_zero)

text \<open>The text of a day.\<close>

definition two :: "nat \<Rightarrow> string" where
  "two n = [digit_char (n div 10), digit_char (n mod 10)]"

definition ymd_text :: "int \<Rightarrow> string" where
  "ymd_text d = dec_of_nat (nat (year_of d)) @ ''-'' @ two (month_of d + 1) @ ''-'' @ two (nat (date_of d))"

lemma set_two: "n < 100 \<Longrightarrow> c \<in> set (two n) \<Longrightarrow> is_digit c"
  by (auto simp: two_def intro: is_digit_char)

lemma date_of_range: "1 \<le> date_of d" "date_of d \<le> 31"
proof -
  have "\<forall>m < 12. days_in_month (year_of d) m \<le> 31"
    unfolding all_months by (simp add: days_in_month_def month_start_vals numeral_2_eq_2 [symmetric])
  then have "days_in_month (year_of d) (month_of d) \<le> 31" using month_of_less by simp
  then show "1 \<le> date_of d" "date_of d \<le> 31" using date_of_bounds [of d] by simp_all
qed

lemma fields_less_100: "month_of d + 1 < 100" "nat (date_of d) < 100"
  using month_of_less [of d] date_of_range [of d] by simp_all

lemma set_fields:
  "c \<in> set (two (Suc (month_of d))) \<Longrightarrow> is_digit c" "c \<in> set (two (nat (date_of d))) \<Longrightarrow> is_digit c"
  using set_two [of "Suc (month_of d)"] set_two [of "nat (date_of d)"] fields_less_100 [of d] by simp_all

lemma ymd_no_letter: "\<not> is_digit c \<Longrightarrow> c \<noteq> CHR ''-'' \<Longrightarrow> c \<notin> set (ymd_text d)"
  using dec_no_letter [of c "nat (year_of d)"] set_fields [of c d] by (auto simp: ymd_text_def)

lemma Format_ymd: "Format tz t ymd = ymd_text (local_day tz t)"
proof -
  define d where "d = local_day tz t"
  let ?y = "dec_of_nat (nat (year_of d))"
  have letters: "\<not> is_digit CHR ''M''" "\<not> is_digit CHR ''d''" "\<not> is_digit CHR ''h''" "\<not> is_digit CHR ''m''"
    "\<not> is_digit CHR ''s''" "\<not> is_digit CHR ''q''" "\<not> is_digit CHR ''S''"
    by (simp_all add: is_digit_def)
  have y: "replace_run CHR ''y'' (\<lambda>run. js_substr (4 - int run) ?y) ymd = ?y @ ''-MM-dd''"
    using replace_run_at [of "CHR ''y''" "[]" "''yyyy''" "''-MM-dd''"] by (simp add: ymd_def js_substr_def)
  have M: "replace_run CHR ''M'' (field_text (month_of d + 1)) (?y @ ''-MM-dd'') =
      (?y @ ''-'' @ two (month_of d + 1)) @ ''-dd''"
    using replace_run_at [of "CHR ''M''" "?y @ ''-''" "''MM''" "''-dd''"] dec_no_letter [OF letters(1)]
      field_text_two [OF fields_less_100(1), of d] by (simp add: two_def numeral_2_eq_2)
  have two_d: "CHR ''d'' \<notin> set (two (Suc (month_of d)))" using set_fields(1) letters(2) by blast
  have D: "replace_run CHR ''d'' (field_text (nat (date_of d))) ((?y @ ''-'' @ two (month_of d + 1)) @ ''-dd'') =
      ymd_text d"
    using replace_run_at [of "CHR ''d''" "?y @ ''-'' @ two (month_of d + 1) @ ''-''" "''dd''" "[]"]
      dec_no_letter [OF letters(2)] two_d field_text_two [OF fields_less_100(2), of d]
    by (simp add: ymd_text_def numeral_2_eq_2) (simp add: two_def)
  have rest: "replace_run c g (ymd_text d) = ymd_text d"
    if "c \<in> {CHR ''h'', CHR ''m'', CHR ''s'', CHR ''q''}" for c g
    by (rule replace_run_none, rule ymd_no_letter) (use that letters in auto)
  have S: "replace_one CHR ''S'' r (ymd_text d) = ymd_text d" for r
    using ymd_no_letter [OF letters(7), of d] by (simp add: replace_one_def)
  show ?thesis
    unfolding Format_def Let_def getFullYear_def getMonth_def getDate_def d_def [symmetric] y fold.simps
      case_prod_beta fst_conv snd_conv comp_apply M D by (simp add: rest S)
qed

lemma length_year: "1000 \<le> n \<Longrightarrow> n < 10000 \<Longrightarrow> length (dec_of_nat n) = 4"
proof -
  assume n: "1000 \<le> n" "n < 10000"
  then have "\<not> n < 10" "\<not> n div 10 < 10" "\<not> n div 10 div 10 < 10" "n div 10 div 10 div 10 < 10"
    by linarith+
  then show ?thesis
    using dec_of_nat.simps [of n] dec_of_nat.simps [of "n div 10"] dec_of_nat.simps [of "n div 10 div 10"]
      dec_of_nat.simps [of "n div 10 div 10 div 10"] by simp
qed

lemma nat_of_dec_two: "n < 100 \<Longrightarrow> nat_of_dec (two n) = n"
  by (simp add: two_def nat_of_dec_def)

lemma parse_ymd_text:
  assumes "1000 \<le> year_of d" "year_of d \<le> 9999"
  shows "parse_date (ymd_text d) = Some (d * ms_day)"
proof -
  define y where "y = dec_of_nat (nat (year_of d))"
  have y: "length y = 4" "list_all is_digit y" "nat_of_dec y = nat (year_of d)"
    using assms length_year [of "nat (year_of d)"] dec_is_digit
    by (auto simp: y_def list_all_iff)
  have f: "ymd_text d = y @ ''-'' @ two (month_of d + 1) @ ''-'' @ two (nat (date_of d))"
    by (simp add: ymd_text_def y_def)
  have len: "length (two n) = 2" for n by (simp add: two_def)
  have parts: "take 4 (ymd_text d) = y" "take 2 (drop 5 (ymd_text d)) = two (month_of d + 1)"
    "take 2 (drop 8 (ymd_text d)) = two (nat (date_of d))" "length (ymd_text d) = 10"
    "ymd_text d ! 4 = CHR ''-''" "ymd_text d ! 7 = CHR ''-''"
    unfolding f by (simp_all add: y(1) len nth_append)
  have vals: "nat_of_dec (two (month_of d + 1)) = month_of d + 1" "nat_of_dec (two (nat (date_of d))) = nat (date_of d)"
    by (rule nat_of_dec_two, rule fields_less_100)+
  have digits: "list_all is_digit (y @ two (month_of d + 1) @ two (nat (date_of d)))"
    using y(2) set_fields [of _ d] by (auto simp: list_all_iff)
  have year: "0 \<le> year_of d" using assms(1) by simp
  show ?thesis
    unfolding parse_date_def parts vals y(3) Let_def
    using digits date_of_bounds [of d] month_of_less [of d] make_day_fields [of d "date_of d"]
    by (simp add: year)
qed

text \<open>
  A formatted date reads back as the same day: for the years 1000 to 9999 the text that
  \<open>Format("yyyy-MM-dd")\<close> gives is a date of the standard's form, and \<open>new Date\<close> of it is midnight
  (UTC) of the day the date has in local time.
\<close>

theorem format_reads_back:
  assumes "1000 \<le> getFullYear tz t" "getFullYear tz t \<le> 9999"
  shows "parse_date (Format tz t ymd) = Some (local_day tz t * ms_day)"
  using assms parse_ymd_text [of "local_day tz t"] by (simp add: Format_ymd getFullYear_def)

theorem format_reads_back_witness:
  "parse_date (Format (8 * 3600000) 1404172800000 ymd) = Some 1404172800000"
proof -
  have d: "local_day (8 * 3600000) 1404172800000 = 16252" by (simp add: local_day_def ms_day_def)
  have y: "getFullYear (8 * 3600000) 1404172800000 = 2014"
    unfolding getFullYear_def d by (rule year_of_unique) (simp_all add: day_from_year_def)
  show ?thesis
    using format_reads_back [of "8 * 3600000" 1404172800000] y d by (simp add: ms_day_def)
qed

end
