(* ===== verification/Report.thy ===== *)
theory Report
  imports JsDate JsCommand
begin

section \<open>The advertising report page\<close>

text \<open>
  \<open>admanager/.../js/report/ad-report.js\<close>: the handlers of the report page with the state they share,
  the running totals of the rows ticked, the table the server sends (parameter \<open>server\<close>), the period
  shown and the charts drawn. Numbers are exact: sums of counts stay below \<open>2 ^ 53\<close>, and the click
  rate is rounded from the exact quotient. Amounts are the texts of the numbers; their addition is the
  parameter \<open>add_amount\<close>. Selectors are jQuery 1.7's.
\<close>

datatype column = Pv | Uv | Ip | Click | MobilePv | MobileClick | Close

record report_row =
  rr_id :: string
  rr_cells :: "column \<Rightarrow> string"
  rr_amount :: string
  rr_checked :: bool

record plot =
  pl_series :: "string list"
  pl_xticks :: "(nat \<times> string) list"
  pl_xMax :: "int option"
  pl_yticks :: nat
  pl_yMax :: int

text \<open>
  \<open>rp_index\<close> is the \<open>index\<close> of the period link marked \<open>none\<close>, \<open>rp_all\<close> the box that ticks all rows.
  \<open>rp_sums\<close> holds the texts of the sum row, which is part of the server's table; a total that is
  \<open>NaN\<close> is \<open>None\<close>.
\<close>

record report =
  rp_start :: string
  rp_end :: string
  rp_index :: nat
  rp_type :: string
  rp_rows :: "report_row list"
  rp_all :: bool
  rp_totals :: "column \<Rightarrow> int option"
  rp_amount :: string
  rp_sums :: "(string, string) obj"
  rp_sum_shown :: bool
  rp_stats :: "(string, string) obj"
  rp_plots :: "plot list"

text \<open>
  The requests: \<open>/ad/template\<close> with start, end, index and id, \<open>/ad/statistics\<close> with start, end and id,
  \<open>/material/chart\<close> with start, end, index, type, id and ids; \<open>None\<close> is a request that failed. A
  chart answer is its \<open>yMax\<close> and label and data texts, \<open>None\<close> if it has no \<open>result\<close>.
\<close>

record server =
  template :: "string \<Rightarrow> string \<Rightarrow> nat \<Rightarrow> string \<Rightarrow> report_row list option"
  statistics :: "string \<Rightarrow> string \<Rightarrow> string \<Rightarrow> (string, string) obj option"
  chart :: "string \<Rightarrow> string \<Rightarrow> nat \<Rightarrow> string \<Rightarrow> string \<Rightarrow> string \<Rightarrow> (int \<times> (string \<times> string) list) option option"

text \<open>The clock, the time zone and the value of \<open>#id\<close>, \<open>0\<close> if the page has none.\<close>

record env =
  e_now :: int
  e_tz :: int
  e_id :: string

subsection \<open>Numbers\<close>

definition num_add :: "int option \<Rightarrow> int option \<Rightarrow> int option" where
  "num_add a b = (case a of None \<Rightarrow> None | Some x \<Rightarrow> map_option (\<lambda>y. x + y) b)"

definition num_sub :: "int option \<Rightarrow> int option \<Rightarrow> int option" where
  "num_sub a b = (case a of None \<Rightarrow> None | Some x \<Rightarrow> map_option (\<lambda>y. x - y) b)"

definition num_text :: "int option \<Rightarrow> string" where
  "num_text n = (case n of None \<Rightarrow> ''NaN''
     | Some i \<Rightarrow> if i < 0 then ''-'' @ dec_of_nat (nat (- i)) else dec_of_nat (nat i))"

text \<open>\<open>((click / pv) * 100).toFixed(4)\<close>\<close>

definition rate_fixed :: "int option \<Rightarrow> int option \<Rightarrow> string" where
  "rate_fixed click pv =
     (case (click, pv) of
        (Some c, Some p) \<Rightarrow>
          (let sign = (if c \<noteq> 0 \<and> (c < 0) \<noteq> (p < 0) then ''-'' else '''') in
           if p = 0 then (if c = 0 then ''NaN'' else sign @ ''Infinity'')
           else let n = nat ((2 * 1000000 * \<bar>c\<bar> + \<bar>p\<bar>) div (2 * \<bar>p\<bar>)); f = n mod 10000
                in sign @ dec_of_nat (n div 10000) @ ''.'' @
                   [digit_char (f div 1000), digit_char (f div 100 mod 10), digit_char (f div 10 mod 10), digit_char (f mod 10)])
      | _ \<Rightarrow> ''NaN'')"

text \<open>\<open>s == 0.0000\<close> for such a text.\<close>

definition is_zero_text :: "string \<Rightarrow> bool" where
  "is_zero_text s \<longleftrightarrow> s = ''0.0000'' \<or> s = ''-0.0000''"

subsection \<open>Periods\<close>

text \<open>An invalid date formats as \<open>NaN-aN-aN\<close>.\<close>

definition format_date :: "int \<Rightarrow> int option \<Rightarrow> string" where
  "format_date tz d = (case d of None \<Rightarrow> ''NaN-aN-aN'' | Some t \<Rightarrow> Format tz t ymd)"

text \<open>\<open>new Date(year + "-" + month + "-01")\<close> with a two-digit month.\<close>

definition first_of_month :: "int \<Rightarrow> int \<Rightarrow> int option" where
  "first_of_month year month =
     parse_date (dec_of_nat (nat year) @ ''-'' @ pad2 (nat month) @ ''-01'')"

definition minus_days :: "int \<Rightarrow> int" where
  "minus_days week = (if week = 0 then 7 else if week = 1 then 1 else if week = 2 then 2
     else if week = 3 then 3 else if week = 4 then 4 else if week = 5 then 5
     else if week = 6 then 6 else 0)"

definition plus_days :: "int \<Rightarrow> int" where
  "plus_days week = (if week = 0 then 0 else if week = 1 then 6 else if week = 2 then 5
     else if week = 3 then 4 else if week = 4 then 3 else if week = 5 then 2
     else if week = 6 then 1 else 0)"

text \<open>
  The first part of \<open>changeTimeNode\<close>. \<open>None\<close>: another index, which leaves start and end the number 0.
\<close>

definition time_node :: "int \<Rightarrow> int \<Rightarrow> nat \<Rightarrow> (int option \<times> int option) option" where
  "time_node tz now index =
     (let current = now in
      if index = 1 then
        (let start = setDate tz (getDate tz current - 1) current in Some (Some start, Some start))
      else if index = 2 then Some (Some current, Some current)
      else if index = 3 then
        (let ende = setDate tz (getDate tz current - minus_days (getDay tz current)) current;
             start = setDate tz (getDate tz ende - 6) ende
         in Some (Some start, Some ende))
      else if index = 4 then
        (let ende = setDate tz (getDate tz current + plus_days (getDay tz current)) current;
             start = setDate tz (getDate tz ende - 6) ende
         in Some (Some start, Some ende))
      else if index = 5 then
        (let month = int (getMonth tz current);
             month = (if month = 0 then 12 else month);
             year = getFullYear tz current;
             year = (if month = 12 then year - 1 else year)
         in Some (first_of_month year month, Some (new_date tz year month 0)))
      else if index = 6 then
        (let month = int (getMonth tz current) + 1;
             year = getFullYear tz current
         in Some (first_of_month year month, Some (new_date tz year month 0)))
      else None)"

subsection \<open>Ticked rows\<close>

definition init_Sum :: "report \<Rightarrow> report" where
  "init_Sum r = r\<lparr>rp_totals := (\<lambda>_. Some 0), rp_amount := ''0''\<rparr>"

definition tick_rows :: "bool \<Rightarrow> report_row list \<Rightarrow> report_row list" where
  "tick_rows v rows = map (\<lambda>w. w\<lparr>rr_checked := v\<rparr>) rows"

definition setCheckCancel :: "report \<Rightarrow> report" where
  "setCheckCancel r = r\<lparr>rp_all := False, rp_rows := tick_rows False (rp_rows r)\<rparr>"

definition checked_ids :: "report_row list \<Rightarrow> string list" where
  "checked_ids rows = map rr_id (filter rr_checked rows)"

definition getCheckAdIds :: "report_row list \<Rightarrow> string" where
  "getCheckAdIds rows =
     fold (\<lambda>(i, v) adIds. if i = 0 then v else adIds @ '','' @ v) (enumerate 0 (checked_ids rows)) ''''"

definition isAllChecked :: "report_row list \<Rightarrow> bool" where
  "isAllChecked rows = (if getCheckAdIds rows = '''' then False else True)"

text \<open>The selector \<open>[value$=id]\<close> matches every value that ends with the id.\<close>

definition ends_with :: "string \<Rightarrow> string \<Rightarrow> bool" where
  "ends_with v i \<longleftrightarrow> length i \<le> length v \<and> drop (length v - length i) v = i"

definition tick_matching :: "string \<Rightarrow> report_row list \<Rightarrow> report_row list" where
  "tick_matching i rows = map (\<lambda>w. if ends_with (rr_id w) i then w\<lparr>rr_checked := True\<rparr> else w) rows"

definition setDefault :: "string \<Rightarrow> report \<Rightarrow> report" where
  "setDefault ids r =
     (if ids \<noteq> '''' then r\<lparr>rp_rows := fold tick_matching (split_on CHR '','' ids) (rp_rows r)\<rparr> else r)"

definition setCheckAll :: "bool \<Rightarrow> report \<Rightarrow> report" where
  "setCheckAll sts r = (if sts then r\<lparr>rp_all := True\<rparr> else r)"

definition changeTimeNode :: "env \<Rightarrow> nat \<Rightarrow> report cmd" where
  "changeTimeNode e index r =
     (case time_node (e_tz e) (e_now e) index of
        None \<Rightarrow> (Some TypeError, r)
      | Some (start, ende) \<Rightarrow>
          (None, init_Sum (setCheckCancel
             (r\<lparr>rp_start := format_date (e_tz e) start, rp_end := format_date (e_tz e) ende\<rparr>))))"

subsection \<open>The chart\<close>

definition hour_ticks :: "(nat \<times> string) list" where
  "hour_ticks = map (\<lambda>i. (i, (if i < 10 then ''0'' @ dec_of_nat (i - 1) else dec_of_nat (i - 1)) @ '':00'')) [1 ..< 25]"

text \<open>The loop over the days; \<open>firstDay\<close> is moved on by each step but the first.\<close>

fun day_ticks :: "int \<Rightarrow> nat \<Rightarrow> nat \<Rightarrow> int \<Rightarrow> (nat \<times> string) list" where
  "day_ticks tz 0 i firstDay = []"
| "day_ticks tz (Suc n) i firstDay =
     (let firstDay = setDate tz (getDate tz firstDay + (if i = 0 then 0 else 1)) firstDay
      in (i + 1, Format tz firstDay ymd) # day_ticks tz n (i + 1) firstDay)"

definition x_axis :: "int \<Rightarrow> string \<Rightarrow> string \<Rightarrow> (nat \<times> string) list \<times> int option" where
  "x_axis tz start ende =
     (if start = ende then (hour_ticks, Some 24)
      else case (parse_date start, parse_date ende) of
        (Some startTime, Some endTime) \<Rightarrow>
          (let diff = dateDiff startTime endTime in (day_ticks tz (nat diff) 0 startTime, Some diff))
      | _ \<Rightarrow> ([], None))"

text \<open>The source of a series, as it is given to \<open>eval\<close>.\<close>

definition series_source :: "string \<Rightarrow> string \<Rightarrow> string" where
  "series_source labelName data = ''({label:'' @ [char_of (39 :: nat)] @ labelName @ [char_of (39 :: nat)] @ '',data:'' @ data @ ''})''"

definition drawChart :: "env \<Rightarrow> server \<Rightarrow> string \<Rightarrow> string \<Rightarrow> string \<Rightarrow> string \<Rightarrow> report \<Rightarrow> report" where
  "drawChart e srv start ende ty ids r =
     (let (x_ticks, xMax) = x_axis (e_tz e) start ende;
          index = (if start = ende then 1 else 6);
          (yMax, dataArr) =
            (case chart srv start ende index ty (e_id e) ids of
               Some (Some (y, objArray)) \<Rightarrow> (y, map (\<lambda>(l, d). series_source l d) objArray)
             | _ \<Rightarrow> (10, []));
          dataArr = (if dataArr = [] then [series_source [] ''[]''] else dataArr);
          y_ticks = (if yMax = 0 then 1 else 5)
      in r\<lparr>rp_plots := rp_plots r @ [\<lparr>pl_series = dataArr, pl_xticks = x_ticks, pl_xMax = xMax,
             pl_yticks = y_ticks, pl_yMax = yMax\<rparr>]\<rparr>)"

subsection \<open>The sums\<close>

definition set_sum :: "string \<Rightarrow> string \<Rightarrow> report \<Rightarrow> report" where
  "set_sum i s r = r\<lparr>rp_sums := obj_set i s (rp_sums r)\<rparr>"

definition sum_id :: "column \<Rightarrow> string" where
  "sum_id c = (case c of Pv \<Rightarrow> ''pvSum'' | Uv \<Rightarrow> ''uvSum'' | Ip \<Rightarrow> ''ipSum'' | Click \<Rightarrow> ''clickSum''
     | MobilePv \<Rightarrow> ''mobilePvSum'' | MobileClick \<Rightarrow> ''mobileClickSum'' | Close \<Rightarrow> ''closeSum'')"

definition show_total :: "column \<Rightarrow> report \<Rightarrow> report" where
  "show_total c r = set_sum (sum_id c) (num_text (rp_totals r c)) r"

text \<open>\<open>$("td[name='c']").each(...)\<close>: add every cell of a column to its total.\<close>

definition add_cells :: "column \<Rightarrow> report \<Rightarrow> report" where
  "add_cells c r = r\<lparr>rp_totals := (rp_totals r)
     (c := fold (\<lambda>w n. num_add n (parse_int (rr_cells w c))) (rp_rows r) (rp_totals r c))\<rparr>"

definition sum_rate :: "int option \<Rightarrow> int option \<Rightarrow> string" where
  "sum_rate click pv =
     (if click \<noteq> Some 0 then
        (let clickRates = rate_fixed click pv
         in if is_zero_text clickRates then ''0.0%'' else clickRates @ ''%'')
      else ''0.0%'')"

definition Sum :: "(string \<Rightarrow> string \<Rightarrow> string) \<Rightarrow> report \<Rightarrow> report" where
  "Sum add_amount r =
     (let sum_column = (\<lambda>c r. show_total c (add_cells c r));
          r = sum_column Click (sum_column Ip (sum_column Uv (sum_column Pv r)));
          r = set_sum ''clickRateSum'' (sum_rate (rp_totals r Click) (rp_totals r Pv)) r;
          r = sum_column Close (sum_column MobileClick (sum_column MobilePv r));
          r = r\<lparr>rp_amount := fold (\<lambda>w a. add_amount a (rr_amount w)) (rp_rows r) (rp_amount r)\<rparr>
      in set_sum ''totalAmount'' (rp_amount r) r)"

subsection \<open>Handlers\<close>

definition table_request :: "env \<Rightarrow> server \<Rightarrow> report \<Rightarrow> report" where
  "table_request e srv r =
     (case template srv (rp_start r) (rp_end r) (rp_index r) (e_id e) of
        None \<Rightarrow> r
      | Some rows \<Rightarrow> r\<lparr>rp_rows := tick_rows False rows, rp_all := False, rp_sums := [], rp_sum_shown := False\<rparr>)"

definition statistics_request :: "env \<Rightarrow> server \<Rightarrow> report \<Rightarrow> report" where
  "statistics_request e srv r =
     (case statistics srv (rp_start r) (rp_end r) (e_id e) of
        None \<Rightarrow> r
      | Some data \<Rightarrow> r\<lparr>rp_stats :=
          fold (\<lambda>(i, field, after). obj_set i (or_empty (map_of data field) @ after))
            [(''totalImpressNum'', ''totalImpressNum'', ''''), (''totalClickNum'', ''totalClickNum'', ''''),
             (''clickRate'', ''clickRate'', ''%''), (''cpmPrice'', ''cpmPrice'', ''''),
             (''totalamount'', ''totalAmount'', '''')] (rp_stats r)\<rparr>)"

definition confirm :: "env \<Rightarrow> server \<Rightarrow> report \<Rightarrow> report" where
  "confirm e srv r =
     (let r = init_Sum r;
          ids = getCheckAdIds (rp_rows r);
          checkAll = rp_all r;
          r = table_request e srv r;
          r = statistics_request e srv r;
          r = drawChart e srv (rp_start r) (rp_end r) (rp_type r) ids r;
          r = setDefault ids r
      in setCheckAll checkAll r)"

definition ready :: "env \<Rightarrow> server \<Rightarrow> report \<Rightarrow> report" where
  "ready e srv r =
     (let r = setCheckCancel r;
          current = e_now e;
          last = setDate (e_tz e) (getDate (e_tz e) current - 0) current;
          r = r\<lparr>rp_start := Format (e_tz e) last ymd, rp_end := Format (e_tz e) last ymd, rp_index := 2\<rparr>;
          ids = getCheckAdIds (rp_rows r)
      in drawChart e srv (rp_start r) (rp_end r) ''1'' ids r)"

definition period_click :: "env \<Rightarrow> server \<Rightarrow> nat \<Rightarrow> report cmd" where
  "period_click e srv index r =
     andthen (changeTimeNode e index)
       (\<lambda>r. (None, confirm e srv (r\<lparr>rp_index := index\<rparr>))) (init_Sum r)"

definition radio_click :: "env \<Rightarrow> server \<Rightarrow> string \<Rightarrow> report \<Rightarrow> report" where
  "radio_click e srv ty r =
     (let r = r\<lparr>rp_type := ty\<rparr>
      in drawChart e srv (rp_start r) (rp_end r) ty (getCheckAdIds (rp_rows r)) r)"

definition check_all_click :: "env \<Rightarrow> server \<Rightarrow> (string \<Rightarrow> string \<Rightarrow> string) \<Rightarrow> report \<Rightarrow> report" where
  "check_all_click e srv add_amount r =
     (let r = r\<lparr>rp_all := \<not> rp_all r\<rparr> in
      if rp_all r then
        (let r = confirm e srv (r\<lparr>rp_rows := tick_rows True (rp_rows r)\<rparr>)
         in (Sum add_amount r)\<lparr>rp_sum_shown := True\<rparr>)
      else init_Sum (confirm e srv (r\<lparr>rp_rows := tick_rows False (rp_rows r)\<rparr>)))"

text \<open>The box of row \<open>i\<close>: the browser toggles it, then the handler runs; the row's texts stay readable after its table was replaced.\<close>

definition row_rate :: "int option \<Rightarrow> int option \<Rightarrow> string" where
  "row_rate click pv =
     (if is_zero_text (rate_fixed click pv) \<or> pv = Some 0 then ''0.0%'' else rate_fixed click pv @ ''%'')"

definition add_row :: "report_row \<Rightarrow> report \<Rightarrow> report" where
  "add_row w r = r\<lparr>rp_totals := (\<lambda>c.
     (if rr_checked w then num_add else num_sub) (rp_totals r c) (parse_int (rr_cells w c)))\<rparr>"

definition row_click :: "env \<Rightarrow> server \<Rightarrow> nat \<Rightarrow> report \<Rightarrow> report" where
  "row_click e srv i r =
     (let this = (rp_rows r ! i)\<lparr>rr_checked := \<not> rr_checked (rp_rows r ! i)\<rparr>;
          r = r\<lparr>rp_rows := (rp_rows r)[i := this]\<rparr>;
          ids = getCheckAdIds (rp_rows r);
          checkAll = rp_all r;
          r = table_request e srv r;
          r = drawChart e srv (rp_start r) (rp_end r) (rp_type r) ids r;
          r = setCheckAll checkAll (setDefault ids r);
          r = add_row this r;
          r = fold show_total [Pv, Uv, Ip, Click, MobilePv, MobileClick] r;
          r = set_sum ''clickRateSum'' (num_text (rp_totals r Pv)) r;
          r = show_total Close r;
          r = set_sum ''clickRateSum'' (row_rate (rp_totals r Click) (rp_totals r Pv)) r
      in r\<lparr>rp_sum_shown := True\<rparr>)"

text \<open>\<open>#download\<close>: the fields of the form that is submitted.\<close>

definition download_fields :: "env \<Rightarrow> report \<Rightarrow> (string \<times> string) list" where
  "download_fields e r = [(''start_ex'', rp_start r), (''end_ex'', rp_end r), (''id_ex'', e_id e)]"

subsection \<open>Facts about periods\<close>

lemma weekday_shift: "weekday (d + 7 * k) = weekday d"
proof -
  have "d + 7 * k + 4 = d + 4 + 7 * k" by simp
  then show ?thesis unfolding weekday_def by (metis mod_mult_self2)
qed

lemma getDay_range: "0 \<le> getDay tz t" "getDay tz t \<le> 6"
  using pos_mod_bound [of 7 "local_day tz t + 4"] by (simp_all add: getDay_def weekday_def)

lemma week_cases: "0 \<le> w \<Longrightarrow> w \<le> 6 \<Longrightarrow> w = 0 \<or> w = 1 \<or> w = 2 \<or> w = 3 \<or> w = 4 \<or> w = 5 \<or> w = (6::int)"
  by linarith

lemma minus_days_val: "0 \<le> w \<Longrightarrow> w \<le> 6 \<Longrightarrow> minus_days w = (if w = 0 then 7 else w)"
  using week_cases [of w] by (auto simp: minus_days_def)

lemma plus_days_val: "0 \<le> w \<Longrightarrow> w \<le> 6 \<Longrightarrow> plus_days w = (7 - w) mod 7"
  using week_cases [of w] by (auto simp: plus_days_def)

lemma local_setDate_minus: "local_day tz (setDate tz (getDate tz t - k) t) = local_day tz t - k"
  using local_day_setDate [of tz t "- k"] by simp

lemma weekday_succ: "weekday (d + 1) = (weekday d + 1) mod 7"
  unfolding weekday_def mod_add_left_eq by (simp only: ac_simps)

lemma weekday_minus: "weekday (d - weekday d) = 0" "weekday (d - 7) = weekday d"
proof -
  show "weekday (d - weekday d) = 0"
    by (simp add: weekday_def mod_simps) (metis add_diff_cancel_right' diff_add_eq mod_diff_right_eq mod_self diff_self mod_0)
  show "weekday (d - 7) = weekday d" using weekday_shift [of d "- 1"] by simp
qed

text \<open>
  C35: The week periods are calendar weeks: whatever the day, \<open>this week\<close> runs from the Monday to the
  Sunday around it and \<open>last week\<close> over the seven days before, although the code counts both back
  from a Sunday.
\<close>

theorem week_periods:
  "\<exists>s e s' e'. time_node tz now 3 = Some (Some s, Some e) \<and> time_node tz now 4 = Some (Some s', Some e') \<and>
     weekday (local_day tz s') = 1 \<and> local_day tz e' = local_day tz s' + 6 \<and>
     local_day tz s' \<le> local_day tz now \<and> local_day tz now \<le> local_day tz e' \<and>
     local_day tz s = local_day tz s' - 7 \<and> local_day tz e = local_day tz s' - 1"
proof -
  define d where "d = local_day tz now"
  define w where "w = getDay tz now"
  have w: "0 \<le> w" "w \<le> 6" "w = weekday d" using getDay_range by (simp_all add: w_def d_def getDay_def)
  define e where "e = setDate tz (getDate tz now - minus_days w) now"
  define e' where "e' = setDate tz (getDate tz now + plus_days w) now"
  have e: "local_day tz e = d - (if w = 0 then 7 else w)"
    unfolding e_def d_def local_setDate_minus minus_days_val [OF w(1,2)] ..
  have e': "local_day tz e' = d + (7 - w) mod 7"
    unfolding e'_def d_def local_day_setDate plus_days_val [OF w(1,2)] ..
  have sunday: "local_day tz e' = local_day tz e + 7"
    unfolding e e' using week_cases [OF w(1,2)] by auto
  define s where "s = setDate tz (getDate tz e - 6) e"
  define s' where "s' = setDate tz (getDate tz e' - 6) e'"
  have s: "local_day tz s = local_day tz e - 6" and s': "local_day tz s' = local_day tz e' - 6"
    by (simp_all add: s_def s'_def local_setDate_minus)
  have "weekday (local_day tz e) = 0"
    unfolding e using weekday_minus [of d] w(3) by auto
  moreover have "local_day tz s' = local_day tz e + 1" using s' sunday by simp
  ultimately have monday: "weekday (local_day tz s') = 1"
    by (simp add: weekday_succ)
  have "time_node tz now 3 = Some (Some s, Some e)" "time_node tz now 4 = Some (Some s', Some e')"
    by (simp_all add: time_node_def Let_def e_def e'_def s_def s'_def w_def)
  moreover have "d \<le> local_day tz e'" "local_day tz s' \<le> d"
    unfolding s' e' using week_cases [OF w(1,2)] by auto
  ultimately show ?thesis using monday s s' sunday unfolding d_def by auto
qed

lemma first_of_month_val:
  assumes "1000 \<le> y" "y \<le> 9999" "m < 12"
  shows "first_of_month y (int m + 1) = Some (make_day y (int m) 1 * ms_day)"
proof -
  define d where "d = make_day y (int m) 1"
  have dim: "1 \<le> days_in_month y m"
    using assms(3) month_start_mono [of "Suc m" 12] all_months [of "\<lambda>m. 1 \<le> days_in_month y m"]
    by (simp add: days_in_month_def month_start_vals numeral_2_eq_2 [symmetric])
  note f = fields_make_day [OF assms(3) _ dim, of, folded d_def]
  have "ymd_text d = dec_of_nat (nat y) @ ''-'' @ two (m + 1) @ ''-'' @ two 1"
    using f by (simp add: ymd_text_def)
  moreover have "two (m + 1) = pad2 (nat (int m + 1))" "two 1 = ''01''"
    using assms(3) by (simp_all add: pad2_two field_text_two two_def nat_add_distrib digit_zero)
      (simp add: digit_char_def char_of_eq_iff)
  ultimately have "first_of_month y (int m + 1) = parse_date (ymd_text d)"
    by (simp add: first_of_month_def)
  then show ?thesis using parse_ymd_text [of d] assms(1,2) f(1) by (simp add: d_def)
qed

lemma local_day_utc: "local_day tz (d * ms_day) = d + tz div ms_day"
  by (simp add: local_day_def ms_day_def add.commute)

lemma make_day_zero: "make_day y (int m + 1) 0 + 1 = make_day y (int m + 1) 1"
  by (simp add: make_day_def Let_def)

lemma month_after:
  assumes "m < 12"
  shows "make_day y (int m + 1) 0 = make_day y (int m) (days_in_month y m)"
proof (cases "m = 11")
  case True
  have "day_from_year (y + 1) = day_from_year y + month_start (leap y) 12"
    using year_length [of y] by (cases "leap y") (simp_all add: month_start_vals)
  then show ?thesis using True by (simp add: make_day_def Let_def days_in_month_def month_start_vals)
next
  case False
  then have n: "(int m + 1) div 12 = 0" "nat ((int m + 1) mod 12) = m + 1" using assms by auto
  show ?thesis unfolding make_day_def Let_def n using assms by (simp add: days_in_month_def)
qed

lemma days_in_month_pos: "m < 12 \<Longrightarrow> 1 \<le> days_in_month y m"
  using all_months [of "\<lambda>m. 1 \<le> days_in_month y m"]
  by (simp add: days_in_month_def month_start_vals numeral_2_eq_2 [symmetric])

lemma month_end:
  fixes y :: int
  assumes "m < 12"
  defines "e \<equiv> make_day y (int m + 1) 0"
  shows "year_of e = y" "month_of e = m" "date_of e = days_in_month y m"
    "make_day y (int m) 1 = e - date_of e + 1"
  using fields_make_day [OF assms(1) days_in_month_pos [OF assms(1)] order_refl, of y]
    make_day_month [OF assms(1), of y]
  unfolding e_def month_after [OF assms(1)] by simp_all

text \<open>
  The month periods are calendar months: \<open>last month\<close> ends on the day before the first of the
  current month and \<open>this month\<close> on its last day, across the turn of the year too. They begin on
  the first only in time zones at or east of UTC: the start is parsed as UTC, so west of it the
  period begins a day early.
\<close>

theorem month_periods:
  assumes "1001 \<le> getFullYear tz now" "getFullYear tz now \<le> 9999"
  shows "\<exists>s e s' e'. time_node tz now 5 = Some (Some s, Some e) \<and> time_node tz now 6 = Some (Some s', Some e') \<and>
     (let d = local_day tz now; last = local_day tz e; this = local_day tz e' in
        last = d - date_of d \<and> local_day tz s = last - date_of last + 1 + tz div ms_day \<and>
        year_of this = year_of d \<and> month_of this = month_of d \<and> date_of this = days_in_month (year_of d) (month_of d) \<and>
        local_day tz s' = d - date_of d + 1 + tz div ms_day)"
proof -
  define d where "d = local_day tz now"
  define y where "y = year_of d"
  define m where "m = month_of d"
  have m: "m < 12" using month_of_less by (simp add: m_def)
  define e' where "e' = make_day y (int m + 1) 0"
  note E = month_end [OF m, of y, folded e'_def]
  have first: "make_day y (int m) 1 = d - date_of d + 1" by (simp add: y_def m_def make_day_fields)
  have six: "time_node tz now 6 = Some (Some (make_day y (int m) 1 * ms_day), Some (new_date tz y (int m + 1) 0))"
    using first_of_month_val [of y m] assms m
    by (simp add: time_node_def Let_def getMonth_def getFullYear_def d_def [symmetric] y_def [symmetric] m_def [symmetric])
  define py where "py = (if m = 0 then y - 1 else y)"
  define pm where "pm = (if m = 0 then 11 else m - 1)"
  have pm: "pm < 12" using m by (cases "m = 0") (simp_all add: pm_def less_imp_diff_less)
  define e where "e = make_day py (int pm + 1) 0"
  note P = month_end [OF pm, of py, folded e_def]
  have five: "time_node tz now 5 = Some (Some (make_day py (int pm) 1 * ms_day), Some (new_date tz py (int pm + 1) 0))"
    using first_of_month_val [of py pm] assms m pm
    by (auto simp: time_node_def Let_def getMonth_def getFullYear_def d_def [symmetric] y_def [symmetric]
        m_def [symmetric] py_def pm_def of_nat_diff)
  have "make_day py (int pm + 1) 1 = make_day y (int m) 1"
    by (cases "m = 0") (simp_all add: py_def pm_def make_day_def Let_def of_nat_diff)
  then have last: "e = d - date_of d"
    using make_day_zero [of py pm] first by (simp add: e_def)
  show ?thesis
    using five six E P last first
    by (simp add: local_day_new local_day_utc e_def [symmetric] e'_def [symmetric] Let_def d_def [symmetric]
        y_def [symmetric] m_def [symmetric])
qed

theorem month_periods_witness:
  "\<exists>s e. time_node (8 * 3600000) 1388800000000 5 = Some (Some s, Some e) \<and>
     local_day (8 * 3600000) e = local_day (8 * 3600000) 1388800000000 - date_of (local_day (8 * 3600000) 1388800000000)"
proof -
  have d: "local_day (8 * 3600000) 1388800000000 = 16074" by (simp add: local_day_def ms_day_def)
  have y: "getFullYear (8 * 3600000) 1388800000000 = 2014"
    unfolding getFullYear_def d by (rule year_of_unique) (simp_all add: day_from_year_def)
  show ?thesis using month_periods [of "8 * 3600000" 1388800000000] y by (auto simp: Let_def)
qed

subsection \<open>Facts about the chart\<close>

lemma day_ticks_val:
  "day_ticks tz n i t = map (\<lambda>k. (i + k + 1, ymd_text (local_day tz t + int k + (if i = 0 then 0 else 1)))) [0 ..< n]"
proof (induction n arbitrary: i t)
  case (Suc n)
  have s: "local_day tz (setDate tz (getDate tz t + (if i = 0 then 0 else 1)) t) =
      local_day tz t + (if i = 0 then 0 else 1)"
    by (rule local_day_setDate)
  have u: "[0 ..< Suc n] = 0 # map Suc [0 ..< n]" by (simp add: upt_conv_Cons map_Suc_upt del: upt_Suc)
  show ?case
    unfolding day_ticks.simps Let_def Suc.IH s u Format_ymd by (simp add: ac_simps)
qed simp

lemma parse_text_days:
  assumes "1000 \<le> year_of a" "year_of a \<le> 9999" "1000 \<le> year_of b" "year_of b \<le> 9999" "a \<noteq> b"
  shows "x_axis tz (ymd_text a) (ymd_text b) =
    (map (\<lambda>k. (k + 1, ymd_text (a + int k + tz div ms_day))) [0 ..< nat (b - a + 1)], Some (b - a + 1))"
proof -
  have p: "parse_date (ymd_text a) = Some (a * ms_day)" "parse_date (ymd_text b) = Some (b * ms_day)"
    using assms parse_ymd_text by simp_all
  then have ne: "ymd_text a \<noteq> ymd_text b" using assms(5) by (auto simp: ms_day_def)
  have "b * ms_day - a * ms_day + (ms_day - 1) = (ms_day - 1) + (b - a) * ms_day" by (simp add: left_diff_distrib)
  then have diff: "dateDiff (a * ms_day) (b * ms_day) = b - a + 1" by (simp add: dateDiff_def ms_day_def)
  have "day_ticks tz (nat (b - a + 1)) 0 (a * ms_day) =
      map (\<lambda>k. (k + 1, ymd_text (a + int k + tz div ms_day))) [0 ..< nat (b - a + 1)]"
    unfolding day_ticks_val local_day_utc by (simp add: ac_simps)
  then show ?thesis by (simp add: x_axis_def ne p diff Let_def)
qed

text \<open>
  A chart over several days has one tick for each, in order: for two valid dates the axis runs
  to the number of days from the first to the last, both included, and tick \<open>i\<close> is labelled with the
  \<open>i\<close>-th day; again west of UTC every label is the day before.
\<close>

theorem chart_days:
  assumes "1000 \<le> year_of a" "year_of b \<le> 9999" "a < b"
  shows "\<exists>pl. rp_plots (drawChart e srv (ymd_text a) (ymd_text b) ty ids r) = rp_plots r @ [pl] \<and>
     pl_xMax pl = Some (b - a + 1) \<and> length (pl_xticks pl) = nat (b - a + 1) \<and>
     (\<forall>i < length (pl_xticks pl).
        pl_xticks pl ! i = (i + 1, ymd_text (a + int i + e_tz e div ms_day)))"
proof -
  have "year_of a \<le> year_of b"
    using year_of_bounds [of a] year_of_bounds [of b] day_from_year_mono [of "year_of b + 1" "year_of a"] assms(3)
    by (cases "year_of a \<le> year_of b") simp_all
  then have "x_axis (e_tz e) (ymd_text a) (ymd_text b) =
    (map (\<lambda>k. (k + 1, ymd_text (a + int k + e_tz e div ms_day))) [0 ..< nat (b - a + 1)], Some (b - a + 1))"
    using assms by (intro parse_text_days) simp_all
  then show ?thesis by (simp add: drawChart_def Let_def case_prod_beta)
qed

definition sample_env :: env where
  "sample_env = \<lparr>e_now = 1404172800000, e_tz = 8 * 3600000, e_id = ''0''\<rparr>"

definition no_server :: server where
  "no_server = \<lparr>template = (\<lambda>_ _ _ _. None), statistics = (\<lambda>_ _ _. None), chart = (\<lambda>_ _ _ _ _ _. None)\<rparr>"

definition sample_row :: "string \<Rightarrow> report_row" where
  "sample_row i = \<lparr>rr_id = i, rr_cells = (\<lambda>_. ''5''), rr_amount = ''1.5'', rr_checked = False\<rparr>"

definition new_report :: "report_row list \<Rightarrow> report" where
  "new_report rows = \<lparr>rp_start = ''2014-07-01'', rp_end = ''2014-07-01'', rp_index = 2, rp_type = ''1'', rp_rows = rows,
     rp_all = False, rp_totals = (\<lambda>_. Some 0), rp_amount = ''0'', rp_sums = [], rp_sum_shown = False,
     rp_stats = [], rp_plots = []\<rparr>"

theorem chart_days_witness:
  "\<exists>pl. rp_plots (drawChart sample_env no_server (ymd_text 16250) (ymd_text 16253) ''1'' [] (new_report [])) = [pl] \<and>
     length (pl_xticks pl) = 4"
proof -
  have "year_of 16250 = 2014" "year_of 16253 = 2014"
    by (rule year_of_unique; simp add: day_from_year_def)+
  then show ?thesis
    using chart_days [of 16250 16253 sample_env no_server "''1''" "[]" "new_report []"]
    by (auto simp: new_report_def)
qed

text \<open>
  A chart of one day is labelled with the hours, but the tenth is wrong: every tick \<open>i\<close> from 1 to
  24 is labelled with hour \<open>i - 1\<close> in two digits except tick 10, whose label is \<open>9:00\<close>.
\<close>

theorem hour_labels:
  "x_axis tz s s = (hour_ticks, Some 24) \<and> map fst hour_ticks = [1 ..< 25] \<and>
     list_all (\<lambda>(i, l). l = (if i = 10 then ''9:00'' else pad2 (i - 1) @ '':00'')) hour_ticks"
proof -
  have "map fst hour_ticks = [1 ..< 25]" by (simp add: hour_ticks_def comp_def)
  moreover have "list_all (\<lambda>(i, l). l = (if i = 10 then ''9:00'' else pad2 (i - 1) @ '':00'')) hour_ticks"
    by (auto simp: hour_ticks_def list_all_iff pad2_def dec_two digit_char_def char_of_eq_iff)
  ultimately show ?thesis by (simp add: x_axis_def)
qed

subsection \<open>Facts about ticked rows and totals\<close>

lemma checked_fold_join:
  "fold (\<lambda>(i, v) adIds. if i = 0 then v else adIds @ '','' @ v) (enumerate (Suc n) vs) acc =
     concat (acc # map (\<lambda>v. '','' @ v) vs)"
  by (induction vs arbitrary: n acc) simp_all

lemma join_concat: "join_on c (v # vs) = concat (v # map (\<lambda>v. c # v) vs)"
  by (induction vs arbitrary: v) simp_all

lemma getCheckAdIds_join: "getCheckAdIds rows = join_on CHR '','' (checked_ids rows)"
  by (cases "checked_ids rows") (simp_all add: getCheckAdIds_def join_concat checked_fold_join)

lemma tick_row:
  "fold tick_matching is rows =
     map (\<lambda>w. if \<exists>i \<in> set is. ends_with (rr_id w) i then w\<lparr>rr_checked := True\<rparr> else w) rows"
proof (induction "is" arbitrary: rows)
  case (Cons i "is")
  show ?case
    unfolding fold.simps comp_apply Cons.IH by (auto simp: tick_matching_def)
qed (simp add: tick_matching_def)

text \<open>The ids of the rows: numerals, not empty and without a comma.\<close>

definition plain_ids :: "report_row list \<Rightarrow> bool" where
  "plain_ids rows \<longleftrightarrow> (\<forall>w \<in> set rows. rr_id w \<noteq> [] \<and> CHR '','' \<notin> set (rr_id w))"

lemma setDefault_rows:
  assumes "plain_ids rows"
  shows "rp_rows (setDefault (getCheckAdIds rows) r) =
    map (\<lambda>w. if \<exists>i \<in> set (checked_ids rows). ends_with (rr_id w) i then w\<lparr>rr_checked := True\<rparr> else w) (rp_rows r)"
proof (cases "checked_ids rows")
  case Nil
  then show ?thesis by (simp add: setDefault_def getCheckAdIds_join)
next
  case (Cons i "is")
  have plain: "\<forall>i \<in> set (checked_ids rows). i \<noteq> [] \<and> CHR '','' \<notin> set i"
    using assms by (auto simp: plain_ids_def checked_ids_def)
  then have "join_on CHR '','' (checked_ids rows) \<noteq> []" using Cons by (cases "is") simp_all
  moreover have "split_on CHR '','' (join_on CHR '','' (checked_ids rows)) = checked_ids rows"
    using plain Cons by (intro split_join) auto
  ultimately show ?thesis by (simp add: setDefault_def getCheckAdIds_join tick_row)
qed

lemma set_sum_simps [simp]:
  "rp_rows (set_sum i s r) = rp_rows r" "rp_totals (set_sum i s r) = rp_totals r"
  "rp_rows (show_total c r) = rp_rows r" "rp_totals (show_total c r) = rp_totals r"
  "rp_rows (init_Sum r) = rp_rows r" "rp_totals (init_Sum r) = (\<lambda>_. Some 0)"
  "rp_rows (setCheckAll b r) = rp_rows r" "rp_totals (setCheckAll b r) = rp_totals r"
  "rp_rows (drawChart e srv s t ty ids r) = rp_rows r" "rp_totals (drawChart e srv s t ty ids r) = rp_totals r"
  "rp_rows (add_row w r) = rp_rows r" "rp_totals (setDefault ids r) = rp_totals r"
  "rp_totals (table_request e srv r) = rp_totals r" "rp_totals (statistics_request e srv r) = rp_totals r"
  "rp_rows (statistics_request e srv r) = rp_rows r" "rp_rows (add_cells c r) = rp_rows r"
  by (auto simp: set_sum_def show_total_def init_Sum_def setCheckAll_def drawChart_def Let_def case_prod_beta
      add_row_def setDefault_def table_request_def statistics_request_def add_cells_def split: option.split)

text \<open>The rows of a table the server has just sent.\<close>

definition answered :: "env \<Rightarrow> server \<Rightarrow> report \<Rightarrow> report_row list \<Rightarrow> bool" where
  "answered e srv r ws \<longleftrightarrow> template srv (rp_start r) (rp_end r) (rp_index r) (e_id e) = Some ws"

lemma table_rows: "answered e srv r ws \<Longrightarrow> rp_rows (table_request e srv r) = tick_rows False ws"
  by (simp add: answered_def table_request_def)

lemma answered_cong:
  "answered e srv (init_Sum r) ws = answered e srv r ws"
  "answered e srv (r\<lparr>rp_rows := rows\<rparr>) ws = answered e srv r ws"
  "answered e srv (r\<lparr>rp_all := b\<rparr>) ws = answered e srv r ws"
  by (simp_all add: answered_def init_Sum_def)

lemma confirm_rows:
  assumes "answered e srv r ws" "plain_ids (rp_rows r)"
  shows "rp_rows (confirm e srv r) =
     map (\<lambda>w. w\<lparr>rr_checked := (\<exists>i \<in> set (checked_ids (rp_rows r)). ends_with (rr_id w) i)\<rparr>) ws"
proof -
  have "rp_rows (table_request e srv (init_Sum r)) = tick_rows False ws"
    using assms(1) by (intro table_rows) (simp add: answered_cong)
  then show ?thesis
    using setDefault_rows [OF assms(2)] by (auto simp: confirm_def Let_def tick_rows_def)
qed

lemma confirm_totals: "rp_totals (confirm e srv r) = (\<lambda>_. Some 0)"
  by (simp add: confirm_def Let_def)

lemma row_click_rows:
  assumes "i < length (rp_rows r)" "answered e srv r ws" "plain_ids (rp_rows r)"
  defines "rows \<equiv> (rp_rows r)[i := (rp_rows r ! i)\<lparr>rr_checked := \<not> rr_checked (rp_rows r ! i)\<rparr>]"
  shows "rp_rows (row_click e srv i r) =
     map (\<lambda>w. w\<lparr>rr_checked := (\<exists>i \<in> set (checked_ids rows). ends_with (rr_id w) i)\<rparr>) ws"
proof -
  have "plain_ids rows"
    using assms(1,3) by (auto simp: rows_def plain_ids_def dest!: set_update_subset_insert [THEN subsetD])
  note d = setDefault_rows [OF this]
  have "rp_rows (table_request e srv (r\<lparr>rp_rows := rows\<rparr>)) = tick_rows False ws"
    using assms(2) by (intro table_rows) (simp add: answered_cong)
  then show ?thesis
    using d by (auto simp: row_click_def Let_def rows_def [symmetric] tick_rows_def)
qed

lemma row_click_totals:
  "rp_totals (row_click e srv i r) c =
     (if rr_checked (rp_rows r ! i) then num_sub else num_add) (rp_totals r c) (parse_int (rr_cells (rp_rows r ! i) c))"
  by (simp add: row_click_def Let_def add_row_def)

lemma checked_toggle:
  assumes "i < length rows" "\<not> rr_checked (rows ! i)"
  shows "set (checked_ids (rows[i := (rows ! i)\<lparr>rr_checked := \<not> rr_checked (rows ! i)\<rparr>])) =
    insert (rr_id (rows ! i)) (rr_id ` {v \<in> set rows. rr_checked v})"
proof -
  obtain xs w ys where rows: "rows = xs @ w # ys" "length xs = i"
    using id_take_nth_drop [OF assms(1)] assms(1) by (metis length_take min.absorb2 less_imp_le)
  then have w: "rows ! i = w" "\<not> rr_checked w" using assms(2) by (simp_all add: nth_append)
  have "rows[i := (rows ! i)\<lparr>rr_checked := \<not> rr_checked (rows ! i)\<rparr>] = xs @ w\<lparr>rr_checked := True\<rparr> # ys"
    using w by (simp add: rows [symmetric]) (simp add: rows list_update_append)
  then show ?thesis unfolding w(1) using w(2) by (auto simp: rows(1) checked_ids_def)
qed

text \<open>
  Ticking one ad can tick others. After a click on the box of a row the new table has ticked
  exactly the rows whose id ends with the id of a row that was ticked, so ticking ad 7 ticks ad 17
  as well, while only the clicked row's counts were added to the totals.
\<close>

theorem row_click_suffix:
  assumes "i < length (rp_rows r)" "\<not> rr_checked (rp_rows r ! i)" "answered e srv r ws" "plain_ids (rp_rows r)"
  shows "rp_rows (row_click e srv i r) =
     map (\<lambda>w. w\<lparr>rr_checked := (ends_with (rr_id w) (rr_id (rp_rows r ! i)) \<or>
       (\<exists>v \<in> set (rp_rows r). rr_checked v \<and> ends_with (rr_id w) (rr_id v)))\<rparr>) ws \<and>
     rp_totals (row_click e srv i r) c = num_add (rp_totals r c) (parse_int (rr_cells (rp_rows r ! i) c))"
proof -
  have ids: "(\<exists>j \<in> set (checked_ids ((rp_rows r)[i := (rp_rows r ! i)\<lparr>rr_checked := \<not> rr_checked (rp_rows r ! i)\<rparr>])).
        ends_with x j) \<longleftrightarrow> ends_with x (rr_id (rp_rows r ! i)) \<or>
      (\<exists>v \<in> set (rp_rows r). rr_checked v \<and> ends_with x (rr_id v))" for x
    unfolding checked_toggle [OF assms(1,2)] by auto
  show ?thesis
    unfolding row_click_rows [OF assms(1,3,4)] row_click_totals ids using assms(2) by simp
qed

definition sample_server :: server where
  "sample_server = no_server\<lparr>template := (\<lambda>_ _ _ _. Some [sample_row ''7'', sample_row ''17''])\<rparr>"

definition sample_report :: report where
  "sample_report = new_report [sample_row ''7'', sample_row ''17'']"

lemma sample_answered: "answered sample_env sample_server sample_report [sample_row ''7'', sample_row ''17'']"
  by (simp add: answered_def sample_server_def)

lemma sample_plain: "plain_ids [sample_row ''7'', sample_row ''17'']"
  by (simp add: plain_ids_def sample_row_def)

theorem row_click_suffix_witness:
  "map rr_checked (rp_rows (row_click sample_env sample_server 0 sample_report)) = [True, True]"
proof -
  have "\<not> rr_checked (rp_rows sample_report ! 0)" "plain_ids (rp_rows sample_report)" "0 < length (rp_rows sample_report)"
    using sample_plain by (simp_all add: sample_report_def new_report_def sample_row_def)
  from row_click_suffix [OF this(3,1) sample_answered this(2)] show ?thesis
    by (simp add: sample_report_def new_report_def sample_row_def ends_with_def)
qed

text \<open>The sums.\<close>

definition column_sum :: "report_row list \<Rightarrow> column \<Rightarrow> int option" where
  "column_sum rows c = fold (\<lambda>w n. num_add n (parse_int (rr_cells w c))) rows (Some 0)"

lemma Sum_totals:
  "rp_totals (Sum add_amount r) = (\<lambda>c. fold (\<lambda>w n. num_add n (parse_int (rr_cells w c))) (rp_rows r) (rp_totals r c))"
  "rp_rows (Sum add_amount r) = rp_rows r"
proof -
  have add: "rp_totals (add_cells c r) = (rp_totals r)
      (c := fold (\<lambda>w n. num_add n (parse_int (rr_cells w c))) (rp_rows r) (rp_totals r c))" for c r
    by (simp add: add_cells_def)
  show "rp_rows (Sum add_amount r) = rp_rows r" by (simp add: Sum_def Let_def)
  show "rp_totals (Sum add_amount r) =
      (\<lambda>c. fold (\<lambda>w n. num_add n (parse_int (rr_cells w c))) (rp_rows r) (rp_totals r c))"
  proof
    fix c
    show "rp_totals (Sum add_amount r) c = fold (\<lambda>w n. num_add n (parse_int (rr_cells w c))) (rp_rows r) (rp_totals r c)"
      by (cases c) (simp_all add: Sum_def Let_def add)
  qed
qed

lemma ends_with_self [simp]: "ends_with v v"
  by (simp add: ends_with_def)

lemma checked_all: "checked_ids (tick_rows True rows) = map rr_id rows"
  by (induction rows) (simp_all add: checked_ids_def tick_rows_def)

lemma column_sum_checks: "column_sum (map (\<lambda>w. w\<lparr>rr_checked := g w\<rparr>) rows) c = column_sum rows c"
  by (simp add: column_sum_def fold_map comp_def)

text \<open>
  The box above the rows works: switched on, it leaves every row of the new table ticked (of the
  ads that were listed before), itself on, and every total equal to the sum of its column.
\<close>

theorem check_all_sums:
  assumes "\<not> rp_all r" "answered e srv r ws" "plain_ids (rp_rows r)" "rr_id ` set ws \<subseteq> rr_id ` set (rp_rows r)"
  shows "rp_rows (check_all_click e srv add_amount r) = tick_rows True ws \<and>
     rp_all (check_all_click e srv add_amount r) \<and>
     rp_totals (check_all_click e srv add_amount r) = column_sum ws"
proof -
  define r1 where "r1 = r\<lparr>rp_all := True, rp_rows := tick_rows True (rp_rows r)\<rparr>"
  have r1: "answered e srv r1 ws" "plain_ids (rp_rows r1)" "checked_ids (rp_rows r1) = map rr_id (rp_rows r)"
    using assms(2,3) by (simp_all add: r1_def answered_cong checked_all) (simp add: plain_ids_def tick_rows_def)
  have run: "check_all_click e srv add_amount r = (Sum add_amount (confirm e srv r1))\<lparr>rp_sum_shown := True\<rparr>"
    using assms(1) by (simp add: check_all_click_def Let_def r1_def)
  have rows: "rp_rows (confirm e srv r1) = tick_rows True ws"
    unfolding confirm_rows [OF r1(1,2)] r1(3) tick_rows_def
  proof (rule map_cong [OF refl])
    fix w assume "w \<in> set ws"
    then have "rr_id w \<in> set (map rr_id (rp_rows r))" using assms(4) by auto
    then have "(\<exists>i \<in> set (map rr_id (rp_rows r)). ends_with (rr_id w) i) = True" using ends_with_self by blast
    then show "w\<lparr>rr_checked := \<exists>i \<in> set (map rr_id (rp_rows r)). ends_with (rr_id w) i\<rparr> = w\<lparr>rr_checked := True\<rparr>"
      by (simp only:)
  qed
  have all: "rp_all (Sum add_amount s) = rp_all s" for s
    by (simp add: Sum_def Let_def show_total_def set_sum_def add_cells_def)
  have "rp_all (confirm e srv r1)" by (simp add: confirm_def Let_def setCheckAll_def init_Sum_def r1_def)
  moreover have "rp_totals (Sum add_amount (confirm e srv r1)) = column_sum ws"
    unfolding Sum_totals confirm_totals rows column_sum_def tick_rows_def by (simp add: fold_map comp_def)
  ultimately show ?thesis by (simp add: run Sum_totals rows all)
qed

theorem check_all_sums_witness:
  "rp_totals (check_all_click sample_env sample_server (\<lambda>a b. a) sample_report) Pv = Some 10"
proof -
  have "column_sum [sample_row ''7'', sample_row ''17''] Pv = Some 10"
    by (simp add: column_sum_def sample_row_def parse_int_def is_space_def is_digit_def num_add_def
        nat_of_dec_def digit_val_def)
  then show ?thesis
    using check_all_sums [of sample_report sample_env sample_server _ "\<lambda>a b. a", OF _ sample_answered] sample_plain
    by (simp add: sample_report_def new_report_def)
qed

text \<open>
  The totals drift from the ticks. Confirming keeps the ticks but clears the totals, so if the
  server sends the table again, taking away the tick of a row then leaves every total at minus the
  row's count.
\<close>

theorem totals_drift:
  assumes "answered e srv r ws" "plain_ids (rp_rows r)" "i < length ws" "ws ! i \<in> set (rp_rows r)" "rr_checked (ws ! i)"
    and "parse_int (rr_cells (ws ! i) c) = Some n"
  shows "rr_checked (rp_rows (confirm e srv r) ! i) \<and> rp_totals (confirm e srv r) c = Some 0 \<and>
     rp_totals (row_click e srv i (confirm e srv r)) c = Some (- n)"
proof -
  have "rr_id (ws ! i) \<in> set (checked_ids (rp_rows r))" using assms(4,5) by (auto simp: checked_ids_def)
  then have "(\<exists>j \<in> set (checked_ids (rp_rows r)). ends_with (rr_id (ws ! i)) j) = True" using ends_with_self by blast
  then have w: "rp_rows (confirm e srv r) ! i = (ws ! i)\<lparr>rr_checked := True\<rparr>"
    unfolding confirm_rows [OF assms(1,2)] using assms(3) by (simp only: nth_map)
  then show ?thesis
    using row_click_totals [of e srv i "confirm e srv r" c] assms(6)
    by (simp add: confirm_totals num_sub_def)
qed

theorem totals_drift_witness:
  "let row = (sample_row ''7'')\<lparr>rr_checked := True\<rparr>; srv = no_server\<lparr>template := (\<lambda>_ _ _ _. Some [row])\<rparr>
   in rp_totals (row_click sample_env srv 0 (confirm sample_env srv (new_report [row]))) Pv = Some (-5)"
proof -
  define row where "row = (sample_row ''7'')\<lparr>rr_checked := True\<rparr>"
  define srv where "srv = no_server\<lparr>template := (\<lambda>_ _ _ _. Some [row])\<rparr>"
  have "answered sample_env srv (new_report [row]) [row]" by (simp add: answered_def srv_def)
  moreover have "plain_ids (rp_rows (new_report [row]))"
    by (simp add: new_report_def plain_ids_def row_def sample_row_def)
  moreover have "parse_int (rr_cells row Pv) = Some 5"
    by (simp add: row_def sample_row_def parse_int_def is_space_def is_digit_def nat_of_dec_def digit_val_def)
  ultimately show ?thesis
    unfolding row_def [symmetric] srv_def [symmetric] Let_def
    using totals_drift [of sample_env srv "new_report [row]" "[row]" 0 Pv 5]
    by (simp add: new_report_def) (simp add: row_def)
qed

end
