(* ===== verification/ChartTip.thy ===== *)
theory ChartTip
  imports JsPrelude
begin

section \<open>The tip of the chart\<close>

text \<open>
  The end of \<open>reportChart\<close> in \<open>js/report/ad-report.js\<close>: hovering over a point shows its value. Every drawing of
  the chart sets another listener on the same element, each with its own \<open>previousPoint\<close>. The chart itself
  is drawn by a library; what is hovered over is the index of a point and its value (\<open>None\<close>: no point), and
  \<open>clicks\<close> tells whether the report is of clicks. The Chinese words of a tip are named in English.
\<close>

record chart =
  ch_handlers :: "nat option list"
  ch_tips :: "string list"

definition new_chart :: chart where
  "new_chart = \<lparr>ch_handlers = [], ch_tips = []\<rparr>"

definition tip_text :: "bool \<Rightarrow> nat \<Rightarrow> string" where
  "tip_text clicks y = (if clicks then ''clicks: '' else ''views: '') @ dec_of_nat y"

text \<open>\<open>plothover\<close> for one listener: the tips in the page and its \<open>previousPoint\<close>.\<close>

definition plothover :: "bool \<Rightarrow> (nat \<times> nat) option \<Rightarrow> string list \<Rightarrow> nat option \<Rightarrow> string list \<times> nat option" where
  "plothover clicks item tips previousPoint =
     (case item of
        Some (index, y) \<Rightarrow>
          if previousPoint \<noteq> Some index then ([tip_text clicks y], Some index) else (tips, previousPoint)
      | None \<Rightarrow> ([], None))"

fun hover_all :: "bool \<Rightarrow> (nat \<times> nat) option \<Rightarrow> string list \<Rightarrow> nat option list \<Rightarrow> string list \<times> nat option list" where
  "hover_all clicks item tips [] = (tips, [])"
| "hover_all clicks item tips (h # hs) =
     (case plothover clicks item tips h of
        (tips', h') \<Rightarrow> (case hover_all clicks item tips' hs of (tips'', hs') \<Rightarrow> (tips'', h' # hs')))"

definition hover :: "bool \<Rightarrow> (nat \<times> nat) option \<Rightarrow> chart \<Rightarrow> chart" where
  "hover clicks item c =
     (case hover_all clicks item (ch_tips c) (ch_handlers c) of (tips, hs) \<Rightarrow> c\<lparr>ch_tips := tips, ch_handlers := hs\<rparr>)"

definition draw_chart :: "chart \<Rightarrow> chart" where
  "draw_chart c = c\<lparr>ch_handlers := ch_handlers c @ [None]\<rparr>"

datatype chart_event = Draw | Hover bool "(nat \<times> nat) option"

fun chart_step :: "chart_event \<Rightarrow> chart \<Rightarrow> chart" where
  "chart_step Draw c = draw_chart c"
| "chart_step (Hover clicks item) c = hover clicks item c"

definition chart_run :: "chart_event list \<Rightarrow> chart" where
  "chart_run es = fold chart_step es new_chart"

subsection \<open>Properties\<close>

lemma hover_none: "hover_all clicks None tips hs = (if hs = [] then tips else [], map (\<lambda>_. None) hs)"
  by (induction hs arbitrary: tips) (simp_all add: plothover_def)

lemma hover_some:
  "hover_all clicks (Some (i, y)) tips hs =
     (if \<forall>h \<in> set hs. h = Some i then tips else [tip_text clicks y], map (\<lambda>_. Some i) hs)"
  by (induction hs arbitrary: tips) (auto simp: plothover_def)

declare hover_all.simps(2) [simp del]

definition chart_ok :: "chart \<Rightarrow> bool" where
  "chart_ok c \<longleftrightarrow> (if \<forall>h \<in> set (ch_handlers c). h = None then ch_tips c = [] else length (ch_tips c) = 1)"

lemma chart_ok_step: "chart_ok c \<Longrightarrow> chart_ok (chart_step e c)"
proof (cases e)
  case Draw
  assume "chart_ok c"
  then show ?thesis using Draw by (auto simp: chart_ok_def draw_chart_def)
next
  case (Hover clicks item)
  assume ok: "chart_ok c"
  show ?thesis
  proof (cases item)
    case None
    then show ?thesis using ok Hover by (auto simp: chart_ok_def hover_def hover_none)
  next
    case (Some p)
    obtain i y where p: "p = (i, y)" by (cases p)
    show ?thesis using ok Hover Some p
      by (cases "ch_handlers c") (auto simp: chart_ok_def hover_def hover_some)
  qed
qed

lemma chart_run_ok: "chart_ok (chart_run es)"
proof -
  have "chart_ok c \<Longrightarrow> chart_ok (fold chart_step es c)" for c
    by (induction es arbitrary: c) (auto intro: chart_ok_step)
  moreover have "chart_ok new_chart" by (simp add: chart_ok_def new_chart_def)
  ultimately show ?thesis by (simp add: chart_run_def)
qed

text \<open>
  However often the chart was drawn and whatever was hovered over, there is one tip while a point is
  hovered over and none otherwise; a point with another index than the last shows its own value.
\<close>

theorem one_tip:
  assumes "Draw \<in> set es"
  shows "length (ch_tips (chart_run (es @ [Hover clicks (Some (i, y))]))) = 1 \<and>
    ch_tips (chart_run (es @ [Hover clicks None])) = [] \<and>
    (Some i \<notin> set (ch_handlers (chart_run es)) \<longrightarrow>
       ch_tips (chart_run (es @ [Hover clicks (Some (i, y))])) = [tip_text clicks y])"
proof -
  have len: "length (ch_handlers (chart_step e c)) = length (ch_handlers c) + (if e = Draw then 1 else 0)" for e c
  proof (cases e)
    case (Hover b item)
    then show ?thesis by (cases item) (auto simp: hover_def hover_none hover_some)
  qed (simp add: draw_chart_def)
  have "length (ch_handlers (fold chart_step es c)) = length (ch_handlers c) + length (filter (\<lambda>e. e = Draw) es)" for c
    by (induction es arbitrary: c) (auto simp: len)
  then have "length (ch_handlers (chart_run es)) = length (filter (\<lambda>e. e = Draw) es)"
    by (simp add: chart_run_def new_chart_def)
  then have hs: "ch_handlers (chart_run es) \<noteq> []" using assms by (auto simp: filter_empty_conv)
  have run: "chart_run (es @ [e]) = chart_step e (chart_run es)" for e by (simp add: chart_run_def)
  have "length (ch_tips (chart_run (es @ [Hover clicks (Some (i, y))]))) = 1"
    using chart_run_ok [of "es @ [Hover clicks (Some (i, y))]"] hs by (auto simp: chart_ok_def run hover_def hover_some)
  then show ?thesis using hs by (cases "ch_handlers (chart_run es)") (auto simp: run hover_def hover_none hover_some)
qed

theorem one_tip_witness:
  "ch_tips (chart_run ([Draw, Draw] @ [Hover False (Some (3, 12))])) = [''views: 12'']"
proof -
  have "ch_handlers (chart_run [Draw, Draw]) = [None, None]" by (simp add: chart_run_def new_chart_def draw_chart_def)
  then show ?thesis using one_tip [of "[Draw, Draw]" False 3 12] by (simp add: tip_text_def dec_of_nat.simps digit_char_def char_of_eq_iff)
qed

text \<open>
  Moving to the point of another line at the same place keeps the old value in the tip: only indexes are compared.
\<close>

lemma tip_stale:
  assumes "ch_handlers c \<noteq> []" "\<forall>h \<in> set (ch_handlers c). h = None"
  shows "ch_tips (hover clicks (Some (i, y')) (hover clicks (Some (i, y)) c)) = [tip_text clicks y]"
  using assms by (cases "ch_handlers c") (auto simp: hover_def hover_some)

end
