(* ===== verification/LabelTree.thy ===== *)
theory LabelTree
  imports JsCommand
begin

section \<open>The tree of interest labels\<close>

text \<open>
  \<open>admanager/.../js/common/allbaselabeltree.js\<close> and its copy \<open>intersttree.js\<close>: a tree of labels with
  check boxes (a zTree) and beside it the list of labels chosen, each with an icon that takes it
  back. The mutable tree is a rose tree whose nodes are named by their position, written from the
  node upwards: \<open>i # up\<close> is child \<open>i\<close> of the node at \<open>up\<close>, and \<open>[]\<close> is no node (its children are the top level).
  Every node has a \<open>children\<close> array, as the scripts take for granted. A handler runs after zTree
  has changed the clicked node's check, and with it those below and above it; redrawing
  (\<open>updateNode\<close>, \<open>refresh\<close>) does not change the nodes.
\<close>

record node_data =
  t_id :: string
  t_name :: string
  t_checked :: bool
  t_half :: bool
  t_isParent :: bool
  t_nocheck :: bool

datatype tree = Tree (data: node_data) (kids: "tree list")

record tree_page =
  tp_tree :: tree
  tp_labels :: "(string \<times> string \<times> string) list"
  tp_visible :: bool

subsection \<open>Nodes by position\<close>

fun get_at :: "nat list \<Rightarrow> tree \<Rightarrow> tree option" where
  "get_at [] t = Some t"
| "get_at (i # p) t = (if i < length (kids t) then get_at p (kids t ! i) else None)"

fun upd_at :: "nat list \<Rightarrow> (tree \<Rightarrow> tree) \<Rightarrow> tree \<Rightarrow> tree" where
  "upd_at [] f t = f t"
| "upd_at (i # p) f t =
     (if i < length (kids t) then Tree (data t) ((kids t)[i := upd_at p f (kids t ! i)]) else t)"

definition node_at :: "tree_page \<Rightarrow> nat list \<Rightarrow> tree option" where
  "node_at s up = (if up = [] then None else get_at (rev up) (tp_tree s))"

definition on_node :: "nat list \<Rightarrow> (tree \<Rightarrow> tree) \<Rightarrow> tree_page \<Rightarrow> tree_page" where
  "on_node up f s = s\<lparr>tp_tree := upd_at (rev up) f (tp_tree s)\<rparr>"

definition set_data :: "(node_data \<Rightarrow> node_data) \<Rightarrow> tree \<Rightarrow> tree" where
  "set_data g t = Tree (g (data t)) (kids t)"

definition set_half :: "bool \<Rightarrow> tree \<Rightarrow> tree" where
  "set_half b = set_data (\<lambda>d. d\<lparr>t_half := b\<rparr>)"

definition set_checks :: "bool \<Rightarrow> tree \<Rightarrow> tree" where
  "set_checks b = set_data (\<lambda>d. d\<lparr>t_checked := b, t_half := False\<rparr>)"

subsection \<open>The labels\<close>

text \<open>The names above a node, the nearest first.\<close>

fun getParentsNode :: "tree \<Rightarrow> nat list \<Rightarrow> string list" where
  "getParentsNode t [] = []"
| "getParentsNode t (j # up) =
     (case get_at (rev (j # up)) t of None \<Rightarrow> [] | Some n \<Rightarrow> t_name (data n) # getParentsNode t up)"

fun arrow_join :: "string list \<Rightarrow> string" where
  "arrow_join [] = []"
| "arrow_join [x] = x"
| "arrow_join (x # y # ys) = x @ '' > '' @ arrow_join (y # ys)"

definition appendLabel :: "nat list \<Rightarrow> tree_page \<Rightarrow> tree_page" where
  "appendLabel up s =
     (case node_at s up of
        None \<Rightarrow> s
      | Some n \<Rightarrow>
          (let labels = arrow_join (rev (butlast (getParentsNode (tp_tree s) (tl up))))
           in s\<lparr>tp_labels := tp_labels s @
                [(labels @ '' > '' @ t_name (data n), t_id (data n), t_name (data n))]\<rparr>))"

text \<open>\<open>$(".delete_icon").each(...)\<close>: take away the labels of an id.\<close>

definition drop_label :: "string \<Rightarrow> tree_page \<Rightarrow> tree_page" where
  "drop_label i s = s\<lparr>tp_labels := filter (\<lambda>l. fst (snd l) \<noteq> i) (tp_labels s)\<rparr>"

fun removeParent :: "nat list \<Rightarrow> tree_page \<Rightarrow> tree_page" where
  "removeParent [] s = s"
| "removeParent (j # up) s =
     (case node_at s (j # up) of None \<Rightarrow> s | Some n \<Rightarrow> removeParent up (drop_label (t_id (data n)) s))"

fun removeChild :: "tree \<Rightarrow> tree_page \<Rightarrow> tree_page"
  and removeChilds :: "tree list \<Rightarrow> tree_page \<Rightarrow> tree_page" where
  "removeChild (Tree d ks) s = removeChilds ks s"
| "removeChilds [] s = s"
| "removeChilds (k # ks) s = removeChilds ks (removeChild k (drop_label (t_id (data k)) s))"

definition hide_if_empty :: "tree_page \<Rightarrow> tree_page" where
  "hide_if_empty s = (if tp_labels s = [] then s\<lparr>tp_visible := False\<rparr> else s)"

subsection \<open>Half checks\<close>

fun checkOffChildrenHalfCheck :: "tree \<Rightarrow> tree" where
  "checkOffChildrenHalfCheck (Tree d ks) = Tree d (map (\<lambda>k. set_half False (checkOffChildrenHalfCheck k)) ks)"

text \<open>A node that is checked, not half.\<close>

definition full :: "tree \<Rightarrow> bool" where
  "full t \<longleftrightarrow> t_checked (data t) \<and> \<not> t_half (data t)"

fun checkOnParentHalfCheck :: "nat list \<Rightarrow> tree_page \<Rightarrow> tree_page" where
  "checkOnParentHalfCheck [] s = s"
| "checkOnParentHalfCheck [i] s = s"
| "checkOnParentHalfCheck (i # j # up) s =
     (case node_at s (j # up) of
        None \<Rightarrow> s
      | Some parent \<Rightarrow>
          (let checkNum = length (filter full (kids parent));
               s = (if checkNum = length (kids parent)
                    then appendLabel (j # up) (removeChild parent (on_node (j # up) (set_half False) s))
                    else on_node (j # up) (set_half True) s);
               s = on_node (i # j # up) (set_half False) s
           in if up \<noteq> [] then checkOnParentHalfCheck (j # up) s else s))"

definition checkOn :: "nat list \<Rightarrow> tree_page \<Rightarrow> tree_page" where
  "checkOn up s = checkOnParentHalfCheck up (appendLabel up (s\<lparr>tp_visible := True\<rparr>))"

subsection \<open>Handlers\<close>

text \<open>The positions of the siblings of \<open>i # up\<close>, itself included.\<close>

definition siblings :: "tree_page \<Rightarrow> nat list \<Rightarrow> (nat list \<times> tree) list" where
  "siblings s up = (case node_at s up of None \<Rightarrow> [] | Some parent \<Rightarrow>
     map (\<lambda>(k, t). (k # up, t)) (enumerate 0 (kids parent)))"

definition review_siblings :: "string list \<Rightarrow> nat list \<Rightarrow> tree_page \<Rightarrow> tree_page" where
  "review_siblings exists up s =
     (let neghbours = siblings s up;
          nocheck = length (filter (\<lambda>(p, t). \<not> t_checked (data t)) neghbours);
          review = filter (\<lambda>(p, t). t_checked (data t) \<and> t_id (data t) \<notin> set exists) neghbours
      in if nocheck = 1 then fold (\<lambda>(p, t). appendLabel p) review s else s)"

definition label_ids :: "tree_page \<Rightarrow> string list" where
  "label_ids s = map (\<lambda>l. fst (snd l)) (tp_labels s)"

definition onCheck :: "nat list \<Rightarrow> tree_page cmd" where
  "onCheck up s =
     (case node_at s up of
        None \<Rightarrow> (Some TypeError, s)
      | Some treeNode \<Rightarrow>
          if t_checked (data treeNode) then (None, checkOn up s)
          else
            (let exists = label_ids s;
                 s = drop_label (t_id (data treeNode)) s
             in case node_at s (tl up) of
                  None \<Rightarrow> (Some TypeError, s)
                | Some parentNode \<Rightarrow>
                    (let s = hide_if_empty (removeChild treeNode (removeParent (tl up) s));
                         s = on_node up (\<lambda>t. checkOffChildrenHalfCheck (set_half False t)) s;
                         s = on_node (tl up) (set_half (t_checked (data parentNode))) s;
                         s = review_siblings exists (tl up) s
                     in (None, if tp_labels s \<noteq> [] then s\<lparr>tp_visible := True\<rparr> else s))))"

text \<open>Expanding a node.\<close>

definition onClick :: "nat list \<Rightarrow> tree_page \<Rightarrow> tree_page" where
  "onClick up = on_node up (\<lambda>treeNode.
     if kids treeNode \<noteq> [] then
       Tree (data treeNode) (map (\<lambda>child.
         (let child = (if full treeNode then set_checks True child else child)
          in set_data (\<lambda>d. d\<lparr>t_isParent := True\<rparr>) child)) (kids treeNode))
     else set_data (\<lambda>d. d\<lparr>t_isParent := False\<rparr>) treeNode)"

fun removeChildNode :: "tree \<Rightarrow> tree" where
  "removeChildNode (Tree d ks) = Tree d (map (\<lambda>k. set_checks False (removeChildNode k)) ks)"

fun removeParentNode :: "nat list \<Rightarrow> tree_page \<Rightarrow> tree_page" where
  "removeParentNode [] s = s"
| "removeParentNode (i # up) s =
     (case node_at s up of
        None \<Rightarrow> s
      | Some parentNode \<Rightarrow>
          (let removeFlag = list_all (\<lambda>k. \<not> t_checked (data k)) (kids parentNode)
           in if removeFlag then removeParentNode up (on_node up (set_checks False) s) else s))"

text \<open>\<open>getCheckedNodes(true)\<close>: the positions (from the top) of the checked nodes with a box, in preorder.\<close>

fun checked_paths :: "tree \<Rightarrow> nat list list"
  and checked_in :: "nat \<Rightarrow> tree list \<Rightarrow> nat list list" where
  "checked_paths (Tree d ks) = (if t_checked d \<and> \<not> t_nocheck d then [[]] else []) @ checked_in 0 ks"
| "checked_in i [] = []"
| "checked_in i (k # ks) = map (\<lambda>p. i # p) (checked_paths k) @ checked_in (Suc i) ks"

definition getCheckedNodes :: "tree_page \<Rightarrow> nat list list" where
  "getCheckedNodes s = map rev (checked_in 0 (kids (tp_tree s)))"

definition uncheck_if :: "string \<Rightarrow> nat list \<Rightarrow> tree_page \<Rightarrow> tree_page" where
  "uncheck_if deleteid up s =
     (case node_at s up of
        None \<Rightarrow> s
      | Some node \<Rightarrow>
          if t_id (data node) = deleteid
          then removeParentNode up (on_node up (\<lambda>t. removeChildNode (set_checks False t)) s) else s)"

text \<open>The icon of label \<open>n\<close>.\<close>

definition removeNode :: "nat \<Rightarrow> tree_page \<Rightarrow> tree_page" where
  "removeNode n s =
     (let deleteid = label_ids s ! n;
          s = hide_if_empty (s\<lparr>tp_labels := take n (tp_labels s) @ drop (Suc n) (tp_labels s)\<rparr>)
      in fold (uncheck_if deleteid) (getCheckedNodes s) s)"

text \<open>The answer to \<open>initInterestTree\<close>: every node loses its box and is shown as a parent.\<close>

fun as_parents :: "tree \<Rightarrow> tree" where
  "as_parents (Tree d ks) = Tree (d\<lparr>t_nocheck := True, t_isParent := True\<rparr>) (map as_parents ks)"

definition initIntrestLabelTree :: "tree list \<Rightarrow> tree_page \<Rightarrow> tree_page" where
  "initIntrestLabelTree zNodes s = s\<lparr>tp_tree := Tree (data (tp_tree s)) (map as_parents zNodes)\<rparr>"

subsection \<open>The copy\<close>

text \<open>\<open>intersttree.js\<close> has the same functions for the crowd pages; it asks other addresses and styles the labels differently.\<close>

definition initIntrestLabelTree_crowd :: "tree list \<Rightarrow> tree_page \<Rightarrow> tree_page" where
  "initIntrestLabelTree_crowd = initIntrestLabelTree"
definition onClick_crowd :: "nat list \<Rightarrow> tree_page \<Rightarrow> tree_page" where "onClick_crowd = onClick"
definition removeNode_crowd :: "nat \<Rightarrow> tree_page \<Rightarrow> tree_page" where "removeNode_crowd = removeNode"
definition onCheck_crowd :: "nat list \<Rightarrow> tree_page cmd" where "onCheck_crowd = onCheck"
definition appendLabel_crowd :: "nat list \<Rightarrow> tree_page \<Rightarrow> tree_page" where "appendLabel_crowd = appendLabel"
definition getParentsNode_crowd :: "tree \<Rightarrow> nat list \<Rightarrow> string list" where "getParentsNode_crowd = getParentsNode"
definition removeParent_crowd :: "nat list \<Rightarrow> tree_page \<Rightarrow> tree_page" where "removeParent_crowd = removeParent"
definition checkOn_crowd :: "nat list \<Rightarrow> tree_page \<Rightarrow> tree_page" where "checkOn_crowd = checkOn"
definition checkOffChildrenHalfCheck_crowd :: "tree \<Rightarrow> tree" where
  "checkOffChildrenHalfCheck_crowd = checkOffChildrenHalfCheck"
definition removeChild_crowd :: "tree \<Rightarrow> tree_page \<Rightarrow> tree_page" where "removeChild_crowd = removeChild"
definition removeChildNode_crowd :: "tree \<Rightarrow> tree" where "removeChildNode_crowd = removeChildNode"
definition removeParentNode_crowd :: "nat list \<Rightarrow> tree_page \<Rightarrow> tree_page" where
  "removeParentNode_crowd = removeParentNode"
definition checkOnParentHalfCheck_crowd :: "nat list \<Rightarrow> tree_page \<Rightarrow> tree_page" where
  "checkOnParentHalfCheck_crowd = checkOnParentHalfCheck"

subsection \<open>Facts about positions\<close>

lemma get_upd_below: "get_at p (upd_at (p @ q) f t) = map_option (upd_at q f) (get_at p t)"
  by (induction p arbitrary: t) auto

lemma get_upd_same: "get_at p (upd_at p f t) = map_option f (get_at p t)"
proof -
  have "upd_at [] f = f" by (rule ext) simp
  then show ?thesis using get_upd_below [of p "[]" f t] by simp
qed

lemma node_on_same: "up \<noteq> [] \<Longrightarrow> node_at (on_node up f s) up = map_option f (node_at s up)"
  by (simp add: node_at_def on_node_def get_upd_same)

lemma node_on_child:
  "up \<noteq> [] \<Longrightarrow> node_at (on_node (i # up) f s) up = map_option (upd_at [i] f) (node_at s up)"
  by (simp add: node_at_def on_node_def get_upd_below)

fun map_tree :: "(node_data \<Rightarrow> node_data) \<Rightarrow> tree \<Rightarrow> tree" where
  "map_tree g (Tree d ks) = Tree (g d) (map (map_tree g) ks)"

lemma map_tree_data [simp]: "data (map_tree g t) = g (data t)" "kids (map_tree g t) = map (map_tree g) (kids t)"
  by (cases t; simp)+

definition data_at :: "tree \<Rightarrow> nat list \<Rightarrow> node_data option" where
  "data_at t p = map_option data (get_at p t)"

lemma data_at_map: "data_at (map_tree g t) p = map_option g (data_at t p)"
proof (induction p arbitrary: t)
  case (Cons i p)
  then show ?case by (cases "i < length (kids t)") (auto simp: data_at_def)
qed (simp add: data_at_def)

lemma data_at_set: "data_at (upd_at p (set_data g) t) q = (if q = p then map_option g (data_at t q) else data_at t q)"
proof (induction p arbitrary: t q)
  case Nil
  then show ?case by (cases q) (auto simp: data_at_def set_data_def)
next
  case (Cons i p)
  then show ?case
    by (cases q) (auto simp: data_at_def nth_list_update split: if_splits)
qed

lemma data_at_sub:
  "data_at (upd_at p (map_tree g) t) q = (if take (length p) q = p then map_option g (data_at t q) else data_at t q)"
proof (induction p arbitrary: t q)
  case Nil
  then show ?case by (simp add: data_at_map)
next
  case (Cons i p)
  then show ?case
    by (cases q) (auto simp: data_at_def nth_list_update split: if_splits)
qed

definition data_of :: "tree_page \<Rightarrow> nat list \<Rightarrow> node_data option" where
  "data_of s up = map_option data (node_at s up)"

lemma data_of_tree: "up \<noteq> [] \<Longrightarrow> data_of s up = data_at (tp_tree s) (rev up)"
  by (simp add: data_of_def node_at_def data_at_def)

lemma data_of_Nil [simp]: "data_of s [] = None"
  by (simp add: data_of_def node_at_def)

lemma data_of_set: "data_of (on_node up (set_data g) s) q = (if q = up then map_option g (data_of s q) else data_of s q)"
  by (cases "q = []") (auto simp: data_of_tree on_node_def data_at_set)

definition below :: "nat list \<Rightarrow> nat list \<Rightarrow> bool" where
  "below up q \<longleftrightarrow> (\<exists>p. q = p @ up)"

lemma below_refl [simp]: "below q q"
  by (simp add: below_def)

lemma below_Cons: "below q r \<Longrightarrow> below q (i # r)"
  unfolding below_def by (metis append_Cons)

lemma below_tl: "below (i # q) r \<Longrightarrow> below q r"
  unfolding below_def by (metis append.assoc append_Cons append_Nil)

lemma not_below_tl: "\<not> below (j # q) q"
proof
  assume "below (j # q) q"
  then obtain p where "q = p @ j # q" by (auto simp: below_def)
  then have "length q = length (p @ j # q)" by simp
  then show False by simp
qed

lemma take_rev_below: "take (length up) (rev q) = rev up \<longleftrightarrow> below up q"
proof
  assume t: "take (length up) (rev q) = rev up"
  have "rev q = take (length up) (rev q) @ drop (length up) (rev q)" by simp
  then have "q = rev (drop (length up) (rev q)) @ up" unfolding t by (metis rev_append rev_rev_ident)
  then show "below up q" by (auto simp: below_def)
qed (auto simp: below_def)

lemma data_of_sub:
  "up \<noteq> [] \<Longrightarrow> data_of (on_node up (map_tree g) s) q = (if below up q then map_option g (data_of s q) else data_of s q)"
  by (cases "q = []") (auto simp: data_of_tree on_node_def data_at_sub take_rev_below)

text \<open>The operations on the labels leave the tree alone.\<close>

lemma label_ops_tree [simp]:
  "tp_tree (appendLabel up s) = tp_tree s" "tp_tree (drop_label i s) = tp_tree s"
  "tp_tree (hide_if_empty s) = tp_tree s" "tp_tree (removeParent up s) = tp_tree s"
proof -
  show d: "tp_tree (drop_label i s) = tp_tree s" for i s by (simp add: drop_label_def)
  show "tp_tree (appendLabel up s) = tp_tree s" by (simp add: appendLabel_def Let_def split: option.split)
  show "tp_tree (hide_if_empty s) = tp_tree s" by (simp add: hide_if_empty_def)
  show "tp_tree (removeParent up s) = tp_tree s"
    by (induction up s rule: removeParent.induct) (simp_all add: d split: option.split)
qed

lemma removeChild_tree [simp]: "tp_tree (removeChild t s) = tp_tree s" "tp_tree (removeChilds ts s) = tp_tree s"
  by (induction t s and ts s rule: removeChild_removeChilds.induct) simp_all

lemma node_at_cong: "tp_tree s = tp_tree s' \<Longrightarrow> node_at s = node_at s'"
  by (rule ext) (simp add: node_at_def)

lemma data_of_cong: "tp_tree s = tp_tree s' \<Longrightarrow> data_of s = data_of s'"
  by (rule ext) (simp add: data_of_def node_at_cong [of s s'])

lemma get_at_snoc:
  "get_at (p @ [i]) t = (case get_at p t of None \<Rightarrow> None | Some u \<Rightarrow> if i < length (kids u) then Some (kids u ! i) else None)"
  by (induction p arbitrary: t) auto

lemma node_child:
  assumes "node_at s (i # up) = Some c" "up \<noteq> []"
  shows "\<exists>p. node_at s up = Some p \<and> i < length (kids p) \<and> c = kids p ! i"
  using assms by (auto simp: node_at_def get_at_snoc split: option.splits if_splits)

subsection \<open>Facts about checking\<close>

definition half_step :: "nat \<Rightarrow> nat \<Rightarrow> nat list \<Rightarrow> tree \<Rightarrow> tree_page \<Rightarrow> tree_page" where
  "half_step i j up parent s = on_node (i # j # up) (set_half False)
     (if length (filter full (kids parent)) = length (kids parent)
      then appendLabel (j # up) (removeChild parent (on_node (j # up) (set_half False) s))
      else on_node (j # up) (set_half True) s)"

lemma check_half_unfold:
  "checkOnParentHalfCheck (i # j # up) s =
     (case node_at s (j # up) of None \<Rightarrow> s
      | Some parent \<Rightarrow> if up \<noteq> [] then checkOnParentHalfCheck (j # up) (half_step i j up parent s)
                      else half_step i j up parent s)"
  by (simp add: half_step_def Let_def split: option.split)

declare checkOnParentHalfCheck.simps(3) [simp del]

lemma data_of_half_step:
  "data_of (half_step i j up parent s) q =
     (if q = i # j # up then map_option (\<lambda>d. d\<lparr>t_half := False\<rparr>) (data_of s q)
      else if q = j # up then map_option (\<lambda>d. d\<lparr>t_half :=
        (length (filter full (kids parent)) \<noteq> length (kids parent))\<rparr>) (data_of s q)
      else data_of s q)"
proof -
  have l: "data_of (appendLabel u (removeChild parent s')) = data_of s'" for u s'
    by (rule data_of_cong) simp
  show ?thesis by (simp add: half_step_def set_half_def data_of_set l)
qed

text \<open>Nothing but half marks changes, and those only at the node and above it.\<close>

definition forget_half :: "node_data option \<Rightarrow> node_data option" where
  "forget_half = map_option (\<lambda>d. d\<lparr>t_half := False\<rparr>)"

lemma forget_half_step: "forget_half (data_of (half_step i j up parent s) q) = forget_half (data_of s q)"
  unfolding data_of_half_step forget_half_def by (simp add: option.map_comp comp_def)

lemma check_half_forget: "forget_half (data_of (checkOnParentHalfCheck r s) q) = forget_half (data_of s q)"
proof (induction r s rule: checkOnParentHalfCheck.induct)
  case (3 i j up s)
  show ?case
  proof (cases "node_at s (j # up)")
    case (Some parent)
    then show ?thesis
      using "3.IH" [OF Some refl refl refl] forget_half_step
      by (cases "up = []") (simp_all add: check_half_unfold half_step_def Let_def)
  qed (simp add: check_half_unfold)
qed simp_all

lemma check_half_frame: "\<not> below q r \<Longrightarrow> data_of (checkOnParentHalfCheck r s) q = data_of s q"
proof (induction r s rule: checkOnParentHalfCheck.induct)
  case (3 i j up s)
  have q: "q \<noteq> i # j # up" "q \<noteq> j # up" "\<not> below q (j # up)"
    using "3.prems" below_Cons [of q "j # up" i] below_refl [of q] by auto
  show ?case
  proof (cases "node_at s (j # up)")
    case (Some parent)
    have "data_of (half_step i j up parent s) q = data_of s q" using q by (simp add: data_of_half_step)
    then show ?thesis
      using "3.IH" [OF Some refl refl refl _ q(3)] Some
      by (cases "up = []") (simp_all add: check_half_unfold half_step_def Let_def)
  qed (simp add: check_half_unfold)
qed simp_all

lemma half_mark_lost:
  assumes "data_of s (k # up) \<noteq> None" "data_of (checkOnParentHalfCheck (j # k # up) s) (j # k # up) = Some d"
  shows "\<not> t_half d"
proof -
  obtain g where g: "node_at s (k # up) = Some g" using assms(1) by (auto simp: data_of_def)
  define s3 where "s3 = half_step j k up g s"
  have "data_of (checkOnParentHalfCheck (j # k # up) s) (j # k # up) = data_of s3 (j # k # up)"
    using check_half_frame [of "j # k # up" "k # up" s3] not_below_tl [of j "k # up"] g
    by (simp add: check_half_unfold s3_def)
  then show ?thesis using assms(2) by (cases "data_of s (j # k # up)") (auto simp: s3_def data_of_half_step)
qed

text \<open>
  C36: Checking a box at least three levels down, below a parent that is checked then, and opening the parent checks
  every box beside it: the half mark that says that only some are checked is set on the parent and taken away again
  by the next step of the same loop, so \<open>onClick\<close> takes the parent for wholly checked.
\<close>

theorem expand_checks_all:
  assumes "node_at s (i # j # k # up) = Some n" "t_checked (data n)"
    and "node_at s (j # k # up) = Some par" "t_checked (data par)"
  shows "\<exists>s' par'. onCheck (i # j # k # up) s = (None, s') \<and>
     node_at (onClick (j # k # up) s') (j # k # up) = Some par' \<and> i < length (kids par') \<and> list_all full (kids par')"
proof -
  let ?P = "j # k # up"
  define s1 where "s1 = appendLabel (i # ?P) (s\<lparr>tp_visible := True\<rparr>)"
  define s' where "s' = checkOnParentHalfCheck (i # ?P) s1"
  have run: "onCheck (i # ?P) s = (None, s')" using assms(1,2) by (simp add: onCheck_def checkOn_def s'_def s1_def)
  have s1: "node_at s1 = node_at s" "data_of s1 = data_of s"
    by (rule node_at_cong data_of_cong, simp add: s1_def)+
  define s2 where "s2 = half_step i j (k # up) par s1"
  have s2: "s' = checkOnParentHalfCheck ?P s2"
    using assms(3) by (simp add: s'_def check_half_unfold s1 s2_def)
  have f: "forget_half (data_of s' q) = forget_half (data_of s q)" for q
    unfolding s2 check_half_forget s2_def forget_half_step s1(2) ..
  have "data_of s ?P = Some (data par)" "data_of s (i # ?P) = Some (data n)"
    using assms by (simp_all add: data_of_def)
  then have "data_of s ?P \<noteq> None" "data_of s (i # ?P) \<noteq> None" by simp_all
  then obtain dp dn where d: "data_of s' ?P = Some dp" "data_of s' (i # ?P) = Some dn"
    using f [of ?P] f [of "i # ?P"] by (auto simp: forget_half_def)
  have "t_checked dp"
    using f [of ?P] d(1) \<open>data_of s ?P = Some (data par)\<close> assms(4)
    by (simp add: forget_half_def) (metis node_data.select_convs(3) node_data.surjective node_data.update_convs(4))
  moreover have "\<not> t_half dp"
  proof (rule half_mark_lost)
    have "data_of s2 (k # up) = data_of s (k # up)" by (simp add: s2_def data_of_half_step s1)
    then show "data_of s2 (k # up) \<noteq> None" using node_child [OF assms(3)] by (auto simp: data_of_def)
    show "data_of (checkOnParentHalfCheck ?P s2) ?P = Some dp" using d(1) unfolding s2 .
  qed
  ultimately have full: "t_checked dp" "\<not> t_half dp" by simp_all
  obtain p' c where p': "node_at s' ?P = Some p'" "data p' = dp" "node_at s' (i # ?P) = Some c"
    using d by (auto simp: data_of_def)
  then have "i < length (kids p')" using node_child [OF p'(3)] by auto
  then show ?thesis
    using run p'(1,2) full node_on_same [of ?P _ s']
    by (auto simp: onClick_def full_def list_all_iff set_data_def set_checks_def Let_def)
qed

definition leaf :: "string \<Rightarrow> bool \<Rightarrow> tree" where
  "leaf i c = Tree \<lparr>t_id = i, t_name = i, t_checked = c, t_half = False, t_isParent = True, t_nocheck = False\<rparr> []"

definition branch :: "string \<Rightarrow> bool \<Rightarrow> tree list \<Rightarrow> tree" where
  "branch i c ks = Tree (data (leaf i c)) ks"

definition sample_tree :: tree_page where
  "sample_tree = \<lparr>tp_tree = branch '''' False [branch ''all'' True [branch ''car'' True [leaf ''bmw'' True, leaf ''vw'' False],
     leaf ''book'' False]], tp_labels = [], tp_visible = False\<rparr>"

theorem expand_checks_all_witness:
  "\<exists>s' par'. onCheck [0, 0, 0] sample_tree = (None, s') \<and>
     node_at (onClick [0, 0] s') [0, 0] = Some par' \<and> list_all full (kids par')"
proof -
  have n: "node_at sample_tree [0, 0, 0] = Some (leaf ''bmw'' True)"
    "node_at sample_tree [0, 0] = Some (branch ''car'' True [leaf ''bmw'' True, leaf ''vw'' False])"
    by (simp_all add: sample_tree_def node_at_def branch_def)
  from expand_checks_all [OF n(1) _ n(2)] show ?thesis by (auto simp: leaf_def branch_def)
qed

text \<open>Some node at or above \<open>up\<close> is in the list.\<close>

definition listed_above :: "nat list \<Rightarrow> tree_page \<Rightarrow> bool" where
  "listed_above up s \<longleftrightarrow> (\<exists>q d. below q up \<and> data_of s q = Some d \<and> t_id d \<in> set (label_ids s))"

lemma listed_append: "data_of s u = Some d \<Longrightarrow> t_id d \<in> set (label_ids (appendLabel u s))"
  by (auto simp: data_of_def appendLabel_def label_ids_def Let_def)

lemma half_step_listed:
  assumes "below (i # j # r) up" "listed_above up s" "node_at s (j # r) = Some parent"
  shows "listed_above up (half_step i j r parent s)"
proof -
  let ?h = "half_step i j r parent s"
  have dp: "data_of s (j # r) = Some (data parent)" using assms(3) by (simp add: data_of_def)
  have ids: "data_of s q = Some d \<Longrightarrow> \<exists>d'. data_of ?h q = Some d' \<and> t_id d' = t_id d" for q d
    by (auto simp: data_of_half_step)
  show ?thesis
  proof (cases "length (filter full (kids parent)) = length (kids parent)")
    case True
    let ?m = "removeChild parent (on_node (j # r) (set_half False) s)"
    have m: "data_of ?m = data_of (on_node (j # r) (set_half False) s)" by (rule data_of_cong) simp
    obtain d' where d': "data_of ?m (j # r) = Some d'" "t_id d' = t_id (data parent)"
      using dp unfolding m by (simp add: set_half_def data_of_set)
    have "label_ids ?h = label_ids (appendLabel (j # r) ?m)"
      using True by (simp add: half_step_def on_node_def label_ids_def)
    moreover have "\<exists>d''. data_of ?h (j # r) = Some d'' \<and> t_id d'' = t_id d'"
      using ids [OF dp] d'(2) by simp
    ultimately show ?thesis
      using listed_append [OF d'(1)] below_tl [OF assms(1)] by (auto simp: listed_above_def)
  next
    case False
    then have "label_ids ?h = label_ids s" by (simp add: half_step_def on_node_def label_ids_def)
    then show ?thesis using ids assms(2) unfolding listed_above_def by metis
  qed
qed

lemma check_half_listed: "below r up \<Longrightarrow> listed_above up s \<Longrightarrow> listed_above up (checkOnParentHalfCheck r s)"
proof (induction r s rule: checkOnParentHalfCheck.induct)
  case (3 i j r s)
  show ?case
  proof (cases "node_at s (j # r)")
    case (Some parent)
    have h: "listed_above up (half_step i j r parent s)"
      by (rule half_step_listed [OF "3.prems" Some])
    show ?thesis
    proof (cases "r = []")
      case True
      then show ?thesis using h Some by (auto simp: check_half_unfold)
    next
      case False
      then show ?thesis
        using "3.IH" [OF Some refl refl refl False below_tl [OF "3.prems"(1)], folded half_step_def, OF h] Some
        by (simp add: check_half_unfold half_step_def Let_def)
    qed
  qed (use "3.prems" in \<open>auto simp: check_half_unfold\<close>)
qed auto

text \<open>
  A checked box is always accounted for in the list: after it, the node or one of those above
  it that its siblings complete has a label, whatever was listed before.
\<close>

theorem check_is_listed:
  assumes "node_at s up = Some n" "t_checked (data n)" "up \<noteq> []"
  shows "\<exists>s' q d. onCheck up s = (None, s') \<and> below q up \<and> data_of s' q = Some d \<and> t_id d \<in> set (label_ids s')"
proof -
  let ?s = "s\<lparr>tp_visible := True\<rparr>"
  have "data_of s up = Some (data n)" using assms(1) by (simp add: data_of_def)
  moreover have "data_of ?s = data_of s" by (rule data_of_cong) simp
  moreover have "data_of (appendLabel up ?s) = data_of ?s" by (rule data_of_cong) simp
  ultimately have "data_of ?s up = Some (data n)" "data_of (appendLabel up ?s) up = Some (data n)" by simp_all
  then have "listed_above up (appendLabel up ?s)"
    using listed_append unfolding listed_above_def by (metis below_refl)
  from check_half_listed [OF below_refl this] show ?thesis
    using assms by (simp add: onCheck_def checkOn_def listed_above_def)
qed

theorem check_is_listed_witness:
  "\<exists>s' q d. onCheck [0, 0, 0] sample_tree = (None, s') \<and> below q [0, 0, 0] \<and> data_of s' q = Some d \<and>
     t_id d \<in> set (label_ids s')"
  by (rule check_is_listed [of _ _ "leaf ''bmw'' True"])
    (simp_all add: sample_tree_def node_at_def branch_def leaf_def)

subsection \<open>Facts about taking a check away\<close>

fun ids_above :: "tree_page \<Rightarrow> nat list \<Rightarrow> string set" where
  "ids_above s [] = {}"
| "ids_above s (j # up) = (case node_at s (j # up) of None \<Rightarrow> {} | Some n \<Rightarrow> insert (t_id (data n)) (ids_above s up))"

fun ids_below :: "tree \<Rightarrow> string set"
  and ids_in :: "tree list \<Rightarrow> string set" where
  "ids_below (Tree d ks) = ids_in ks"
| "ids_in [] = {}"
| "ids_in (k # ks) = insert (t_id (data k)) (ids_below k \<union> ids_in ks)"

lemma ids_drop: "set (label_ids (drop_label i s)) = set (label_ids s) - {i}"
  by (auto simp: label_ids_def drop_label_def)

lemma ids_hide: "label_ids (hide_if_empty s) = label_ids s"
  by (simp add: label_ids_def hide_if_empty_def)

lemma ids_above_cong: "tp_tree s = tp_tree s' \<Longrightarrow> ids_above s up = ids_above s' up"
  by (induction up) (simp_all add: node_at_cong [of s s'] split: option.split)

lemma ids_removeParent: "set (label_ids (removeParent up s)) = set (label_ids s) - ids_above s up"
proof (induction up s rule: removeParent.induct)
  case (2 j up s)
  then show ?case
    using ids_above_cong [of "drop_label _ s" s up] by (cases "node_at s (j # up)") (auto simp: ids_drop)
qed simp

lemma ids_removeChild:
  "set (label_ids (removeChild t s)) = set (label_ids s) - ids_below t"
  "set (label_ids (removeChilds ts s)) = set (label_ids s) - ids_in ts"
  by (induction t s and ts s rule: removeChild_removeChilds.induct) (auto simp: ids_drop)

lemma map_snd_filter: "map snd (filter (\<lambda>(p, t). P t) xs) = filter P (map snd xs)"
  by (induction xs) auto

lemma siblings_kids: "node_at s up = Some p \<Longrightarrow> map snd (siblings s up) = kids p"
  by (simp add: siblings_def case_prod_beta comp_def)

lemma siblings_node: "up \<noteq> [] \<Longrightarrow> (p, t) \<in> set (siblings s up) \<Longrightarrow> node_at s p = Some t"
  by (cases "get_at (rev up) (tp_tree s)")
    (auto simp: siblings_def node_at_def get_at_snoc in_set_enumerate_eq)

lemma append_labels:
  "\<forall>(p, t) \<in> set ps. node_at s p = Some t \<Longrightarrow>
     label_ids (fold (\<lambda>(p, t). appendLabel p) ps s) = label_ids s @ map (\<lambda>(p, t). t_id (data t)) ps"
proof (induction ps arbitrary: s)
  case (Cons x ps)
  obtain p t where x: "x = (p, t)" by fastforce
  have "node_at (appendLabel p s) = node_at s" by (rule node_at_cong) simp
  moreover have "label_ids (appendLabel p s) = label_ids s @ [t_id (data t)]"
    using Cons.prems x by (simp add: appendLabel_def label_ids_def Let_def)
  ultimately show ?case using Cons.IH [of "appendLabel p s"] Cons.prems x by auto
qed simp

lemma ids_review:
  assumes "up \<noteq> []" "node_at s up = Some par"
  shows "set (label_ids (review_siblings exists up s)) = set (label_ids s) \<union>
    (if length (filter (\<lambda>t. \<not> t_checked (data t)) (kids par)) = 1
     then {t_id (data t) | t. t \<in> set (kids par) \<and> t_checked (data t) \<and> t_id (data t) \<notin> set exists} else {})"
proof -
  let ?P = "\<lambda>t. t_checked (data t) \<and> t_id (data t) \<notin> set exists"
  have n: "length (filter (\<lambda>(p, t). \<not> t_checked (data t)) (siblings s up)) =
      length (filter (\<lambda>t. \<not> t_checked (data t)) (kids par))"
    using arg_cong [OF map_snd_filter [of "\<lambda>t. \<not> t_checked (data t)" "siblings s up"], of length]
      siblings_kids [OF assms(2)] by simp
  have "map (\<lambda>(p, t). t_id (data t)) (filter (\<lambda>(p, t). ?P t) (siblings s up)) =
      map (\<lambda>t. t_id (data t)) (map snd (filter (\<lambda>(p, t). ?P t) (siblings s up)))"
    by (simp add: case_prod_beta)
  also have "\<dots> = map (\<lambda>t. t_id (data t)) (filter ?P (kids par))"
    unfolding map_snd_filter siblings_kids [OF assms(2)] ..
  finally have r: "map (\<lambda>(p, t). t_id (data t)) (filter (\<lambda>(p, t). ?P t) (siblings s up)) =
      map (\<lambda>t. t_id (data t)) (filter ?P (kids par))" .
  have "\<forall>(p, t) \<in> set (filter (\<lambda>(p, t). ?P t) (siblings s up)). node_at s p = Some t"
    using siblings_node [OF assms(1)] by auto
  note l = append_labels [OF this, unfolded r]
  show ?thesis
    unfolding review_siblings_def Let_def n using l by (auto simp: case_prod_beta)
qed

lemma off_children_data [simp]: "data (checkOffChildrenHalfCheck t) = data t"
  by (cases t) simp

lemma set_data_simps [simp]: "data (set_data g t) = g (data t)" "kids (set_data g t) = kids t"
  by (simp_all add: set_data_def)

lemma view_ids:
  "{t_id (data t) | t. t \<in> set ks \<and> t_checked (data t) \<and> t_id (data t) \<notin> E} =
     fst ` {v \<in> set (map (\<lambda>t. (t_id (data t), t_checked (data t))) ks). snd v \<and> fst v \<notin> E}"
  by (force simp: image_iff)

text \<open>
  C29: Which labels are listed after a box is unchecked: the labels of the node, of every node above it and
  of every node below it go; if it is the only unchecked one among its siblings, those that were not
  listed are listed instead. Nothing is listed for the checked boxes beside the nodes above, so
  where a higher node stood for them they stay checked and vanish from the list.
\<close>

theorem uncheck_labels:
  assumes "node_at s (i # up) = Some n" "\<not> t_checked (data n)" "up \<noteq> []" "node_at s up = Some par"
  shows "\<exists>s'. onCheck (i # up) s = (None, s') \<and> set (label_ids s') =
     (set (label_ids s) - insert (t_id (data n)) (ids_above s up \<union> ids_below n)) \<union>
     (if length (filter (\<lambda>t. \<not> t_checked (data t)) (kids par)) = 1
      then {t_id (data t) | t. t \<in> set (kids par) \<and> t_checked (data t) \<and> t_id (data t) \<notin> set (label_ids s)} else {})"
proof -
  define s3 where "s3 = hide_if_empty (removeChild n (removeParent up (drop_label (t_id (data n)) s)))"
  define F where "F t = checkOffChildrenHalfCheck (set_half False t)" for t
  define s5 where "s5 = on_node up (set_half (t_checked (data par))) (on_node (i # up) F s3)"
  define s6 where "s6 = review_siblings (label_ids s) up s5"
  have s3: "node_at s3 = node_at s" by (rule node_at_cong) (simp add: s3_def)
  have ids3: "set (label_ids s3) = set (label_ids s) - insert (t_id (data n)) (ids_above s up \<union> ids_below n)"
    using ids_above_cong [of "drop_label (t_id (data n)) s" s up]
    by (auto simp: s3_def ids_hide ids_removeChild ids_removeParent ids_drop)
  have i: "i < length (kids par)" using node_child [OF assms(1,3)] assms(4) by auto
  have view: "map (\<lambda>t. (t_id (data t), t_checked (data t))) ((kids par)[i := F (kids par ! i)]) =
      map (\<lambda>t. (t_id (data t), t_checked (data t))) (kids par)"
    by (rule nth_equalityI) (auto simp: i nth_list_update F_def set_half_def)
  have par5: "node_at s5 up = Some (set_half (t_checked (data par)) (Tree (data par) ((kids par)[i := F (kids par ! i)])))"
    using assms(3,4) i by (simp add: s5_def node_on_same node_on_child s3)
  let ?ks = "(kids par)[i := F (kids par ! i)]"
  have "length (filter (\<lambda>t. \<not> t_checked (data t)) ?ks) = length (filter (\<lambda>t. \<not> t_checked (data t)) (kids par))"
    using arg_cong [OF view, of "\<lambda>vs. length (filter (\<lambda>v. \<not> snd v) vs)"] by (simp add: filter_map comp_def)
  moreover have "{t_id (data t) | t. t \<in> set ?ks \<and> t_checked (data t) \<and> t_id (data t) \<notin> E} =
      {t_id (data t) | t. t \<in> set (kids par) \<and> t_checked (data t) \<and> t_id (data t) \<notin> E}" for E
    unfolding view_ids view ..
  ultimately have ids6: "set (label_ids s6) = set (label_ids s3) \<union>
     (if length (filter (\<lambda>t. \<not> t_checked (data t)) (kids par)) = 1
      then {t_id (data t) | t. t \<in> set (kids par) \<and> t_checked (data t) \<and> t_id (data t) \<notin> set (label_ids s)} else {})"
    using ids_review [OF assms(3) par5, of "label_ids s"]
    by (simp add: s6_def set_half_def) (simp add: s5_def on_node_def label_ids_def)
  have nd: "node_at (drop_label (t_id (data n)) s) = node_at s" by (rule node_at_cong) simp
  have "onCheck (i # up) s = (None, if tp_labels s6 \<noteq> [] then s6\<lparr>tp_visible := True\<rparr> else s6)"
    unfolding onCheck_def assms(1) option.case assms(2) list.sel Let_def nd assms(4) if_False
      s3_def [symmetric] F_def [symmetric] s5_def [symmetric] s6_def [symmetric] using assms(2) by simp
  moreover have "label_ids (if tp_labels s6 \<noteq> [] then s6\<lparr>tp_visible := True\<rparr> else s6) = label_ids s6"
    by (simp add: label_ids_def)
  ultimately show ?thesis using ids3 ids6 by auto
qed

definition chosen_tree :: tree_page where
  "chosen_tree = \<lparr>tp_tree = branch '''' False [branch ''all'' True [branch ''car'' True [leaf ''bmw'' False, leaf ''vw'' True],
     leaf ''book'' True]], tp_labels = [('' > all'', ''all'', ''all'')], tp_visible = True\<rparr>"

theorem uncheck_labels_witness:
  "\<exists>s'. onCheck [0, 0, 0] chosen_tree = (None, s') \<and> set (label_ids s') = {''vw''} \<and>
     node_at chosen_tree [1, 0] = Some (leaf ''book'' True)"
proof -
  have n: "node_at chosen_tree [0, 0, 0] = Some (leaf ''bmw'' False)"
    "node_at chosen_tree [0, 0] = Some (branch ''car'' True [leaf ''bmw'' False, leaf ''vw'' True])"
    "node_at chosen_tree [0] = Some (branch ''all'' True [branch ''car'' True [leaf ''bmw'' False, leaf ''vw'' True], leaf ''book'' True])"
    "node_at chosen_tree [1, 0] = Some (leaf ''book'' True)"
    by (simp_all add: chosen_tree_def node_at_def branch_def)
  have e: "set (label_ids chosen_tree) = {''all''}" "ids_above chosen_tree [0, 0] = {''car'', ''all''}"
    "ids_below (leaf ''bmw'' False) = {}"
    by (simp add: chosen_tree_def label_ids_def, simp add: n, simp_all add: branch_def leaf_def)
  show ?thesis
    using uncheck_labels [OF n(1) _ _ n(2)] n(4) unfolding e view_ids
    by (auto simp: leaf_def branch_def intro!: image_eqI [of _ fst "(''vw'', True)"])
qed

subsection \<open>Facts about taking a label back\<close>

definition cleared :: "node_data \<Rightarrow> node_data" where
  "cleared d = d\<lparr>t_checked := False, t_half := False\<rparr>"

lemma set_checks_cleared: "set_checks False t = Tree (cleared (data t)) (kids t)"
  by (simp add: set_checks_def set_data_def cleared_def)

lemma removeChildNode_map: "set_checks False (removeChildNode t) = map_tree cleared t"
proof (induction t)
  case (Tree d ks)
  then have "removeChildNode (Tree d ks) = Tree d (map (map_tree cleared) ks)" by simp
  then show ?case by (simp add: set_checks_cleared)
qed

lemma removeChildNode_node: "removeChildNode (set_checks False t) = map_tree cleared t"
  by (cases t) (simp add: set_checks_cleared [of "Tree _ _"] removeChildNode_map)

text \<open>A page with the same nodes and no more checks.\<close>

definition no_more :: "tree_page \<Rightarrow> tree_page \<Rightarrow> bool" where
  "no_more s s' \<longleftrightarrow> (\<forall>q. data_of s q = None \<longrightarrow> data_of s' q = None) \<and>
     (\<forall>q d. data_of s q = Some d \<longrightarrow>
        (\<exists>d'. data_of s' q = Some d' \<and> t_id d' = t_id d \<and> (t_checked d' \<longrightarrow> t_checked d)))"

lemma no_more_refl: "no_more s s"
  by (simp add: no_more_def)

lemma no_more_Some: "no_more s s' \<Longrightarrow> data_of s q = Some d \<Longrightarrow>
    \<exists>d'. data_of s' q = Some d' \<and> t_id d' = t_id d \<and> (t_checked d' \<longrightarrow> t_checked d)"
  by (simp add: no_more_def)

lemma no_more_None: "no_more s s' \<Longrightarrow> data_of s q = None \<Longrightarrow> data_of s' q = None"
  by (simp add: no_more_def)

lemma no_more_trans:
  assumes "no_more s s'" "no_more s' s''"
  shows "no_more s s''"
  unfolding no_more_def
proof (intro conjI allI impI)
  fix q d
  assume "data_of s q = Some d"
  from no_more_Some [OF assms(1) this] obtain d' where d': "data_of s' q = Some d'" "t_id d' = t_id d"
    "t_checked d' \<longrightarrow> t_checked d" by blast
  from no_more_Some [OF assms(2) d'(1)] d'(2,3)
  show "\<exists>d'. data_of s'' q = Some d' \<and> t_id d' = t_id d \<and> (t_checked d' \<longrightarrow> t_checked d)" by auto
qed (use no_more_None assms in blast)

lemma no_more_set: "no_more s (on_node up (set_checks False) s)"
  by (simp add: no_more_def set_checks_def data_of_set)

lemma no_more_sub: "up \<noteq> [] \<Longrightarrow> no_more s (on_node up (map_tree cleared) s)"
  by (simp add: no_more_def data_of_sub cleared_def)

lemma no_more_parents: "no_more s (removeParentNode up s)"
proof (induction up s rule: removeParentNode.induct)
  case (2 i up s)
  show ?case
  proof (cases "node_at s up")
    case (Some p)
    then show ?thesis
      using "2.IH" [OF Some refl] no_more_trans [OF no_more_set] no_more_refl by (auto simp: Let_def)
  qed (simp add: no_more_refl)
qed (simp add: no_more_refl)

lemma no_more_uncheck: "up \<noteq> [] \<Longrightarrow> no_more s (uncheck_if i up s)"
  using no_more_trans [OF no_more_sub no_more_parents]
  by (auto simp: uncheck_if_def removeChildNode_node no_more_refl split: option.split)

lemma no_more_fold: "\<forall>up \<in> set ups. up \<noteq> [] \<Longrightarrow> no_more s (fold (uncheck_if i) ups s)"
proof (induction ups arbitrary: s)
  case (Cons u ups)
  then have "no_more (uncheck_if i u s) (fold (uncheck_if i) ups (uncheck_if i u s))" by simp
  from no_more_trans [OF no_more_uncheck this] show ?case using Cons.prems by simp
qed (simp add: no_more_refl)

lemma checked_in_mem:
  "k < length ks \<Longrightarrow> p \<in> set (checked_paths (ks ! k)) \<Longrightarrow> (m + k) # p \<in> set (checked_in m ks)"
proof (induction ks arbitrary: k m)
  case (Cons x ks)
  then show ?case using Cons.IH [of "k - 1" "Suc m"] by (cases k) auto
qed simp

lemma checked_paths_mem:
  "get_at p t = Some u \<Longrightarrow> t_checked (data u) \<Longrightarrow> \<not> t_nocheck (data u) \<Longrightarrow> p \<in> set (checked_paths t)"
proof (induction p arbitrary: t)
  case Nil
  then show ?case by (cases u) simp
next
  case (Cons i p)
  obtain d ks where t: "t = Tree d ks" by (cases t)
  then have i: "i < length ks" "get_at p (ks ! i) = Some u" using Cons.prems(1) by (simp_all split: if_splits)
  then have "i # p \<in> set (checked_in 0 ks)"
    using checked_in_mem [of i ks p 0] Cons.IH Cons.prems(2,3) by simp
  then show ?case by (simp add: t)
qed

lemma getCheckedNodes_mem:
  assumes "node_at s up = Some n" "t_checked (data n)" "\<not> t_nocheck (data n)"
  shows "up \<in> set (getCheckedNodes s)"
proof -
  obtain j r where r: "rev up = j # r" using assms(1) by (cases "rev up") (auto simp: node_at_def)
  obtain d ks where t: "tp_tree s = Tree d ks" by (cases "tp_tree s")
  have g: "get_at (j # r) (tp_tree s) = Some n" using assms(1) r by (simp add: node_at_def split: if_splits)
  then have "j < length ks" "r \<in> set (checked_paths (ks ! j))"
    using t assms(2,3) checked_paths_mem by (auto split: if_splits)
  then have "j # r \<in> set (checked_in 0 ks)" using checked_in_mem [of j ks r 0] by simp
  then have "rev (j # r) \<in> set (getCheckedNodes s)"
    unfolding getCheckedNodes_def t tree.sel set_map by (rule imageI)
  then show ?thesis using r by (metis rev_rev_ident)
qed

lemma checked_in_ne: "p \<in> set (checked_in m ks) \<Longrightarrow> p \<noteq> []"
  by (induction ks arbitrary: m) auto

lemma getCheckedNodes_ne: "up \<in> set (getCheckedNodes s) \<Longrightarrow> up \<noteq> []"
  using checked_in_ne by (fastforce simp: getCheckedNodes_def)

text \<open>
  Taking a label back unchecks what it stands for: the label is gone and no other, every checked
  node with its id is unchecked together with everything below it, and no node becomes checked.
\<close>

theorem remove_label:
  assumes "m < length (tp_labels s)" "node_at s up = Some n" "t_id (data n) = label_ids s ! m"
    and "t_checked (data n)" "\<not> t_nocheck (data n)" "below up q" "data_of s q = Some d"
  shows "\<exists>d'. data_of (removeNode m s) q = Some d' \<and> \<not> t_checked d' \<and> t_id d' = t_id d \<and>
     label_ids (removeNode m s) = take m (label_ids s) @ drop (Suc m) (label_ids s) \<and>
     no_more s (removeNode m s)"
proof -
  define s1 where "s1 = hide_if_empty (s\<lparr>tp_labels := take m (tp_labels s) @ drop (Suc m) (tp_labels s)\<rparr>)"
  define i where "i = label_ids s ! m"
  have run: "removeNode m s = fold (uncheck_if i) (getCheckedNodes s1) s1"
    by (simp add: removeNode_def Let_def s1_def i_def)
  have tree: "tp_tree s1 = tp_tree s" by (simp add: s1_def)
  note at = node_at_cong [OF tree] data_of_cong [OF tree]
  have "label_ids (uncheck_if i u s) = label_ids s" for u s
  proof -
    have "tp_labels (removeParentNode u s) = tp_labels s" for s
      by (induction u s rule: removeParentNode.induct) (simp_all add: Let_def on_node_def split: option.split)
    then show ?thesis by (simp add: uncheck_if_def label_ids_def on_node_def split: option.split)
  qed
  then have "label_ids (fold (uncheck_if i) us s) = label_ids s" for us s by (induction us arbitrary: s) simp_all
  then have labels: "label_ids (removeNode m s) = take m (label_ids s) @ drop (Suc m) (label_ids s)"
    by (simp add: run s1_def ids_hide) (simp add: label_ids_def take_map drop_map)
  have "up \<in> set (getCheckedNodes s1)" using getCheckedNodes_mem [of s1] assms(2,4,5) at by simp
  then obtain as bs where split: "getCheckedNodes s1 = as @ up # bs" by (meson split_list)
  have ne: "\<forall>u \<in> set (getCheckedNodes s1). u \<noteq> []" using getCheckedNodes_ne by blast
  define s2 where "s2 = fold (uncheck_if i) as s1"
  have s2: "no_more s1 s2" unfolding s2_def by (rule no_more_fold) (use ne split in auto)
  have up: "up \<noteq> []" using ne split by auto
  have "data_of s1 up = Some (data n)" using assms(2) at by (simp add: data_of_def)
  then obtain d2 where d2: "data_of s2 up = Some d2" "t_id d2 = i"
    using no_more_Some [OF s2 \<open>data_of s1 up = Some (data n)\<close>] assms(3) by (auto simp: i_def)
  then obtain n2 where n2: "node_at s2 up = Some n2" "t_id (data n2) = i" by (auto simp: data_of_def)
  define s3 where "s3 = on_node up (map_tree cleared) s2"
  obtain dq where dq: "data_of s2 q = Some dq" "t_id dq = t_id d" using no_more_Some [OF s2, of q d] assms(7) at by auto
  have "data_of s3 q = Some (cleared dq)" using data_of_sub [OF up] dq(1) assms(6) by (simp add: s3_def)
  moreover have "removeNode m s = fold (uncheck_if i) bs (removeParentNode up s3)"
    using n2 by (simp add: run split s2_def [symmetric] uncheck_if_def removeChildNode_node s3_def)
  moreover have "no_more s3 (fold (uncheck_if i) bs (removeParentNode up s3))"
    by (rule no_more_trans [OF no_more_parents no_more_fold]) (use ne split in auto)
  ultimately obtain d' where "data_of (removeNode m s) q = Some d'" "t_id d' = t_id d" "\<not> t_checked d'"
    using no_more_Some [of s3 "removeNode m s" q] dq(2) by (auto simp: cleared_def)
  moreover have "no_more s (removeNode m s)"
    unfolding run using no_more_fold [OF ne, of s1 i] at(2) by (simp add: no_more_def)
  ultimately show ?thesis using labels by blast
qed

theorem remove_label_witness:
  "\<exists>d'. data_of (removeNode 0 chosen_tree) [1, 0] = Some d' \<and> \<not> t_checked d'"
proof -
  have n: "node_at chosen_tree [0] = Some (branch ''all'' True [branch ''car'' True [leaf ''bmw'' False, leaf ''vw'' True], leaf ''book'' True])"
    "data_of chosen_tree [1, 0] = Some (data (leaf ''book'' True))"
    by (simp_all add: chosen_tree_def node_at_def branch_def data_of_def)
  have "below [0] [1, 0]" by (simp add: below_def)
  from remove_label [OF _ n(1) _ _ _ this n(2), of 0] show ?thesis
    by (auto simp: chosen_tree_def label_ids_def branch_def leaf_def)
qed

end
