(* ===== verification/CodeField.thy ===== *)
theory CodeField
  imports JsText
begin

section \<open>Codes in a hidden field\<close>

text \<open>
  The forms write lists of codes into hidden fields, joined by commas, and the server splits them again. Here is
  what the Java code does with such a text, and the contract of a component that writes one.
\<close>

text \<open>Java's \<open>split\<close> of a text at a character drops the empty pieces at the end.\<close>

definition java_split :: "char \<Rightarrow> string \<Rightarrow> string list" where
  "java_split c s = (if c \<in> set s then rev (dropWhile (\<lambda>x. x = []) (rev (split_on c s))) else [s])"

lemma java_split_two: "c \<notin> set x \<Longrightarrow> c \<notin> set y \<Longrightarrow> y \<noteq> [] \<Longrightarrow> java_split c (x @ c # y) = [x, y]"
  by (simp add: java_split_def split_on_append split_on_plain)

lemma java_split_join:
  assumes "xs \<noteq> []" "\<forall>x \<in> set xs. c \<notin> set x \<and> x \<noteq> []"
  shows "java_split c (join_on c xs) = xs"
proof (cases "c \<in> set (join_on c xs)")
  case True
  have "last xs \<noteq> []" using assms by simp
  then have "dropWhile (\<lambda>x. x = []) (rev xs) = rev xs"
    using assms(1) by (simp add: dropWhile_eq_self_iff hd_rev)
  then show ?thesis using True assms split_join [of xs c] by (simp add: java_split_def)
next
  case False
  then have "split_on c (join_on c xs) = [join_on c xs]" by (rule split_on_plain)
  then show ?thesis using False assms split_join [of xs c] by (simp add: java_split_def)
qed

text \<open>\<open>StringUtils.isBlank\<close>; Java's white space has the separators 28 to 31 and no no-break space.\<close>

definition java_blank :: "string \<Rightarrow> bool" where
  "java_blank s = list_all (\<lambda>c. let n = (of_char c :: nat) in 9 \<le> n \<and> n \<le> 13 \<or> 28 \<le> n \<and> n \<le> 32) s"

text \<open>
  The codes of which \<open>addAdRegionLink\<close> and \<open>addPlanMaterial\<close> of \<open>AdPlanManageServiceImpl\<close> write a row each, and those of
  \<open>addAdAllLabel\<close>, which leaves out empty ones.
\<close>

definition link_codes :: "string \<Rightarrow> string list" where
  "link_codes s = (if java_blank s then [] else java_split CHR '','' s)"

definition label_codes :: "string \<Rightarrow> string list" where
  "label_codes s = filter (\<lambda>c. c \<noteq> []) (link_codes s)"

definition plain_code :: "string \<Rightarrow> bool" where
  "plain_code c \<longleftrightarrow> CHR '','' \<notin> set c \<and> \<not> java_blank c"

lemma blank_join: "xs \<noteq> [] \<Longrightarrow> \<forall>x \<in> set xs. \<not> java_blank x \<Longrightarrow> \<not> java_blank (join_on c xs)"
  by (induction xs rule: induct_list012) (auto simp: java_blank_def)

lemma plain_ne: "plain_code c \<Longrightarrow> c \<noteq> []"
  by (auto simp: plain_code_def java_blank_def)

subsection \<open>The contract\<close>

text \<open>
  A component with a list of codes promises, in the states that are \<open>ok\<close>, that its text is the codes joined by
  commas and that the codes are plain. Then the server stores a row for every code.
\<close>

locale coded_field =
  fixes codes :: "'s \<Rightarrow> string list" and line :: "'s \<Rightarrow> string" and ok :: "'s \<Rightarrow> bool"
  assumes text_codes: "ok s \<Longrightarrow> line s = join_on CHR '','' (codes s)"
    and codes_plain: "ok s \<Longrightarrow> c \<in> set (codes s) \<Longrightarrow> plain_code c"
begin

lemma stored: "ok s \<Longrightarrow> link_codes (line s) = codes s"
proof (cases "codes s = []")
  case True
  moreover assume "ok s"
  ultimately show "link_codes (line s) = codes s" by (simp add: text_codes link_codes_def java_blank_def)
next
  case False
  moreover assume "ok s"
  ultimately show "link_codes (line s) = codes s"
    using codes_plain [of s] blank_join [of "codes s" "CHR '',''"] java_split_join [of "codes s" "CHR '',''"] plain_ne
    by (auto simp: text_codes link_codes_def plain_code_def)
qed

lemma labels_stored: "ok s \<Longrightarrow> label_codes (line s) = codes s"
  using codes_plain plain_ne by (simp add: label_codes_def stored)

lemma blank_iff: "ok s \<Longrightarrow> java_blank (line s) \<longleftrightarrow> codes s = []"
  using blank_join [of "codes s" "CHR '',''"] codes_plain [of s]
  by (auto simp: text_codes plain_code_def java_blank_def)

end

text \<open>A plain list of codes, as the crowds and the labels of a plan are.\<close>

interpretation code_list: coded_field "\<lambda>cs. cs" "join_on CHR '',''" "\<lambda>cs. \<forall>c \<in> set cs. plain_code c"
  by unfold_locales auto

end
