(* ===== verification/PlanHours.thy ===== *)
theory PlanHours
  imports JsCommand CodeField "HOL-Library.Multiset"
begin

section \<open>The hours of an ad plan\<close>

text \<open>
  The hours in which an ad may be shown go through four programs: \<open>getTime\<close> of the forms
  \<open>adplanAdd.jsp\<close> and \<open>adplanEdit.jsp\<close> writes them into a text, \<open>AdPlanManageServiceImpl\<close> stores a row per kind of day and
  later writes a text from the rows, \<open>renderHours\<close> of the edit form reads it, and \<open>AdPlanFilter\<close> of the ad server
  decides by the rows whether an ad may be shown. All four are modelled, so that the round trip can be stated.

  The two Java programs throw where this model has \<open>None\<close>.
\<close>

subsection \<open>The form\<close>

text \<open>
  The check boxes and selects by their ids; \<open>None\<close> is an id the page does not have. A select has the options
  0 to 23, each the text of its index; \<open>hp_shown\<close> is the text of the widget that covers a select.
\<close>

datatype hour_alert = EndBeforeStart | ChooseWorkEnd | ChooseWeekendEnd

record hours_page =
  hp_checked :: "string \<Rightarrow> bool option"
  hp_index :: "string \<Rightarrow> int option"
  hp_shown :: "string \<Rightarrow> string option"
  hp_alerts :: "hour_alert list"
  hp_focus :: "string option"

definition int_text :: "int \<Rightarrow> string" where
  "int_text i = (if i < 0 then ''-'' @ dec_of_nat (nat (- i)) else dec_of_nat (nat i))"

text \<open>The value of a select, and an assignment to \<open>selectedIndex\<close>: outside the options nothing is selected.\<close>

definition option_value :: "int \<Rightarrow> string" where
  "option_value i = (if 0 \<le> i \<and> i < 24 then int_text i else [])"

definition select_index :: "string \<Rightarrow> int \<Rightarrow> hours_page \<Rightarrow> hours_page" where
  "select_index i n p = p\<lparr>hp_index := (hp_index p)(i \<mapsto> (if 0 \<le> n \<and> n < 24 then n else -1))\<rparr>"

definition show_number :: "string \<Rightarrow> int option \<Rightarrow> hours_page \<Rightarrow> hours_page" where
  "show_number i n p = p\<lparr>hp_shown := (hp_shown p)(i \<mapsto> (case n of None \<Rightarrow> ''NaN'' | Some k \<Rightarrow> int_text k))\<rparr>"

definition num_less :: "int option \<Rightarrow> int option \<Rightarrow> bool" where
  "num_less a b = (case (a, b) of (Some x, Some y) \<Rightarrow> x < y | _ \<Rightarrow> False)"

definition timeValidater :: "string \<Rightarrow> hours_page cmd" where
  "timeValidater i p =
     (let startId = take (length i - 3) i @ ''Start'' in
      case (hp_index p i, hp_index p startId) of
        (Some e, Some s) \<Rightarrow>
          if num_less (parse_int (option_value e)) (parse_int (option_value s))
          then (None, show_number i (Some s) (select_index i s (p\<lparr>hp_alerts := hp_alerts p @ [EndBeforeStart]\<rparr>)))
          else (None, p)
      | _ \<Rightarrow> (Some TypeError, p))"

text \<open>One half of \<open>getTime\<close>: what is appended for a kind of day; \<open>Inr None\<close> is the early return.\<close>

definition time_of :: "string \<Rightarrow> string \<Rightarrow> string \<Rightarrow> hour_alert \<Rightarrow> hours_page \<Rightarrow> string option res \<times> hours_page" where
  "time_of box endId startId a p =
     (case hp_checked p box of
        None \<Rightarrow> (Inl TypeError, p)
      | Some False \<Rightarrow> (Inr (Some ''false''), p)
      | Some True \<Rightarrow>
          (case hp_index p endId of
             None \<Rightarrow> (Inl TypeError, p)
           | Some e \<Rightarrow>
               if parse_int (option_value e) = Some 0
               then (Inr None, p\<lparr>hp_alerts := hp_alerts p @ [a], hp_focus := Some endId\<rparr>)
               else
                 (case timeValidater endId p of
                    (Some err, p') \<Rightarrow> (Inl err, p')
                  | (None, p') \<Rightarrow>
                      (case (hp_index p' startId, hp_index p' endId) of
                         (Some s, Some e') \<Rightarrow>
                           (Inr (Some (''true%start:'' @ option_value s @ ''#end:'' @ option_value e')), p')
                       | _ \<Rightarrow> (Inl TypeError, p')))))"

definition getTime :: "hours_page \<Rightarrow> string res \<times> hours_page" where
  "getTime p =
     (case time_of ''cWork'' ''workDayEnd'' ''workDayStart'' ChooseWorkEnd p of
        (Inl e, p') \<Rightarrow> (Inl e, p')
      | (Inr None, p') \<Rightarrow> (Inr ''error'', p')
      | (Inr (Some w), p') \<Rightarrow>
          (case time_of ''cWeekend'' ''weekendDayEnd'' ''weekendDayStart'' ChooseWeekendEnd p' of
             (Inl e, p'') \<Rightarrow> (Inl e, p'')
           | (Inr None, p'') \<Rightarrow> (Inr ''error'', p'')
           | (Inr (Some v), p'') \<Rightarrow> (Inr (''workDay:'' @ w @ '';weekendDay:'' @ v), p'')))"

subsection \<open>The server\<close>

record time_filter =
  tf_days :: string
  tf_start :: int
  tf_end :: int

definition java_parseInt :: "string \<Rightarrow> int option" where
  "java_parseInt s =
     (let (sign, ds) = (case s of c # r \<Rightarrow> if c = CHR ''-'' then (-1, r) else if c = CHR ''+'' then (1, r) else (1, s)
                        | [] \<Rightarrow> (1, s));
          n = sign * int (nat_of_dec ds)
      in if ds \<noteq> [] \<and> list_all is_digit ds \<and> - (2 ^ 31) \<le> n \<and> n < 2 ^ 31 then Some n else None)"

definition java_at :: "string list \<Rightarrow> nat \<Rightarrow> string option" where
  "java_at xs i = (if i < length xs then Some (xs ! i) else None)"

definition assembleAdTimeFilterFromStr :: "string \<Rightarrow> time_filter option option" where
  "assembleAdTimeFilterFromStr str =
     (let str1 = java_split CHR ''%'' str in
      Option.bind (java_at str1 0) (\<lambda>a.
      let str2 = java_split CHR '':'' a in
      Option.bind (java_at str2 1) (\<lambda>flag.
      if flag \<noteq> ''true'' then Some None
      else
        Option.bind (java_at str2 0) (\<lambda>kind.
        Option.bind (java_at str1 1) (\<lambda>hours.
        let str3 = java_split CHR ''#'' hours in
        Option.bind (java_at str3 0) (\<lambda>s0.
        Option.bind (java_at (java_split CHR '':'' s0) 1) (\<lambda>s1.
        Option.bind (java_parseInt s1) (\<lambda>start.
        Option.bind (java_at str3 1) (\<lambda>e0.
        Option.bind (java_at (java_split CHR '':'' e0) 1) (\<lambda>e1.
        Option.bind (java_parseInt e1) (\<lambda>till.
          Some (Some \<lparr>tf_days = (if kind = ''workDay'' then ''2,3,4,5,6'' else ''1,7''),
                      tf_start = start, tf_end = till\<rparr>))))))))))))"

fun assemble_all :: "string list \<Rightarrow> time_filter list option" where
  "assemble_all [] = Some []"
| "assemble_all (d # ds) =
     Option.bind (assembleAdTimeFilterFromStr d) (\<lambda>t.
     Option.bind (assemble_all ds) (\<lambda>ts. Some ((case t of None \<Rightarrow> [] | Some f \<Rightarrow> [f]) @ ts)))"

definition addPlanTime :: "string \<Rightarrow> time_filter list option" where
  "addPlanTime putHours = (if java_blank putHours then Some [] else assemble_all (java_split CHR '';'' putHours))"

text \<open>The text for the edit form, \<open>putHours\<close> of \<open>getOneAdplanInfo\<close>; the page prints nothing for \<open>null\<close>.\<close>

definition row_text :: "time_filter \<Rightarrow> string" where
  "row_text f = (if CHR ''1'' \<in> set (tf_days f) then ''weekendDay'' else ''workDay'') @ '':true%start:'' @
     int_text (tf_start f) @ ''#end:'' @ int_text (tf_end f) @ '';''"

definition hours_text :: "time_filter list \<Rightarrow> string" where
  "hours_text fs = butlast (concat (map row_text fs))"

text \<open>
  The plan as the ad server loads it, with the part of \<open>AdvPlan\<close> the filter of hours reads; \<open>None\<close> is \<open>null\<close>. A new
  plan object has no hours and no filter; \<open>setAdTimeFilters\<close> turns the filter on if there are rows.
\<close>

record adv_plan =
  av_filters :: "time_filter list option"
  av_isPutTimeFilter :: bool

definition new_adv_plan :: adv_plan where
  "new_adv_plan = \<lparr>av_filters = None, av_isPutTimeFilter = False\<rparr>"

definition setAdTimeFilters :: "time_filter list option \<Rightarrow> adv_plan \<Rightarrow> adv_plan" where
  "setAdTimeFilters fs plan =
     (let plan' = plan\<lparr>av_filters := fs\<rparr> in
      case fs of Some (f # r) \<Rightarrow> plan'\<lparr>av_isPutTimeFilter := True\<rparr> | _ \<Rightarrow> plan')"

text \<open>
  \<open>putAdTimeFilter\<close> and its loop; days are 1 (Sunday) to 7. \<open>None\<close> is the exception a plan with the filter turned on
  and no list would cause.
\<close>

definition in_put_times :: "time_filter list \<Rightarrow> nat \<Rightarrow> int \<Rightarrow> bool" where
  "in_put_times fs dayOfWeek hourOfDay =
     list_ex (\<lambda>f. digit_char dayOfWeek \<in> set (tf_days f) \<and> tf_start f \<le> hourOfDay \<and> hourOfDay \<le> tf_end f) fs"

definition putAdTimeFilter :: "adv_plan \<Rightarrow> nat \<Rightarrow> int \<Rightarrow> bool option" where
  "putAdTimeFilter plan dayOfWeek hourOfDay =
     (if av_isPutTimeFilter plan then map_option (\<lambda>fs. in_put_times fs dayOfWeek hourOfDay) (av_filters plan)
      else Some True)"

subsection \<open>The edit form\<close>

definition check_box :: "string \<Rightarrow> hours_page cmd" where
  "check_box i p = (case hp_checked p i of None \<Rightarrow> (Some TypeError, p)
     | Some _ \<Rightarrow> (None, p\<lparr>hp_checked := (hp_checked p)(i \<mapsto> True)\<rparr>))"

definition set_selected :: "string \<Rightarrow> int option \<Rightarrow> hours_page cmd" where
  "set_selected i n p = (case hp_index p i of None \<Rightarrow> (Some TypeError, p)
     | Some _ \<Rightarrow> (None, select_index i (case n of None \<Rightarrow> 0 | Some k \<Rightarrow> k) p))"

text \<open>\<open>parseInt(t.split(":")[1])\<close>\<close>

definition hour_of :: "string \<Rightarrow> int option" where
  "hour_of t = (case js_get (split_on CHR '':'' t) 1 of None \<Rightarrow> None | Some h \<Rightarrow> parse_int h)"

text \<open>What both branches do: the box, then the hours of \<open>subArr[1]\<close>.\<close>

definition render_row :: "string \<Rightarrow> string \<Rightarrow> string \<Rightarrow> string option \<Rightarrow> hours_page cmd" where
  "render_row box startId endId subStr2 =
     andthen (check_box box)
       (case subStr2 of
          None \<Rightarrow> throw TypeError
        | Some t \<Rightarrow>
            (case split_on CHR ''#'' t of
               s # e # _ \<Rightarrow>
                 andthen (\<lambda>p. (None, show_number endId (hour_of e) (show_number startId (hour_of s) p)))
                   (andthen (set_selected startId (hour_of s)) (set_selected endId (hour_of e)))
             | _ \<Rightarrow> throw TypeError))"

definition render_part :: "string \<Rightarrow> hours_page cmd" where
  "render_part subStr =
     (let subArr = split_on CHR ''%'' subStr; subArr1 = split_on CHR '':'' (hd subArr) in
      if js_get subArr1 1 = Some ''true'' then
        if hd subArr1 = ''workDay'' then render_row ''cWork'' ''workDayStart'' ''workDayEnd'' (js_get subArr 1)
        else render_row ''cWeekend'' ''weekendDayStart'' ''weekendDayEnd'' (js_get subArr 1)
      else skip)"

definition renderHours :: "string \<Rightarrow> hours_page cmd" where
  "renderHours str =
     (if str = [] then skip
      else (case split_on CHR '';'' str of
              a # b # _ \<Rightarrow> andthen (render_part a) (render_part b)
            | [a] \<Rightarrow> render_part a
            | [] \<Rightarrow> skip))"

subsection \<open>Reading the texts back\<close>

definition hour_ok :: "int \<Rightarrow> bool" where
  "hour_ok h \<longleftrightarrow> 0 \<le> h \<and> h < 24"

text \<open>The hours written for a kind of day.\<close>

definition hours_part :: "int \<Rightarrow> int \<Rightarrow> string" where
  "hours_part s e = ''true%start:'' @ int_text s @ ''#end:'' @ int_text e"

lemma int_text_nat: "0 \<le> i \<Longrightarrow> int_text i = dec_of_nat (nat i)"
  by (simp add: int_text_def)

lemma option_value_ok: "hour_ok h \<Longrightarrow> option_value h = int_text h"
  by (simp add: option_value_def hour_ok_def)

lemma parse_int_text: "0 \<le> i \<Longrightarrow> parse_int (int_text i) = Some i"
  by (simp add: int_text_nat)

lemma java_parse_text: "hour_ok h \<Longrightarrow> java_parseInt (int_text h) = Some h"
proof -
  assume h: "hour_ok h"
  obtain c cs where d: "dec_of_nat (nat h) = c # cs" by (cases "dec_of_nat (nat h)") auto
  have dig: "list_all is_digit (c # cs)"
    using dec_is_digit unfolding list_all_iff d [symmetric] by blast
  have val: "nat_of_dec (c # cs) = nat h" using nat_of_dec_of_nat [of "nat h"] d by simp
  show ?thesis
    using h dig val digit_not_sign [of c] by (auto simp: int_text_nat hour_ok_def d java_parseInt_def)
qed

lemma int_text_plain: "0 \<le> i \<Longrightarrow> \<not> is_digit c \<Longrightarrow> c \<notin> set (int_text i)"
  by (simp add: int_text_nat dec_no_letter)

lemma int_text_ne [simp]: "int_text i \<noteq> []"
  by (simp add: int_text_def)

lemma separators: "\<not> is_digit CHR '':''" "\<not> is_digit CHR '';''" "\<not> is_digit CHR ''%''" "\<not> is_digit CHR ''#''"
  by (simp_all add: is_digit_def)

lemma split_two: "c \<notin> set x \<Longrightarrow> c \<notin> set y \<Longrightarrow> split_on c (x @ c # y) = [x, y]"
  by (simp add: split_on_append split_on_plain)

lemma part_splits:
  assumes "0 \<le> s" "0 \<le> e" and day: "CHR ''%'' \<notin> set day" "CHR '':'' \<notin> set day"
  shows "day @ '':'' @ hours_part s e = (day @ '':true'') @ CHR ''%'' # (''start:'' @ int_text s @ ''#end:'' @ int_text e)"
    and "CHR ''%'' \<notin> set (day @ '':true'')" "CHR ''%'' \<notin> set (''start:'' @ int_text s @ ''#end:'' @ int_text e)"
    and "CHR '':'' \<notin> set (''start'')" "CHR '':'' \<notin> set (int_text s)" "CHR '':'' \<notin> set (''end'')" "CHR '':'' \<notin> set (int_text e)"
    and "CHR ''#'' \<notin> set (''start:'' @ int_text s)" "CHR ''#'' \<notin> set (''end:'' @ int_text e)"
  using assms separators int_text_plain by (simp_all add: hours_part_def)

lemma assemble_part:
  assumes "hour_ok s" "hour_ok e" "CHR ''%'' \<notin> set day" "CHR '':'' \<notin> set day"
  shows "assembleAdTimeFilterFromStr (day @ '':'' @ hours_part s e) =
     Some (Some \<lparr>tf_days = (if day = ''workDay'' then ''2,3,4,5,6'' else ''1,7''), tf_start = s, tf_end = e\<rparr>)"
proof -
  have ge: "0 \<le> s" "0 \<le> e" using assms(1,2) by (simp_all add: hour_ok_def)
  note p = part_splits [OF ge assms(3,4)]
  have 1: "java_split CHR ''%'' (day @ '':'' @ hours_part s e) =
      [day @ '':true'', ''start:'' @ int_text s @ ''#end:'' @ int_text e]"
    unfolding p(1) by (rule java_split_two [OF p(2,3)]) simp
  have 2: "java_split CHR '':'' (day @ '':true'') = [day, ''true'']"
    using java_split_two [of "CHR '':''" day "''true''"] assms(4) by simp
  have 3: "java_split CHR ''#'' (''start:'' @ int_text s @ ''#end:'' @ int_text e) = [''start:'' @ int_text s, ''end:'' @ int_text e]"
    using java_split_two [OF p(8,9)] by simp
  have 4: "java_split CHR '':'' (''start:'' @ int_text s) = [''start'', int_text s]"
    using java_split_two [OF p(4,5)] by simp
  have 5: "java_split CHR '':'' (''end:'' @ int_text e) = [''end'', int_text e]"
    using java_split_two [OF p(6,7)] by simp
  show ?thesis
    by (simp only: assembleAdTimeFilterFromStr_def Let_def 1)
      (simp add: java_at_def 2 3 [simplified] 4 [simplified] 5 [simplified] java_parse_text assms(1,2))
qed

lemma assemble_false:
  assumes "CHR ''%'' \<notin> set day" "CHR '':'' \<notin> set day"
  shows "assembleAdTimeFilterFromStr (day @ '':false'') = Some None"
proof -
  have "java_split CHR '':'' (day @ '':false'') = [day, ''false'']"
    using java_split_two [of "CHR '':''" day "''false''"] assms(2) by simp
  moreover have "java_split CHR ''%'' (day @ '':false'') = [day @ '':false'']"
    using assms(1) by (simp add: java_split_def)
  ultimately show ?thesis by (simp add: assembleAdTimeFilterFromStr_def java_at_def)
qed

subsection \<open>The form's text\<close>

text \<open>A page with all boxes and selects, and the hours chosen on it for both kinds of days.\<close>

definition has_hour :: "hours_page \<Rightarrow> string \<Rightarrow> bool" where
  "has_hour p i = (case hp_index p i of None \<Rightarrow> False | Some h \<Rightarrow> hour_ok h)"

definition hours_form :: "hours_page \<Rightarrow> bool" where
  "hours_form p \<longleftrightarrow> hp_checked p ''cWork'' \<noteq> None \<and> hp_checked p ''cWeekend'' \<noteq> None \<and>
     list_all (has_hour p) [''workDayStart'', ''workDayEnd'', ''weekendDayStart'', ''weekendDayEnd'']"

definition day_hours :: "string \<Rightarrow> string \<Rightarrow> string \<Rightarrow> hours_page \<Rightarrow> (int \<times> int) option" where
  "day_hours box startId endId p =
     (case (hp_checked p box, hp_index p startId, hp_index p endId) of
        (Some True, Some s, Some e) \<Rightarrow> Some (s, e) | _ \<Rightarrow> None)"

definition chosen_hours :: "hours_page \<Rightarrow> (int \<times> int) option \<times> (int \<times> int) option" where
  "chosen_hours p = (day_hours ''cWork'' ''workDayStart'' ''workDayEnd'' p,
     day_hours ''cWeekend'' ''weekendDayStart'' ''weekendDayEnd'' p)"

definition day_part :: "(int \<times> int) option \<Rightarrow> string" where
  "day_part h = (case h of None \<Rightarrow> ''false'' | Some (s, e) \<Rightarrow> hours_part s e)"

definition hours_in_order :: "(int \<times> int) option \<Rightarrow> bool" where
  "hours_in_order h = (case h of None \<Rightarrow> True | Some (s, e) \<Rightarrow> 0 \<le> s \<and> s \<le> e \<and> 0 < e \<and> e < 24)"

lemma timeValidater_fixes:
  assumes "hp_index p i = Some e" "hp_index p (take (length i - 3) i @ ''Start'') = Some s" "hour_ok s" "hour_ok e"
  shows "\<exists>p'. timeValidater i p = (None, p') \<and> hp_checked p' = hp_checked p \<and>
     hp_index p' = (hp_index p)(i \<mapsto> max s e)"
proof -
  have "parse_int (option_value h) = Some h" if "hour_ok h" for h
    using that by (simp add: option_value_ok parse_int_text hour_ok_def)
  then have "num_less (parse_int (option_value e)) (parse_int (option_value s)) \<longleftrightarrow> e < s"
    using assms(3,4) by (simp add: num_less_def)
  then show ?thesis
    using assms by (auto simp: timeValidater_def Let_def show_number_def select_index_def hour_ok_def max_def fun_upd_idem)
qed

lemma time_of_result:
  assumes "hp_checked p box = Some b" "hp_index p endId = Some e" "hp_index p startId = Some s"
    and "hour_ok s" "hour_ok e" "startId = take (length endId - 3) endId @ ''Start''" "startId \<noteq> endId"
    and "time_of box endId startId a p = (r, p')"
  shows "if b \<and> e = 0 then r = Inr None
     else hp_checked p' = hp_checked p \<and> (\<forall>i. i \<noteq> endId \<longrightarrow> hp_index p' i = hp_index p i) \<and>
       has_hour p' endId \<and> hours_in_order (day_hours box startId endId p') \<and>
       r = Inr (Some (day_part (day_hours box startId endId p')))"
proof (cases b)
  case False
  then show ?thesis
    using assms by (auto simp: time_of_def day_hours_def day_part_def hours_in_order_def has_hour_def)
next
  case True
  have v: "parse_int (option_value e) = Some e"
    using assms(5) by (simp add: option_value_ok parse_int_text hour_ok_def)
  obtain q where q: "timeValidater endId p = (None, q)" "hp_checked q = hp_checked p"
      "hp_index q = (hp_index p)(endId \<mapsto> max s e)"
    using timeValidater_fixes [of p endId e s] assms by auto
  have "hour_ok (max s e)" using assms(4,5) by (simp add: max_def)
  then show ?thesis
    using True v q assms
    by (auto simp: time_of_def day_hours_def day_part_def hours_in_order_def has_hour_def option_value_ok hours_part_def
        hour_ok_def)
qed

lemma getTime_result:
  assumes "hours_form p" "getTime p = (Inr txt, p')" "txt \<noteq> ''error''"
  shows "txt = ''workDay:'' @ day_part (fst (chosen_hours p')) @ '';weekendDay:'' @ day_part (snd (chosen_hours p')) \<and>
     hours_in_order (fst (chosen_hours p')) \<and> hours_in_order (snd (chosen_hours p')) \<and> hp_checked p' = hp_checked p"
proof -
  let ?w = "time_of ''cWork'' ''workDayEnd'' ''workDayStart'' ChooseWorkEnd"
  let ?v = "time_of ''cWeekend'' ''weekendDayEnd'' ''weekendDayStart'' ChooseWeekendEnd"
  obtain bw bv sw ew sv ev where f: "hp_checked p ''cWork'' = Some bw" "hp_checked p ''cWeekend'' = Some bv"
      "hp_index p ''workDayStart'' = Some sw" "hp_index p ''workDayEnd'' = Some ew"
      "hp_index p ''weekendDayStart'' = Some sv" "hp_index p ''weekendDayEnd'' = Some ev"
      "hour_ok sw" "hour_ok ew" "hour_ok sv" "hour_ok ev"
    using assms(1) by (auto simp: hours_form_def has_hour_def split: option.splits)
  obtain r q where w: "?w p = (r, q)" by fastforce
  obtain r' q' where v: "?v q = (r', q')" by fastforce
  note W = time_of_result [OF f(1,4,3,7,8) _ _ w, simplified]
  have "\<not> (bw \<and> ew = 0)"
    using W assms(2,3) w by (auto simp: getTime_def)
  then have q: "hp_checked q = hp_checked p" "\<forall>i. i \<noteq> ''workDayEnd'' \<longrightarrow> hp_index q i = hp_index p i"
      "hours_in_order (day_hours ''cWork'' ''workDayStart'' ''workDayEnd'' q)"
      "r = Inr (Some (day_part (day_hours ''cWork'' ''workDayStart'' ''workDayEnd'' q)))"
    using W by (simp_all split: if_splits)
  have "hp_checked q ''cWeekend'' = Some bv" "hp_index q ''weekendDayEnd'' = Some ev" "hp_index q ''weekendDayStart'' = Some sv"
    using q f by simp_all
  note V = time_of_result [OF this f(9,10) _ _ v, simplified]
  have "\<not> (bv \<and> ev = 0)"
    using V assms(2,3) w v q(4) by (auto simp: getTime_def)
  then have q': "hp_checked q' = hp_checked q" "\<forall>i. i \<noteq> ''weekendDayEnd'' \<longrightarrow> hp_index q' i = hp_index q i"
      "hours_in_order (day_hours ''cWeekend'' ''weekendDayStart'' ''weekendDayEnd'' q')"
      "r' = Inr (Some (day_part (day_hours ''cWeekend'' ''weekendDayStart'' ''weekendDayEnd'' q')))"
    using V by (simp_all split: if_splits)
  have keep: "day_hours ''cWork'' ''workDayStart'' ''workDayEnd'' q' = day_hours ''cWork'' ''workDayStart'' ''workDayEnd'' q"
    using q'(1,2) by (simp add: day_hours_def)
  show ?thesis
    using assms(2) w v q q' keep by (auto simp: getTime_def chosen_hours_def)
qed

lemma time_of_ok:
  assumes "hp_checked p box = Some b" "has_hour p endId" "has_hour p startId"
    and "startId = take (length endId - 3) endId @ ''Start''" "startId \<noteq> endId"
  shows "\<exists>o' p'. time_of box endId startId a p = (Inr o', p') \<and>
    (o' \<noteq> None \<longrightarrow> hp_checked p' = hp_checked p \<and> (\<forall>i. i \<noteq> endId \<longrightarrow> hp_index p' i = hp_index p i))"
proof -
  obtain e s where f: "hp_index p endId = Some e" "hp_index p startId = Some s" "hour_ok e" "hour_ok s"
    using assms(2,3) by (auto simp: has_hour_def split: option.splits)
  obtain r q where r: "time_of box endId startId a p = (r, q)" by fastforce
  show ?thesis
    using time_of_result [OF assms(1) f(1,2,4,3) assms(4,5) r] r by (auto split: if_splits)
qed

lemma getTime_total:
  assumes "hours_form p" shows "\<exists>h p'. getTime p = (Inr h, p')"
proof -
  obtain bw bv where f: "hp_checked p ''cWork'' = Some bw" "hp_checked p ''cWeekend'' = Some bv"
      "has_hour p ''workDayStart''" "has_hour p ''workDayEnd''" "has_hour p ''weekendDayStart''" "has_hour p ''weekendDayEnd''"
    using assms by (auto simp: hours_form_def)
  obtain w q where w: "time_of ''cWork'' ''workDayEnd'' ''workDayStart'' ChooseWorkEnd p = (Inr w, q)"
      "w \<noteq> None \<longrightarrow> hp_checked q = hp_checked p \<and> (\<forall>i. i \<noteq> ''workDayEnd'' \<longrightarrow> hp_index q i = hp_index p i)"
    using time_of_ok [OF f(1,4,3), of ChooseWorkEnd, simplified] by blast
  show ?thesis
  proof (cases w)
    case None
    then show ?thesis using w by (simp add: getTime_def)
  next
    case (Some t)
    have "hp_checked q ''cWeekend'' = Some bv" "has_hour q ''weekendDayEnd''" "has_hour q ''weekendDayStart''"
      using w(2) f Some by (simp_all add: has_hour_def)
    note V = time_of_ok [OF this, of ChooseWeekendEnd, simplified]
    then obtain v q' where
      "time_of ''cWeekend'' ''weekendDayEnd'' ''weekendDayStart'' ChooseWeekendEnd q = (Inr v, q')" by blast
    then show ?thesis using w(1) Some by (cases v) (simp_all add: getTime_def)
  qed
qed

subsection \<open>The rows\<close>

definition rows_of :: "string \<Rightarrow> (int \<times> int) option \<Rightarrow> time_filter list" where
  "rows_of days h = (case h of None \<Rightarrow> [] | Some (s, e) \<Rightarrow> [\<lparr>tf_days = days, tf_start = s, tf_end = e\<rparr>])"

lemma assemble_day:
  assumes "hours_in_order h" "day = ''workDay'' \<and> days = ''2,3,4,5,6'' \<or> day = ''weekendDay'' \<and> days = ''1,7''"
  shows "\<exists>t. assembleAdTimeFilterFromStr (day @ '':'' @ day_part h) = Some t \<and>
     (case t of None \<Rightarrow> [] | Some f \<Rightarrow> [f]) = rows_of days h"
proof (cases h)
  case None
  then show ?thesis
    using assms(2) assemble_false [of day] by (auto simp: day_part_def rows_of_def)
next
  case (Some se)
  obtain s e where h: "h = Some (s, e)" using Some by (cases se) auto
  have "hour_ok s" "hour_ok e" using assms(1) h by (auto simp: hours_in_order_def hour_ok_def)
  then show ?thesis
    using assms(2) h assemble_part [of s e day] by (auto simp: day_part_def rows_of_def)
qed

lemma day_part_plain: "hours_in_order h \<Longrightarrow> CHR '';'' \<notin> set (day_part h)"
  using separators int_text_plain
  by (auto simp: day_part_def hours_part_def hours_in_order_def split: option.splits)

lemma day_part_ne [simp]: "day_part h \<noteq> []"
  by (auto simp: day_part_def hours_part_def split: option.splits)

lemma addPlanTime_rows:
  assumes "hours_in_order h" "hours_in_order k"
  shows "addPlanTime (''workDay:'' @ day_part h @ '';weekendDay:'' @ day_part k) =
     Some (rows_of ''2,3,4,5,6'' h @ rows_of ''1,7'' k)"
proof -
  let ?t = "''workDay:'' @ day_part h @ '';weekendDay:'' @ day_part k"
  have "java_split CHR '';'' ?t = [''workDay'' @ '':'' @ day_part h, ''weekendDay'' @ '':'' @ day_part k]"
    using java_split_two [of "CHR '';''" "''workDay:'' @ day_part h" "''weekendDay:'' @ day_part k"] day_part_plain assms
    by simp
  moreover have "\<not> java_blank ?t" by (simp add: java_blank_def)
  ultimately show ?thesis
    using assemble_day [OF assms(1), of "''workDay''" "''2,3,4,5,6''"] assemble_day [OF assms(2), of "''weekendDay''" "''1,7''"]
    by (auto simp: addPlanTime_def)
qed

subsection \<open>The edit form reads them\<close>

lemma hour_of_text: "CHR '':'' \<notin> set pre \<Longrightarrow> 0 \<le> h \<Longrightarrow> hour_of (pre @ '':'' @ int_text h) = Some h"
  using split_two [of "CHR '':''" pre "int_text h"] int_text_plain [of h "CHR '':''"] separators
  by (simp add: hour_of_def js_get_def parse_int_text)

lemma render_row_sets:
  assumes "hp_checked q box \<noteq> None" "has_hour q startId" "has_hour q endId" "startId \<noteq> endId" "hour_ok s" "hour_ok e"
  shows "\<exists>q'. render_row box startId endId (Some (''start:'' @ int_text s @ ''#end:'' @ int_text e)) q = (None, q') \<and>
     hp_checked q' = (hp_checked q)(box \<mapsto> True) \<and> hp_index q' = (hp_index q)(startId \<mapsto> s, endId \<mapsto> e)"
proof -
  have "split_on CHR ''#'' (''start:'' @ int_text s @ ''#end:'' @ int_text e) = [''start:'' @ int_text s, ''end:'' @ int_text e]"
    using split_two [of "CHR ''#''" "''start:'' @ int_text s" "''end:'' @ int_text e"] assms(5,6) int_text_plain separators
    by (simp add: hour_ok_def)
  moreover have "hour_of (''start:'' @ int_text s) = Some s" "hour_of (''end:'' @ int_text e) = Some e"
    using hour_of_text [of "''start''" s] hour_of_text [of "''end''" e] assms(5,6) by (simp_all add: hour_ok_def)
  ultimately show ?thesis
    using assms
    by (auto simp: render_row_def andthen_def check_box_def set_selected_def select_index_def show_number_def has_hour_def
        hour_ok_def split: option.splits)
qed

lemma render_part_row:
  assumes "hour_ok s" "hour_ok e" "day = ''workDay'' \<or> day = ''weekendDay''"
  shows "render_part (day @ '':'' @ hours_part s e) =
     (if day = ''workDay'' then render_row ''cWork'' ''workDayStart'' ''workDayEnd''
      else render_row ''cWeekend'' ''weekendDayStart'' ''weekendDayEnd'')
        (Some (''start:'' @ int_text s @ ''#end:'' @ int_text e))"
proof -
  have d: "CHR ''%'' \<notin> set day" "CHR '':'' \<notin> set day" using assms(3) by auto
  have ge: "0 \<le> s" "0 \<le> e" using assms(1,2) by (simp_all add: hour_ok_def)
  note p = part_splits [OF ge d]
  have 1: "split_on CHR ''%'' (day @ '':'' @ hours_part s e) =
      [day @ '':true'', ''start:'' @ int_text s @ ''#end:'' @ int_text e]"
    unfolding p(1) by (rule split_two [OF p(2,3)])
  have 2: "split_on CHR '':'' (day @ '':true'') = [day, ''true'']"
    using split_two [of "CHR '':''" day "''true''"] d by simp
  show ?thesis unfolding render_part_def 1 by (simp add: 2 js_get_def)
qed

lemma hours_part_plain: "0 \<le> s \<Longrightarrow> 0 \<le> e \<Longrightarrow> CHR '';'' \<notin> set (hours_part s e)"
  using separators int_text_plain by (simp add: hours_part_def)

text \<open>The hours a page shows after reading the rows, for every order of at most two rows.\<close>

abbreviation hours_row :: "string \<Rightarrow> int \<times> int \<Rightarrow> time_filter" where
  "hours_row days h \<equiv> \<lparr>tf_days = days, tf_start = fst h, tf_end = snd h\<rparr>"

definition row_part :: "time_filter \<Rightarrow> string" where
  "row_part f = (if CHR ''1'' \<in> set (tf_days f) then ''weekendDay'' else ''workDay'') @ '':'' @
     hours_part (tf_start f) (tf_end f)"

lemma row_text_row_part: "row_text f = row_part f @ '';''"
  by (simp add: row_text_def row_part_def hours_part_def)

lemma row_part_plain: "0 \<le> tf_start f \<Longrightarrow> 0 \<le> tf_end f \<Longrightarrow> CHR '';'' \<notin> set (row_part f)"
  using hours_part_plain by (simp add: row_part_def)

lemma render_one:
  assumes "0 \<le> tf_start f" "0 \<le> tf_end f"
  shows "renderHours (hours_text [f]) = render_part (row_part f)"
proof -
  have "hours_text [f] = row_part f" by (simp add: hours_text_def row_text_row_part)
  moreover have "row_part f \<noteq> []" by (simp add: row_part_def)
  ultimately show ?thesis
    using row_part_plain [OF assms] by (simp add: renderHours_def split_on_plain)
qed

lemma render_two:
  assumes "0 \<le> tf_start f" "0 \<le> tf_end f" "0 \<le> tf_start g" "0 \<le> tf_end g"
  shows "renderHours (hours_text [f, g]) = andthen (render_part (row_part f)) (render_part (row_part g))"
proof -
  have "hours_text [f, g] = row_part f @ CHR '';'' # row_part g"
    by (simp add: hours_text_def row_text_row_part butlast_append)
  then show ?thesis
    using split_two [of "CHR '';''" "row_part f" "row_part g"] row_part_plain [of f] row_part_plain [of g] assms
    by (simp add: renderHours_def)
qed

text \<open>What reading one row does to a page.\<close>

definition with_hours :: "string \<Rightarrow> string \<Rightarrow> string \<Rightarrow> int \<times> int \<Rightarrow> hours_page \<Rightarrow> hours_page \<Rightarrow> bool" where
  "with_hours box startId endId h q q' \<longleftrightarrow> hp_checked q' = (hp_checked q)(box \<mapsto> True) \<and>
     hp_index q' = (hp_index q)(startId \<mapsto> fst h, endId \<mapsto> snd h)"

lemma render_work:
  assumes "hours_form q" "hour_ok (fst h)" "hour_ok (snd h)"
  shows "\<exists>q'. render_part (row_part (hours_row ''2,3,4,5,6'' h)) q = (None, q') \<and>
     with_hours ''cWork'' ''workDayStart'' ''workDayEnd'' h q q' \<and> hours_form q'"
  using assms render_part_row [of "fst h" "snd h" "''workDay''"]
    render_row_sets [of q "''cWork''" "''workDayStart''" "''workDayEnd''" "fst h" "snd h"]
  by (auto simp: row_part_def with_hours_def hours_form_def has_hour_def)

lemma render_weekend:
  assumes "hours_form q" "hour_ok (fst h)" "hour_ok (snd h)"
  shows "\<exists>q'. render_part (row_part (hours_row ''1,7'' h)) q = (None, q') \<and>
     with_hours ''cWeekend'' ''weekendDayStart'' ''weekendDayEnd'' h q q' \<and> hours_form q'"
  using assms render_part_row [of "fst h" "snd h" "''weekendDay''"]
    render_row_sets [of q "''cWeekend''" "''weekendDayStart''" "''weekendDayEnd''" "fst h" "snd h"]
  by (auto simp: row_part_def with_hours_def hours_form_def has_hour_def)

definition blank_hours :: "hours_page \<Rightarrow> bool" where
  "blank_hours q \<longleftrightarrow> hours_form q \<and> hp_checked q ''cWork'' = Some False \<and> hp_checked q ''cWeekend'' = Some False"

lemma two_of: "mset xs = mset [a, b] \<Longrightarrow> xs = [a, b] \<or> xs = [b, a]"
proof -
  assume m: "mset xs = mset [a, b]"
  then have "length xs = 2" by (metis length_Cons list.size(3) numeral_2_eq_2 size_mset)
  then obtain x y where "xs = [x, y]" by (auto simp: numeral_2_eq_2 length_Suc_conv)
  with m show ?thesis by (auto simp: add_eq_conv_ex)
qed

lemma work_then_weekend:
  assumes "hours_form q" "\<forall>z \<in> {x, y}. hour_ok (fst z) \<and> hour_ok (snd z)"
  shows "\<exists>q'. andthen (render_part (row_part (hours_row ''2,3,4,5,6'' x))) (render_part (row_part (hours_row ''1,7'' y))) q =
     (None, q') \<and> chosen_hours q' = (Some x, Some y)"
proof -
  obtain p where p: "render_part (row_part (hours_row ''2,3,4,5,6'' x)) q = (None, p)"
      "with_hours ''cWork'' ''workDayStart'' ''workDayEnd'' x q p" "hours_form p"
    using render_work [OF assms(1), of x] assms(2) by auto
  then show ?thesis
    using render_weekend [OF p(3), of y] assms(2) by (auto simp: with_hours_def chosen_hours_def day_hours_def)
qed

lemma weekend_then_work:
  assumes "hours_form q" "\<forall>z \<in> {x, y}. hour_ok (fst z) \<and> hour_ok (snd z)"
  shows "\<exists>q'. andthen (render_part (row_part (hours_row ''1,7'' y))) (render_part (row_part (hours_row ''2,3,4,5,6'' x))) q =
     (None, q') \<and> chosen_hours q' = (Some x, Some y)"
proof -
  obtain p where p: "render_part (row_part (hours_row ''1,7'' y)) q = (None, p)"
      "with_hours ''cWeekend'' ''weekendDayStart'' ''weekendDayEnd'' y q p" "hours_form p"
    using render_weekend [OF assms(1), of y] assms(2) by auto
  then show ?thesis
    using render_work [OF p(3), of x] assms(2) by (auto simp: with_hours_def chosen_hours_def day_hours_def)
qed

lemma render_rows:
  assumes q: "blank_hours q" and o: "hours_in_order h" "hours_in_order k"
    and m: "mset rows = mset (rows_of ''2,3,4,5,6'' h @ rows_of ''1,7'' k)"
  shows "\<exists>q'. renderHours (hours_text rows) q = (None, q') \<and> chosen_hours q' = (h, k)"
proof -
  have f: "hours_form q" and c: "hp_checked q ''cWork'' = Some False" "hp_checked q ''cWeekend'' = Some False"
    using q by (simp_all add: blank_hours_def)
  have ok: "hour_ok (fst x) \<and> hour_ok (snd x)" if "h = Some x \<or> k = Some x" for x
    using that o by (auto simp: hours_in_order_def hour_ok_def)
  consider "h = None" "k = None" | x where "h = Some x" "k = None" | y where "h = None" "k = Some y"
    | x y where "h = Some x" "k = Some y" by (cases h; cases k) auto
  then show ?thesis
  proof cases
    case 1
    then show ?thesis
      using m c by (auto simp: rows_of_def hours_text_def renderHours_def chosen_hours_def day_hours_def)
  next
    case (2 x)
    then have "rows = [hours_row ''2,3,4,5,6'' x]" using m by (auto simp: rows_of_def split: prod.splits)
    then show ?thesis
      using render_work [OF f, of x] ok [of x] 2 c render_one [of "hours_row ''2,3,4,5,6'' x"]
      by (auto simp: with_hours_def chosen_hours_def day_hours_def hour_ok_def)
  next
    case (3 y)
    then have "rows = [hours_row ''1,7'' y]" using m by (auto simp: rows_of_def split: prod.splits)
    then show ?thesis
      using render_weekend [OF f, of y] ok [of y] 3 c render_one [of "hours_row ''1,7'' y"]
      by (auto simp: with_hours_def chosen_hours_def day_hours_def hour_ok_def)
  next
    case (4 x y)
    let ?f = "hours_row ''2,3,4,5,6'' x" and ?g = "hours_row ''1,7'' y"
    have "rows = [?f, ?g] \<or> rows = [?g, ?f]"
      using m two_of [of rows ?f ?g] 4 by (auto simp: rows_of_def split: prod.splits)
    moreover have ok: "\<forall>z \<in> {x, y}. hour_ok (fst z) \<and> hour_ok (snd z)"
      using ok [of x] ok [of y] 4 by simp
    ultimately show ?thesis
      using render_two [of ?f ?g] render_two [of ?g ?f] work_then_weekend [OF f ok] weekend_then_work [OF f ok] 4
      by (auto simp: hour_ok_def)
  qed
qed

subsection \<open>From one form to the other\<close>

text \<open>
  C3: The hours survive the way through the server: for every order in which the data base returns the rows, the
  edit form of the plan ticks the boxes and shows the hours that the form that wrote them showed. The rows are
  in order: a row begins at 0 at the earliest, ends at 23 at the latest and not before it begins, and never
  ends at 0.
\<close>

theorem hours_roundtrip:
  assumes "hours_form p" "getTime p = (Inr txt, p')" "txt \<noteq> ''error''" "blank_hours q"
  shows "\<exists>rows. addPlanTime txt = Some rows \<and>
     list_all (\<lambda>f. 0 \<le> tf_start f \<and> tf_start f \<le> tf_end f \<and> 0 < tf_end f \<and> tf_end f \<le> 23) rows \<and>
     (\<forall>rows'. mset rows' = mset rows \<longrightarrow>
        (\<exists>q'. renderHours (hours_text rows') q = (None, q') \<and> chosen_hours q' = chosen_hours p'))"
proof -
  obtain h k where hk: "chosen_hours p' = (h, k)" by fastforce
  then have t: "txt = ''workDay:'' @ day_part h @ '';weekendDay:'' @ day_part k"
      and o: "hours_in_order h" "hours_in_order k"
    using getTime_result [OF assms(1-3)] by simp_all
  have "addPlanTime txt = Some (rows_of ''2,3,4,5,6'' h @ rows_of ''1,7'' k)"
    unfolding t by (rule addPlanTime_rows [OF o])
  moreover have "list_all (\<lambda>f. 0 \<le> tf_start f \<and> tf_start f \<le> tf_end f \<and> 0 < tf_end f \<and> tf_end f \<le> 23)
      (rows_of ''2,3,4,5,6'' h @ rows_of ''1,7'' k)"
    using o by (auto simp: rows_of_def hours_in_order_def split: option.splits)
  ultimately show ?thesis using render_rows [OF assms(4) o] hk by simp
qed

definition sample_hours :: "bool \<Rightarrow> bool \<Rightarrow> int \<Rightarrow> int \<Rightarrow> hours_page" where
  "sample_hours work weekend s e = \<lparr>
     hp_checked = [''cWork'' \<mapsto> work, ''cWeekend'' \<mapsto> weekend],
     hp_index = [''workDayStart'' \<mapsto> s, ''workDayEnd'' \<mapsto> e, ''weekendDayStart'' \<mapsto> 0, ''weekendDayEnd'' \<mapsto> 23],
     hp_shown = Map.empty, hp_alerts = [], hp_focus = None\<rparr>"

lemma sample_hours_form: "hour_ok s \<Longrightarrow> hour_ok e \<Longrightarrow> hours_form (sample_hours w v s e)"
  by (simp add: hours_form_def has_hour_def sample_hours_def hour_ok_def)

lemma sample_time:
  "getTime (sample_hours True False 9 5) = (Inr ''workDay:true%start:9#end:9;weekendDay:false'',
     (sample_hours True False 9 9)\<lparr>hp_shown := [''workDayEnd'' \<mapsto> ''9''], hp_alerts := [EndBeforeStart]\<rparr>)"
proof -
  have t: "option_value 9 = ''9''" "option_value 5 = ''5''" "int_text 9 = ''9''"
    by (simp_all add: option_value_def int_text_def dec_of_nat.simps digit_chars)
  have n: "parse_int ''9'' = Some 9" "parse_int ''5'' = Some 5"
    using parse_int_dec [of 9] parse_int_dec [of 5] by (simp_all add: dec_of_nat.simps digit_chars)
  show ?thesis
    by (simp add: getTime_def time_of_def timeValidater_def sample_hours_def t n num_less_def show_number_def
        select_index_def fun_eq_iff)
qed

theorem hours_roundtrip_witness:
  "\<exists>rows. addPlanTime ''workDay:true%start:9#end:9;weekendDay:false'' = Some rows \<and> rows = [hours_row ''2,3,4,5,6'' (9, 9)] \<and>
     (\<exists>q'. renderHours (hours_text rows) (sample_hours False False 0 23) = (None, q') \<and>
        chosen_hours q' = (Some (9, 9), None))"
proof -
  let ?p' = "(sample_hours True False 9 9)\<lparr>hp_shown := [''workDayEnd'' \<mapsto> ''9''], hp_alerts := [EndBeforeStart]\<rparr>"
  have form: "hours_form (sample_hours True False 9 5)" "blank_hours (sample_hours False False 0 23)"
    by (simp_all add: sample_hours_form blank_hours_def hour_ok_def) (simp_all add: sample_hours_def)
  have c: "chosen_hours ?p' = (Some (9, 9), None)"
    by (simp add: chosen_hours_def day_hours_def sample_hours_def)
  have r: "addPlanTime ''workDay:true%start:9#end:9;weekendDay:false'' = Some [hours_row ''2,3,4,5,6'' (9, 9)]"
    using addPlanTime_rows [of "Some (9, 9)" None]
    by (simp add: hours_in_order_def day_part_def hours_part_def rows_of_def int_text_def dec_of_nat.simps digit_chars)
  show ?thesis
    using hours_roundtrip [OF form(1) sample_time _ form(2)] c r by auto
qed

lemma put_append: "in_put_times (fs @ gs) day hour \<longleftrightarrow> in_put_times fs day hour \<or> in_put_times gs day hour"
  by (simp add: in_put_times_def)

lemma put_row:
  "in_put_times (rows_of days h) day hour \<longleftrightarrow> digit_char day \<in> set days \<and>
     (case h of None \<Rightarrow> False | Some (s, e) \<Rightarrow> s \<le> hour \<and> hour \<le> e)"
  by (auto simp: in_put_times_def rows_of_def split: option.splits)

lemma put_mset: "mset fs = mset gs \<Longrightarrow> in_put_times fs day hour = in_put_times gs day hour"
  by (drule mset_eq_setD) (simp add: in_put_times_def list_ex_iff)

lemma served:
  "putAdTimeFilter (setAdTimeFilters (Some fs) new_adv_plan) day hour = Some (fs = [] \<or> in_put_times fs day hour)"
  by (simp add: putAdTimeFilter_def setAdTimeFilters_def new_adv_plan_def Let_def split: list.splits)

lemma day_kinds:
  assumes "day \<in> {1 .. 7}"
  shows "digit_char day \<in> set ''2,3,4,5,6'' \<longleftrightarrow> day \<in> {2 .. 6}" "digit_char day \<in> set ''1,7'' \<longleftrightarrow> day \<notin> {2 .. 6}"
proof -
  have "day = Suc 0 \<or> day = 2 \<or> day = 3 \<or> day = 4 \<or> day = 5 \<or> day = 6 \<or> day = 7" using assms by auto
  then show "digit_char day \<in> set ''2,3,4,5,6'' \<longleftrightarrow> day \<in> {2 .. 6}" "digit_char day \<in> set ''1,7'' \<longleftrightarrow> day \<notin> {2 .. 6}"
    by (auto simp add: digit_chars)
qed

text \<open>
  C9: The ad server, which loads the stored rows in any order, shows an ad of which no hours are chosen at any time,
  and any other ad exactly in the hours chosen, the last one included: on the days 2 to 6 (Monday to Friday) by the
  hours of working days, on the days 1 and 7 by those of the weekend, and not at all on the days without hours.
\<close>

theorem hours_served:
  assumes "hours_form p" "getTime p = (Inr txt, p')" "txt \<noteq> ''error''" "day \<in> {1 .. 7}"
  shows "\<exists>rows. addPlanTime txt = Some rows \<and> (\<forall>rows'. mset rows' = mset rows \<longrightarrow>
     putAdTimeFilter (setAdTimeFilters (Some rows') new_adv_plan) day hour = Some (chosen_hours p' = (None, None) \<or>
        (case (if day \<in> {2 .. 6} then fst (chosen_hours p') else snd (chosen_hours p')) of
           None \<Rightarrow> False | Some (s, e) \<Rightarrow> s \<le> hour \<and> hour \<le> e)))"
proof -
  obtain h k where hk: "chosen_hours p' = (h, k)" by fastforce
  let ?rows = "rows_of ''2,3,4,5,6'' h @ rows_of ''1,7'' k"
  have r: "addPlanTime txt = Some ?rows"
    using getTime_result [OF assms(1-3)] hk addPlanTime_rows by simp
  have t: "in_put_times ?rows day hour \<longleftrightarrow>
      (case (if day \<in> {2 .. 6} then h else k) of None \<Rightarrow> False | Some (s, e) \<Rightarrow> s \<le> hour \<and> hour \<le> e)"
    by (cases "day \<in> {2 .. 6}") (simp_all only: put_append put_row day_kinds [OF assms(4)] simp_thms if_True if_False)
  have e: "?rows = [] \<longleftrightarrow> (h, k) = (None, None)"
    unfolding rows_of_def by (cases h; cases k) (simp_all split: prod.splits)
  show ?thesis
  proof (intro exI conjI allI impI)
    show "addPlanTime txt = Some ?rows" by (rule r)
  next
    fix rows' assume m: "mset rows' = mset ?rows"
    have "rows' = [] \<longleftrightarrow> ?rows = []" using mset_eq_length [OF m] by (metis length_0_conv)
    then show "putAdTimeFilter (setAdTimeFilters (Some rows') new_adv_plan) day hour =
        Some (chosen_hours p' = (None, None) \<or>
          (case (if day \<in> {2 .. 6} then fst (chosen_hours p') else snd (chosen_hours p')) of
             None \<Rightarrow> False | Some (s, e) \<Rightarrow> s \<le> hour \<and> hour \<le> e))"
      unfolding served put_mset [OF m] hk fst_conv snd_conv t e by (simp only:)
  qed
qed

theorem hours_served_witness:
  "putAdTimeFilter (setAdTimeFilters (Some [hours_row ''2,3,4,5,6'' (9, 9)]) new_adv_plan) 3 9 = Some True \<and>
     putAdTimeFilter (setAdTimeFilters (Some [hours_row ''2,3,4,5,6'' (9, 9)]) new_adv_plan) 3 10 = Some False"
proof -
  let ?p' = "(sample_hours True False 9 9)\<lparr>hp_shown := [''workDayEnd'' \<mapsto> ''9''], hp_alerts := [EndBeforeStart]\<rparr>"
  let ?row = "hours_row ''2,3,4,5,6'' (9, 9)"
  have form: "hours_form (sample_hours True False 9 5)" by (simp add: sample_hours_form hour_ok_def)
  have c: "chosen_hours ?p' = (Some (9, 9), None)"
    by (simp add: chosen_hours_def day_hours_def sample_hours_def)
  have r: "addPlanTime ''workDay:true%start:9#end:9;weekendDay:false'' = Some [?row]"
    using addPlanTime_rows [of "Some (9, 9)" None]
    by (simp add: hours_in_order_def day_part_def hours_part_def rows_of_def int_text_def dec_of_nat.simps digit_chars)
  have "putAdTimeFilter (setAdTimeFilters (Some [?row]) new_adv_plan) 3 hour = Some (9 \<le> hour \<and> hour \<le> 9)" for hour
  proof -
    obtain rows where "Some [?row] = Some rows" "\<forall>rows'. mset rows' = mset rows \<longrightarrow>
        putAdTimeFilter (setAdTimeFilters (Some rows') new_adv_plan) 3 hour = Some (9 \<le> hour \<and> hour \<le> 9)"
      using hours_served [OF form sample_time, of 3 hour] unfolding r c by force
    then show ?thesis unfolding option.inject by blast
  qed
  then show ?thesis by simp
qed

text \<open>
  With a box ticked and the end 0 chosen for its days, \<open>getTime\<close> answers \<open>"error"\<close>. The edit form does not look at
  the answer and sends it as the hours; the server then throws, because the text has no second field.
\<close>

theorem hours_error:
  assumes "hp_checked p ''cWork'' = Some True" "hp_index p ''workDayEnd'' = Some 0"
  shows "fst (getTime p) = Inr ''error'' \<and> addPlanTime ''error'' = None"
proof -
  have "parse_int (option_value 0) = Some 0"
    using parse_int_dec [of 0] by (simp add: option_value_def int_text_def)
  then have "fst (getTime p) = Inr ''error''"
    using assms by (simp add: getTime_def time_of_def)
  moreover have "addPlanTime ''error'' = None"
    by (simp add: addPlanTime_def java_blank_def java_split_def assembleAdTimeFilterFromStr_def java_at_def)
  ultimately show ?thesis by simp
qed

theorem hours_error_witness: "fst (getTime (sample_hours True False 0 0)) = Inr ''error'' \<and> addPlanTime ''error'' = None"
  by (rule hours_error) (simp_all add: sample_hours_def)

end
