(* ===== verification/CategorySelect.thy ===== *)
theory CategorySelect
  imports JsCommand CodeField
begin

section \<open>Choosing categories\<close>

text \<open>
  The forms of ad plans (\<open>adplanAdd.jsp\<close>, \<open>adplanEdit.jsp\<close>) choose the regions of a plan: a list of parents (the
  provinces), a list of check boxes for the children (the cities) of the parent opened last, which the server
  sends, and a label with a count for every parent of which children are chosen. The chosen codes are kept in
  an array of parents with their children. The script has the functions three times: \<open>region_addMediaCate\<close> and so on
  for the regions, and \<open>addMediaCate\<close>, \<open>adCategory_addMediaCate\<close> and so on for media and ad categories. In both pages
  the elements of the media and ad categories are commented out, so that only the functions for the regions run;
  they are the ones modelled, under their names without the prefix \<open>region_\<close>.
\<close>

subsection \<open>State\<close>

record cat_box =
  bx_code :: string
  bx_parent :: string
  bx_checked :: bool

record cat_entry =
  ce_parent :: string
  ce_children :: "string list"

record cat_span =
  sp_parent :: string
  sp_text :: string

text \<open>
  The options (code and text) of the list of parents, the boxes shown, \<open>mediaParentArr\<close>, and the labels in the
  order of the page. The id of a label is a prefix before the code of its parent.
\<close>

record selector =
  cs_options :: "(string \<times> string) list"
  cs_boxes :: "cat_box list"
  cs_arr :: "cat_entry list"
  cs_spans :: "cat_span list"

subsection \<open>Functions\<close>

text \<open>\<open>return\<close> in a callback of \<open>each\<close> does not end the loop: the last option of the code counts.\<close>

definition getParentNameByCode :: "string \<Rightarrow> selector \<Rightarrow> string" where
  "getParentNameByCode parentCode s = fold (\<lambda>(c, n) name. if c = parentCode then n else name) (cs_options s) []"

fun delSelMediaCateByParentCode :: "string \<Rightarrow> cat_entry list \<Rightarrow> cat_entry list" where
  "delSelMediaCateByParentCode code [] = []"
| "delSelMediaCateByParentCode code (e # es) =
     (if ce_parent e = code then es else e # delSelMediaCateByParentCode code es)"

text \<open>The object found, \<open>None\<close> for \<open>undefined\<close>, and the array without it.\<close>

fun getSelMediaCateByParentCode :: "string \<Rightarrow> cat_entry list \<Rightarrow> cat_entry option \<times> cat_entry list" where
  "getSelMediaCateByParentCode code [] = (None, [])"
| "getSelMediaCateByParentCode code (e # es) =
     (if ce_parent e = code then (Some e, es)
      else (let (r, es') = getSelMediaCateByParentCode code es in (r, e # es')))"

definition count_text :: "string \<Rightarrow> nat \<Rightarrow> nat \<Rightarrow> string" where
  "count_text name n num = name @ ''('' @ dec_of_nat n @ ''/'' @ dec_of_nat num @ '')''"

definition checked_codes :: "selector \<Rightarrow> string list" where
  "checked_codes s = map bx_code (filter bx_checked (cs_boxes s))"

text \<open>\<open>$("#" + prefix + parentCode)\<close> finds the first label with the id.\<close>

fun set_label :: "string \<Rightarrow> string \<Rightarrow> cat_span list \<Rightarrow> cat_span list" where
  "set_label code t [] = []"
| "set_label code t (x # xs) = (if sp_parent x = code then x\<lparr>sp_text := t\<rparr> # xs else x # set_label code t xs)"

fun remove_label :: "string \<Rightarrow> cat_span list \<Rightarrow> cat_span list" where
  "remove_label code [] = []"
| "remove_label code (x # xs) = (if sp_parent x = code then xs else x # remove_label code xs)"

definition uncheck_all :: "cat_box list \<Rightarrow> cat_box list" where
  "uncheck_all bs = map (\<lambda>b. b\<lparr>bx_checked := False\<rparr>) bs"

definition delMediaSpanByParentCode :: "string \<Rightarrow> selector \<Rightarrow> selector" where
  "delMediaSpanByParentCode parentCode s =
     s\<lparr>cs_arr := delSelMediaCateByParentCode parentCode (cs_arr s),
       cs_spans := remove_label parentCode (cs_spans s),
       cs_boxes := uncheck_all (cs_boxes s)\<rparr>"

definition addMediaCate :: "string \<Rightarrow> string \<Rightarrow> selector \<Rightarrow> selector" where
  "addMediaCate code parentCode s =
     (let parentName = getParentNameByCode parentCode s; n = length (cs_boxes s) in
      if parentCode \<notin> sp_parent ` set (cs_spans s) then
        s\<lparr>cs_spans := cs_spans s @ [\<lparr>sp_parent = parentCode, sp_text = count_text parentName 1 n\<rparr>],
          cs_arr := cs_arr s @ [\<lparr>ce_parent = parentCode, ce_children = [code]\<rparr>]\<rparr>
      else
        s\<lparr>cs_spans := set_label parentCode (count_text parentName (length (checked_codes s)) n) (cs_spans s),
          cs_arr := delSelMediaCateByParentCode parentCode (cs_arr s) @
            [\<lparr>ce_parent = parentCode, ce_children = checked_codes s\<rparr>]\<rparr>)"

text \<open>The loop that removes a code steps over the element that moves into its place.\<close>

fun splice_code :: "string \<Rightarrow> string list \<Rightarrow> string list" where
  "splice_code code [] = []"
| "splice_code code (c # cs) =
     (if c = code then (case cs of [] \<Rightarrow> [] | d # ds \<Rightarrow> d # splice_code code ds) else c # splice_code code cs)"

definition removeMediaCate :: "string \<Rightarrow> string \<Rightarrow> selector cmd" where
  "removeMediaCate code parentCode s =
     (case getSelMediaCateByParentCode parentCode (cs_arr s) of
        (None, arr) \<Rightarrow> (Some TypeError, s)
      | (Some e, arr) \<Rightarrow>
          (let cs = splice_code code (ce_children e) in
           if cs \<noteq> [] then
             (None, s\<lparr>cs_arr := arr @ [\<lparr>ce_parent = parentCode, ce_children = cs\<rparr>],
                cs_spans := set_label parentCode
                  (count_text (getParentNameByCode parentCode s) (length (checked_codes s)) (length (cs_boxes s)))
                  (cs_spans s)\<rparr>)
           else (None, delMediaSpanByParentCode parentCode (s\<lparr>cs_arr := arr\<rparr>))))"

definition initMediaCateSel :: "string \<Rightarrow> selector \<Rightarrow> selector" where
  "initMediaCateSel parentCode s =
     (case find (\<lambda>e. ce_parent e = parentCode) (cs_arr s) of
        None \<Rightarrow> s
      | Some e \<Rightarrow>
          s\<lparr>cs_boxes := map (\<lambda>b. if bx_code b \<in> set (ce_children e) then b\<lparr>bx_checked := True\<rparr> else b) (cs_boxes s)\<rparr>)"

definition getMediaCategoryCodes :: "selector \<Rightarrow> string" where
  "getMediaCategoryCodes s = join_on CHR '','' (map (\<lambda>e. join_on CHR '','' (ce_children e)) (cs_arr s))"

subsection \<open>Handlers\<close>

text \<open>
  The answer of \<open>queryMediaAjax(parentCode)\<close>, which a double click on a parent or a click on a label sends;
  \<open>sub\<close> gives the codes of the children of a category, as the server lists them.
\<close>

definition boxes_of :: "(string \<Rightarrow> string list) \<Rightarrow> string \<Rightarrow> cat_box list" where
  "boxes_of sub parentCode = map (\<lambda>c. \<lparr>bx_code = c, bx_parent = parentCode, bx_checked = False\<rparr>) (sub parentCode)"

definition queryAnswered :: "(string \<Rightarrow> string list) \<Rightarrow> string \<Rightarrow> selector \<Rightarrow> selector" where
  "queryAnswered sub parentCode s = initMediaCateSel parentCode (s\<lparr>cs_boxes := boxes_of sub parentCode\<rparr>)"

text \<open>A click on box \<open>i\<close>: the browser changes it, then the handler runs.\<close>

definition click_box :: "nat \<Rightarrow> selector cmd" where
  "click_box i s =
     (let b = cs_boxes s ! i; c = \<not> bx_checked b; s' = s\<lparr>cs_boxes := (cs_boxes s)[i := b\<lparr>bx_checked := c\<rparr>]\<rparr> in
      if c then (None, addMediaCate (bx_code b) (bx_parent b) s') else removeMediaCate (bx_code b) (bx_parent b) s')"

definition sel_one :: "nat \<Rightarrow> selector \<Rightarrow> selector" where
  "sel_one i s = (let b = cs_boxes s ! i in
     addMediaCate (bx_code b) (bx_parent b) (s\<lparr>cs_boxes := (cs_boxes s)[i := b\<lparr>bx_checked := True\<rparr>]\<rparr>))"

definition selAll :: "selector \<Rightarrow> selector" where
  "selAll s = fold sel_one [0 ..< length (cs_boxes s)] s"

definition cancelSelAll :: "selector \<Rightarrow> selector" where
  "cancelSelAll s =
     (let parentCode = (if cs_boxes s = [] then [] else bx_parent (last (cs_boxes s)));
          s' = s\<lparr>cs_boxes := uncheck_all (cs_boxes s)\<rparr>
      in if parentCode \<noteq> [] then delMediaSpanByParentCode parentCode s' else s')"

text \<open>
  \<open>initMediaSelected\<close> of the edit form: the children chosen before are in hidden inputs, with their parents; \<open>num\<close> is
  the server's count of the children of a category. The form writes a parent's code unquoted into the handlers of
  its label, which therefore find it if it is a decimal numeral without leading zeros.
\<close>

definition add_selected :: "string \<times> string \<Rightarrow> cat_entry list \<Rightarrow> cat_entry list" where
  "add_selected = (\<lambda>(parentCode, childCode) arr.
     case getSelMediaCateByParentCode parentCode arr of
       (None, arr') \<Rightarrow> arr' @ [\<lparr>ce_parent = parentCode, ce_children = [childCode]\<rparr>]
     | (Some e, arr') \<Rightarrow> arr' @ [\<lparr>ce_parent = parentCode, ce_children = ce_children e @ [childCode]\<rparr>])"

definition initMediaSelected :: "(string \<Rightarrow> nat) \<Rightarrow> (string \<times> string) list \<Rightarrow> selector \<Rightarrow> selector" where
  "initMediaSelected num inputs s =
     (let arr = fold add_selected inputs (cs_arr s) in
      s\<lparr>cs_arr := arr,
        cs_spans := cs_spans s @ map (\<lambda>e. \<lparr>sp_parent = ce_parent e,
          sp_text = count_text (getParentNameByCode (ce_parent e) s) (length (ce_children e)) (num (ce_parent e))\<rparr>) arr\<rparr>)"

text \<open>
  What can happen to a selector. An answer may come at any time and for any category, later than other clicks.
\<close>

inductive sel_step :: "(string \<Rightarrow> string list) \<Rightarrow> selector \<Rightarrow> selector \<Rightarrow> bool" for sub where
  answer: "sel_step sub s (queryAnswered sub p s)"
| click: "i < length (cs_boxes s) \<Longrightarrow> click_box i s = (e, s') \<Longrightarrow> sel_step sub s s'"
| all: "sel_step sub s (selAll s)"
| none: "sel_step sub s (cancelSelAll s)"
| drop: "p \<in> sp_parent ` set (cs_spans s) \<Longrightarrow> sel_step sub s (delMediaSpanByParentCode p s)"

definition new_selector :: "(string \<times> string) list \<Rightarrow> selector" where
  "new_selector options = \<lparr>cs_options = options, cs_boxes = [], cs_arr = [], cs_spans = []\<rparr>"

subsection \<open>The array and the labels as maps\<close>

definition children_of :: "selector \<Rightarrow> string \<Rightarrow> string list option" where
  "children_of s p = map_option ce_children (find (\<lambda>e. ce_parent e = p) (cs_arr s))"

lemma getSel_find: "getSelMediaCateByParentCode p es =
    (find (\<lambda>e. ce_parent e = p) es, delSelMediaCateByParentCode p es)"
  by (induction es) auto

lemma del_filter: "distinct (map ce_parent es) \<Longrightarrow>
    delSelMediaCateByParentCode p es = filter (\<lambda>e. ce_parent e \<noteq> p) es"
  by (induction es) (auto simp: image_iff filter_id_conv intro!: filter_True [symmetric])

lemma del_absent: "p \<notin> ce_parent ` set es \<Longrightarrow> delSelMediaCateByParentCode p es = es"
  by (induction es) auto

lemma remove_filter: "distinct (map sp_parent xs) \<Longrightarrow> remove_label p xs = filter (\<lambda>x. sp_parent x \<noteq> p) xs"
  by (induction xs) (auto simp: image_iff filter_id_conv intro!: filter_True [symmetric])

lemma set_label_map: "distinct (map sp_parent xs) \<Longrightarrow>
    set_label p t xs = map (\<lambda>x. if sp_parent x = p then x\<lparr>sp_text := t\<rparr> else x) xs"
  by (induction xs) (auto simp: image_iff intro!: map_idI [symmetric])

lemma map_set_label: "map sp_parent (set_label p t xs) = map sp_parent xs"
  by (induction xs) auto

lemma splice_filter: "distinct cs \<Longrightarrow> splice_code c cs = filter (\<lambda>x. x \<noteq> c) cs"
proof (induction c cs rule: splice_code.induct)
  case (2 code c cs)
  then show ?case by (cases cs) (auto intro!: filter_True [symmetric])
qed simp

lemma find_Some: "find P xs = Some x \<Longrightarrow> x \<in> set xs \<and> P x"
  by (induction xs) (auto split: if_splits)

lemma find_distinct: "distinct (map ce_parent es) \<Longrightarrow> e \<in> set es \<Longrightarrow> find (\<lambda>x. ce_parent x = ce_parent e) es = Some e"
  by (induction es) (auto simp: image_iff)

subsection \<open>The invariant\<close>

text \<open>
  Array and labels: every parent once, the same parents in both, children that are children of their parent, at
  least one and none twice, and a label that counts them.
\<close>

definition entry_ok :: "(string \<Rightarrow> string list) \<Rightarrow> cat_entry \<Rightarrow> bool" where
  "entry_ok sub e \<longleftrightarrow> ce_children e \<noteq> [] \<and> distinct (ce_children e) \<and> set (ce_children e) \<subseteq> set (sub (ce_parent e))"

definition label_ok :: "(string \<Rightarrow> string list) \<Rightarrow> selector \<Rightarrow> cat_span \<Rightarrow> bool" where
  "label_ok sub s x \<longleftrightarrow> (case children_of s (sp_parent x) of None \<Rightarrow> False
     | Some cs \<Rightarrow> sp_text x = count_text (getParentNameByCode (sp_parent x) s) (length cs) (length (sub (sp_parent x))))"

definition store_ok :: "(string \<Rightarrow> string list) \<Rightarrow> selector \<Rightarrow> bool" where
  "store_ok sub s \<longleftrightarrow> distinct (map ce_parent (cs_arr s)) \<and> distinct (map sp_parent (cs_spans s)) \<and>
     ce_parent ` set (cs_arr s) = sp_parent ` set (cs_spans s) \<and>
     (\<forall>e \<in> set (cs_arr s). entry_ok sub e) \<and> (\<forall>x \<in> set (cs_spans s). label_ok sub s x)"

text \<open>The boxes are the children of \<open>d\<close>; those ticked, if any, are the children chosen.\<close>

definition boxes_ok :: "(string \<Rightarrow> string list) \<Rightarrow> string \<Rightarrow> selector \<Rightarrow> bool" where
  "boxes_ok sub d s \<longleftrightarrow> cs_boxes s = [] \<or>
     map bx_code (cs_boxes s) = sub d \<and> (\<forall>b \<in> set (cs_boxes s). bx_parent b = d)"

definition ticks_ok :: "string \<Rightarrow> selector \<Rightarrow> bool" where
  "ticks_ok d s \<longleftrightarrow> checked_codes s = [] \<or>
     (case children_of s d of None \<Rightarrow> False | Some cs \<Rightarrow> set cs = set (checked_codes s))"

definition sel_ok :: "(string \<Rightarrow> string list) \<Rightarrow> string \<Rightarrow> selector \<Rightarrow> bool" where
  "sel_ok sub d s \<longleftrightarrow> store_ok sub s \<and> boxes_ok sub d s \<and> ticks_ok d s"

lemma children_in: "children_of s p = Some cs \<Longrightarrow> \<exists>e \<in> set (cs_arr s). ce_parent e = p \<and> ce_children e = cs"
  by (auto simp: children_of_def dest!: find_Some)

lemma children_None: "children_of s p = None \<longleftrightarrow> p \<notin> ce_parent ` set (cs_arr s)"
  by (auto simp: children_of_def find_None_iff)

text \<open>Writing the children of one parent, as adding and removing a child do, and dropping a parent.\<close>

definition put_entry :: "string \<Rightarrow> string list \<Rightarrow> string \<Rightarrow> selector \<Rightarrow> selector" where
  "put_entry p cs t s =
     s\<lparr>cs_arr := delSelMediaCateByParentCode p (cs_arr s) @ [\<lparr>ce_parent = p, ce_children = cs\<rparr>],
       cs_spans := (if p \<in> sp_parent ` set (cs_spans s) then set_label p t (cs_spans s)
                    else cs_spans s @ [\<lparr>sp_parent = p, sp_text = t\<rparr>])\<rparr>"

lemma put_sel [simp]: "cs_boxes (put_entry p cs t s) = cs_boxes s" "cs_options (put_entry p cs t s) = cs_options s"
  by (simp_all add: put_entry_def)

lemma name_simps [simp]: "getParentNameByCode q (put_entry p cs t s) = getParentNameByCode q s"
  "getParentNameByCode q (delMediaSpanByParentCode p s) = getParentNameByCode q s"
  "getParentNameByCode q (s\<lparr>cs_boxes := bs\<rparr>) = getParentNameByCode q s"
  by (simp_all add: getParentNameByCode_def delMediaSpanByParentCode_def)

lemma put_spans:
  assumes "distinct (map sp_parent (cs_spans s))" "x \<in> set (cs_spans (put_entry p cs t s))"
  shows "sp_parent x = p \<and> sp_text x = t \<or> sp_parent x \<noteq> p \<and> x \<in> set (cs_spans s)"
proof (cases "p \<in> sp_parent ` set (cs_spans s)")
  case True
  then have "cs_spans (put_entry p cs t s) = map (\<lambda>x. if sp_parent x = p then x\<lparr>sp_text := t\<rparr> else x) (cs_spans s)"
    using assms(1) by (simp add: put_entry_def set_label_map)
  then show ?thesis using assms(2) by auto
next
  case False
  then show ?thesis using assms(2) by (auto simp: put_entry_def)
qed

lemma find_filter_neq: "p' \<noteq> p \<Longrightarrow> find (\<lambda>e. ce_parent e = p') (filter (\<lambda>e. ce_parent e \<noteq> p) es) =
    find (\<lambda>e. ce_parent e = p') es"
  by (induction es) auto

lemma find_append: "find P (xs @ ys) = (case find P xs of None \<Rightarrow> find P ys | Some x \<Rightarrow> Some x)"
  by (induction xs) auto

lemma children_put: "store_ok sub s \<Longrightarrow> children_of (put_entry p cs t s) = (children_of s)(p \<mapsto> cs)"
proof (rule ext)
  fix p' assume "store_ok sub s"
  then have d: "delSelMediaCateByParentCode p (cs_arr s) = filter (\<lambda>e. ce_parent e \<noteq> p) (cs_arr s)"
    by (simp add: store_ok_def del_filter)
  have "find (\<lambda>e. ce_parent e = p) (filter (\<lambda>e. ce_parent e \<noteq> p) (cs_arr s)) = None"
    by (auto simp: find_None_iff)
  then show "children_of (put_entry p cs t s) p' = ((children_of s)(p \<mapsto> cs)) p'"
    by (auto simp: children_of_def put_entry_def d find_append find_filter_neq split: option.splits)
qed

lemma put_store:
  assumes "store_ok sub s" "cs \<noteq> []" "distinct cs" "set cs \<subseteq> set (sub p)"
    and "t = count_text (getParentNameByCode p s) (length cs) (length (sub p))"
  shows "store_ok sub (put_entry p cs t s)"
proof -
  let ?s = "put_entry p cs t s"
  note d = assms(1) [unfolded store_ok_def]
  have arr: "cs_arr ?s = filter (\<lambda>e. ce_parent e \<noteq> p) (cs_arr s) @ [\<lparr>ce_parent = p, ce_children = cs\<rparr>]"
    using d by (simp add: put_entry_def del_filter)
  have m: "map sp_parent (cs_spans ?s) = (if p \<in> sp_parent ` set (cs_spans s) then map sp_parent (cs_spans s)
      else map sp_parent (cs_spans s) @ [p])"
    by (simp add: put_entry_def map_set_label)
  have "set (map sp_parent (cs_spans ?s)) = insert p (set (map sp_parent (cs_spans s)))" unfolding m by auto
  then have spans: "sp_parent ` set (cs_spans ?s) = insert p (sp_parent ` set (cs_spans s))" by (simp only: set_map)
  have dist: "distinct (map sp_parent (cs_spans ?s))" using d m by simp
  have old: "\<forall>x \<in> set (cs_spans s). label_ok sub s x" using d by blast
  have labels: "label_ok sub ?s x" if x: "x \<in> set (cs_spans ?s)" for x
  proof -
    consider "sp_parent x = p" "sp_text x = t" | "sp_parent x \<noteq> p" "label_ok sub s x"
      using put_spans [OF _ x] d old by blast
    then show ?thesis
      by cases (simp_all add: label_ok_def children_put [OF assms(1)] assms(5) split: option.splits)
  qed
  show ?thesis
    unfolding store_ok_def
  proof (intro conjI)
    show "distinct (map ce_parent (cs_arr ?s))" using d by (auto simp: arr distinct_map inj_on_def)
    show "ce_parent ` set (cs_arr ?s) = sp_parent ` set (cs_spans ?s)" using d by (auto simp: arr spans)
    show "\<forall>e \<in> set (cs_arr ?s). entry_ok sub e" using d assms(2-4) by (auto simp: arr entry_ok_def)
  qed (use dist labels in simp_all)
qed

lemma drop_store:
  assumes "store_ok sub s"
  shows "store_ok sub (delMediaSpanByParentCode p s)" "children_of (delMediaSpanByParentCode p s) = (children_of s)(p := None)"
proof -
  let ?s = "delMediaSpanByParentCode p s"
  note d = assms [unfolded store_ok_def]
  have arr: "cs_arr ?s = filter (\<lambda>e. ce_parent e \<noteq> p) (cs_arr s)" "cs_spans ?s = filter (\<lambda>x. sp_parent x \<noteq> p) (cs_spans s)"
    using d by (simp_all add: delMediaSpanByParentCode_def del_filter remove_filter)
  show c: "children_of ?s = (children_of s)(p := None)"
    by (rule ext) (auto simp: children_of_def arr find_filter_neq find_None_iff)
  have "label_ok sub ?s x" if "x \<in> set (cs_spans ?s)" for x
    using that d unfolding arr(2) by (auto simp: label_ok_def c split: option.splits)
  then show "store_ok sub ?s"
    using d by (auto simp: store_ok_def arr distinct_map_filter)
qed

subsection \<open>Every handler keeps the invariant\<close>

lemma checked_distinct: "boxes_ok sub d s \<Longrightarrow> distinct (sub d) \<Longrightarrow> distinct (checked_codes s)"
  by (auto simp: boxes_ok_def checked_codes_def distinct_map_filter)

lemma checked_sub: "boxes_ok sub d s \<Longrightarrow> set (checked_codes s) \<subseteq> set (sub d)"
proof -
  assume "boxes_ok sub d s"
  moreover have "set (checked_codes s) \<subseteq> set (map bx_code (cs_boxes s))" by (auto simp: checked_codes_def)
  ultimately show ?thesis by (auto simp: boxes_ok_def checked_codes_def simp del: set_map)
qed

lemma boxes_len: "boxes_ok sub d s \<Longrightarrow> cs_boxes s \<noteq> [] \<Longrightarrow> length (cs_boxes s) = length (sub d)"
  by (metis boxes_ok_def length_map)

lemma checked_uncheck [simp]: "checked_codes (s\<lparr>cs_boxes := uncheck_all bs\<rparr>) = []"
  by (simp add: checked_codes_def uncheck_all_def filter_empty_conv)

lemma boxes_uncheck: "boxes_ok sub d s \<Longrightarrow> boxes_ok sub d (s\<lparr>cs_boxes := uncheck_all (cs_boxes s)\<rparr>)"
  by (auto simp: boxes_ok_def uncheck_all_def comp_def)

lemma checked_put [simp]: "checked_codes (put_entry p cs t s) = checked_codes s"
  by (simp add: checked_codes_def)

lemma store_boxes [simp]: "store_ok sub (s\<lparr>cs_boxes := bs\<rparr>) = store_ok sub s" "children_of (s\<lparr>cs_boxes := bs\<rparr>) = children_of s"
  by (simp_all add: store_ok_def label_ok_def children_of_def fun_eq_iff cong: option.case_cong)

lemma boxes_ok_put [simp]: "boxes_ok sub d (put_entry p cs t s) = boxes_ok sub d s"
  by (simp add: boxes_ok_def)

text \<open>With the children of \<open>d\<close> in the boxes, writing those ticked makes array, label and ticks agree.\<close>

definition record_ticks :: "string \<Rightarrow> selector \<Rightarrow> selector" where
  "record_ticks d s = put_entry d (checked_codes s)
     (count_text (getParentNameByCode d s) (length (checked_codes s)) (length (cs_boxes s))) s"

lemma record_ticks_ok:
  assumes "store_ok sub s" "boxes_ok sub d s" "checked_codes s \<noteq> []" "distinct (sub d)"
  shows "sel_ok sub d (record_ticks d s)" "children_of (record_ticks d s) = (children_of s)(d \<mapsto> checked_codes s)"
proof -
  have "cs_boxes s \<noteq> []" using assms(3) by (auto simp: checked_codes_def)
  then have "store_ok sub (record_ticks d s)"
    unfolding record_ticks_def using assms checked_distinct checked_sub boxes_len by (intro put_store) auto
  moreover show c: "children_of (record_ticks d s) = (children_of s)(d \<mapsto> checked_codes s)"
    using children_put [OF assms(1)] by (simp add: record_ticks_def)
  ultimately show "sel_ok sub d (record_ticks d s)"
    using assms(2) c by (simp add: sel_ok_def ticks_ok_def) (simp add: record_ticks_def)
qed

text \<open>Ticking a box, by a click or by the button that ticks all.\<close>

definition tick :: "nat \<Rightarrow> selector \<Rightarrow> selector" where
  "tick i s = s\<lparr>cs_boxes := (cs_boxes s)[i := (cs_boxes s ! i)\<lparr>bx_checked := True\<rparr>]\<rparr>"

definition untick :: "nat \<Rightarrow> selector \<Rightarrow> selector" where
  "untick i s = s\<lparr>cs_boxes := (cs_boxes s)[i := (cs_boxes s ! i)\<lparr>bx_checked := False\<rparr>]\<rparr>"

lemma boxes_tick:
  assumes "boxes_ok sub d s" "i < length (cs_boxes s)"
  shows "boxes_ok sub d (tick i s)" "boxes_ok sub d (untick i s)"
proof -
  have "map bx_code ((cs_boxes s)[i := (cs_boxes s ! i)\<lparr>bx_checked := v\<rparr>]) = map bx_code (cs_boxes s)" for v
    using assms(2) by (simp add: map_update) (metis list_update_id nth_map)
  moreover have "\<forall>b \<in> set (cs_boxes s). bx_parent b = d \<Longrightarrow>
      b \<in> set ((cs_boxes s)[i := (cs_boxes s ! i)\<lparr>bx_checked := v\<rparr>]) \<Longrightarrow> bx_parent b = d" for v b
    using set_update_subset_insert [of "cs_boxes s" i] nth_mem [OF assms(2)] by fastforce
  ultimately show "boxes_ok sub d (tick i s)" "boxes_ok sub d (untick i s)"
    using assms by (auto simp: boxes_ok_def tick_def untick_def)
qed

lemma checked_tick:
  assumes "i < length (cs_boxes s)"
  shows "set (checked_codes (tick i s)) = insert (bx_code (cs_boxes s ! i)) (set (checked_codes s))"
proof -
  have "set (checked_codes (tick i s)) = {bx_code (cs_boxes (tick i s) ! j) |j. j < length (cs_boxes s) \<and> bx_checked (cs_boxes (tick i s) ! j)}"
    by (auto simp: checked_codes_def tick_def in_set_conv_nth)
  also have "\<dots> = insert (bx_code (cs_boxes s ! i)) {bx_code (cs_boxes s ! j) |j. j < length (cs_boxes s) \<and> bx_checked (cs_boxes s ! j)}"
    using assms by (auto simp: tick_def nth_list_update split: if_splits)
  also have "\<dots> = insert (bx_code (cs_boxes s ! i)) (set (checked_codes s))"
    by (auto simp: checked_codes_def in_set_conv_nth)
  finally show ?thesis .
qed

lemma checked_untick:
  assumes "i < length (cs_boxes s)" "distinct (map bx_code (cs_boxes s))"
  shows "set (checked_codes (untick i s)) = set (checked_codes s) - {bx_code (cs_boxes s ! i)}"
proof -
  have ne: "bx_code (cs_boxes s ! j) \<noteq> bx_code (cs_boxes s ! i)" if "j < length (cs_boxes s)" "j \<noteq> i" for j
    using assms that nth_eq_iff_index_eq [OF assms(2), of j i] by simp
  have "set (checked_codes (untick i s)) = {bx_code (cs_boxes (untick i s) ! j) |j. j < length (cs_boxes s) \<and> bx_checked (cs_boxes (untick i s) ! j)}"
    by (auto simp: checked_codes_def untick_def in_set_conv_nth)
  also have "\<dots> = {bx_code (cs_boxes s ! j) |j. j < length (cs_boxes s) \<and> bx_checked (cs_boxes s ! j)} - {bx_code (cs_boxes s ! i)}"
    using assms ne by (auto simp: untick_def nth_list_update split: if_splits) metis+
  also have "\<dots> = set (checked_codes s) - {bx_code (cs_boxes s ! i)}"
    by (auto simp: checked_codes_def in_set_conv_nth)
  finally show ?thesis .
qed

lemma parent_of_box: "boxes_ok sub d s \<Longrightarrow> i < length (cs_boxes s) \<Longrightarrow> bx_parent (cs_boxes s ! i) = d"
  by (auto simp: boxes_ok_def)

lemma code_of_box: "boxes_ok sub d s \<Longrightarrow> i < length (cs_boxes s) \<Longrightarrow> bx_code (cs_boxes s ! i) = sub d ! i"
  by (metis boxes_ok_def length_0_conv less_nat_zero_code nth_map)

lemma tick_sel [simp]: "cs_spans (tick i s) = cs_spans s" "cs_arr (tick i s) = cs_arr s" "cs_spans (untick i s) = cs_spans s"
  "cs_arr (untick i s) = cs_arr s" "children_of (tick i s) = children_of s" "children_of (untick i s) = children_of s"
  "store_ok sub (tick i s) = store_ok sub s" "store_ok sub (untick i s) = store_ok sub s"
  "getParentNameByCode p (untick i s) = getParentNameByCode p s"
  by (simp_all add: tick_def untick_def)

lemma one_element: "distinct xs \<Longrightarrow> set xs = {x} \<Longrightarrow> xs = [x]"
proof -
  assume d: "distinct xs" and "set xs = {x}"
  then have "card (set xs) = Suc 0" by simp
  then have "length xs = Suc 0" using distinct_card [OF d] by simp
  then obtain y where "xs = [y]" by (auto simp: length_Suc_conv)
  with \<open>set xs = {x}\<close> show ?thesis by simp
qed

lemma add_ticked:
  assumes "sel_ok sub d s" "i < length (cs_boxes s)" "distinct (sub d)"
  shows "addMediaCate (bx_code (cs_boxes s ! i)) (bx_parent (cs_boxes s ! i)) (tick i s) = record_ticks d (tick i s)"
proof (cases "d \<in> sp_parent ` set (cs_spans s)")
  have p: "bx_parent (cs_boxes s ! i) = d" using assms parent_of_box by (auto simp: sel_ok_def)
  case True
  then show ?thesis
    using p by (simp add: sel_ok_def addMediaCate_def record_ticks_def put_entry_def Let_def)
next
  have p: "bx_parent (cs_boxes s ! i) = d" using assms parent_of_box by (auto simp: sel_ok_def)
  case False
  then have absent: "d \<notin> ce_parent ` set (cs_arr s)" using assms(1) by (simp add: sel_ok_def store_ok_def)
  then have "children_of s d = None" by (simp add: children_None)
  then have "checked_codes s = []" using assms(1) by (simp add: sel_ok_def ticks_ok_def)
  then have "distinct (checked_codes (tick i s))" "set (checked_codes (tick i s)) = {bx_code (cs_boxes s ! i)}"
    using assms checked_tick [OF assms(2)] checked_distinct [of sub d "tick i s"] boxes_tick(1) [of sub d s i] by (auto simp: sel_ok_def)
  then have "checked_codes (tick i s) = [bx_code (cs_boxes s ! i)]"
    by (rule one_element)
  then show ?thesis
    using p False absent
    by (simp add: sel_ok_def addMediaCate_def record_ticks_def put_entry_def Let_def del_absent)
qed

text \<open>A box that was not ticked.\<close>

lemma sel_one_ok:
  assumes "sel_ok sub d s" "i < length (cs_boxes s)" "distinct (sub d)"
  shows "sel_one i s = record_ticks d (tick i s)" "sel_ok sub d (sel_one i s)"
    "children_of (sel_one i s) = (children_of s)(d \<mapsto> checked_codes (tick i s))"
proof -
  have ne: "checked_codes (tick i s) \<noteq> []" using checked_tick [OF assms(2)] by auto
  show 1: "sel_one i s = record_ticks d (tick i s)"
    using add_ticked [OF assms] by (simp add: sel_one_def Let_def tick_def)
  show "sel_ok sub d (sel_one i s)" "children_of (sel_one i s) = (children_of s)(d \<mapsto> checked_codes (tick i s))"
    unfolding 1 using record_ticks_ok [of sub "tick i s" d] assms ne boxes_tick(1) by (auto simp: sel_ok_def)
qed

lemma click_on:
  "\<not> bx_checked (cs_boxes s ! i) \<Longrightarrow> click_box i s = (None, sel_one i s)"
  by (simp add: click_box_def sel_one_def Let_def)

text \<open>A box that was ticked.\<close>

lemma del_del: "distinct (map ce_parent es) \<Longrightarrow>
    delSelMediaCateByParentCode p (delSelMediaCateByParentCode p es) = delSelMediaCateByParentCode p es"
proof -
  assume d: "distinct (map ce_parent es)"
  have "p \<notin> ce_parent ` set (delSelMediaCateByParentCode p es)" by (auto simp: del_filter [OF d])
  then show ?thesis by (rule del_absent)
qed

lemma click_off:
  assumes ok: "sel_ok sub d s" and i: "i < length (cs_boxes s)" and ds: "distinct (sub d)" and b: "bx_checked (cs_boxes s ! i)"
  obtains cs s' where "children_of s d = Some cs" "set cs = set (checked_codes s)" "click_box i s = (None, s')"
    "sel_ok sub d s'" "set (checked_codes s') = set (filter (\<lambda>c. c \<noteq> sub d ! i) cs)"
    "children_of s' = (children_of s)(d := (if filter (\<lambda>c. c \<noteq> sub d ! i) cs = [] then None
       else Some (filter (\<lambda>c. c \<noteq> sub d ! i) cs)))"
proof -
  let ?c = "sub d ! i" and ?u = "untick i s"
  have bo: "boxes_ok sub d s" and st: "store_ok sub s" using ok by (simp_all add: sel_ok_def)
  have c: "bx_code (cs_boxes s ! i) = ?c" "bx_parent (cs_boxes s ! i) = d"
    using code_of_box [OF bo i] parent_of_box [OF bo i] by simp_all
  have "?c \<in> set (checked_codes s)" using b nth_mem [OF i] c(1) by (force simp: checked_codes_def)
  then obtain cs where cs: "children_of s d = Some cs" "set cs = set (checked_codes s)"
    using ok by (auto simp: sel_ok_def ticks_ok_def split: option.splits)
  obtain e where e: "find (\<lambda>e. ce_parent e = d) (cs_arr s) = Some e" "ce_children e = cs" "entry_ok sub e" "ce_parent e = d"
    using cs(1) st find_Some by (fastforce simp: children_of_def store_ok_def)
  let ?f = "filter (\<lambda>c. c \<noteq> ?c) cs"
  have dcs: "distinct cs" and sp: "splice_code ?c cs = ?f" using e splice_filter by (auto simp: entry_ok_def)
  have du: "distinct (map bx_code (cs_boxes s))" using bo ds i by (auto simp: boxes_ok_def)
  have su: "set (checked_codes ?u) = set ?f" using checked_untick [OF i du] cs(2) c(1) by auto
  have bu: "boxes_ok sub d ?u" using boxes_tick(2) [OF bo i] .
  have len: "length (checked_codes ?u) = length ?f"
    using su dcs checked_distinct [OF bu ds] by (metis distinct_card distinct_filter)
  have click: "click_box i s = removeMediaCate ?c d ?u"
    using b c by (simp add: click_box_def Let_def untick_def)
  have dspan: "d \<in> sp_parent ` set (cs_spans s)" using st children_in [OF cs(1)] unfolding store_ok_def by auto
  show thesis
  proof (cases "?f = []")
    case True
    have "click_box i s = (None, delMediaSpanByParentCode d ?u)"
      using True st e sp del_del unfolding click
      by (simp add: removeMediaCate_def getSel_find delMediaSpanByParentCode_def store_ok_def)
    then show thesis
      using that [OF cs] True drop_store [of sub ?u d] st boxes_uncheck [OF bu]
      by (simp add: sel_ok_def ticks_ok_def boxes_ok_def checked_codes_def delMediaSpanByParentCode_def uncheck_all_def
          filter_empty_conv)
  next
    case False
    let ?t = "count_text (getParentNameByCode d s) (length ?f) (length (sub d))"
    have n: "length (cs_boxes ?u) = length (sub d)" using boxes_len [OF bu] i by (fastforce simp: untick_def)
    have eq: "click_box i s = (None, put_entry d ?f ?t ?u)"
      using False e(1,2) sp dspan len n unfolding click
      by (simp add: removeMediaCate_def getSel_find put_entry_def Let_def)
    have "store_ok sub (put_entry d ?f ?t ?u)"
      using False dcs e(3,4) st by (intro put_store) (auto simp: entry_ok_def e(2))
    then show thesis
      using that [OF cs eq] False children_put [of sub ?u d ?f ?t] st bu su
      by (simp add: sel_ok_def ticks_ok_def)
  qed
qed

lemma drop_ok: "sel_ok sub d s \<Longrightarrow> sel_ok sub d (delMediaSpanByParentCode p s)"
  using drop_store [of sub s p] boxes_uncheck [of sub d s]
  by (auto simp: sel_ok_def ticks_ok_def checked_codes_def delMediaSpanByParentCode_def uncheck_all_def boxes_ok_def
      filter_empty_conv)

lemma answer_ok:
  assumes "store_ok sub s"
  shows "sel_ok sub p (queryAnswered sub p s)" "children_of (queryAnswered sub p s) = children_of s"
    "checked_codes (queryAnswered sub p s) = filter (\<lambda>c. \<exists>cs. children_of s p = Some cs \<and> c \<in> set cs) (sub p)"
proof -
  let ?q = "queryAnswered sub p s"
  show ch: "children_of ?q = children_of s"
    by (simp add: queryAnswered_def initMediaCateSel_def split: option.splits)
  show ck: "checked_codes ?q = filter (\<lambda>c. \<exists>cs. children_of s p = Some cs \<and> c \<in> set cs) (sub p)"
    by (cases "find (\<lambda>e. ce_parent e = p) (cs_arr s)")
      (auto simp: queryAnswered_def initMediaCateSel_def checked_codes_def boxes_of_def children_of_def filter_map comp_def
        intro!: map_idI filter_cong)
  have bo: "boxes_ok sub p ?q"
    by (auto simp: boxes_ok_def queryAnswered_def initMediaCateSel_def boxes_of_def comp_def intro!: map_idI
        split: option.splits)
  have "ticks_ok p ?q"
  proof (cases "children_of s p")
    case (Some cs)
    then obtain e where "e \<in> set (cs_arr s)" "ce_parent e = p" "ce_children e = cs" using children_in by blast
    then have "set cs \<subseteq> set (sub p)" using assms by (auto simp: store_ok_def entry_ok_def)
    then show ?thesis using Some by (auto simp: ticks_ok_def ch ck)
  qed (simp add: ticks_ok_def ch ck)
  moreover have "store_ok sub ?q"
    using assms by (simp add: queryAnswered_def initMediaCateSel_def split: option.splits)
  ultimately show "sel_ok sub p ?q" using bo by (simp add: sel_ok_def)
qed

lemma ticked_boxes: "i < length (cs_boxes s) \<Longrightarrow> sel_ok sub d s \<Longrightarrow> distinct (sub d) \<Longrightarrow>
    cs_boxes (sel_one i s) = (cs_boxes s)[i := (cs_boxes s ! i)\<lparr>bx_checked := True\<rparr>]"
  by (simp add: sel_one_ok(1) record_ticks_def) (simp add: tick_def)

lemma sel_some:
  assumes "sel_ok sub d s" "k \<le> length (cs_boxes s)" "distinct (sub d)"
  shows "sel_ok sub d (fold sel_one [0 ..< k] s) \<and> length (cs_boxes (fold sel_one [0 ..< k] s)) = length (cs_boxes s) \<and>
     (\<forall>j < k. bx_checked (cs_boxes (fold sel_one [0 ..< k] s) ! j)) \<and>
     (0 < k \<longrightarrow> children_of (fold sel_one [0 ..< k] s) =
        (children_of s)(d \<mapsto> checked_codes (fold sel_one [0 ..< k] s)))"
  using assms(2)
proof (induction k)
  case (Suc k)
  let ?m = "fold sel_one [0 ..< k] s"
  have m: "sel_ok sub d ?m" "length (cs_boxes ?m) = length (cs_boxes s)" "\<forall>j < k. bx_checked (cs_boxes ?m ! j)"
      "0 < k \<longrightarrow> children_of ?m = (children_of s)(d \<mapsto> checked_codes ?m)"
    using Suc.IH [OF Suc_leD [OF Suc.prems]] by blast+
  have k: "k < length (cs_boxes ?m)" using Suc.prems m(2) by simp
  have b: "cs_boxes (sel_one k ?m) = (cs_boxes ?m)[k := (cs_boxes ?m ! k)\<lparr>bx_checked := True\<rparr>]"
    using ticked_boxes [OF k m(1) assms(3)] .
  have c: "checked_codes (sel_one k ?m) = checked_codes (tick k ?m)"
    by (simp add: checked_codes_def b tick_def)
  have "children_of (sel_one k ?m) = (children_of s)(d \<mapsto> checked_codes (sel_one k ?m))"
    unfolding c sel_one_ok(3) [OF m(1) k assms(3)] using m(4) by (cases "k = 0") auto
  moreover have "\<forall>j < Suc k. bx_checked (cs_boxes (sel_one k ?m) ! j)"
    using m(3) k by (auto simp: b nth_list_update less_Suc_eq)
  ultimately show ?case using sel_one_ok(2) [OF m(1) k assms(3)] b m(2) by simp
qed (use assms(1) in simp)

lemma all_ok: "sel_ok sub d s \<Longrightarrow> distinct (sub d) \<Longrightarrow> sel_ok sub d (selAll s)"
  using sel_some [of sub d s "length (cs_boxes s)"] by (simp add: selAll_def)

lemma none_ok: "sel_ok sub d s \<Longrightarrow> sel_ok sub d (cancelSelAll s)"
proof -
  assume ok: "sel_ok sub d s"
  then have "sel_ok sub d (s\<lparr>cs_boxes := uncheck_all (cs_boxes s)\<rparr>)"
    using boxes_uncheck by (simp add: sel_ok_def ticks_ok_def)
  then show ?thesis using drop_ok by (simp add: cancelSelAll_def Let_def)
qed

lemma step_ok:
  assumes "sel_step sub s s'" "sel_ok sub d s" "\<forall>p. distinct (sub p)"
  shows "\<exists>d'. sel_ok sub d' s'"
  using assms(1)
proof cases
  case (answer p)
  then show ?thesis using answer_ok(1) assms(2) by (auto simp: sel_ok_def)
next
  case (click i e)
  have ds: "distinct (sub d)" using assms(3) by simp
  show ?thesis
  proof (cases "bx_checked (cs_boxes s ! i)")
    case True
    show ?thesis by (rule click_off [OF assms(2) click(1) ds True]) (use click(2) in auto)
  next
    case False
    then show ?thesis using click click_on [OF False] sel_one_ok(2) [OF assms(2) click(1) ds] by auto
  qed
next
  case all
  then show ?thesis using all_ok assms(2,3) by blast
next
  case none
  then show ?thesis using none_ok assms(2) by blast
next
  case (drop p)
  then show ?thesis using drop_ok assms(2) by blast
qed

definition sel_reachable :: "(string \<Rightarrow> string list) \<Rightarrow> selector \<Rightarrow> selector \<Rightarrow> bool" where
  "sel_reachable sub s0 s \<longleftrightarrow> (sel_step sub)\<^sup>*\<^sup>* s0 s"

lemma reach_ok:
  assumes "sel_reachable sub s0 s" "sel_ok sub d0 s0" "\<forall>p. distinct (sub p)"
  shows "\<exists>d. sel_ok sub d s"
  using assms(1) [unfolded sel_reachable_def]
proof induction
  case base
  then show ?case using assms(2) by blast
next
  case (step y z)
  then show ?case using step_ok assms(3) by blast
qed

lemma new_ok: "sel_ok sub d (new_selector options)"
  by (simp add: sel_ok_def store_ok_def boxes_ok_def ticks_ok_def checked_codes_def new_selector_def)

subsection \<open>The edit form's start\<close>

lemma add_selected_put:
  "add_selected (p, c) arr = delSelMediaCateByParentCode p arr @
     [\<lparr>ce_parent = p, ce_children = (case find (\<lambda>e. ce_parent e = p) arr of None \<Rightarrow> [] | Some e \<Rightarrow> ce_children e) @ [c]\<rparr>]"
  by (simp add: add_selected_def getSel_find split: option.splits)

definition given_children :: "(string \<times> string) list \<Rightarrow> string \<Rightarrow> string list" where
  "given_children inputs p = map snd (filter (\<lambda>x. fst x = p) inputs)"

lemma add_selected_all:
  "let arr = fold add_selected inputs [] in distinct (map ce_parent arr) \<and>
     ce_parent ` set arr = fst ` set inputs \<and> (\<forall>e \<in> set arr. ce_children e = given_children inputs (ce_parent e))"
proof (induction inputs rule: rev_induct)
  case (snoc x xs)
  obtain p c where x: "x = (p, c)" by (cases x)
  let ?a = "fold add_selected xs []"
  have ih: "distinct (map ce_parent ?a)" "ce_parent ` set ?a = fst ` set xs"
      "\<forall>e \<in> set ?a. ce_children e = given_children xs (ce_parent e)"
    using snoc by (simp_all add: Let_def)
  have old: "(case find (\<lambda>e. ce_parent e = p) ?a of None \<Rightarrow> [] | Some e \<Rightarrow> ce_children e) = given_children xs p"
  proof (cases "find (\<lambda>e. ce_parent e = p) ?a")
    case None
    then have "p \<notin> fst ` set xs" unfolding ih(2) [symmetric] by (auto simp: find_None_iff)
    then show ?thesis using None by (auto simp: given_children_def filter_empty_conv)
  next
    case (Some e)
    then show ?thesis using ih(3) find_Some [OF Some] by auto
  qed
  show ?case
    using ih by (auto simp: x add_selected_put old del_filter distinct_map_filter Let_def given_children_def)
qed simp

lemma given_ok:
  assumes "distinct inputs" "\<forall>(p, c) \<in> set inputs. c \<in> set (sub p)" "\<forall>p. num p = length (sub p)"
  shows "sel_ok sub d (initMediaSelected num inputs (new_selector options))"
proof -
  let ?s = "initMediaSelected num inputs (new_selector options)"
  let ?a = "fold add_selected inputs []"
  have a: "distinct (map ce_parent ?a)" "ce_parent ` set ?a = fst ` set inputs"
      "\<forall>e \<in> set ?a. ce_children e = given_children inputs (ce_parent e)"
    using add_selected_all [of inputs] by (simp_all add: Let_def)
  have "entry_ok sub e" if "e \<in> set ?a" for e
  proof -
    have "ce_parent e \<in> fst ` set inputs" using that a(2) by blast
    then have "given_children inputs (ce_parent e) \<noteq> []" by (auto simp: given_children_def filter_empty_conv intro: rev_bexI)
    moreover have "distinct (given_children inputs p)" for p
      using assms(1) by (auto simp: given_children_def distinct_map inj_on_def)
    moreover have "set (given_children inputs p) \<subseteq> set (sub p)" for p
      using assms(2) by (auto simp: given_children_def)
    ultimately show ?thesis using that a(3) by (simp add: entry_ok_def)
  qed
  moreover have "label_ok sub ?s x" if "x \<in> set (cs_spans ?s)" for x
  proof -
    have "children_of ?s (ce_parent e) = Some (ce_children e)" if "e \<in> set ?a" for e
      using find_distinct [OF a(1) that] by (simp add: children_of_def initMediaSelected_def new_selector_def Let_def)
    moreover have "getParentNameByCode p ?s = getParentNameByCode p (new_selector options)" for p
      by (simp add: getParentNameByCode_def initMediaSelected_def Let_def)
    ultimately show ?thesis
      using that assms(3) by (auto simp: label_ok_def initMediaSelected_def new_selector_def Let_def)
  qed
  ultimately have "store_ok sub ?s"
    using a(1) by (auto simp: store_ok_def initMediaSelected_def new_selector_def Let_def comp_def image_image)
  then show ?thesis
    by (simp add: sel_ok_def boxes_ok_def ticks_ok_def checked_codes_def initMediaSelected_def new_selector_def Let_def)
qed

subsection \<open>What is chosen\<close>

definition chosen_set :: "selector \<Rightarrow> string \<Rightarrow> string set" where
  "chosen_set s p = (case children_of s p of None \<Rightarrow> {} | Some cs \<Rightarrow> set cs)"

lemma chosen_upd:
  "children_of t = (children_of s)(d := v) \<Longrightarrow>
     chosen_set t = (chosen_set s)(d := (case v of None \<Rightarrow> {} | Some cs \<Rightarrow> set cs))"
  by (simp add: chosen_set_def fun_eq_iff)

text \<open>
  C6: In every state reached from a new form, or from an edit form filled with the children chosen before, the
  parents with children chosen are exactly those with a label, every label counts the chosen children of its
  parent out of all of them, none is chosen twice, and a click on a box never fails.
\<close>

theorem categories_consistent:
  assumes "\<forall>p. distinct (sub p)" "\<forall>p. num p = length (sub p)"
    and "distinct inputs" "\<forall>(p, c) \<in> set inputs. c \<in> set (sub p)"
    and "sel_reachable sub (initMediaSelected num inputs (new_selector options)) s"
  shows "ce_parent ` set (cs_arr s) = sp_parent ` set (cs_spans s) \<and> distinct (map ce_parent (cs_arr s)) \<and>
     (\<forall>e \<in> set (cs_arr s). ce_children e \<noteq> [] \<and> distinct (ce_children e) \<and> set (ce_children e) \<subseteq> set (sub (ce_parent e)) \<and>
        (\<exists>x \<in> set (cs_spans s). sp_parent x = ce_parent e \<and>
           sp_text x = count_text (getParentNameByCode (ce_parent e) s) (length (ce_children e)) (length (sub (ce_parent e))))) \<and>
     (\<forall>i < length (cs_boxes s). fst (click_box i s) = None)"
proof -
  obtain d where ok: "sel_ok sub d s"
    using reach_ok [OF assms(5) given_ok [OF assms(3,4,2)] assms(1)] by blast
  then have st: "store_ok sub s" by (simp add: sel_ok_def)
  have "\<exists>x \<in> set (cs_spans s). sp_parent x = ce_parent e \<and>
      sp_text x = count_text (getParentNameByCode (ce_parent e) s) (length (ce_children e)) (length (sub (ce_parent e)))"
    if e: "e \<in> set (cs_arr s)" for e
  proof -
    obtain x where x: "x \<in> set (cs_spans s)" "sp_parent x = ce_parent e" using st e unfolding store_ok_def by (metis imageE imageI)
    moreover have "children_of s (ce_parent e) = Some (ce_children e)"
      using st find_distinct [OF _ e] by (simp add: children_of_def store_ok_def)
    ultimately show ?thesis using st by (fastforce simp: store_ok_def label_ok_def)
  qed
  moreover have "fst (click_box i s) = None" if i: "i < length (cs_boxes s)" for i
  proof (cases "bx_checked (cs_boxes s ! i)")
    case True
    have "distinct (sub d)" using assms(1) by simp
    then show ?thesis by (rule click_off [OF ok i _ True]) auto
  next
    case False
    then show ?thesis by (simp add: click_on)
  qed
  ultimately show ?thesis using st by (auto simp: store_ok_def entry_ok_def)
qed

definition sample_sub :: "string \<Rightarrow> string list" where
  "sample_sub p = (if p = ''A'' then [''a1'', ''a2'', ''a3''] else if p = ''B'' then [''b1''] else [])"

lemma sample_sub_distinct: "\<forall>p. distinct (sample_sub p)"
  by (simp add: sample_sub_def)

abbreviation sample_start :: selector where
  "sample_start \<equiv> initMediaSelected (\<lambda>p. length (sample_sub p)) [(''A'', ''a1''), (''B'', ''b1''), (''A'', ''a2'')]
     (new_selector [(''A'', ''News''), (''B'', ''Games'')])"

theorem categories_consistent_witness:
  "ce_parent ` set (cs_arr sample_start) = sp_parent ` set (cs_spans sample_start) \<and>
     cs_arr sample_start = [\<lparr>ce_parent = ''B'', ce_children = [''b1'']\<rparr>, \<lparr>ce_parent = ''A'', ce_children = [''a1'', ''a2'']\<rparr>]"
proof -
  have reach: "sel_reachable sample_sub sample_start sample_start" by (simp add: sel_reachable_def)
  have given: "\<forall>(p, c) \<in> set [(''A'', ''a1''), (''B'', ''b1''), (''A'', ''a2'')]. c \<in> set (sample_sub p)"
    by (simp add: sample_sub_def)
  have "ce_parent ` set (cs_arr sample_start) = sp_parent ` set (cs_spans sample_start)"
    by (rule categories_consistent [OF sample_sub_distinct _ _ given reach, THEN conjunct1]) simp_all
  then show ?thesis by (simp add: initMediaSelected_def new_selector_def add_selected_def)
qed

text \<open>
  While the boxes show what is chosen of their parent, a click on a box adds its code to what is chosen of the
  parent, or takes it away; what is chosen of other parents stays, and the boxes still show what is chosen.
\<close>

lemma click_exact:
  assumes "sel_ok sub d s" "distinct (sub d)" "i < length (cs_boxes s)" "set (checked_codes s) = chosen_set s d"
    and "click_box i s = (e, s')"
  shows "e = None \<and> sel_ok sub d s' \<and> set (checked_codes s') = chosen_set s' d \<and>
     chosen_set s' = (chosen_set s)(d := (if bx_checked (cs_boxes s ! i) then chosen_set s d - {sub d ! i}
        else insert (sub d ! i) (chosen_set s d)))"
proof (cases "bx_checked (cs_boxes s ! i)")
  case True
  have bo: "boxes_ok sub d s" using assms(1) by (simp add: sel_ok_def)
  show ?thesis
  proof (rule click_off [OF assms(1,3,2) True])
    fix cs t
    assume cs: "children_of s d = Some cs" "set cs = set (checked_codes s)" and t: "click_box i s = (None, t)" "sel_ok sub d t"
      "set (checked_codes t) = set (filter (\<lambda>c. c \<noteq> sub d ! i) cs)"
      "children_of t = (children_of s)(d := (if filter (\<lambda>c. c \<noteq> sub d ! i) cs = [] then None
         else Some (filter (\<lambda>c. c \<noteq> sub d ! i) cs)))"
    let ?f = "filter (\<lambda>c. c \<noteq> sub d ! i) cs"
    have c: "chosen_set t = (chosen_set s)(d := set ?f)"
      using chosen_upd [OF t(4)] by (cases "?f = []") simp_all
    have "set ?f = chosen_set s d - {sub d ! i}" by (auto simp: chosen_set_def cs(1))
    moreover have "set (checked_codes t) = chosen_set t d" unfolding c t(3) by simp
    ultimately show ?thesis using c t(1,2) assms(5) True by simp
  qed
next
  case False
  have bo: "boxes_ok sub d s" using assms(1) by (simp add: sel_ok_def)
  have k: "checked_codes (sel_one i s) = checked_codes (tick i s)"
    using sel_one_ok(1) [OF assms(1,3,2)] by (simp add: record_ticks_def)
  have t: "set (checked_codes (tick i s)) = insert (sub d ! i) (chosen_set s d)"
    using checked_tick [OF assms(3)] code_of_box [OF bo assms(3)] assms(4) by simp
  have c: "chosen_set (sel_one i s) = (chosen_set s)(d := insert (sub d ! i) (chosen_set s d))"
    using chosen_upd [OF sel_one_ok(3) [OF assms(1,3,2)]] t by simp
  then have "e = None" "s' = sel_one i s" "set (checked_codes s') = chosen_set s' d"
    using assms(5) click_on [OF False] k t by simp_all
  then show ?thesis using c False sel_one_ok(2) [OF assms(1,3,2)] by simp
qed

lemma sample_query_answered:
  "queryAnswered sample_sub ''A'' sample_start =
     sample_start\<lparr>cs_boxes := [\<lparr>bx_code = ''a1'', bx_parent = ''A'', bx_checked = True\<rparr>,
       \<lparr>bx_code = ''a2'', bx_parent = ''A'', bx_checked = True\<rparr>, \<lparr>bx_code = ''a3'', bx_parent = ''A'', bx_checked = False\<rparr>]\<rparr>"
  by (simp add: queryAnswered_def initMediaCateSel_def boxes_of_def sample_sub_def initMediaSelected_def new_selector_def
      add_selected_def)

lemma sample_start_ok: "sel_ok sample_sub d sample_start"
  by (rule given_ok) (simp_all add: sample_sub_def)

lemma sample_answered_ok: "sel_ok sample_sub ''A'' (queryAnswered sample_sub ''A'' sample_start)"
  using answer_ok(1) sample_start_ok by (simp add: sel_ok_def)

text \<open>
  Closing the label of another parent unticks the boxes of the parent that is shown, although its children stay
  chosen. The next box ticked then is the only child chosen: the others are forgotten.
\<close>

theorem drop_other_forgets:
  assumes "sel_ok sub d s" "distinct (sub d)" "i < length (cs_boxes s)" "p \<noteq> d"
  shows "children_of (delMediaSpanByParentCode p s) d = children_of s d \<and>
     (\<exists>s'. click_box i (delMediaSpanByParentCode p s) = (None, s') \<and> children_of s' d = Some [sub d ! i])"
proof -
  let ?s = "delMediaSpanByParentCode p s"
  have keep: "children_of ?s d = children_of s d"
    using drop_store(2) [of sub s p] assms(1,4) by (simp add: sel_ok_def)
  have ok: "sel_ok sub d ?s" and i: "i < length (cs_boxes ?s)"
    using drop_ok [OF assms(1)] assms(3) by (simp_all add: delMediaSpanByParentCode_def uncheck_all_def)
  have off: "\<not> bx_checked (cs_boxes ?s ! i)" "checked_codes ?s = []"
    using assms(3) by (simp_all add: delMediaSpanByParentCode_def uncheck_all_def checked_codes_def filter_empty_conv)
  have bo: "boxes_ok sub d ?s" using ok by (simp add: sel_ok_def)
  have "set (checked_codes (tick i ?s)) = {sub d ! i}" "distinct (checked_codes (tick i ?s))"
    using checked_tick [OF i] off(2) code_of_box [OF bo i] checked_distinct [of sub d "tick i ?s"] boxes_tick(1) [OF bo i] assms(2)
    by simp_all
  then have "checked_codes (tick i ?s) = [sub d ! i]" by (intro one_element)
  then show ?thesis using keep click_on [OF off(1)] sel_one_ok(3) [OF ok i assms(2)] by simp
qed

theorem drop_other_forgets_witness:
  "children_of (queryAnswered sample_sub ''A'' sample_start) ''A'' = Some [''a1'', ''a2''] \<and>
     (\<exists>s'. click_box 2 (delMediaSpanByParentCode ''B'' (queryAnswered sample_sub ''A'' sample_start)) = (None, s') \<and>
        children_of s' ''A'' = Some [''a3''])"
proof -
  let ?s = "queryAnswered sample_sub ''A'' sample_start"
  have "2 < length (cs_boxes ?s)" "children_of ?s ''A'' = Some [''a1'', ''a2'']"
    unfolding sample_query_answered by (simp_all add: children_of_def initMediaSelected_def new_selector_def add_selected_def)
  then show ?thesis
    using drop_other_forgets [OF sample_answered_ok, of 2 "''B''"] sample_sub_distinct by (auto simp: sample_sub_def)
qed

text \<open>
  The button that ticks all makes all children of the parent shown chosen, in the order of the boxes.
\<close>

theorem select_all:
  assumes "sel_ok sub d s" "distinct (sub d)" "cs_boxes s \<noteq> []"
  shows "children_of (selAll s) = (children_of s)(d \<mapsto> sub d) \<and> checked_codes (selAll s) = sub d"
proof -
  have n: "0 < length (cs_boxes s)" using assms(3) by simp
  have a: "sel_ok sub d (selAll s)" "length (cs_boxes (selAll s)) = length (cs_boxes s)"
      "\<forall>j < length (cs_boxes s). bx_checked (cs_boxes (selAll s) ! j)"
      "children_of (selAll s) = (children_of s)(d \<mapsto> checked_codes (selAll s))"
    using sel_some [OF assms(1) order_refl assms(2)] n unfolding selAll_def by blast+
  have "filter bx_checked (cs_boxes (selAll s)) = cs_boxes (selAll s)"
    using a(2,3) by (auto simp: filter_id_conv in_set_conv_nth)
  moreover have "map bx_code (cs_boxes (selAll s)) = sub d"
    using a(1,2) n by (auto simp: sel_ok_def boxes_ok_def)
  ultimately show ?thesis using a(4) by (simp add: checked_codes_def)
qed

theorem select_all_witness:
  "children_of (selAll (queryAnswered sample_sub ''A'' sample_start)) ''A'' = Some [''a1'', ''a2'', ''a3'']"
  using select_all [OF sample_answered_ok] sample_sub_distinct
  by (simp add: sample_query_answered) (simp add: sample_sub_def)

subsection \<open>Working with the children of one parent\<close>

text \<open>What the user can do with the children of \<open>d\<close> on the page: all steps but closing the label of another parent.\<close>

inductive own_step :: "string \<Rightarrow> selector \<Rightarrow> selector \<Rightarrow> bool" for d where
  own_click: "i < length (cs_boxes s) \<Longrightarrow> click_box i s = (e, s') \<Longrightarrow> own_step d s s'"
| own_all: "own_step d s (selAll s)"
| own_none: "own_step d s (cancelSelAll s)"
| own_drop: "own_step d s (delMediaSpanByParentCode d s)"

definition shows_chosen :: "(string \<Rightarrow> string list) \<Rightarrow> string \<Rightarrow> selector \<Rightarrow> bool" where
  "shows_chosen sub d s \<longleftrightarrow> sel_ok sub d s \<and> set (checked_codes s) = chosen_set s d"

lemma answer_shows: "store_ok sub s \<Longrightarrow> shows_chosen sub d (queryAnswered sub d s)"
proof -
  assume st: "store_ok sub s"
  have "set cs \<subseteq> set (sub d)" if "children_of s d = Some cs" for cs
    using st children_in [OF that] by (auto simp: store_ok_def entry_ok_def)
  then show ?thesis
    using answer_ok [OF st, of d] by (auto simp: shows_chosen_def chosen_set_def split: option.splits)
qed

lemma drop_shows: "sel_ok sub d s \<Longrightarrow> shows_chosen sub d (delMediaSpanByParentCode d s)"
  using drop_ok [of sub d s d] drop_store(2) [of sub s d]
  by (simp add: shows_chosen_def chosen_set_def sel_ok_def)
    (simp add: delMediaSpanByParentCode_def uncheck_all_def checked_codes_def filter_empty_conv)

lemma none_shows:
  assumes "shows_chosen sub d s" "d \<noteq> []"
  shows "shows_chosen sub d (cancelSelAll s)"
proof (cases "cs_boxes s = []")
  case True
  then show ?thesis using assms(1) by (cases s) (simp add: cancelSelAll_def uncheck_all_def)
next
  case False
  then have "bx_parent (last (cs_boxes s)) = d"
    using assms(1) last_in_set [OF False] by (auto simp: shows_chosen_def sel_ok_def boxes_ok_def)
  moreover have "sel_ok sub d (s\<lparr>cs_boxes := uncheck_all (cs_boxes s)\<rparr>)"
    using assms(1) boxes_uncheck by (simp add: shows_chosen_def sel_ok_def ticks_ok_def)
  ultimately show ?thesis using False assms(2) drop_shows by (simp add: cancelSelAll_def Let_def)
qed

lemma all_shows:
  assumes "shows_chosen sub d s" "distinct (sub d)"
  shows "shows_chosen sub d (selAll s)"
proof (cases "cs_boxes s = []")
  case True
  then show ?thesis using assms(1) by (simp add: selAll_def)
next
  case False
  then show ?thesis
    using select_all [of sub d s] all_ok [of sub d s] assms by (simp add: shows_chosen_def chosen_set_def)
qed

lemma own_shows:
  assumes "(own_step d)\<^sup>*\<^sup>* s t" "shows_chosen sub d s" "distinct (sub d)" "d \<noteq> []"
  shows "shows_chosen sub d t"
  using assms(1)
proof induction
  case (step t u)
  from step.hyps(2) step.IH show ?case
  proof cases
    case (own_click i e)
    then show ?thesis using click_exact [of sub d t i e u] step.IH assms(3) by (simp add: shows_chosen_def)
  qed (use step.IH all_shows none_shows drop_shows assms(3,4) in \<open>auto simp: shows_chosen_def\<close>)
qed (rule assms(2))

text \<open>
  C17: In a new form or one opened for editing, after any clicks: once the children of a parent \<open>d\<close> are shown, and as
  long as the user ticks and unticks boxes, ticks all or none or closes the label of \<open>d\<close>, but closes no label of another
  parent, the boxes ticked are the children chosen, and a click on a box adds its code to what is chosen of \<open>d\<close> or
  takes it away; what is chosen of the other parents stays.
\<close>

theorem click_chooses:
  assumes "\<forall>p. distinct (sub p)" "\<forall>p. num p = length (sub p)"
    and "distinct inputs" "\<forall>(p, c) \<in> set inputs. c \<in> set (sub p)"
    and "sel_reachable sub (initMediaSelected num inputs (new_selector options)) s" "d \<noteq> []"
    and "(own_step d)\<^sup>*\<^sup>* (queryAnswered sub d s) t" "i < length (cs_boxes t)"
  shows "set (checked_codes t) = chosen_set t d \<and> (\<exists>t'. click_box i t = (None, t') \<and>
     set (checked_codes t') = chosen_set t' d \<and>
     chosen_set t' = (chosen_set t)(d := (if bx_checked (cs_boxes t ! i) then chosen_set t d - {sub d ! i}
        else insert (sub d ! i) (chosen_set t d))))"
proof -
  have ds: "distinct (sub d)" using assms(1) by simp
  have "store_ok sub s"
    using reach_ok [OF assms(5) given_ok [OF assms(3,4,2)] assms(1)] by (auto simp: sel_ok_def)
  then have t: "shows_chosen sub d t" using own_shows [OF assms(7) answer_shows ds assms(6)] by blast
  then show ?thesis
    using click_exact [of sub d t i "fst (click_box i t)" "snd (click_box i t)"] ds assms(8)
    by (cases "click_box i t") (simp add: shows_chosen_def)
qed

lemma sample_given: "\<forall>(p, c) \<in> set [(''A'', ''a1''), (''B'', ''b1''), (''A'', ''a2'')]. c \<in> set (sample_sub p)"
  by (simp add: sample_sub_def)

text \<open>All children of \<open>A\<close> ticked, and the first one unticked again.\<close>

theorem click_chooses_witness:
  "chosen_set (snd (click_box 0 (selAll (queryAnswered sample_sub ''A'' sample_start)))) ''A'' = {''a2'', ''a3''}"
proof -
  let ?q = "queryAnswered sample_sub ''A'' sample_start"
  let ?t = "selAll ?q"
  have len: "0 < length (cs_boxes ?t)" and on: "bx_checked (cs_boxes ?t ! 0)"
    using sel_some [OF sample_answered_ok order_refl] sample_sub_distinct
    by (simp_all add: selAll_def sample_query_answered)
  have all: "chosen_set ?t ''A'' = {''a1'', ''a2'', ''a3''}"
    using select_all [OF sample_answered_ok] sample_sub_distinct
    by (simp add: sample_query_answered chosen_set_def) (simp add: sample_sub_def)
  have reach: "sel_reachable sample_sub sample_start sample_start" by (simp add: sel_reachable_def)
  have own: "(own_step ''A'')\<^sup>*\<^sup>* ?q ?t" using own_all by blast
  obtain t where "click_box 0 ?t = (None, t)" "chosen_set t = (chosen_set ?t)(''A'' := (if bx_checked (cs_boxes ?t ! 0)
      then chosen_set ?t ''A'' - {sample_sub ''A'' ! 0} else insert (sample_sub ''A'' ! 0) (chosen_set ?t ''A'')))"
    using click_chooses [OF sample_sub_distinct _ _ sample_given reach _ own len] by auto
  then show ?thesis using all on by (auto simp: sample_sub_def)
qed

lemma join_on_join_on: "\<forall>xs \<in> set xss. xs \<noteq> [] \<Longrightarrow> join_on c (map (join_on c) xss) = join_on c (concat xss)"
proof (induction xss rule: induct_list012)
  case (3 xs ys zs)
  have app: "join_on c (us @ vs) = join_on c us @ c # join_on c vs" if "us \<noteq> []" "vs \<noteq> []" for us vs
    using that by (induction us rule: induct_list012) (auto simp: neq_Nil_conv)
  from 3 show ?case by (simp add: app)
qed simp_all

text \<open>The codes chosen, in the order of the array; the text in the hidden field is these.\<close>

definition chosen_codes :: "selector \<Rightarrow> string list" where
  "chosen_codes s = concat (map ce_children (cs_arr s))"

lemma codes_join: "\<forall>e \<in> set (cs_arr s). ce_children e \<noteq> [] \<Longrightarrow> getMediaCategoryCodes s = join_on CHR '','' (chosen_codes s)"
  using join_on_join_on [of "map ce_children (cs_arr s)" "CHR '',''"]
  by (simp add: getMediaCategoryCodes_def chosen_codes_def comp_def)

definition plain_entries :: "selector \<Rightarrow> bool" where
  "plain_entries s \<longleftrightarrow> (\<forall>e \<in> set (cs_arr s). ce_children e \<noteq> [] \<and> (\<forall>c \<in> set (ce_children e). plain_code c))"

interpretation cats: coded_field chosen_codes getMediaCategoryCodes plain_entries
  by unfold_locales (auto simp: codes_join plain_entries_def chosen_codes_def)

lemma reachable_plain:
  assumes "sel_reachable sub (new_selector options) s" "\<forall>p. distinct (sub p) \<and> (\<forall>c \<in> set (sub p). plain_code c)"
  shows "plain_entries s"
proof -
  obtain d where "sel_ok sub d s" using reach_ok [OF assms(1) new_ok] assms(2) by blast
  then have "\<forall>e \<in> set (cs_arr s). ce_children e \<noteq> [] \<and> set (ce_children e) \<subseteq> set (sub (ce_parent e))"
    by (simp add: sel_ok_def store_ok_def entry_ok_def)
  then show ?thesis unfolding plain_entries_def using assms(2) by blast
qed

text \<open>
  The text sent to the server names exactly the chosen codes: cut at the commas it is the list of the children
  of all parents, in the order of the array.
\<close>

theorem category_codes_read_back:
  assumes "cs_arr s \<noteq> []" "\<forall>e \<in> set (cs_arr s). ce_children e \<noteq> [] \<and> (\<forall>c \<in> set (ce_children e). CHR '','' \<notin> set c)"
  shows "split_on CHR '','' (getMediaCategoryCodes s) = concat (map ce_children (cs_arr s))"
proof -
  have "chosen_codes s \<noteq> []" using assms by (cases "cs_arr s") (auto simp: chosen_codes_def)
  then show ?thesis
    using codes_join [of s] split_join [of "chosen_codes s"] assms(2) by (auto simp: chosen_codes_def)
qed

theorem category_codes_read_back_witness:
  "split_on CHR '','' (getMediaCategoryCodes sample_start) = [''b1'', ''a1'', ''a2'']"
proof -
  have a: "cs_arr sample_start = [\<lparr>ce_parent = ''B'', ce_children = [''b1'']\<rparr>, \<lparr>ce_parent = ''A'', ce_children = [''a1'', ''a2'']\<rparr>]"
    by (simp add: initMediaSelected_def new_selector_def add_selected_def)
  show ?thesis using category_codes_read_back [of sample_start] unfolding a by simp
qed

end
