(* ===== verification/JsRegex.thy ===== *)
theory JsRegex
  imports JsText
begin

section \<open>Anchored regular expressions\<close>

text \<open>
  The forms test texts with expressions anchored at both ends, \<open>/^r$/.test(s)\<close>: true exactly if the whole
  text is matched. The expressions have classes of characters, alternatives, sequences and repetitions.
  \<open>re_test\<close> decides by derivatives, so that it evaluates; \<open>in_re\<close> is the reference: what an expression
  matches, by rules.
\<close>

datatype 'a re = RFail | REps | RCls "'a \<Rightarrow> bool" | RAlt "'a re" "'a re" | RCat "'a re" "'a re" | RStar "'a re"

abbreviation r_opt :: "'a re \<Rightarrow> 'a re" where
  "r_opt r \<equiv> RAlt REps r"

abbreviation r_plus :: "'a re \<Rightarrow> 'a re" where
  "r_plus r \<equiv> RCat r (RStar r)"

abbreviation r_chr :: "'a \<Rightarrow> 'a re" where
  "r_chr c \<equiv> RCls (\<lambda>x. x = c)"

fun r_text :: "'a list \<Rightarrow> 'a re" where
  "r_text [] = REps"
| "r_text (c # s) = RCat (r_chr c) (r_text s)"

text \<open>\<open>r{n}\<close> and \<open>r{m,n}\<close> for \<open>n = m + k\<close>.\<close>

fun r_times :: "nat \<Rightarrow> 'a re \<Rightarrow> 'a re" where
  "r_times 0 r = REps"
| "r_times (Suc n) r = RCat r (r_times n r)"

fun r_upto :: "nat \<Rightarrow> 'a re \<Rightarrow> 'a re" where
  "r_upto 0 r = REps"
| "r_upto (Suc n) r = r_opt (RCat r (r_upto n r))"

abbreviation r_between :: "nat \<Rightarrow> nat \<Rightarrow> 'a re \<Rightarrow> 'a re" where
  "r_between m k r \<equiv> RCat (r_times m r) (r_upto k r)"

subsection \<open>The matcher\<close>

fun nullable :: "'a re \<Rightarrow> bool" where
  "nullable RFail = False"
| "nullable REps = True"
| "nullable (RCls P) = False"
| "nullable (RAlt r t) = (nullable r \<or> nullable t)"
| "nullable (RCat r t) = (nullable r \<and> nullable t)"
| "nullable (RStar r) = True"

text \<open>Alternatives and sequences without the parts that match nothing or only the empty text.\<close>

fun alt :: "'a re \<Rightarrow> 'a re \<Rightarrow> 'a re" where
  "alt RFail t = t"
| "alt r RFail = r"
| "alt r t = RAlt r t"

fun cat :: "'a re \<Rightarrow> 'a re \<Rightarrow> 'a re" where
  "cat RFail t = RFail"
| "cat REps t = t"
| "cat r t = RCat r t"

fun after :: "'a \<Rightarrow> 'a re \<Rightarrow> 'a re" where
  "after c RFail = RFail"
| "after c REps = RFail"
| "after c (RCls P) = (if P c then REps else RFail)"
| "after c (RAlt r t) = alt (after c r) (after c t)"
| "after c (RCat r t) = (if nullable r then alt (cat (after c r) t) (after c t) else cat (after c r) t)"
| "after c (RStar r) = cat (after c r) (RStar r)"

definition re_test :: "'a re \<Rightarrow> 'a list \<Rightarrow> bool" where
  "re_test r s = nullable (fold after s r)"

subsection \<open>The reference\<close>

inductive in_re :: "'a list \<Rightarrow> 'a re \<Rightarrow> bool" where
  Eps: "in_re [] REps"
| Cls: "P c \<Longrightarrow> in_re [c] (RCls P)"
| AltL: "in_re s r \<Longrightarrow> in_re s (RAlt r t)"
| AltR: "in_re s t \<Longrightarrow> in_re s (RAlt r t)"
| Cat: "in_re s r \<Longrightarrow> in_re s' t \<Longrightarrow> in_re (s @ s') (RCat r t)"
| Star0: "in_re [] (RStar r)"
| StarS: "in_re s r \<Longrightarrow> in_re s' (RStar r) \<Longrightarrow> in_re (s @ s') (RStar r)"

inductive_simps in_re_simps [simp]:
  "in_re s RFail"
  "in_re s REps"
  "in_re s (RCls P)"
  "in_re s (RAlt r t)"

inductive_simps in_re_Cat: "in_re s (RCat r t)"

inductive_cases in_re_StarE: "in_re s (RStar r)"

lemma in_re_nullable: "in_re [] r \<longleftrightarrow> nullable r"
  by (induction r) (auto simp: in_re_Cat intro: in_re.intros)

lemma in_re_alt: "in_re s (alt r t) \<longleftrightarrow> in_re s (RAlt r t)"
  by (induction r t rule: alt.induct) auto

lemma in_re_cat: "in_re s (cat r t) \<longleftrightarrow> in_re s (RCat r t)"
  by (induction r t rule: cat.induct) (auto simp: in_re_Cat)

lemma in_re_Cat_Cons:
  "in_re (c # s) (RCat r t) \<longleftrightarrow>
     (\<exists>u v. s = u @ v \<and> in_re (c # u) r \<and> in_re v t) \<or> nullable r \<and> in_re (c # s) t"
proof
  assume "in_re (c # s) (RCat r t)"
  then obtain u v where uv: "c # s = u @ v" "in_re u r" "in_re v t" by (auto simp: in_re_Cat)
  then show "(\<exists>u v. s = u @ v \<and> in_re (c # u) r \<and> in_re v t) \<or> nullable r \<and> in_re (c # s) t"
    by (cases u) (auto simp: in_re_nullable)
next
  assume "(\<exists>u v. s = u @ v \<and> in_re (c # u) r \<and> in_re v t) \<or> nullable r \<and> in_re (c # s) t"
  then show "in_re (c # s) (RCat r t)"
    using Cat [of _ r] in_re_nullable [of r] by (metis append_Cons append_Nil)
qed

lemma in_re_Star_Cons:
  "in_re (c # s) (RStar r) \<longleftrightarrow> (\<exists>u v. s = u @ v \<and> in_re (c # u) r \<and> in_re v (RStar r))"
proof
  have "in_re w (RStar r) \<Longrightarrow> w = c # s \<Longrightarrow> \<exists>u v. s = u @ v \<and> in_re (c # u) r \<and> in_re v (RStar r)" for w
  proof (induction w "RStar r" rule: in_re.induct)
    case (StarS u v)
    show ?case by (cases u) (use StarS in auto)
  qed simp
  then show "in_re (c # s) (RStar r) \<Longrightarrow> \<exists>u v. s = u @ v \<and> in_re (c # u) r \<and> in_re v (RStar r)"
    by simp
next
  assume "\<exists>u v. s = u @ v \<and> in_re (c # u) r \<and> in_re v (RStar r)"
  then show "in_re (c # s) (RStar r)" by (metis StarS append_Cons)
qed

lemma in_re_after: "in_re s (after c r) \<longleftrightarrow> in_re (c # s) r"
proof (induction r arbitrary: s)
  case (RCat r t)
  have "in_re s (after c (RCat r t)) \<longleftrightarrow>
      (\<exists>u v. s = u @ v \<and> in_re u (after c r) \<and> in_re v t) \<or> nullable r \<and> in_re s (after c t)"
    by (auto simp: in_re_alt in_re_cat in_re_Cat)
  then show ?case by (simp add: RCat.IH in_re_Cat_Cons)
next
  case (RStar r)
  have "in_re s (after c (RStar r)) \<longleftrightarrow> (\<exists>u v. s = u @ v \<and> in_re u (after c r) \<and> in_re v (RStar r))"
    by (auto simp: in_re_cat in_re_Cat)
  then show ?case by (simp add: RStar.IH in_re_Star_Cons)
qed (auto simp: in_re_alt)

theorem re_test_in_re: "re_test r s \<longleftrightarrow> in_re s r"
  by (induction s arbitrary: r) (simp_all add: re_test_def in_re_nullable in_re_after)

subsection \<open>Repeated classes and texts\<close>

lemma in_re_Star_Cls [simp]: "in_re s (RStar (RCls P)) \<longleftrightarrow> (\<forall>c \<in> set s. P c)"
proof (induction s)
  case (Cons c s)
  have "in_re (c # s) (RStar (RCls P)) \<longleftrightarrow> P c \<and> in_re s (RStar (RCls P))"
    by (simp add: in_re_Star_Cons)
  with Cons show ?case by simp
qed (simp add: Star0)

lemma in_re_Cat_Cls [simp]: "in_re s (RCat (RCls P) r) \<longleftrightarrow> (\<exists>c u. s = c # u \<and> P c \<and> in_re u r)"
  unfolding in_re_Cat in_re_simps by (metis append_Cons append_Nil)

lemma in_re_Cat_Eps [simp]: "in_re s (RCat REps r) \<longleftrightarrow> in_re s r"
  by (auto simp: in_re_Cat)

lemma in_re_Cat_Alt: "in_re s (RCat (RAlt r r') t) \<longleftrightarrow> in_re s (RCat r t) \<or> in_re s (RCat r' t)"
  by (auto simp: in_re_Cat)

lemma in_re_Cat_assoc: "in_re s (RCat (RCat r t) t') \<longleftrightarrow> in_re s (RCat r (RCat t t'))"
  by (simp add: in_re_Cat) (metis append.assoc)

lemma in_re_plus_Cls: "in_re s (r_plus (RCls P)) \<longleftrightarrow> s \<noteq> [] \<and> (\<forall>c \<in> set s. P c)"
  by (cases s) auto

lemma in_re_text [simp]: "in_re s (r_text t) \<longleftrightarrow> s = t"
  by (induction t arbitrary: s) auto

lemma in_re_Cat_text: "in_re s (RCat (r_text t) r) \<longleftrightarrow> (\<exists>u. s = t @ u \<and> in_re u r)"
  by (auto simp: in_re_Cat)

lemma in_re_times_Cls: "in_re s (r_times n (RCls P)) \<longleftrightarrow> length s = n \<and> (\<forall>c \<in> set s. P c)"
  by (induction n arbitrary: s) (auto simp: length_Suc_conv)

lemma in_re_upto_Cls: "in_re s (r_upto n (RCls P)) \<longleftrightarrow> length s \<le> n \<and> (\<forall>c \<in> set s. P c)"
proof (induction n arbitrary: s)
  case (Suc n)
  then show ?case by (cases s) auto
qed auto

end
