(* ===== verification/PlanCheck.thy ===== *)
theory PlanCheck
  imports JsCommand JsRegex JsDate
begin

section \<open>The checks of the ad plan forms\<close>

text \<open>
  What \<open>adplanAdd.jsp\<close> and \<open>adplanEdit.jsp\<close> do with the fields of a plan before it is saved: the handlers that
  look at a field when it is left, the daily limit and the limit per minute that follows from it, the kind of
  link, the key words, and \<open>checkInput_adplan\<close>, which decides whether the form is submitted. The two pages
  share most of this code; where they differ, a definition takes the page or has two versions.
\<close>

subsection \<open>State\<close>

datatype plan_form = AddForm | EditForm

datatype field =
  AdName | StartTime | EndTime | DayLimit | MinLimit | UidImpressNum | UidIpNum | UnitPrice | LinkType | ThrowUrl |
  JsContent | AdMaterialIds | KeyWd | KwFilePath | KwFileName | IsUniform

datatype tip =
  AdNameTip | StartTimeTip | EndTimeTip | EsTimeTip | UnitPriceTip | DayLimitTip | MinLimitTip | UidImpressTip |
  UidIpTip | ThrowUrlTip | JsContentTip | MaterialTip | KeywordTip

datatype message = Missing | Illegal | EndEarly | ZeroLimit

datatype plan_alert = BothKeywords | KeywordType | KeywordExists | NotANumber

text \<open>The expressions the variable \<open>regx\<close> holds, and the fixed one for prices.\<close>

datatype int_regx = PlusDigits | PlusAnyDigits | SignDigits

definition int_re :: "int_regx \<Rightarrow> char re" where
  "int_re x = (case x of
       PlusDigits \<Rightarrow> RCat (r_opt (r_chr CHR ''+'')) (r_plus (RCls is_digit))
     | PlusAnyDigits \<Rightarrow> RCat (r_opt (r_chr CHR ''+'')) (RStar (RCls is_digit))
     | SignDigits \<Rightarrow> RCat (r_opt (RAlt (r_chr CHR ''+'') (r_chr CHR ''-''))) (r_plus (RCls is_digit)))"

definition price_re :: "char re" where
  "price_re = RCat (r_plus (RCls is_digit)) (r_opt (RCat (r_chr CHR ''.'') (r_between 1 1 (RCls is_digit))))"

text \<open>
  The values of the fields, the tips (a text and whether it is shown), the groups of the page with the class
  \<open>error\<close>, each named by a tip in it, the kind of link shown (\<open>#linkType1\<close> to \<open>#linkType3\<close>), whether the limit per
  minute may be edited, the global \<open>regx\<close>, where a selector's first element stands on the page, where the page
  scrolls to, and the alerts.
\<close>

record plan_page =
  pf_val :: "field \<Rightarrow> string"
  pf_text :: "tip \<Rightarrow> message option"
  pf_shown :: "tip \<Rightarrow> bool"
  pf_error :: "tip \<Rightarrow> bool"
  pf_link :: nat
  pf_readonly :: bool
  pf_checked :: bool
  pf_regx :: int_regx
  pf_offset :: "string \<Rightarrow> int option"
  pf_scroll :: "int option"
  pf_alerts :: "plan_alert list"

text \<open>The element a tip's handlers mark: the tips of the end and of the order of the dates are in one group.\<close>

definition group_of :: "tip \<Rightarrow> tip" where
  "group_of t = (if t = EsTimeTip then EndTimeTip else t)"

definition setVal :: "field \<Rightarrow> string \<Rightarrow> plan_page \<Rightarrow> plan_page" where
  "setVal f v p = p\<lparr>pf_val := (pf_val p)(f := v)\<rparr>"

definition set_tip :: "tip \<Rightarrow> message \<Rightarrow> plan_page \<Rightarrow> plan_page" where
  "set_tip t m p = p\<lparr>pf_text := (pf_text p)(t := Some m)\<rparr>"

definition mark_tip :: "tip \<Rightarrow> plan_page \<Rightarrow> plan_page" where
  "mark_tip t p = p\<lparr>pf_error := (pf_error p)(group_of t := True)\<rparr>"

definition show_tip :: "tip \<Rightarrow> plan_page \<Rightarrow> plan_page" where
  "show_tip t p = p\<lparr>pf_shown := (pf_shown p)(t := True)\<rparr>"

definition clear_tip :: "tip \<Rightarrow> plan_page \<Rightarrow> plan_page" where
  "clear_tip t p = p\<lparr>pf_error := (pf_error p)(group_of t := False), pf_shown := (pf_shown p)(t := False)\<rparr>"

definition plan_notice :: "plan_alert \<Rightarrow> plan_page \<Rightarrow> plan_page" where
  "plan_notice a p = p\<lparr>pf_alerts := pf_alerts p @ [a]\<rparr>"

definition raise_tip :: "tip \<Rightarrow> message \<Rightarrow> plan_page \<Rightarrow> plan_page" where
  "raise_tip t m p = show_tip t (mark_tip t (set_tip t m p))"

lemmas page_ops = setVal_def set_tip_def mark_tip_def show_tip_def clear_tip_def plan_notice_def raise_tip_def

abbreviation trimmed :: "field \<Rightarrow> plan_page \<Rightarrow> string" where
  "trimmed f p \<equiv> trim (pf_val p f)"

definition regx_test :: "plan_page \<Rightarrow> string \<Rightarrow> bool" where
  "regx_test p s = re_test (int_re (pf_regx p)) s"

definition price_test :: "string \<Rightarrow> bool" where
  "price_test s = re_test price_re s"

subsection \<open>The limit per minute\<close>

text \<open>
  \<open>parseInt(parseInt(d) / 600)\<close>, written into the field: the quotient towards 0. The numbers are the model's
  integers, which agree with the doubles of the script below $2^{53}$.
\<close>

definition minute_limit :: "string \<Rightarrow> int option" where
  "minute_limit d =
     (case parse_int d of None \<Rightarrow> None | Some n \<Rightarrow> Some (if n < 0 then - (- n div 600) else n div 600))"

definition number_text :: "int option \<Rightarrow> string" where
  "number_text n = (case n of None \<Rightarrow> ''NaN''
     | Some i \<Rightarrow> if i < 0 then ''-'' @ dec_of_nat (nat (- i)) else dec_of_nat (nat i))"

text \<open>
  \<open>s == 0\<close> for a text of a sign and digits: the text is a number, 0 if it is blank, and \<open>NaN\<close> if digits are
  missing.
\<close>

definition equals_zero :: "string \<Rightarrow> bool" where
  "equals_zero s =
     (let t = trim s; ds = (case t of c # r \<Rightarrow> if c \<in> {CHR ''+'', CHR ''-''} then r else t | [] \<Rightarrow> []) in
      t = [] \<or> ds \<noteq> [] \<and> (\<forall>c \<in> set ds. c = CHR ''0''))"

text \<open>A click on the box \<open>isUniform\<close>; \<open>data\<close> is its new state.\<close>

definition checked_isUniform :: "plan_form \<Rightarrow> bool \<Rightarrow> plan_page \<Rightarrow> plan_page" where
  "checked_isUniform frm data p =
     (let dayLimit = pf_val p DayLimit; minLimit = minute_limit dayLimit; bad = \<not> regx_test p (trim dayLimit) in
      if data then
        let q = p\<lparr>pf_readonly := False, pf_checked := True\<rparr>;
            q' = (case frm of
                    AddForm \<Rightarrow> if trim dayLimit = [] \<or> bad then setVal MinLimit ''0'' q
                               else setVal MinLimit (number_text minLimit) q
                  | EditForm \<Rightarrow> if trim dayLimit = [] \<and> bad then plan_notice NotANumber (setVal MinLimit ''0'' q)
                                else setVal MinLimit (number_text minLimit) q)
        in setVal IsUniform ''1'' (clear_tip MinLimitTip q')
      else
        clear_tip MinLimitTip
          (setVal MinLimit ''0'' (setVal IsUniform ''0'' (p\<lparr>pf_checked := False, pf_readonly := True\<rparr>))))"

definition isUniform_checked_ModifyMinLimit :: "plan_page \<Rightarrow> plan_page" where
  "isUniform_checked_ModifyMinLimit p =
     (if equals_zero (pf_val p IsUniform) then setVal MinLimit ''0'' (p\<lparr>pf_readonly := True\<rparr>)
      else clear_tip MinLimitTip
             (setVal MinLimit (number_text (minute_limit (pf_val p DayLimit))) (p\<lparr>pf_readonly := False\<rparr>)))"

subsection \<open>Handlers of the fields\<close>

text \<open>The handlers of \<open>focus\<close>; the edit page has none for the limit per minute.\<close>

definition field_focus :: "plan_form \<Rightarrow> field \<Rightarrow> plan_page \<Rightarrow> plan_page" where
  "field_focus frm f p = (case f of
       ThrowUrl \<Rightarrow> clear_tip ThrowUrlTip p
     | JsContent \<Rightarrow> clear_tip JsContentTip p
     | StartTime \<Rightarrow> clear_tip EsTimeTip (clear_tip StartTimeTip p)
     | EndTime \<Rightarrow> clear_tip EsTimeTip (clear_tip EndTimeTip p)
     | AdName \<Rightarrow> clear_tip AdNameTip p
     | DayLimit \<Rightarrow> clear_tip DayLimitTip p
     | MinLimit \<Rightarrow> (case frm of AddForm \<Rightarrow> clear_tip MinLimitTip p | EditForm \<Rightarrow> p)
     | UidImpressNum \<Rightarrow> clear_tip UidImpressTip p
     | UidIpNum \<Rightarrow> clear_tip UidIpTip p
     | UnitPrice \<Rightarrow> clear_tip UnitPriceTip p
     | KeyWd \<Rightarrow> clear_tip KeywordTip p
     | _ \<Rightarrow> p)"

text \<open>The handlers of \<open>focusout\<close>: of a text that must not be blank, of a number, and of the two limits.\<close>

definition leave_text :: "field \<Rightarrow> tip \<Rightarrow> plan_page \<Rightarrow> plan_page" where
  "leave_text f t p = (if trimmed f p = [] then raise_tip t Missing p else p)"

definition leave_number :: "field \<Rightarrow> tip \<Rightarrow> plan_page \<Rightarrow> plan_page" where
  "leave_number f t p =
     (if trimmed f p = [] then raise_tip t Missing p
      else if \<not> regx_test p (trimmed f p) then raise_tip t Illegal p else p)"

definition leave_price :: "plan_page \<Rightarrow> plan_page" where
  "leave_price p =
     (if trimmed UnitPrice p = [] then raise_tip UnitPriceTip Missing p
      else if \<not> price_test (trimmed UnitPrice p) then raise_tip UnitPriceTip Illegal p else p)"

definition leave_dayLimit :: "plan_page \<Rightarrow> plan_page" where
  "leave_dayLimit p =
     (if trimmed DayLimit p = [] then clear_tip MinLimitTip (setVal MinLimit ''0'' (raise_tip DayLimitTip Missing p))
      else if \<not> regx_test p (trimmed DayLimit p)
      then clear_tip MinLimitTip (setVal MinLimit ''0'' (raise_tip DayLimitTip Illegal p))
      else isUniform_checked_ModifyMinLimit p)"

definition leave_minLimit :: "plan_page \<Rightarrow> plan_page" where
  "leave_minLimit p =
     (if trimmed MinLimit p = [] then raise_tip MinLimitTip Missing p
      else if \<not> regx_test p (trimmed MinLimit p) then raise_tip MinLimitTip Illegal p
      else clear_tip MinLimitTip p)"

definition field_leave :: "plan_form \<Rightarrow> field \<Rightarrow> plan_page \<Rightarrow> plan_page" where
  "field_leave frm f p = (case f of
       ThrowUrl \<Rightarrow> leave_text ThrowUrl ThrowUrlTip p
     | JsContent \<Rightarrow> leave_text JsContent JsContentTip p
     | AdName \<Rightarrow> leave_text AdName AdNameTip p
     | DayLimit \<Rightarrow> leave_dayLimit p
     | MinLimit \<Rightarrow> (case frm of AddForm \<Rightarrow> p | EditForm \<Rightarrow> leave_minLimit p)
     | UidImpressNum \<Rightarrow> leave_number UidImpressNum UidImpressTip p
     | UidIpNum \<Rightarrow> leave_number UidIpNum UidIpTip p
     | UnitPrice \<Rightarrow> leave_price p
     | _ \<Rightarrow> p)"

text \<open>The tabs for the kind of link, and the two buttons of the key words.\<close>

definition link_click :: "nat \<Rightarrow> plan_page \<Rightarrow> plan_page" where
  "link_click n p =
     setVal LinkType (if n = 1 then ''M'' else if n = 2 then ''E'' else ''J'') (p\<lparr>pf_link := n\<rparr>)"

definition cancelupload :: "plan_page \<Rightarrow> plan_page" where
  "cancelupload p = setVal KwFilePath [] (setVal KwFileName [] p)"

definition clearkw :: "plan_page \<Rightarrow> plan_page" where
  "clearkw p = setVal KeyWd [] p"


subsection \<open>The check before a plan is saved\<close>

text \<open>
  The check runs on the page and the local \<open>flag\<close>. \<open>moveHtml\<close> scrolls to an element: it is given an id on the
  page for new plans and a selector on the page for editing; \<open>offset()\<close> of nothing has no \<open>top\<close>.
\<close>

type_synonym plan_check = "plan_page \<times> bool"

definition moveHtml :: "plan_form \<Rightarrow> string \<Rightarrow> plan_check cmd" where
  "moveHtml frm i = (\<lambda>(p, flag).
     case pf_offset p (case frm of AddForm \<Rightarrow> CHR ''#'' # i | EditForm \<Rightarrow> i) of
       None \<Rightarrow> (Some TypeError, (p, flag))
     | Some y \<Rightarrow> (None, (p\<lparr>pf_scroll := Some y\<rparr>, flag)))"

definition onPage :: "(plan_page \<Rightarrow> plan_page) \<Rightarrow> plan_check cmd" where
  "onPage f = (\<lambda>(p, flag). (None, (f p, flag)))"

definition fail_check :: "plan_check cmd" where
  "fail_check = (\<lambda>(p, flag). (None, (p, False)))"

definition complain :: "plan_form \<Rightarrow> (plan_page \<Rightarrow> plan_page) \<Rightarrow> string \<Rightarrow> plan_check cmd" where
  "complain frm tell i = andthen (onPage tell) (andthen (moveHtml frm i) fail_check)"

text \<open>
  The handler of the server for \<open>/adplan/checkkw\<close>: \<open>files\<close> are the names of the files uploaded, \<open>row\<close> is the
  row of the plan, with its file name. \<open>None\<close> is an exception, for which \<open>success\<close> is not called.
\<close>

definition checkkw :: "(string \<Rightarrow> bool) \<Rightarrow> string option option \<Rightarrow> string \<Rightarrow> string \<Rightarrow> string option" where
  "checkkw files row type kwfilename =
     (if type = ''1'' \<and> files kwfilename then Some ''0''
      else if type = ''2'' then
        (case row of None \<Rightarrow> None
         | Some keyWd \<Rightarrow> if files kwfilename \<and> keyWd \<noteq> Some kwfilename then Some ''0'' else Some ''2'')
      else Some ''2'')"

definition keywords_of :: "plan_page \<Rightarrow> string" where
  "keywords_of p = filter (\<lambda>c. c \<noteq> CHR 0x0D \<and> c \<noteq> CHR 0x0A) (pf_val p KeyWd)"

text \<open>The upload of key words; \<open>ask\<close> is the request to the server, which the script waits for.\<close>

definition check_file :: "(string \<Rightarrow> string option) \<Rightarrow> plan_check cmd" where
  "check_file ask = (\<lambda>(p, flag).
     let path = pf_val p KwFilePath; ext = js_get (split_on CHR ''.'' path) 1 in
     if trim path = [] then (None, (p, flag))
     else if ext \<noteq> Some ''txt'' then (None, (plan_notice KeywordType p, False))
     else (case ask path of
             None \<Rightarrow> (None, (p, flag))
           | Some data \<Rightarrow> if data = ''0'' then (None, (plan_notice KeywordExists p, False))
                          else (None, (setVal KwFileName path p, flag))))"

definition check_keywords :: "plan_form \<Rightarrow> (string \<Rightarrow> string option) \<Rightarrow> plan_check cmd" where
  "check_keywords frm ask = (\<lambda>(p, flag).
     let keywords = keywords_of p; path = pf_val p KwFilePath;
         both = keywords \<noteq> [] \<and> (path \<noteq> [] \<or> frm = EditForm \<and> pf_val p KwFileName \<noteq> [])
     in if both then (None, (plan_notice BothKeywords p, False))
        else if keywords = [] \<and> path \<noteq> [] then check_file ask (p, flag)
        else (None, (p, flag)))"

definition clear_dates :: "plan_page \<Rightarrow> plan_page" where
  "clear_dates p =
     (let start = trimmed StartTime p; endd = trimmed EndTime p;
          p1 = (if start \<noteq> [] then clear_tip StartTimeTip p else p);
          p2 = (if endd \<noteq> [] then clear_tip EndTimeTip p1 else p1)
      in if \<not> str_less endd start then clear_tip EsTimeTip p2 else p2)"

definition check_number :: "plan_form \<Rightarrow> field \<Rightarrow> tip \<Rightarrow> string \<Rightarrow> plan_check cmd \<Rightarrow> plan_check cmd" where
  "check_number frm f t i rest = (\<lambda>(p, flag).
     if trimmed f p = [] then complain frm (raise_tip t Missing) i (p, flag)
     else if \<not> regx_test p (trimmed f p) then complain frm (raise_tip t Illegal) i (p, flag)
     else rest (p, flag))"

definition check_text :: "plan_form \<Rightarrow> field \<Rightarrow> (plan_page \<Rightarrow> plan_page) \<Rightarrow> string \<Rightarrow> plan_check cmd \<Rightarrow> plan_check cmd" where
  "check_text frm f tell i rest = (\<lambda>(p, flag).
     if trimmed f p = [] then complain frm tell i (p, flag) else rest (p, flag))"

text \<open>The text for a price that is no price goes to \<open>#unitPriceTipss\<close>, an id no element has.\<close>

definition check_price :: "plan_form \<Rightarrow> string \<Rightarrow> plan_check cmd \<Rightarrow> plan_check cmd" where
  "check_price frm i rest =
     check_text frm UnitPrice (raise_tip UnitPriceTip Missing) i
       (\<lambda>(p, flag). if \<not> price_test (trimmed UnitPrice p)
                    then complain frm (\<lambda>p. show_tip UnitPriceTip (mark_tip UnitPriceTip p)) i (p, flag)
                    else rest (p, flag))"

text \<open>The name and the dates; the order of the dates is that of the texts as they are.\<close>

definition check_basics :: "plan_form \<Rightarrow> string \<Rightarrow> string \<Rightarrow> plan_check cmd \<Rightarrow> plan_check cmd" where
  "check_basics frm i j rest =
     check_text frm AdName (raise_tip AdNameTip Missing) i
       (check_text frm StartTime (raise_tip StartTimeTip Missing) j
         (check_text frm EndTime (raise_tip EndTimeTip Missing) j
           (\<lambda>(p, flag). if str_less (pf_val p EndTime) (pf_val p StartTime)
                        then complain frm (raise_tip EsTimeTip EndEarly) j (p, flag) else rest (p, flag))))"

text \<open>The content, by the kind of link: \<open>e\<close>, \<open>m\<close>, \<open>j\<close> are where to scroll.\<close>

definition check_content :: "plan_form \<Rightarrow> string \<Rightarrow> string \<Rightarrow> string \<Rightarrow> plan_check cmd" where
  "check_content frm e m j = (\<lambda>(p, flag).
     if pf_val p LinkType = ''E'' then check_text frm ThrowUrl (raise_tip ThrowUrlTip Missing) e skip (p, flag)
     else if pf_val p LinkType = ''M''
     then check_text frm AdMaterialIds (\<lambda>p. show_tip MaterialTip (set_tip MaterialTip Missing p)) m skip (p, flag)
     else if pf_val p LinkType = ''J''
     then check_text frm JsContent (raise_tip JsContentTip Missing) j skip (p, flag)
     else (None, (p, flag)))"

definition check_fields_add :: "plan_check cmd" where
  "check_fields_add =
     andthen (check_number AddForm UidIpNum UidIpTip ''uidIpNum'' skip)
       (check_number AddForm UidImpressNum UidImpressTip ''namePOS1''
         (check_price AddForm ''namePOS''
           (check_basics AddForm ''namePOS'' ''namePOS''
             (check_number AddForm DayLimit DayLimitTip ''namePOS''
               (\<lambda>(p, flag). if equals_zero (pf_val p DayLimit)
                            then complain AddForm (raise_tip DayLimitTip ZeroLimit) ''namePOS'' (p, flag)
                            else check_content AddForm ''throwUrlPOS'' ''linkType1'' ''jsContentPOS'' (p, flag))))))"

definition startTime_sel :: string where
  "startTime_sel = ''#adInstanceDto'' @ [CHR 0x5C] @ ''.startTime''"

definition adName_sel :: string where
  "adName_sel = ''#adInstanceDto'' @ [CHR 0x5C] @ ''.adName''"

definition check_fields_edit :: "plan_check cmd" where
  "check_fields_edit =
     andthen (check_number EditForm UidIpNum UidIpTip ''uidIpNumPos'' skip)
       (check_number EditForm UidImpressNum UidImpressTip ''uidImpressNumPos''
         (check_basics EditForm adName_sel startTime_sel
           (check_price EditForm startTime_sel
             (check_number EditForm DayLimit DayLimitTip startTime_sel
               (check_number EditForm MinLimit MinLimitTip ''#namePOS1''
                 (check_content EditForm ''#linkType2'' ''#linkType1'' ''jsContentPOS''))))))"

text \<open>The result is \<open>flag\<close>, unless an error stops the check.\<close>

definition checkInput_adplan :: "plan_form \<Rightarrow> (string \<Rightarrow> string option) \<Rightarrow> plan_page \<Rightarrow> bool res \<times> plan_page" where
  "checkInput_adplan frm ask p =
     (let p0 = p\<lparr>pf_regx := (case frm of AddForm \<Rightarrow> PlusAnyDigits | EditForm \<Rightarrow> SignDigits)\<rparr>;
          checks = block [check_keywords frm ask, onPage clear_dates,
                          (case frm of AddForm \<Rightarrow> check_fields_add | EditForm \<Rightarrow> check_fields_edit)]
      in case checks (p0, True) of
           (None, (p', flag)) \<Rightarrow> (Inr flag, p')
         | (Some e, (p', flag)) \<Rightarrow> (Inl e, p'))"


subsection \<open>What the expressions accept\<close>

definition unsigned :: "char set \<Rightarrow> string \<Rightarrow> string" where
  "unsigned S t = (case t of [] \<Rightarrow> [] | c # r \<Rightarrow> if c \<in> S then r else t)"

definition digits :: "string \<Rightarrow> bool" where
  "digits t \<longleftrightarrow> (\<forall>c \<in> set t. is_digit c)"

lemma no_sign [simp]: "\<not> is_digit CHR ''+''" "\<not> is_digit CHR ''-''" "\<not> is_digit CHR ''.''"
  by (simp_all add: is_digit_def)

lemma digits_simps [simp]: "digits []" "digits (c # t) \<longleftrightarrow> is_digit c \<and> digits t" "digits (s @ t) \<longleftrightarrow> digits s \<and> digits t"
  by (auto simp: digits_def)

lemma in_re_digits: "in_re t (RStar (RCls is_digit)) \<longleftrightarrow> digits t"
  "in_re t (r_plus (RCls is_digit)) \<longleftrightarrow> t \<noteq> [] \<and> digits t"
  by (simp_all only: in_re_Star_Cls in_re_plus_Cls digits_def)

lemma in_re_sign: "in_re t (RCat (r_chr c) r) \<longleftrightarrow> (\<exists>u. t = c # u \<and> in_re u r)"
  by simp

lemma int_re_accepts:
  "re_test (int_re PlusDigits) t \<longleftrightarrow> unsigned {CHR ''+''} t \<noteq> [] \<and> digits (unsigned {CHR ''+''} t)"
  "re_test (int_re PlusAnyDigits) t \<longleftrightarrow> digits (unsigned {CHR ''+''} t)"
  "re_test (int_re SignDigits) t \<longleftrightarrow>
     unsigned {CHR ''+'', CHR ''-''} t \<noteq> [] \<and> digits (unsigned {CHR ''+'', CHR ''-''} t)"
  unfolding re_test_in_re int_re_def int_regx.case in_re_Cat_Alt in_re_Cat_Eps in_re_sign in_re_digits
  by (cases t; force simp: unsigned_def)+

lemma in_re_upto1: "in_re t (r_between 1 1 (RCls is_digit)) \<longleftrightarrow> digits t \<and> 1 \<le> length t \<and> length t \<le> 2"
proof -
  have "in_re t (r_between 1 1 (RCls is_digit)) \<longleftrightarrow>
      (\<exists>u v. t = u @ v \<and> (length u = 1 \<and> digits u) \<and> length v \<le> 1 \<and> digits v)"
    unfolding in_re_Cat in_re_times_Cls in_re_upto_Cls digits_def ..
  also have "\<dots> \<longleftrightarrow> digits t \<and> 1 \<le> length t \<and> length t \<le> 2"
  proof
    assume "digits t \<and> 1 \<le> length t \<and> length t \<le> 2"
    then show "\<exists>u v. t = u @ v \<and> (length u = 1 \<and> digits u) \<and> length v \<le> 1 \<and> digits v"
      by (intro exI [of _ "[hd t]"] exI [of _ "tl t"]) (cases t; simp)
  qed auto
  finally show ?thesis .
qed

lemma price_accepts:
  "price_test t \<longleftrightarrow>
     (\<exists>a b. a \<noteq> [] \<and> digits a \<and> digits b \<and> length b \<le> 2 \<and> t = (if b = [] then a else a @ CHR ''.'' # b))"
proof -
  have "price_test t \<longleftrightarrow> (\<exists>a r. t = a @ r \<and> (a \<noteq> [] \<and> digits a) \<and>
      (r = [] \<or> (\<exists>b. r = CHR ''.'' # b \<and> digits b \<and> 1 \<le> length b \<and> length b \<le> 2)))"
    unfolding price_test_def re_test_in_re price_re_def
    by (subst in_re_Cat) (simp only: in_re_digits in_re_simps in_re_sign in_re_upto1)
  also have "\<dots> \<longleftrightarrow> (\<exists>a b. a \<noteq> [] \<and> digits a \<and> digits b \<and> length b \<le> 2 \<and>
      t = (if b = [] then a else a @ CHR ''.'' # b))"
  proof (intro iffI; elim exE conjE disjE)
    fix a r assume "t = a @ r" "a \<noteq> []" "digits a" "r = []"
    then show "\<exists>a b. a \<noteq> [] \<and> digits a \<and> digits b \<and> length b \<le> 2 \<and> t = (if b = [] then a else a @ CHR ''.'' # b)"
      by (intro exI [of _ a] exI [of _ "[]"]) simp
  next
    fix a r b assume "t = a @ r" "a \<noteq> []" "digits a" "r = CHR ''.'' # b" "digits b" "1 \<le> length b" "length b \<le> 2"
    then show "\<exists>a b. a \<noteq> [] \<and> digits a \<and> digits b \<and> length b \<le> 2 \<and> t = (if b = [] then a else a @ CHR ''.'' # b)"
      by (intro exI [of _ a] exI [of _ b]) auto
  next
    fix a b assume "a \<noteq> []" "digits a" "digits b" "length b \<le> 2" "t = (if b = [] then a else a @ CHR ''.'' # b)"
    then show "\<exists>a r. t = a @ r \<and> (a \<noteq> [] \<and> digits a) \<and>
        (r = [] \<or> (\<exists>b. r = CHR ''.'' # b \<and> digits b \<and> 1 \<le> length b \<and> length b \<le> 2))"
      by (intro exI [of _ a] exI [of _ "if b = [] then [] else CHR ''.'' # b"]) (cases b; simp)
  qed
  finally show ?thesis .
qed

subsection \<open>What the checks decide\<close>

text \<open>What the checks read of the page and leave as it is.\<close>

definition same_form :: "plan_page \<Rightarrow> plan_page \<Rightarrow> bool" where
  "same_form p q \<longleftrightarrow> (\<forall>f. f \<noteq> KwFileName \<longrightarrow> pf_val p f = pf_val q f) \<and> pf_regx p = pf_regx q \<and> pf_offset p = pf_offset q"

definition tells :: "(plan_page \<Rightarrow> plan_page) \<Rightarrow> bool" where
  "tells f \<longleftrightarrow> (\<forall>p. same_form p (f p))"

definition reads :: "(plan_page \<Rightarrow> bool res) \<Rightarrow> bool" where
  "reads R \<longleftrightarrow> (\<forall>p q. same_form p q \<longrightarrow> R p = R q)"

text \<open>\<open>outcome c R\<close>: the check \<open>c\<close> stops with the error \<open>R\<close> tells, or keeps the flag where \<open>R\<close> is true.\<close>

definition outcome :: "plan_check cmd \<Rightarrow> (plan_page \<Rightarrow> bool res) \<Rightarrow> bool" where
  "outcome c R \<longleftrightarrow> reads R \<and> (\<forall>p flag. \<exists>q. same_form p q \<and>
     (case R p of Inr b \<Rightarrow> c (p, flag) = (None, (q, flag \<and> b))
      | Inl e \<Rightarrow> (\<exists>flag'. c (p, flag) = (Some e, (q, flag')))))"

lemma same_form_refl [simp]: "same_form p p"
  by (simp add: same_form_def)

lemma same_form_trans: "same_form p q \<Longrightarrow> same_form q r \<Longrightarrow> same_form p r"
  by (simp add: same_form_def)

lemma tells_ops [simp]:
  "tells (raise_tip t m)" "tells (\<lambda>p. show_tip t (mark_tip t p))" "tells (\<lambda>p. show_tip t (set_tip t m p))"
  by (simp_all add: tells_def same_form_def page_ops)

lemma tells_clear_dates: "tells clear_dates"
  by (simp add: tells_def same_form_def clear_dates_def page_ops Let_def)

lemma same_form_reads: "reads R \<Longrightarrow> same_form p q \<Longrightarrow> R q = R p"
  by (simp add: reads_def)

lemma outcome_skip: "outcome skip (\<lambda>p. Inr True)"
  by (auto simp: outcome_def reads_def intro: same_form_refl)

lemma outcome_onPage: "tells f \<Longrightarrow> outcome (onPage f) (\<lambda>p. Inr True)"
  by (auto simp: outcome_def reads_def onPage_def tells_def)

definition scrolls :: "plan_form \<Rightarrow> string \<Rightarrow> plan_page \<Rightarrow> bool" where
  "scrolls frm i p \<longleftrightarrow> pf_offset p (case frm of AddForm \<Rightarrow> CHR ''#'' # i | EditForm \<Rightarrow> i) \<noteq> None"

definition rejects :: "plan_form \<Rightarrow> string \<Rightarrow> plan_page \<Rightarrow> bool res" where
  "rejects frm i p = (if scrolls frm i p then Inr False else Inl TypeError)"

lemma reads_basic:
  "same_form p q \<Longrightarrow> f \<noteq> KwFileName \<Longrightarrow> pf_val q f = pf_val p f"
  "same_form p q \<Longrightarrow> regx_test q s = regx_test p s"
  "same_form p q \<Longrightarrow> rejects frm i q = rejects frm i p"
  by (simp_all add: same_form_def regx_test_def rejects_def scrolls_def)

lemma outcome_complain: "tells f \<Longrightarrow> outcome (complain frm f i) (rejects frm i)"
  unfolding outcome_def
proof (intro conjI allI)
  show "reads (rejects frm i)" by (simp add: reads_def reads_basic)
  fix p flag
  assume "tells f"
  then have f: "same_form p (f p)" by (simp add: tells_def)
  then have "same_form p ((f p)\<lparr>pf_scroll := y\<rparr>)" for y by (simp add: same_form_def)
  then show "\<exists>q. same_form p q \<and> (case rejects frm i p of
      Inr b \<Rightarrow> complain frm f i (p, flag) = (None, (q, flag \<and> b))
    | Inl e \<Rightarrow> (\<exists>flag'. complain frm f i (p, flag) = (Some e, (q, flag'))))"
    using f by (auto simp: complain_def andthen_def onPage_def moveHtml_def fail_check_def rejects_def scrolls_def
        same_form_def split: option.splits)
qed

definition then_also :: "(plan_page \<Rightarrow> bool res) \<Rightarrow> (plan_page \<Rightarrow> bool res) \<Rightarrow> plan_page \<Rightarrow> bool res" where
  "then_also R S p = res_bind (R p) (\<lambda>b. res_bind (S p) (\<lambda>b'. Inr (b \<and> b')))"

lemma outcome_andthen:
  assumes "outcome c R" "outcome d S"
  shows "outcome (andthen c d) (then_also R S)"
  unfolding outcome_def
proof (intro conjI allI)
  have rs: "reads R" "reads S" using assms by (simp_all add: outcome_def)
  then show "reads (then_also R S)"
    unfolding reads_def then_also_def by metis
  fix p flag
  obtain q where q: "same_form p q" "case R p of Inr b \<Rightarrow> c (p, flag) = (None, (q, flag \<and> b))
      | Inl e \<Rightarrow> (\<exists>flag'. c (p, flag) = (Some e, (q, flag')))"
    using assms(1) by (auto simp: outcome_def)
  show "\<exists>r. same_form p r \<and> (case then_also R S p of
      Inr b \<Rightarrow> andthen c d (p, flag) = (None, (r, flag \<and> b))
    | Inl e \<Rightarrow> (\<exists>flag'. andthen c d (p, flag) = (Some e, (r, flag'))))"
  proof (cases "R p")
    case (Inl e)
    then show ?thesis using q by (auto simp: then_also_def)
  next
    case (Inr b)
    obtain r where r: "same_form q r" "case S q of Inr b' \<Rightarrow> d (q, flag \<and> b) = (None, (r, (flag \<and> b) \<and> b'))
        | Inl e \<Rightarrow> (\<exists>flag'. d (q, flag \<and> b) = (Some e, (r, flag')))"
      using assms(2) unfolding outcome_def by blast
    have "S q = S p" by (rule same_form_reads [OF rs(2) q(1)])
    then show ?thesis
      using q Inr r same_form_trans [OF q(1) r(1)] by (intro exI [of _ r]) (auto simp: then_also_def split: sum.splits)
  qed
qed


lemma outcome_pair: "outcome c R \<Longrightarrow> outcome (\<lambda>(p, flag). c (p, flag)) R"
  by simp

lemma outcome_if:
  assumes "\<And>p q. same_form p q \<Longrightarrow> B q = B p"
    "outcome (\<lambda>(p, flag). c p flag) R" "outcome (\<lambda>(p, flag). d p flag) S"
  shows "outcome (\<lambda>(p, flag). if B p then c p flag else d p flag) (\<lambda>p. if B p then R p else S p)"
  using assms unfolding outcome_def reads_def by (auto 0 3 split: if_splits)

lemmas outcome_reject = outcome_pair [OF outcome_complain]

lemma outcome_check_number:
  assumes "outcome rest R" "f \<noteq> KwFileName"
  shows "outcome (check_number frm f t i rest)
    (\<lambda>p. if trimmed f p = [] then rejects frm i p else if \<not> regx_test p (trimmed f p) then rejects frm i p else R p)"
  unfolding check_number_def
  by (intro outcome_if outcome_reject outcome_pair [OF assms(1)] tells_ops) (simp_all add: assms(2) reads_basic)

lemma outcome_check_text:
  assumes "outcome rest R" "f \<noteq> KwFileName" "tells tell"
  shows "outcome (check_text frm f tell i rest) (\<lambda>p. if trimmed f p = [] then rejects frm i p else R p)"
  unfolding check_text_def
  by (intro outcome_if outcome_reject outcome_pair [OF assms(1)] assms(3)) (simp_all add: assms(2) reads_basic)

lemma outcome_check_price:
  assumes "outcome rest R"
  shows "outcome (check_price frm i rest)
    (\<lambda>p. if trimmed UnitPrice p = [] then rejects frm i p
         else if \<not> price_test (trimmed UnitPrice p) then rejects frm i p else R p)"
  unfolding check_price_def
  by (intro outcome_check_text outcome_if outcome_reject outcome_pair [OF assms] tells_ops) (simp_all add: reads_basic)

lemma outcome_check_basics:
  assumes "outcome rest R"
  shows "outcome (check_basics frm i j rest)
    (\<lambda>p. if trimmed AdName p = [] then rejects frm i p
         else if trimmed StartTime p = [] then rejects frm j p
         else if trimmed EndTime p = [] then rejects frm j p
         else if str_less (pf_val p EndTime) (pf_val p StartTime) then rejects frm j p else R p)"
  unfolding check_basics_def
  by (intro outcome_check_text outcome_if outcome_reject outcome_pair [OF assms] tells_ops) (simp_all add: reads_basic)

definition content_result :: "plan_form \<Rightarrow> string \<Rightarrow> string \<Rightarrow> string \<Rightarrow> plan_page \<Rightarrow> bool res" where
  "content_result frm e m j p =
     (if pf_val p LinkType = ''E'' then (if trimmed ThrowUrl p = [] then rejects frm e p else Inr True)
      else if pf_val p LinkType = ''M'' then (if trimmed AdMaterialIds p = [] then rejects frm m p else Inr True)
      else if pf_val p LinkType = ''J'' then (if trimmed JsContent p = [] then rejects frm j p else Inr True)
      else Inr True)"

lemma outcome_check_content: "outcome (check_content frm e m j) (content_result frm e m j)"
proof -
  have s: "outcome (\<lambda>(p, flag). (None, (p, flag))) (\<lambda>p. Inr True)"
    using outcome_skip by (simp add: skip_def [abs_def] case_prod_beta')
  show ?thesis
    unfolding check_content_def content_result_def [abs_def]
    by (intro outcome_if outcome_pair [OF outcome_check_text] outcome_skip s tells_ops) (simp_all add: reads_basic)
qed

definition keywords_result :: "plan_form \<Rightarrow> (string \<Rightarrow> string option) \<Rightarrow> plan_page \<Rightarrow> bool" where
  "keywords_result frm ask p \<longleftrightarrow>
     (let path = pf_val p KwFilePath; words = keywords_of p in
      (words = [] \<or> path = [] \<and> (frm = AddForm \<or> pf_val p KwFileName = [])) \<and>
      (words = [] \<and> trim path \<noteq> [] \<longrightarrow>
         js_get (split_on CHR ''.'' path) 1 = Some ''txt'' \<and> ask path \<noteq> Some ''0''))"

lemma check_keywords_result:
  "\<exists>q. check_keywords frm ask (p, flag) = (None, (q, flag \<and> keywords_result frm ask p)) \<and> same_form p q"
  by (cases frm) (auto simp: check_keywords_def check_file_def keywords_result_def same_form_def page_ops Let_def
      split: option.splits)


subsection \<open>When a plan is accepted\<close>

text \<open>The elements of the two pages: on the page for editing, three places to scroll to are given without \<open>#\<close>.\<close>

definition add_layout :: "plan_page \<Rightarrow> bool" where
  "add_layout p \<longleftrightarrow> (\<forall>i \<in> {''uidIpNum'', ''namePOS1'', ''namePOS'', ''throwUrlPOS'', ''linkType1'', ''jsContentPOS''}.
     pf_offset p (CHR ''#'' # i) \<noteq> None)"

definition edit_layout :: "plan_page \<Rightarrow> bool" where
  "edit_layout p \<longleftrightarrow>
     (\<forall>s \<in> {adName_sel, startTime_sel, ''#namePOS1'', ''#linkType2'', ''#linkType1''}. pf_offset p s \<noteq> None) \<and>
     (\<forall>s \<in> {''uidIpNumPos'', ''uidImpressNumPos'', ''jsContentPOS''}. pf_offset p s = None)"

definition signs_of :: "plan_form \<Rightarrow> char set" where
  "signs_of frm = (case frm of AddForm \<Rightarrow> {CHR ''+''} | EditForm \<Rightarrow> {CHR ''+'', CHR ''-''})"

text \<open>A field with a number: a sign may come first, and digits follow; on the page for new plans none need to.\<close>

definition number_field :: "plan_form \<Rightarrow> field \<Rightarrow> plan_page \<Rightarrow> bool" where
  "number_field frm f p \<longleftrightarrow> trimmed f p \<noteq> [] \<and> digits (unsigned (signs_of frm) (trimmed f p)) \<and>
     (frm = EditForm \<longrightarrow> unsigned (signs_of frm) (trimmed f p) \<noteq> [])"

definition basics_ok :: "plan_page \<Rightarrow> bool" where
  "basics_ok p \<longleftrightarrow> (\<forall>f \<in> {AdName, StartTime, EndTime}. trimmed f p \<noteq> []) \<and>
     \<not> str_less (pf_val p EndTime) (pf_val p StartTime) \<and> price_test (trimmed UnitPrice p)"

definition content_ok :: "plan_page \<Rightarrow> bool" where
  "content_ok p \<longleftrightarrow> (\<forall>(l, f) \<in> {(''E'', ThrowUrl), (''M'', AdMaterialIds), (''J'', JsContent)}.
     pf_val p LinkType = l \<longrightarrow> trimmed f p \<noteq> [])"

definition form_regx :: "plan_form \<Rightarrow> int_regx" where
  "form_regx frm = (case frm of AddForm \<Rightarrow> PlusAnyDigits | EditForm \<Rightarrow> SignDigits)"

lemma number_field_test:
  "pf_regx p = form_regx frm \<Longrightarrow> number_field frm f p \<longleftrightarrow> trimmed f p \<noteq> [] \<and> regx_test p (trimmed f p)"
  by (cases frm) (auto simp: number_field_def regx_test_def form_regx_def int_re_accepts signs_of_def)

lemma price_test_blank: "price_test t \<Longrightarrow> t \<noteq> []"
  by (auto simp: price_accepts split: if_splits)

definition fields_ok :: "plan_form \<Rightarrow> plan_page \<Rightarrow> bool" where
  "fields_ok frm p \<longleftrightarrow> number_field frm UidIpNum p \<and> number_field frm UidImpressNum p \<and> basics_ok p \<and>
     number_field frm DayLimit p \<and>
     (case frm of AddForm \<Rightarrow> \<not> equals_zero (pf_val p DayLimit) | EditForm \<Rightarrow> number_field frm MinLimit p) \<and>
     content_ok p"


lemma rejects_add: "add_layout p \<Longrightarrow> rejects AddForm ''uidIpNum'' p = Inr False"
  "add_layout p \<Longrightarrow> rejects AddForm ''namePOS1'' p = Inr False"
  "add_layout p \<Longrightarrow> rejects AddForm ''namePOS'' p = Inr False"
  by (simp_all add: rejects_def scrolls_def add_layout_def)

lemma content_add: "add_layout p \<Longrightarrow> content_result AddForm ''throwUrlPOS'' ''linkType1'' ''jsContentPOS'' p = Inr (content_ok p)"
  by (simp add: content_result_def content_ok_def rejects_def scrolls_def add_layout_def)

lemma rejects_edit: "edit_layout p \<Longrightarrow> rejects EditForm ''uidIpNumPos'' p = Inl TypeError"
  "edit_layout p \<Longrightarrow> rejects EditForm ''uidImpressNumPos'' p = Inl TypeError"
  "edit_layout p \<Longrightarrow> rejects EditForm adName_sel p = Inr False"
  "edit_layout p \<Longrightarrow> rejects EditForm startTime_sel p = Inr False"
  "edit_layout p \<Longrightarrow> rejects EditForm ''#namePOS1'' p = Inr False"
  by (simp_all add: rejects_def scrolls_def edit_layout_def)

lemma content_edit: "edit_layout p \<Longrightarrow> content_result EditForm ''#linkType2'' ''#linkType1'' ''jsContentPOS'' p =
    (if pf_val p LinkType = ''J'' \<and> trimmed JsContent p = [] then Inl TypeError else Inr (content_ok p))"
  by (simp add: content_result_def content_ok_def rejects_def scrolls_def edit_layout_def)

definition accepts :: "plan_form \<Rightarrow> (string \<Rightarrow> string option) \<Rightarrow> plan_page \<Rightarrow> bool" where
  "accepts frm ask p \<longleftrightarrow> keywords_result frm ask p \<and> fields_ok frm p"

lemma number_if:
  "pf_regx p = form_regx frm \<Longrightarrow>
     (if trimmed f p = [] then X else if \<not> regx_test p (trimmed f p) then X else Y) = (if number_field frm f p then Y else X)"
  by (simp add: number_field_test)

lemma basics_if:
  "(if trimmed UnitPrice p = [] then X else if \<not> price_test (trimmed UnitPrice p) then X
    else if trimmed AdName p = [] then X else if trimmed StartTime p = [] then X else if trimmed EndTime p = [] then X
    else if str_less (pf_val p EndTime) (pf_val p StartTime) then X else Y) = (if basics_ok p then Y else X)"
  "(if trimmed AdName p = [] then X else if trimmed StartTime p = [] then X else if trimmed EndTime p = [] then X
    else if str_less (pf_val p EndTime) (pf_val p StartTime) then X
    else if trimmed UnitPrice p = [] then X else if \<not> price_test (trimmed UnitPrice p) then X
    else Y) = (if basics_ok p then Y else X)"
  by (simp_all add: basics_ok_def) (auto dest: price_test_blank)

lemma not_file_name: "UidIpNum \<noteq> KwFileName" "UidImpressNum \<noteq> KwFileName" "DayLimit \<noteq> KwFileName" "MinLimit \<noteq> KwFileName"
  by simp_all

lemma add_fields:
  "\<exists>R. outcome check_fields_add R \<and> (\<forall>p. add_layout p \<longrightarrow> pf_regx p = PlusAnyDigits \<longrightarrow> R p = Inr (fields_ok AddForm p))"
proof -
  note o = outcome_andthen [OF outcome_check_number [OF outcome_skip]
      outcome_check_number [OF outcome_check_price [OF outcome_check_basics [OF outcome_check_number [OF
        outcome_if [OF _ outcome_reject outcome_pair [OF outcome_check_content]]]]]]]
  show ?thesis
    unfolding check_fields_add_def
  proof (rule exI, rule conjI, rule o)
  qed (simp_all add: reads_basic rejects_add content_add number_if [of _ AddForm] basics_if form_regx_def then_also_def fields_ok_def)
qed

definition edit_stops :: "plan_page \<Rightarrow> bool" where
  "edit_stops p \<longleftrightarrow> \<not> number_field EditForm UidIpNum p \<or> \<not> number_field EditForm UidImpressNum p \<or>
     basics_ok p \<and> number_field EditForm DayLimit p \<and> number_field EditForm MinLimit p \<and>
     pf_val p LinkType = ''J'' \<and> trimmed JsContent p = []"

lemma edit_fields:
  "\<exists>R. outcome check_fields_edit R \<and> (\<forall>p. edit_layout p \<longrightarrow> pf_regx p = SignDigits \<longrightarrow>
     R p = (if edit_stops p then Inl TypeError else Inr (fields_ok EditForm p)))"
proof -
  note number = outcome_check_number [OF _ not_file_name(1)] outcome_check_number [OF _ not_file_name(2)]
    outcome_check_number [OF _ not_file_name(3)] outcome_check_number [OF _ not_file_name(4)]
  note o = outcome_andthen [OF number(1) [OF outcome_skip]
      number(2) [OF outcome_check_basics [OF outcome_check_price [OF number(3) [OF
        number(4) [OF outcome_check_content]]]]]]
  show ?thesis
    unfolding check_fields_edit_def
  proof (rule exI, rule conjI, rule o)
  qed (intro allI impI, simp only: rejects_edit content_edit then_also_def
      number_if [of _ EditForm, unfolded form_regx_def plan_form.case] basics_if, simp add: edit_stops_def fields_ok_def)
qed

lemma outcomeD:
  "outcome c R \<Longrightarrow> \<exists>q. same_form p q \<and> (case R p of Inr b \<Rightarrow> c (p, flag) = (None, (q, flag \<and> b))
    | Inl e \<Rightarrow> (\<exists>flag'. c (p, flag) = (Some e, (q, flag'))))"
  unfolding outcome_def by blast

lemma outcome_keeps: "outcome c R \<Longrightarrow> R p = Inr b \<Longrightarrow> \<exists>q. c (p, flag) = (None, (q, flag \<and> b))"
  by (drule outcomeD [of _ _ p flag]) auto

lemma outcome_stops: "outcome c R \<Longrightarrow> R p = Inl e \<Longrightarrow> \<exists>s. c (p, flag) = (Some e, s)"
  by (drule outcomeD [of _ _ p flag]) auto

lemma outcome_same: "outcome c R \<Longrightarrow> \<exists>q. same_form p q \<and> (\<exists>e flag'. c (p, flag) = (e, (q, flag')))"
  by (cases "R p"; drule outcomeD [of _ _ p flag]) auto

lemma checkInput_result:
  assumes R: "outcome (case frm of AddForm \<Rightarrow> check_fields_add | EditForm \<Rightarrow> check_fields_edit) R"
  shows "fst (checkInput_adplan frm ask p) =
    (case R (p\<lparr>pf_regx := form_regx frm\<rparr>) of Inl e \<Rightarrow> Inl e | Inr b \<Rightarrow> Inr (keywords_result frm ask p \<and> b))"
proof -
  let ?p = "p\<lparr>pf_regx := form_regx frm\<rparr>"
  have kw: "keywords_result frm ask ?p = keywords_result frm ask p"
    by (simp add: keywords_result_def keywords_of_def)
  obtain q where q: "check_keywords frm ask (?p, True) = (None, (q, keywords_result frm ask p))" "same_form ?p q"
    using check_keywords_result [of frm ask ?p True] by (auto simp: kw)
  let ?q = "clear_dates q"
  have same: "same_form ?p ?q"
    using q(2) tells_clear_dates by (auto simp: tells_def intro: same_form_trans)
  have RR: "R ?q = R ?p" using R same by (auto simp: outcome_def intro: same_form_reads)
  show ?thesis
  proof (cases "R ?p")
    case (Inl e)
    with R RR obtain r where "(case frm of AddForm \<Rightarrow> check_fields_add | EditForm \<Rightarrow> check_fields_edit)
        (?q, keywords_result frm ask p) = (Some e, r)"
      by (metis outcome_stops)
    then show ?thesis
      using q(1) Inl by (simp add: checkInput_adplan_def form_regx_def [symmetric] onPage_def andthen_def split: prod.splits)
  next
    case (Inr b)
    with R RR obtain r where "(case frm of AddForm \<Rightarrow> check_fields_add | EditForm \<Rightarrow> check_fields_edit)
        (?q, keywords_result frm ask p) = (None, (r, keywords_result frm ask p \<and> b))"
      by (metis outcome_keeps)
    then show ?thesis
      using q(1) Inr by (simp add: checkInput_adplan_def form_regx_def [symmetric] onPage_def andthen_def)
  qed
qed


lemma checkInput_same: "same_form (p\<lparr>pf_regx := form_regx frm\<rparr>) (snd (checkInput_adplan frm ask p))"
proof -
  let ?p = "p\<lparr>pf_regx := form_regx frm\<rparr>" and ?c = "case frm of AddForm \<Rightarrow> check_fields_add | EditForm \<Rightarrow> check_fields_edit"
  obtain q where q: "check_keywords frm ask (?p, True) = (None, (q, keywords_result frm ask ?p))" "same_form ?p q"
    using check_keywords_result [of frm ask ?p True] by auto
  have same: "same_form ?p (clear_dates q)"
    using q(2) tells_clear_dates by (auto simp: tells_def intro: same_form_trans)
  obtain R where R: "outcome ?c R" using add_fields edit_fields by (cases frm) auto
  obtain r where r: "same_form (clear_dates q) r"
      "\<exists>e flag. ?c (clear_dates q, keywords_result frm ask ?p) = (e, (r, flag))"
    using outcome_same [OF R] by blast
  have "snd (checkInput_adplan frm ask p) = r"
    using q(1) r(2)
    by (auto simp: checkInput_adplan_def form_regx_def [symmetric] onPage_def andthen_def split: option.splits)
  then show ?thesis using same_form_trans [OF same r(1)] by simp
qed

lemma add_check_result:
  assumes "add_layout p"
  shows "fst (checkInput_adplan AddForm ask p) = Inr (accepts AddForm ask p)"
proof -
  obtain R where R: "outcome check_fields_add R"
    "\<And>p. add_layout p \<Longrightarrow> pf_regx p = PlusAnyDigits \<Longrightarrow> R p = Inr (fields_ok AddForm p)"
    using add_fields by blast
  have "add_layout (p\<lparr>pf_regx := PlusAnyDigits\<rparr>)" using assms by (simp add: add_layout_def)
  then show ?thesis
    using checkInput_result [of AddForm R ask p] R(2) [of "p\<lparr>pf_regx := PlusAnyDigits\<rparr>"] R(1)
    by (simp add: form_regx_def accepts_def fields_ok_def basics_ok_def content_ok_def number_field_def)
qed

lemma edit_check_result:
  assumes "edit_layout p"
  shows "fst (checkInput_adplan EditForm ask p) = (if edit_stops p then Inl TypeError else Inr (accepts EditForm ask p))"
proof -
  obtain R where R: "outcome check_fields_edit R"
    "\<And>p. edit_layout p \<Longrightarrow> pf_regx p = SignDigits \<Longrightarrow>
      R p = (if edit_stops p then Inl TypeError else Inr (fields_ok EditForm p))"
    using edit_fields by blast
  have "edit_layout (p\<lparr>pf_regx := SignDigits\<rparr>)" using assms by (simp add: edit_layout_def)
  then show ?thesis
    using checkInput_result [of EditForm R ask p] R(2) [of "p\<lparr>pf_regx := SignDigits\<rparr>"] R(1)
    by (simp add: form_regx_def accepts_def fields_ok_def basics_ok_def content_ok_def number_field_def edit_stops_def)
qed

definition sample_offset :: "plan_form \<Rightarrow> string \<Rightarrow> int option" where
  "sample_offset frm = (case frm of
       AddForm \<Rightarrow> map_of (map (\<lambda>i. (CHR ''#'' # i, 100))
         [''uidIpNum'', ''namePOS1'', ''namePOS'', ''throwUrlPOS'', ''linkType1'', ''jsContentPOS''])
     | EditForm \<Rightarrow> map_of (map (\<lambda>s. (s, 100)) [adName_sel, startTime_sel, ''#namePOS1'', ''#linkType2'', ''#linkType1'']))"

definition sample_plan :: "plan_form \<Rightarrow> plan_page" where
  "sample_plan frm = \<lparr>pf_val = (\<lambda>f. case f of
         AdName \<Rightarrow> ''summer'' | StartTime \<Rightarrow> ''2014-07-01'' | EndTime \<Rightarrow> ''2014-07-31'' | DayLimit \<Rightarrow> ''6000''
       | MinLimit \<Rightarrow> ''0'' | UidImpressNum \<Rightarrow> ''3'' | UidIpNum \<Rightarrow> '' 5 '' | UnitPrice \<Rightarrow> ''1.25'' | LinkType \<Rightarrow> ''M''
       | AdMaterialIds \<Rightarrow> ''17'' | IsUniform \<Rightarrow> ''0'' | _ \<Rightarrow> []),
     pf_text = Map.empty, pf_shown = (\<lambda>t. False), pf_error = (\<lambda>t. False), pf_link = 1, pf_readonly = True,
     pf_checked = False, pf_regx = PlusDigits, pf_offset = sample_offset frm, pf_scroll = None, pf_alerts = []\<rparr>"

lemma sample_layout: "add_layout (sample_plan AddForm)" "edit_layout (sample_plan EditForm)"
  by (simp_all add: sample_plan_def sample_offset_def add_layout_def edit_layout_def adName_sel_def startTime_sel_def)

lemma sample_accepts: "accepts frm ask (sample_plan frm)"
proof -
  have "price_test ''1.25''" "\<not> str_less ''2014-07-31'' ''2014-07-01''" by code_simp+
  moreover have "trim '' 5 '' = ''5''" "trim ''3'' = ''3''" "trim ''6000'' = ''6000''" "trim ''0'' = ''0''" "trim ''17'' = ''17''"
    "trim ''summer'' = ''summer''" "trim ''2014-07-31'' = ''2014-07-31''" "trim ''2014-07-01'' = ''2014-07-01''"
    "trim ''1.25'' = ''1.25''" by code_simp+
  ultimately show ?thesis
    by (cases frm) (simp_all add: accepts_def fields_ok_def sample_plan_def keywords_result_def keywords_of_def
        number_field_def basics_ok_def content_ok_def equals_zero_def unsigned_def signs_of_def is_digit_def)
qed

text \<open>
  C11: On the page for new plans the check never throws. A plan passes exactly if the key words are given in one way
  and an uploaded file of them is named \<open>x.txt\<close> and new, the three counts are a \<open>+\<close> or nothing before digits, the
  daily limit is not zero, the price is a number with at most two decimals, a name and two dates are given, the
  last not before the first, and the content that belongs to the kind of link is given.
\<close>

theorem add_form_check:
  assumes "add_layout p"
  shows "fst (checkInput_adplan AddForm ask p) = Inr (keywords_result AddForm ask p \<and>
    (\<forall>f \<in> {UidIpNum, UidImpressNum, DayLimit}. number_field AddForm f p) \<and> \<not> equals_zero (pf_val p DayLimit) \<and>
    price_test (trimmed UnitPrice p) \<and> (\<forall>f \<in> {AdName, StartTime, EndTime}. trimmed f p \<noteq> []) \<and>
    \<not> str_less (pf_val p EndTime) (pf_val p StartTime) \<and> content_ok p)"
  unfolding add_check_result [OF assms] accepts_def fields_ok_def basics_ok_def by auto

theorem add_form_check_witness:
  "fst (checkInput_adplan AddForm (\<lambda>f. None) (sample_plan AddForm)) = Inr True"
  unfolding add_form_check [OF sample_layout(1)]
  using sample_accepts [of AddForm] by (auto simp: accepts_def fields_ok_def basics_ok_def)

text \<open>
  C12: On the page for editing the check throws exactly if one of the two counts per visitor and address is no number, or if all
  else is right and the script of a plan of kind \<open>J\<close> is blank: the places to scroll to are then given without
  \<open>#\<close>. Otherwise it tells the plans that may be saved, but the numbers may be negative and the daily limit zero.
\<close>

theorem edit_form_check:
  assumes "edit_layout p"
  shows "fst (checkInput_adplan EditForm ask p) =
    (if \<not> number_field EditForm UidIpNum p \<or> \<not> number_field EditForm UidImpressNum p then Inl TypeError
     else if basics_ok p \<and> number_field EditForm DayLimit p \<and> number_field EditForm MinLimit p \<and>
       pf_val p LinkType = ''J'' \<and> trimmed JsContent p = [] then Inl TypeError
     else Inr (keywords_result EditForm ask p \<and> basics_ok p \<and> number_field EditForm DayLimit p \<and>
       number_field EditForm MinLimit p \<and> content_ok p))"
  unfolding edit_check_result [OF assms] accepts_def fields_ok_def edit_stops_def by auto

theorem edit_form_check_witness:
  "fst (checkInput_adplan EditForm (\<lambda>f. None) (sample_plan EditForm)) = Inr True \<and>
   fst (checkInput_adplan EditForm (\<lambda>f. None) (setVal UidIpNum ''x'' (sample_plan EditForm))) = Inl TypeError"
proof (rule conjI)
  have x: "trim ''x'' = ''x''" by code_simp
  have l: "edit_layout (setVal UidIpNum ''x'' (sample_plan EditForm))"
    using sample_layout(2) by (simp add: setVal_def edit_layout_def)
  show "fst (checkInput_adplan EditForm (\<lambda>f. None) (sample_plan EditForm)) = Inr True"
    unfolding edit_form_check [OF sample_layout(2)]
    using sample_accepts [of EditForm "\<lambda>f. None"] by (auto simp: accepts_def fields_ok_def sample_plan_def)
  have "\<not> number_field EditForm UidIpNum (setVal UidIpNum ''x'' (sample_plan EditForm))"
    by (simp add: number_field_def setVal_def x signs_of_def unsigned_def is_digit_def)
  then show "fst (checkInput_adplan EditForm (\<lambda>f. None) (setVal UidIpNum ''x'' (sample_plan EditForm))) = Inl TypeError"
    unfolding edit_form_check [OF l] by simp
qed

end
