(* ===== verification/PlanForm.thy ===== *)
theory PlanForm
  imports PlanCheck
begin

section \<open>What the checks of a plan guarantee\<close>

text \<open>
  The dates of an accepted plan are in order; what the checks let through that they should not; and what holds
  after any sequence of handlers of the form: which groups are marked, and the limit per minute.
\<close>

subsection \<open>The order of dates as texts\<close>

lemma str_less_prefix:
  assumes "length s = length t" "digits s" "digits t"
  shows "str_less (s @ x) (t @ y) \<longleftrightarrow> nat_of_dec s < nat_of_dec t \<or> nat_of_dec s = nat_of_dec t \<and> str_less x y"
proof -
  have split: "str_less (s @ x) (t @ y) \<longleftrightarrow> str_less s t \<or> s = t \<and> str_less x y"
    using assms(1) by (induction s t rule: list_induct2) auto
  have "\<forall>c \<in> set (s @ t). is_digit c" "\<forall>c \<in> set (t @ s). is_digit c"
    using assms by (auto simp: digits_def)
  then have "str_less s t \<longleftrightarrow> nat_of_dec s < nat_of_dec t" "str_less t s \<longleftrightarrow> nat_of_dec t < nat_of_dec s"
    using assms(1) by (simp_all add: str_less_digits)
  then show ?thesis using split str_less_total [of s t] by auto
qed

lemma digits_dec [simp]: "digits (dec_of_nat n)"
  by (simp add: digits_def dec_is_digit)

lemma two_value: "n < 100 \<Longrightarrow> nat_of_dec (two n) = n" "n < 100 \<Longrightarrow> digits (two n)" "length (two n) = 2"
  by (simp_all add: two_def nat_of_dec_def is_digit_char)

lemma dec_length4: "1000 \<le> n \<Longrightarrow> n < 10000 \<Longrightarrow> length (dec_of_nat n) = 4"
proof -
  assume "1000 \<le> n" "n < 10000"
  then have "\<not> n < 10" "\<not> n div 10 < 10" "\<not> n div 10 div 10 < 10" "n div 10 div 10 div 10 < 10" by linarith+
  then show ?thesis by (simp add: dec_of_nat.simps)
qed

text \<open>Days are ordered as the triples of their fields.\<close>

lemma later_year: "year_of d < year_of e \<Longrightarrow> d < e"
  using year_of_bounds [of d] year_of_bounds [of e] day_from_year_mono [of "year_of d + 1" "year_of e"] by linarith

lemma later_month: "year_of d = year_of e \<Longrightarrow> month_of d < month_of e \<Longrightarrow> d < e"
proof -
  assume y: "year_of d = year_of e" and m: "month_of d < month_of e"
  note b = month_in_bounds [OF year_day, folded month_of_in]
  have "month_start (leap (year_of e)) (month_of d + 1) \<le> month_start (leap (year_of e)) (month_of e)"
    using m b(1) [of e] by (intro month_start_mono) simp_all
  then show "d < e" using b(3) [of d] b(2) [of e] y by simp
qed

lemma same_month: "year_of d = year_of e \<Longrightarrow> month_of d = month_of e \<Longrightarrow> d < e \<longleftrightarrow> date_of d < date_of e"
proof -
  assume eq: "year_of d = year_of e" "month_of d = month_of e"
  show ?thesis unfolding date_of_def eq by linarith
qed

lemma day_order:
  "d < e \<longleftrightarrow> year_of d < year_of e \<or> year_of d = year_of e \<and>
     (month_of d < month_of e \<or> month_of d = month_of e \<and> date_of d < date_of e)"
  using later_year [of d e] later_year [of e d] later_month [of d e] later_month [of e d] same_month [of d e]
  by (metis linorder_neq_iff order_less_asym')

definition four_digits :: "int \<Rightarrow> bool" where
  "four_digits d \<longleftrightarrow> 1000 \<le> year_of d \<and> year_of d < 10000"

lemma str_less_days:
  assumes "four_digits d" "four_digits e"
  shows "str_less (ymd_text d) (ymd_text e) \<longleftrightarrow> d < e"
proof -
  let ?y = "\<lambda>d. nat (year_of d)"
  have y: "1000 \<le> ?y d" "?y d < 10000" "1000 \<le> ?y e" "?y e < 10000"
    using assms by (auto simp: four_digits_def)
  note less = fields_less_100 [of d] fields_less_100 [of e]
  have pos: "1 \<le> date_of d" "1 \<le> date_of e" by (rule date_of_bounds)+
  have "str_less (ymd_text d) (ymd_text e) \<longleftrightarrow>
      ?y d < ?y e \<or> ?y d = ?y e \<and> str_less (''-'' @ two (month_of d + 1) @ ''-'' @ two (nat (date_of d)))
        (''-'' @ two (month_of e + 1) @ ''-'' @ two (nat (date_of e)))"
    unfolding ymd_text_def by (subst str_less_prefix) (simp_all add: dec_length4 y)
  also have "\<dots> \<longleftrightarrow> ?y d < ?y e \<or> ?y d = ?y e \<and> (month_of d < month_of e \<or> month_of d = month_of e \<and>
      nat (date_of d) < nat (date_of e))"
    using less str_less_prefix [of "two (nat (date_of d))" "two (nat (date_of e))" "[]" "[]"]
    by (simp add: str_less_prefix two_value)
  finally show ?thesis
    using y pos by (auto simp: day_order [of d e])
qed


subsection \<open>Accepted plans\<close>

lemma plan_result:
  "fst (checkInput_adplan frm ask p) = Inr True \<Longrightarrow> (case frm of AddForm \<Rightarrow> add_layout p | EditForm \<Rightarrow> edit_layout p) \<Longrightarrow>
     accepts frm ask p \<and> (frm = EditForm \<longrightarrow> \<not> edit_stops p)"
  by (cases frm) (auto simp: add_check_result edit_check_result split: if_splits)

abbreviation plan_layout :: "plan_form \<Rightarrow> plan_page \<Rightarrow> bool" where
  "plan_layout frm p \<equiv> (case frm of AddForm \<Rightarrow> add_layout p | EditForm \<Rightarrow> edit_layout p)"

text \<open>
  C32: A plan that passes has its days in order, when the two fields hold days as the date picker writes them: the
  order of the texts is the order of the days.
\<close>

theorem accepted_dates:
  assumes "plan_layout frm p" "fst (checkInput_adplan frm ask p) = Inr True"
    "pf_val p StartTime = ymd_text d" "pf_val p EndTime = ymd_text e" "four_digits d" "four_digits e"
  shows "d \<le> e"
proof -
  have "basics_ok p" using plan_result assms(1,2) by (simp add: accepts_def fields_ok_def)
  then have "\<not> str_less (ymd_text e) (ymd_text d)" using assms(3,4) by (simp add: basics_ok_def)
  then show ?thesis using str_less_days assms(5,6) by simp
qed

lemma setVal_sel [simp]: "pf_val (setVal f v p) = (pf_val p)(f := v)" "pf_regx (setVal f v p) = pf_regx p"
  "pf_offset (setVal f v p) = pf_offset p"
  by (simp_all add: setVal_def)

lemma number_field_other [simp]: "g \<noteq> f \<Longrightarrow> number_field frm g (setVal f v p) = number_field frm g p"
  by (simp add: number_field_def)

lemma minus_no_space: "\<not> is_space CHR ''-''"
  by (simp add: is_space_def)

text \<open>A daily limit may be negative on the page for editing, and a lone plus sign is a number on the other.\<close>

theorem edit_accepts_negative:
  assumes "edit_layout p" "fst (checkInput_adplan EditForm ask p) = Inr True"
  shows "fst (checkInput_adplan EditForm ask (setVal DayLimit (''-'' @ dec_of_nat n) p)) = Inr True"
proof -
  let ?q = "setVal DayLimit (''-'' @ dec_of_nat n) p"
  have l: "edit_layout ?q" using assms(1) by (simp add: edit_layout_def)
  have t: "trim (''-'' @ dec_of_nat n) = ''-'' @ dec_of_nat n"
    using dec_is_digit [of _ n] digit_not_space minus_no_space by (intro trim_no_space) auto
  have n: "number_field EditForm DayLimit ?q"
    using t by (simp add: number_field_def signs_of_def unsigned_def)
  have a: "accepts EditForm ask p" "\<not> edit_stops p" using plan_result [OF assms(2)] assms(1) by simp_all
  have "accepts EditForm ask ?q" "\<not> edit_stops ?q"
    using a n by (auto simp: accepts_def fields_ok_def edit_stops_def keywords_result_def keywords_of_def
        basics_ok_def content_ok_def)
  then show ?thesis using edit_check_result [OF l] by simp
qed

theorem add_accepts_plus:
  assumes "add_layout p" "fst (checkInput_adplan AddForm ask p) = Inr True" "f \<in> {DayLimit, UidImpressNum, UidIpNum}"
  shows "fst (checkInput_adplan AddForm ask (setVal f ''+'' p)) = Inr True"
proof -
  let ?q = "setVal f ''+'' p"
  have l: "add_layout ?q" using assms(1) by (simp add: add_layout_def)
  have t: "trim ''+'' = ''+''" by code_simp
  have n: "number_field AddForm f ?q"
    using t by (simp add: number_field_def signs_of_def unsigned_def)
  have a: "accepts AddForm ask p" using plan_result [OF assms(2)] assms(1) by simp
  have "number_field AddForm g ?q" if "number_field AddForm g p" for g using n that by (cases "g = f") auto
  moreover have "\<not> equals_zero (pf_val ?q DayLimit)" if "\<not> equals_zero (pf_val p DayLimit)"
    using that t by (simp add: equals_zero_def)
  ultimately have "accepts AddForm ask ?q"
    using a assms(3) by (auto simp: accepts_def fields_ok_def keywords_result_def keywords_of_def
        basics_ok_def content_ok_def)
  then show ?thesis using add_check_result [OF l] by simp
qed


theorem accepted_dates_witness:
  "ymd_text 16252 = ''2014-07-01'' \<and> fst (checkInput_adplan AddForm (\<lambda>f. None) (sample_plan AddForm)) = Inr True \<and>
   (16252::int) \<le> 16282"
proof -
  have f: "four_digits 16252" "four_digits 16282"
    by (simp_all add: four_digits_def year_of_def year_search.simps day_from_year_def)
  have days: "ymd_text 16252 = ''2014-07-01''" "ymd_text 16282 = ''2014-07-31''" by code_simp+
  have ok: "fst (checkInput_adplan AddForm (\<lambda>f. None) (sample_plan AddForm)) = Inr True"
    using add_check_result [OF sample_layout(1)] sample_accepts by simp
  have "(16252::int) \<le> 16282"
    by (rule accepted_dates [where frm = AddForm and p = "sample_plan AddForm" and ask = "\<lambda>f. None"])
      (use ok days f sample_layout(1) in \<open>simp_all add: sample_plan_def\<close>)
  then show ?thesis using ok days by simp
qed

theorem edit_accepts_negative_witness:
  "fst (checkInput_adplan EditForm (\<lambda>f. None) (setVal DayLimit ''-600'' (sample_plan EditForm))) = Inr True"
proof -
  have "dec_of_nat 600 = ''600''" by (simp add: dec_of_nat.simps digit_chars)
  moreover have "fst (checkInput_adplan EditForm (\<lambda>f. None) (sample_plan EditForm)) = Inr True"
    using edit_check_result [OF sample_layout(2)] sample_accepts [of EditForm] 
    by (auto simp: edit_stops_def accepts_def fields_ok_def sample_plan_def)
  ultimately show ?thesis
    using edit_accepts_negative [OF sample_layout(2), of "\<lambda>f. None" 600] by simp
qed

theorem add_accepts_plus_witness:
  "fst (checkInput_adplan AddForm (\<lambda>f. None) (setVal DayLimit ''+'' (sample_plan AddForm))) = Inr True"
  using add_check_result [OF sample_layout(1)] sample_accepts [of AddForm]
  by (intro add_accepts_plus [OF sample_layout(1)]) simp_all

subsection \<open>The limit per minute\<close>

text \<open>
  When the daily limit is left with a number in it and the plan is to be spread evenly, the limit per minute is
  the daily limit shared by 600 minutes, rounded down.
\<close>

lemma digits_valid: "digits t \<Longrightarrow> t \<noteq> [] \<Longrightarrow> re_test (int_re x) t"
  by (cases x; cases t) (auto simp: int_re_accepts unsigned_def)

lemma trim_dec [simp]: "trim (dec_of_nat n) = dec_of_nat n"
  using dec_is_digit [of _ n] digit_not_space by (intro trim_no_space) blast

theorem even_rate:
  assumes "pf_val p DayLimit = dec_of_nat n" "\<not> equals_zero (pf_val p IsUniform)"
  shows "\<exists>m. pf_val (field_leave frm DayLimit p) MinLimit = dec_of_nat m \<and> 600 * m \<le> n \<and> n < 600 * (m + 1)"
proof (intro exI conjI)
  have "regx_test p (dec_of_nat n)" by (simp add: regx_test_def digits_valid)
  then show "pf_val (field_leave frm DayLimit p) MinLimit = dec_of_nat (n div 600)"
    using assms
    by (simp add: field_leave_def leave_dayLimit_def isUniform_checked_ModifyMinLimit_def clear_tip_def minute_limit_def
        number_text_def nat_div_distrib)
  have "n = 600 * (n div 600) + n mod 600" "n mod 600 < 600" by simp_all
  then show "600 * (n div 600) \<le> n" "n < 600 * (n div 600 + 1)" by (simp_all add: algebra_simps)
qed


theorem even_rate_witness:
  "\<exists>m. pf_val (field_leave AddForm DayLimit (setVal IsUniform ''1'' (sample_plan AddForm))) MinLimit = dec_of_nat m \<and>
     600 * m \<le> 6000 \<and> 6000 < 600 * (m + 1)"
proof (rule even_rate)
  have "dec_of_nat 6000 = ''6000''" by (simp add: dec_of_nat.simps digit_chars)
  then show "pf_val (setVal IsUniform ''1'' (sample_plan AddForm)) DayLimit = dec_of_nat 6000"
    by (simp add: sample_plan_def)
  have "\<not> equals_zero ''1''" by code_simp
  then show "\<not> equals_zero (pf_val (setVal IsUniform ''1'' (sample_plan AddForm)) IsUniform)" by simp
qed

subsection \<open>Sequences of handlers\<close>

text \<open>
  A step of the form: the user changes a field (the limit per minute only where it may be edited), enters or
  leaves one, clicks; another script chooses materials; the plan is checked.
\<close>

definition user_fields :: "field set" where
  "user_fields = {AdName, StartTime, EndTime, DayLimit, UidImpressNum, UidIpNum, UnitPrice, ThrowUrl, JsContent, KeyWd, KwFilePath}"

inductive plan_step :: "plan_form \<Rightarrow> plan_page \<Rightarrow> plan_page \<Rightarrow> bool" for frm where
  Edit: "f \<in> user_fields \<Longrightarrow> plan_step frm p (setVal f v p)"
| EditMin: "\<not> pf_readonly p \<Longrightarrow> plan_step frm p (setVal MinLimit v p)"
| Focus: "plan_step frm p (field_focus frm f p)"
| Leave: "plan_step frm p (field_leave frm f p)"
| Uniform: "plan_step frm p (checked_isUniform frm b p)"
| Link: "n \<in> {1, 2, 3} \<Longrightarrow> plan_step frm p (link_click n p)"
| Cancel: "plan_step frm p (cancelupload p)"
| ClearKw: "plan_step frm p (clearkw p)"
| Materials: "plan_step frm p (setVal AdMaterialIds v p)"
| Check: "plan_step frm p (snd (checkInput_adplan frm ask p))"

abbreviation plan_reachable :: "plan_form \<Rightarrow> plan_page \<Rightarrow> plan_page \<Rightarrow> bool" where
  "plan_reachable frm \<equiv> (plan_step frm)\<^sup>*\<^sup>*"

text \<open>A group is marked only while a tip in it is shown.\<close>

definition marks_shown :: "plan_page \<Rightarrow> bool" where
  "marks_shown p \<longleftrightarrow> (\<forall>g. pf_error p g \<longrightarrow> (\<exists>t. group_of t = g \<and> pf_shown p t))"

text \<open>Without even spreading the limit per minute is 0 and may not be edited.\<close>

definition rate_ok :: "plan_page \<Rightarrow> bool" where
  "rate_ok p \<longleftrightarrow> (if equals_zero (pf_val p IsUniform) then pf_readonly p \<and> pf_val p MinLimit = ''0'' else \<not> pf_readonly p)"

definition plan_inv :: "plan_page \<Rightarrow> bool" where
  "plan_inv p \<longleftrightarrow> marks_shown p \<and> rate_ok p"

lemma inv_ops [simp]:
  "plan_inv p \<Longrightarrow> plan_inv (raise_tip t m p)"
  "plan_inv p \<Longrightarrow> plan_inv (clear_tip t p)"
  "plan_inv p \<Longrightarrow> plan_inv (show_tip t (mark_tip t p))"
  "plan_inv p \<Longrightarrow> plan_inv (show_tip t (set_tip t m p))"
  "plan_inv p \<Longrightarrow> plan_inv (plan_notice a p)"
  "plan_inv p \<Longrightarrow> f \<notin> {IsUniform, MinLimit} \<Longrightarrow> plan_inv (setVal f v p)"
  "plan_inv p \<Longrightarrow> plan_inv (p\<lparr>pf_scroll := y\<rparr>)"
  "plan_inv p \<Longrightarrow> plan_inv (p\<lparr>pf_regx := x\<rparr>)"
  "plan_inv p \<Longrightarrow> plan_inv (p\<lparr>pf_link := n\<rparr>)"
  by (auto simp: plan_inv_def marks_shown_def rate_ok_def page_ops)

definition stays :: "plan_check cmd \<Rightarrow> bool" where
  "stays c \<longleftrightarrow> (\<forall>p flag. plan_inv p \<longrightarrow> plan_inv (fst (snd (c (p, flag)))))"

lemma staysD: "stays c \<Longrightarrow> plan_inv p \<Longrightarrow> plan_inv (fst (snd (c (p, flag))))"
  by (simp add: stays_def)

named_theorems staying

lemma stays_skip [staying]: "stays skip"
  by (simp add: stays_def)

lemma stays_andthen [staying]:
  assumes "stays c" "stays d" shows "stays (andthen c d)"
  unfolding stays_def
proof (intro allI impI)
  fix p flag assume "plan_inv p"
  then have c: "plan_inv (fst (snd (c (p, flag))))" using assms(1) staysD by blast
  show "plan_inv (fst (snd (andthen c d (p, flag))))"
    using c staysD [OF assms(2), of "fst (snd (c (p, flag)))" "snd (snd (c (p, flag)))"]
    by (auto simp: andthen_def split: prod.splits option.splits)
qed

lemma stays_onPage [staying]: "(\<And>p. plan_inv p \<Longrightarrow> plan_inv (f p)) \<Longrightarrow> stays (onPage f)"
  by (simp add: stays_def onPage_def)

lemma stays_complain [staying]: "(\<And>p. plan_inv p \<Longrightarrow> plan_inv (f p)) \<Longrightarrow> stays (complain frm f i)"
  by (auto simp: stays_def complain_def andthen_def onPage_def moveHtml_def fail_check_def split: option.splits)

lemma stays_number [staying]: "stays c \<Longrightarrow> stays (check_number frm f t i c)"
  using stays_complain [of "raise_tip t Missing"] stays_complain [of "raise_tip t Illegal"]
  by (simp add: stays_def check_number_def)

lemma stays_text [staying]: "stays c \<Longrightarrow> (\<And>p. plan_inv p \<Longrightarrow> plan_inv (tell p)) \<Longrightarrow> stays (check_text frm f tell i c)"
  using stays_complain [of tell] by (simp add: stays_def check_text_def)

lemma stays_if [staying]:
  "stays (\<lambda>(p, flag). c p flag) \<Longrightarrow> stays (\<lambda>(p, flag). d p flag) \<Longrightarrow> stays (\<lambda>(p, flag). if B p then c p flag else d p flag)"
  by (simp add: stays_def)

lemma stays_pair [staying]: "stays c \<Longrightarrow> stays (\<lambda>(p, flag). c (p, flag))"
  by simp

lemma stays_fields [staying]: "stays check_fields_add" "stays check_fields_edit"
  unfolding check_fields_add_def check_fields_edit_def check_price_def check_basics_def check_content_def
  by (intro staying; simp add: stays_def)+


lemma stays_keywords: "stays (check_keywords frm ask)"
  by (auto simp: stays_def check_keywords_def check_file_def Let_def split: option.splits)

lemma inv_clear_dates: "plan_inv p \<Longrightarrow> plan_inv (clear_dates p)"
  by (simp add: clear_dates_def Let_def)

lemma inv_check:
  assumes "plan_inv p"
  shows "plan_inv (snd (checkInput_adplan frm ask p))"
proof -
  have "stays (block [check_keywords frm ask, onPage clear_dates,
      (case frm of AddForm \<Rightarrow> check_fields_add | EditForm \<Rightarrow> check_fields_edit)])"
    by (cases frm; simp; intro staying stays_keywords stays_fields inv_clear_dates)
  from staysD [OF this, of "p\<lparr>pf_regx := (case frm of AddForm \<Rightarrow> PlusAnyDigits | EditForm \<Rightarrow> SignDigits)\<rparr>" True]
  show ?thesis
    using assms unfolding checkInput_adplan_def Let_def
    by (auto split: prod.splits option.splits)
qed

lemma rate_zero [simp]: "equals_zero ''0''" "\<not> equals_zero ''1''"
  by code_simp+

lemma rate_ops:
  "plan_inv p \<Longrightarrow> \<not> pf_readonly p \<Longrightarrow> plan_inv (setVal MinLimit v p)"
  "plan_inv p \<Longrightarrow> plan_inv (setVal MinLimit ''0'' p)"
  by (auto simp: plan_inv_def marks_shown_def rate_ok_def page_ops split: if_splits)

lemma marks_same [simp]:
  "marks_shown (setVal f v p) = marks_shown p" "marks_shown (p\<lparr>pf_readonly := r\<rparr>) = marks_shown p"
  "marks_shown (p\<lparr>pf_checked := b\<rparr>) = marks_shown p" "marks_shown (plan_notice a p) = marks_shown p"
  by (simp_all add: marks_shown_def page_ops)

lemma marks_clear [simp]: "marks_shown p \<Longrightarrow> marks_shown (clear_tip t p)"
  by (auto simp: marks_shown_def page_ops)

lemma rate_clear [simp]: "rate_ok (clear_tip t p) = rate_ok p" "rate_ok (plan_notice a p) = rate_ok p"
  by (simp_all add: rate_ok_def page_ops)

lemma inv_modify: "plan_inv p \<Longrightarrow> plan_inv (isUniform_checked_ModifyMinLimit p)"
  by (simp add: isUniform_checked_ModifyMinLimit_def plan_inv_def) (simp add: rate_ok_def setVal_def)

lemma inv_uniform: "plan_inv p \<Longrightarrow> plan_inv (checked_isUniform frm b p)"
  by (cases frm; cases b) (simp_all add: checked_isUniform_def plan_inv_def Let_def, simp_all add: rate_ok_def setVal_def plan_notice_def clear_tip_def)

lemma inv_step: "plan_step frm p q \<Longrightarrow> plan_inv p \<Longrightarrow> plan_inv q"
proof (induction rule: plan_step.induct)
  case (Edit f p v)
  then show ?case by (auto simp: user_fields_def)
next
  case (Focus p f)
  then show ?case by (cases f) (simp_all add: field_focus_def split: plan_form.split)
next
  case (Leave p f)
  then show ?case
    by (cases f) (simp_all add: field_leave_def leave_text_def leave_number_def leave_price_def leave_dayLimit_def
        leave_minLimit_def inv_modify rate_ops split: plan_form.split)
next
  case (Link n p)
  then show ?case by (auto simp: link_click_def)
qed (simp_all add: rate_ops inv_uniform inv_check cancelupload_def clearkw_def)

text \<open>
  C16: Over any sequence of changes, clicks and checks of either form, a group is marked only while a tip in it is
  shown, and without even spreading the limit per minute is 0 and cannot be edited.
\<close>

theorem plan_form_consistent:
  assumes "plan_reachable frm p q" "marks_shown p" "rate_ok p"
  shows "marks_shown q \<and> rate_ok q"
proof -
  have "plan_inv q"
    using assms(1) by (induction rule: rtranclp_induct) (use assms(2,3) inv_step in \<open>auto simp: plan_inv_def\<close>)
  then show ?thesis by (simp add: plan_inv_def)
qed

theorem plan_form_consistent_witness:
  "marks_shown (snd (checkInput_adplan EditForm (\<lambda>f. None) (sample_plan EditForm))) \<and>
   rate_ok (snd (checkInput_adplan EditForm (\<lambda>f. None) (sample_plan EditForm)))"
proof (rule plan_form_consistent)
  show "plan_reachable EditForm (sample_plan EditForm) (snd (checkInput_adplan EditForm (\<lambda>f. None) (sample_plan EditForm)))"
    by (rule r_into_rtranclp) (rule plan_step.Check)
qed (simp_all add: sample_plan_def marks_shown_def rate_ok_def)

end
