(* ===== verification/MaterialSelect.thy ===== *)
theory MaterialSelect
  imports JsRegex JsCommand CodeField
begin

section \<open>The materials of an ad plan\<close>

text \<open>
  A plan shows materials (pictures, Flash, rich text). In the forms \<open>adplanAdd.jsp\<close> and \<open>adplanEdit.jsp\<close> they are
  chosen from a table, removed, or written and changed in a dialog, whose fields \<open>checkInput\<close> checks before
  the server is asked to store them. The ids of the chosen materials are sent with the plan.
\<close>

subsection \<open>The dialog\<close>

datatype mat_tip = NameTip | UploadTip | FlashTip | RichTextTip | FilePathTip | DescTip | TargetUrlTip | MonitorTip

datatype mat_message = MatMissing | MatIllegal

text \<open>
  The fields; \<open>mf_mType\<close> is the number of the kind (1 picture, 2 Flash, 3 rich text) and \<open>mf_materialType\<close> of
  the source (1 upload, 2 address), \<open>None\<close> if none is chosen; \<open>None\<close> in the two addresses of uploads is an element
  or attribute that is missing. \<open>mf_linkUrl\<close> and \<open>mf_textContent\<close> are what is sent.
\<close>

record mat_form =
  mf_name :: string
  mf_mType :: "nat option"
  mf_materialType :: "nat option"
  mf_uploadImg :: "string option"
  mf_flash :: "string option"
  mf_desc :: string
  mf_target :: string
  mf_monitor :: bool
  mf_monitorlink :: string
  mf_filePath :: string
  mf_rich :: string
  mf_linkUrl :: string
  mf_textContent :: string
  mf_text :: "mat_tip \<Rightarrow> mat_message option"
  mf_error :: "mat_tip \<Rightarrow> bool"
  mf_shown :: "mat_tip \<Rightarrow> bool"

definition word_char :: "char \<Rightarrow> bool" where
  "word_char c \<longleftrightarrow> is_digit c \<or> c = CHR ''_'' \<or>
     (let n = (of_char c :: nat) in 65 \<le> n \<and> n \<le> 90 \<or> 97 \<le> n \<and> n \<le> 122)"

definition host_char :: "char \<Rightarrow> bool" where
  "host_char c \<longleftrightarrow> word_char c \<or> c = CHR ''-''"

definition path_char :: "char \<Rightarrow> bool" where
  "path_char c \<longleftrightarrow> host_char c \<or> c \<in> set ''./?%&=''"

text \<open>The expression of \<open>checkInput\<close> for addresses.\<close>

definition url_re :: "char re" where
  "url_re = RCat (r_text ''http://'') (RCat (r_plus (RCat (r_plus (RCls host_char)) (r_chr CHR ''.'')))
     (RCat (r_plus (RCls host_char)) (r_opt (RCat (r_chr CHR ''/'') (RStar (RCls path_char))))))"

definition url_test :: "string \<Rightarrow> bool" where
  "url_test s = re_test url_re s"

definition mat_complain :: "mat_tip \<Rightarrow> mat_message \<Rightarrow> mat_form \<Rightarrow> bool \<times> mat_form" where
  "mat_complain t m f =
     (False, f\<lparr>mf_text := (mf_text f)(t := Some m), mf_error := (mf_error f)(t := True), mf_shown := (mf_shown f)(t := True)\<rparr>)"

text \<open>The branch for a Flash address that is blank marks the field and does not show the tip.\<close>

definition checkInput :: "mat_form \<Rightarrow> bool \<times> mat_form" where
  "checkInput f =
     (let blank = (\<lambda>s. trim s = []); m = mf_mType f; src = mf_materialType f in
      if blank (mf_name f) then mat_complain NameTip MatMissing f
      else if m = Some 1 \<and> src = Some 1 \<and> mf_uploadImg f = Some [] then mat_complain UploadTip MatMissing f
      else if m = Some 2 \<and> src = Some 1 \<and> mf_flash f = Some [] then mat_complain FlashTip MatMissing f
      else if m = Some 3 \<and> blank (mf_rich f) then mat_complain RichTextTip MatMissing f
      else if m = Some 1 \<and> src = Some 2 \<and> blank (mf_filePath f) then mat_complain FilePathTip MatMissing f
      else if m = Some 1 \<and> src = Some 2 \<and> \<not> url_test (mf_filePath f) then mat_complain FilePathTip MatIllegal f
      else if m = Some 2 \<and> src = Some 2 \<and> blank (mf_filePath f)
      then (False, f\<lparr>mf_text := (mf_text f)(FilePathTip := Some MatMissing), mf_error := (mf_error f)(FilePathTip := True)\<rparr>)
      else if m = Some 2 \<and> src = Some 2 \<and> \<not> url_test (mf_filePath f) then mat_complain FilePathTip MatIllegal f
      else if m \<noteq> Some 3 \<and> blank (mf_desc f) then mat_complain DescTip MatMissing f
      else if m \<noteq> Some 3 \<and> blank (mf_target f) then mat_complain TargetUrlTip MatMissing f
      else if m \<noteq> Some 3 \<and> \<not> url_test (mf_target f) then mat_complain TargetUrlTip MatIllegal f
      else if mf_monitor f \<and> blank (mf_monitorlink f) then mat_complain MonitorTip MatMissing f
      else if mf_monitor f \<and> \<not> url_test (mf_monitorlink f) then mat_complain MonitorTip MatIllegal f
      else (True, f))"

text \<open>What \<open>editOrAddMaterial\<close> does before it checks; then the form is sent if the check passes.\<close>

definition prepare_material :: "mat_form \<Rightarrow> mat_form" where
  "prepare_material f =
     (if mf_materialType f = Some 2 \<and> mf_mType f \<in> {Some 1, Some 2} then f\<lparr>mf_linkUrl := mf_filePath f\<rparr>
      else if mf_mType f = Some 3 then f\<lparr>mf_textContent := mf_rich f\<rparr> else f)"

definition editOrAddMaterial :: "mat_form \<Rightarrow> bool \<times> mat_form" where
  "editOrAddMaterial f = checkInput (prepare_material f)"

subsection \<open>The table and the list of chosen materials\<close>

text \<open>The object \<open>Material\<close>, whose constructor sets \<open>type\<close> twice, to the last of two arguments of that name.\<close>

record material =
  ma_id :: string
  ma_linkUrl :: string
  ma_materialValue :: string
  ma_name :: string
  ma_type :: string
  ma_mType :: string

text \<open>The rows of the table with their boxes, the chosen rows, and whether \<open>#selectedDiv\<close> and the table are shown.\<close>

record mat_page =
  mt_table :: "(material \<times> bool) list"
  mt_selected :: "material list"
  mt_div :: bool
  mt_list :: bool

text \<open>The button that opens the table; \<open>table\<close> is what the server answers, \<open>None\<close> if the request fails.\<close>

definition selectMaterialBtn :: "material list option \<Rightarrow> mat_page \<Rightarrow> mat_page" where
  "selectMaterialBtn table p =
     (if mt_list p then p\<lparr>mt_list := False\<rparr>
      else (case table of None \<Rightarrow> p | Some rows \<Rightarrow> p\<lparr>mt_table := map (\<lambda>r. (r, False)) rows, mt_list := True\<rparr>))"

definition tick_row :: "nat \<Rightarrow> mat_page \<Rightarrow> mat_page" where
  "tick_row i p = (if i < length (mt_table p)
     then p\<lparr>mt_table := (mt_table p)[i := (fst (mt_table p ! i), \<not> snd (mt_table p ! i))]\<rparr> else p)"

fun select_rows :: "(material \<times> bool) list \<Rightarrow> material list \<Rightarrow> (material \<times> bool) list \<times> material list" where
  "select_rows [] chosen = ([], chosen)"
| "select_rows ((r, checked) # rows) chosen =
     (if checked \<and> ma_id r \<notin> ma_id ` set chosen
      then (let (rows', chosen') = select_rows rows (chosen @ [r]) in ((r, False) # rows', chosen'))
      else (let (rows', chosen') = select_rows rows chosen in ((r, checked) # rows', chosen')))"

definition selectBtn :: "mat_page \<Rightarrow> mat_page" where
  "selectBtn p =
     (if \<not> list_ex snd (mt_table p) then p
      else (let (rows, chosen) = select_rows (mt_table p) (mt_selected p) in
            p\<lparr>mt_table := rows, mt_selected := chosen, mt_div := mt_div p \<or> chosen \<noteq> mt_selected p, mt_list := False\<rparr>))"

definition cancelSelectBtn :: "mat_page \<Rightarrow> mat_page" where
  "cancelSelectBtn p = p\<lparr>mt_list := False\<rparr>"

definition del_row :: "nat \<Rightarrow> mat_page \<Rightarrow> mat_page" where
  "del_row i p =
     (let rows = take i (mt_selected p) @ drop (Suc i) (mt_selected p) in
      p\<lparr>mt_selected := rows, mt_div := mt_div p \<and> rows \<noteq> []\<rparr>)"

text \<open>The server's answer to a material added (\<open>None\<close>) or to the material with an id changed.\<close>

definition material_saved :: "string option \<Rightarrow> material option \<Rightarrow> mat_page \<Rightarrow> mat_page" where
  "material_saved i result p =
     (case result of
        None \<Rightarrow> p
      | Some r \<Rightarrow>
          (case i of
             None \<Rightarrow> p\<lparr>mt_selected := mt_selected p @ [r], mt_div := True\<rparr>
           | Some k \<Rightarrow> p\<lparr>mt_selected := map (\<lambda>x. if ma_id x = k then r else x) (mt_selected p), mt_div := True\<rparr>))"

definition getMaterialIds :: "mat_page \<Rightarrow> string" where
  "getMaterialIds p = join_on CHR '','' (map ma_id (mt_selected p))"

text \<open>
  The steps; \<open>AdvertiseMaterialController.addNew\<close> answers a material added with the key of a new row of the
  database, and a material changed with the id it had.
\<close>

inductive mat_step :: "mat_page \<Rightarrow> mat_page \<Rightarrow> bool" where
  Open: "mat_step p (selectMaterialBtn table p)"
| Tick: "mat_step p (tick_row i p)"
| Select: "mat_step p (selectBtn p)"
| Cancel: "mat_step p (cancelSelectBtn p)"
| Del: "mat_step p (del_row i p)"
| Added: "ma_id r \<notin> ma_id ` set (mt_selected p) \<Longrightarrow> mat_step p (material_saved None (Some r) p)"
| Changed: "ma_id r = k \<Longrightarrow> mat_step p (material_saved (Some k) (Some r) p)"
| NoAnswer: "mat_step p (material_saved i None p)"

subsection \<open>Addresses\<close>

text \<open>The characters a text an expression matches can have.\<close>

fun re_chars :: "'a re \<Rightarrow> 'a set" where
  "re_chars RFail = {}"
| "re_chars REps = {}"
| "re_chars (RCls P) = {c. P c}"
| "re_chars (RAlt r t) = re_chars r \<union> re_chars t"
| "re_chars (RCat r t) = re_chars r \<union> re_chars t"
| "re_chars (RStar r) = re_chars r"

lemma in_re_chars: "in_re s r \<Longrightarrow> set s \<subseteq> re_chars r"
  by (induction rule: in_re.induct) auto

definition url_char :: "char \<Rightarrow> bool" where
  "url_char c \<longleftrightarrow> path_char c \<or> c = CHR '':''"

lemma re_chars_url: "re_chars url_re \<subseteq> {c. url_char c}"
  by (auto simp: url_re_def url_char_def path_char_def host_char_def word_char_def is_digit_def)

lemma url_safe:
  assumes "url_test s"
  shows "(\<exists>r. s = ''http://'' @ r) \<and> (\<forall>c \<in> set s. url_char c)"
proof -
  have s: "in_re s url_re" using assms by (simp only: url_test_def re_test_in_re)
  then have "\<exists>r. s = ''http://'' @ r" unfolding url_re_def in_re_Cat_text by blast
  moreover have "\<forall>c \<in> set s. url_char c" using in_re_chars [OF s] re_chars_url by blast
  ultimately show ?thesis ..
qed

lemma url_char_plain: "url_char c \<Longrightarrow> c \<notin> {CHR 0x22, CHR 0x27, CHR ''<'', CHR ''>'', CHR '' '', CHR 0x5C}"
  by (auto simp: url_char_def path_char_def host_char_def word_char_def is_digit_def)

text \<open>An address that may stand in an attribute of the page.\<close>

definition safe_address :: "string \<Rightarrow> bool" where
  "safe_address s \<longleftrightarrow> take 7 s = ''http://'' \<and> set s \<inter> {CHR 0x22, CHR 0x27, CHR ''<'', CHR ''>'', CHR '' '', CHR 0x5C} = {}"

lemma url_safe_address: "url_test s \<Longrightarrow> safe_address s"
  using url_safe [of s] url_char_plain unfolding safe_address_def by fastforce

text \<open>
  C24: Of a material the dialog sends, the target of a picture or a Flash file, its own address if that was typed, and the
  address of a monitor if there is one are safe to write into an attribute of the page, as the templates of the lists
  do: they start with \<open>http://\<close> and have no quote, angle bracket, space or backslash. The others are not checked and
  sent as they are: the address an upload left, and the target of a rich text, which is accepted whatever it is.
\<close>

theorem material_addresses:
  assumes "editOrAddMaterial f = (True, g)" "mf_mType f \<in> {Some 1, Some 2, Some 3}"
  shows "(mf_mType f \<noteq> Some 3 \<longrightarrow> safe_address (mf_target g)) \<and>
    (mf_mType f \<noteq> Some 3 \<and> mf_materialType f = Some 2 \<longrightarrow> safe_address (mf_linkUrl g)) \<and>
    (mf_monitor f \<longrightarrow> safe_address (mf_monitorlink g)) \<and>
    (mf_mType f = Some 3 \<or> mf_materialType f \<noteq> Some 2 \<longrightarrow> mf_linkUrl g = mf_linkUrl f) \<and>
    (mf_mType f = Some 3 \<longrightarrow> fst (editOrAddMaterial (f\<lparr>mf_target := anything\<rparr>)))"
proof -
  let ?f = "prepare_material f"
  have same: "mf_mType ?f = mf_mType f" "mf_materialType ?f = mf_materialType f" "mf_monitor ?f = mf_monitor f"
    by (simp_all add: prepare_material_def)
  have link: "mf_linkUrl ?f = mf_filePath ?f" if "mf_mType f \<in> {Some 1, Some 2}" "mf_materialType f = Some 2"
    using that by (simp add: prepare_material_def)
  have g: "g = ?f" and c: "fst (checkInput ?f)"
    using assms(1) by (auto simp: editOrAddMaterial_def checkInput_def mat_complain_def Let_def split: if_splits)
  have target: "url_test (mf_target ?f)" if "mf_mType f \<noteq> Some 3"
    using c that same by (simp add: checkInput_def mat_complain_def Let_def split: if_splits)
  have path: "url_test (mf_filePath ?f)" if "mf_mType f \<in> {Some 1, Some 2}" "mf_materialType f = Some 2"
    using c that same by (auto simp: checkInput_def mat_complain_def Let_def split: if_splits)
  have monitor: "url_test (mf_monitorlink ?f)" if "mf_monitor f"
    using c that same by (simp add: checkInput_def mat_complain_def Let_def split: if_splits)
  have "fst (editOrAddMaterial (f\<lparr>mf_target := anything\<rparr>))" if "mf_mType f = Some 3"
    using c that same by (simp add: editOrAddMaterial_def checkInput_def prepare_material_def mat_complain_def Let_def split: if_splits)
  moreover have "mf_linkUrl g = mf_linkUrl f" if "mf_mType f = Some 3 \<or> mf_materialType f \<noteq> Some 2"
    using that unfolding g by (auto simp: prepare_material_def)
  ultimately show ?thesis
    using target path monitor link assms(2) url_safe_address unfolding g by auto
qed


definition sample_material :: mat_form where
  "sample_material = \<lparr>mf_name = ''banner'', mf_mType = Some 1, mf_materialType = Some 2, mf_uploadImg = Some [], mf_flash = Some [],
     mf_desc = ''d'', mf_target = ''http://a.cn/x?y=1'', mf_monitor = False, mf_monitorlink = [],
     mf_filePath = ''http://img.a.cn/b.png'', mf_rich = [], mf_linkUrl = [], mf_textContent = [],
     mf_text = Map.empty, mf_error = (\<lambda>t. False), mf_shown = (\<lambda>t. False)\<rparr>"

theorem material_addresses_witness:
  "safe_address (mf_target (snd (editOrAddMaterial sample_material)))"
proof -
  have u: "url_test ''http://a.cn/x?y=1''" "url_test ''http://img.a.cn/b.png''" by code_simp+
  have t: "trim ''banner'' \<noteq> []" "trim ''d'' \<noteq> []" "trim ''http://a.cn/x?y=1'' \<noteq> []" "trim ''http://img.a.cn/b.png'' \<noteq> []"
    by code_simp+
  have "editOrAddMaterial sample_material = (True, prepare_material sample_material)"
    using u t by (simp add: editOrAddMaterial_def checkInput_def prepare_material_def sample_material_def Let_def)
  then show ?thesis
    using material_addresses [of sample_material "prepare_material sample_material"] by (simp add: sample_material_def)
qed

text \<open>A Flash address left blank is refused without a word: the tip is not shown.\<close>

theorem flash_blank_silent:
  assumes "mf_mType f = Some 2" "mf_materialType f = Some 2" "trim (mf_filePath f) = []" "trim (mf_name f) \<noteq> []"
    "\<not> mf_shown f FilePathTip"
  shows "fst (checkInput f) = False \<and> mf_shown (snd (checkInput f)) = mf_shown f"
  using assms by (simp add: checkInput_def Let_def)

theorem flash_blank_silent_witness:
  "fst (checkInput (sample_material\<lparr>mf_mType := Some 2, mf_filePath := []\<rparr>)) = False"
proof -
  have "trim ''banner'' \<noteq> []" by code_simp
  then show ?thesis
    using flash_blank_silent [of "sample_material\<lparr>mf_mType := Some 2, mf_filePath := []\<rparr>"]
    by (simp add: sample_material_def)
qed

subsection \<open>The chosen materials\<close>

abbreviation chosen_ids :: "mat_page \<Rightarrow> string list" where
  "chosen_ids p \<equiv> map ma_id (mt_selected p)"

definition ticked_ids :: "mat_page \<Rightarrow> string list" where
  "ticked_ids p = map (ma_id \<circ> fst) (filter snd (mt_table p))"

definition add_new :: "string list \<Rightarrow> string list \<Rightarrow> string list" where
  "add_new xs is = fold (\<lambda>i is. if i \<in> set is then is else is @ [i]) xs is"

lemma add_new_simps [simp]:
  "add_new [] is = is" "add_new (x # xs) is = add_new xs (if x \<in> set is then is else is @ [x])"
  by (simp_all add: add_new_def)

lemma select_rows_ids:
  "map ma_id (snd (select_rows rows chosen)) = add_new (map (ma_id \<circ> fst) (filter snd rows)) (map ma_id chosen)"
  by (induction rows chosen rule: select_rows.induct) (auto split: prod.splits)

lemma add_new_facts:
  "set (add_new xs is) = set is \<union> set xs" "distinct is \<Longrightarrow> distinct (add_new xs is)" "\<exists>new. add_new xs is = is @ new"
proof -
  show "set (add_new xs is) = set is \<union> set xs" by (induction xs arbitrary: "is") auto
  show "distinct is \<Longrightarrow> distinct (add_new xs is)" by (induction xs arbitrary: "is") auto
  show "\<exists>new. add_new xs is = is @ new"
  proof (induction xs arbitrary: "is")
    case (Cons x xs)
    show ?case using Cons [of "is"] Cons [of "is @ [x]"] by auto
  qed simp
qed

lemma selectBtn_ids: "chosen_ids (selectBtn p) = add_new (ticked_ids p) (chosen_ids p)"
proof (cases "list_ex snd (mt_table p)")
  case True
  then show ?thesis
    using select_rows_ids [of "mt_table p" "mt_selected p"]
    by (cases "select_rows (mt_table p) (mt_selected p)") (simp add: selectBtn_def ticked_ids_def)
next
  case False
  then have "ticked_ids p = []" by (simp add: ticked_ids_def list_ex_iff filter_empty_conv)
  then show ?thesis using False by (simp add: selectBtn_def)
qed

text \<open>A selection keeps what was chosen, in order, and adds the ticked materials that were not.\<close>

theorem select_adds:
  assumes "distinct (chosen_ids p)"
  shows "(\<exists>new. chosen_ids (selectBtn p) = chosen_ids p @ new) \<and> distinct (chosen_ids (selectBtn p)) \<and>
    set (chosen_ids (selectBtn p)) = set (chosen_ids p) \<union> set (ticked_ids p)"
  unfolding selectBtn_ids using assms by (simp add: add_new_facts del: add_new_simps)

definition sample_mat_page :: mat_page where
  "sample_mat_page = \<lparr>mt_table = [(\<lparr>ma_id = ''1'', ma_linkUrl = [], ma_materialValue = [], ma_name = ''a'', ma_type = [], ma_mType = ''1''\<rparr>, True),
       (\<lparr>ma_id = ''2'', ma_linkUrl = [], ma_materialValue = [], ma_name = ''b'', ma_type = [], ma_mType = ''1''\<rparr>, True)],
     mt_selected = [\<lparr>ma_id = ''2'', ma_linkUrl = [], ma_materialValue = [], ma_name = ''b'', ma_type = [], ma_mType = ''1''\<rparr>],
     mt_div = True, mt_list = True\<rparr>"

theorem select_adds_witness: "set (chosen_ids (selectBtn sample_mat_page)) = {''1'', ''2''}"
  using select_adds [of sample_mat_page] by (auto simp: sample_mat_page_def ticked_ids_def)


definition mat_inv :: "mat_page \<Rightarrow> bool" where
  "mat_inv p \<longleftrightarrow> distinct (chosen_ids p) \<and> (mt_selected p \<noteq> [] \<longrightarrow> mt_div p)"

lemma shown_select: "(mt_selected p \<noteq> [] \<longrightarrow> mt_div p) \<Longrightarrow> mt_selected (selectBtn p) \<noteq> [] \<longrightarrow> mt_div (selectBtn p)"
  by (auto simp: selectBtn_def split: prod.splits)

lemma distinct_replace: "distinct (map ma_id xs) \<Longrightarrow> ma_id r = k \<Longrightarrow>
    map ma_id (map (\<lambda>x. if ma_id x = k then r else x) xs) = map ma_id xs"
  by (induction xs) auto

lemma mat_inv_step: "mat_step p q \<Longrightarrow> mat_inv p \<Longrightarrow> mat_inv q"
proof (induction rule: mat_step.induct)
  case (Open p table)
  then show ?case by (simp add: mat_inv_def selectMaterialBtn_def split: option.split)
next
  case (Select p)
  then show ?case
    using select_adds [of p] shown_select [of p] by (simp add: mat_inv_def)
next
  case (Del p i)
  then show ?case
    by (auto simp: mat_inv_def del_row_def Let_def take_map [symmetric] drop_map [symmetric] distinct_append
        set_take_disj_set_drop_if_distinct dest: in_set_dropD)
next
  case (Changed r k p)
  then show ?case by (simp add: mat_inv_def material_saved_def distinct_replace del: map_map) 
qed (auto simp: mat_inv_def tick_row_def cancelSelectBtn_def material_saved_def)

text \<open>
  Starting without materials, no material is ever chosen twice, and the list of the chosen ones is shown whenever
  there are any, over all selections, removals, and answers to materials added or changed.
\<close>

theorem materials_distinct:
  assumes "mat_step\<^sup>*\<^sup>* p q" "mt_selected p = []"
  shows "distinct (chosen_ids q) \<and> (mt_selected q \<noteq> [] \<longrightarrow> mt_div q)"
proof -
  have "mat_inv q"
    using assms(1) by (induction rule: rtranclp_induct) (use assms(2) mat_inv_step in \<open>auto simp: mat_inv_def\<close>)
  then show ?thesis by (simp add: mat_inv_def)
qed

theorem materials_distinct_witness:
  "distinct (chosen_ids (selectBtn (sample_mat_page\<lparr>mt_selected := []\<rparr>))) \<and>
   mt_div (selectBtn (sample_mat_page\<lparr>mt_selected := []\<rparr>))"
proof -
  let ?p = "sample_mat_page\<lparr>mt_selected := []\<rparr>"
  have "mat_step\<^sup>*\<^sup>* ?p (selectBtn ?p)" by (rule r_into_rtranclp) (rule mat_step.Select)
  from materials_distinct [OF this] show ?thesis by (simp add: sample_mat_page_def selectBtn_def)
qed

definition plain_ids :: "mat_page \<Rightarrow> bool" where
  "plain_ids p \<longleftrightarrow> (\<forall>i \<in> set (chosen_ids p). plain_code i)"

interpretation mats: coded_field "\<lambda>p. map ma_id (mt_selected p)" getMaterialIds plain_ids
  by unfold_locales (auto simp: getMaterialIds_def plain_ids_def)

text \<open>The ids sent with the plan are those of the chosen materials, in order.\<close>

theorem material_ids_read:
  assumes "mt_selected p \<noteq> []" "\<forall>i \<in> set (chosen_ids p). CHR '','' \<notin> set i"
  shows "split_on CHR '','' (getMaterialIds p) = chosen_ids p"
  using assms by (simp add: getMaterialIds_def split_join)

theorem material_ids_read_witness: "split_on CHR '','' (getMaterialIds sample_mat_page) = [''2'']"
  using material_ids_read [of sample_mat_page] by (simp add: sample_mat_page_def)

end
