(* ===== verification/PlanSubmit.thy ===== *)
theory PlanSubmit
  imports PlanHours CategorySelect PlanForm MaterialSelect
begin

section \<open>Saving a plan\<close>

text \<open>
  The handlers of the buttons \<open>#adplanadd\<close> and \<open>#adplaneditsave\<close> put the form together: the hours, the
  materials, the codes of the regions and the labels are written into hidden fields, the fields are checked, and
  the form is submitted. The handlers also write into \<open>#crowdSeledIds\<close>, \<open>#mediaCategoryCodes\<close> and \<open>#adCategoryCodes\<close>, but
  the markup of these fields, and of the boxes and lists that fill them, is commented out in both pages: a
  selector that finds no element writes nothing, so that a plan is sent without them. The server does not store
  them either: its calls of \<open>addPlanCrowd\<close>, \<open>addAdMediaCategoryLink\<close> and \<open>addAdCategoryLink\<close> are commented out as well.
\<close>

record plan_doc =
  pd_hours :: hours_page
  pd_regions :: selector
  pd_labels :: "string list"
  pd_mats :: mat_page
  pd_form :: plan_page
  pd_hidden :: "string \<Rightarrow> string"
  pd_sent :: "((string \<Rightarrow> string) \<times> (field \<Rightarrow> string)) list"

text \<open>The hidden fields, in the order they are written; \<open>#adMaterialIds\<close> is a field the check reads.\<close>

definition fill_hidden :: "string \<Rightarrow> plan_doc \<Rightarrow> plan_doc" where
  "fill_hidden putHours d = d\<lparr>
     pd_hidden := (pd_hidden d)(''putHours'' := putHours,
       ''regionCodes'' := getMediaCategoryCodes (pd_regions d),
       ''allLabelCodes'' := join_on CHR '','' (pd_labels d)),
     pd_form := setVal AdMaterialIds (getMaterialIds (pd_mats d)) (pd_form d)\<rparr>"

definition submit_plan :: "plan_form \<Rightarrow> (string \<Rightarrow> string option) \<Rightarrow> plan_doc cmd" where
  "submit_plan frm ask d =
     (case checkInput_adplan frm ask (pd_form d) of
        (Inl e, p) \<Rightarrow> (Some e, d\<lparr>pd_form := p\<rparr>)
      | (Inr ok, p) \<Rightarrow>
          (let d' = d\<lparr>pd_form := p\<rparr> in
           (None, if ok then d'\<lparr>pd_sent := pd_sent d' @ [(pd_hidden d', pf_val p)]\<rparr> else d')))"

text \<open>Only the handler for new plans looks at the answer \<open>"error"\<close> of \<open>getTime\<close>.\<close>

definition save_plan :: "plan_form \<Rightarrow> (string \<Rightarrow> string option) \<Rightarrow> plan_doc cmd" where
  "save_plan frm ask d =
     (case getTime (pd_hours d) of
        (Inl e, h) \<Rightarrow> (Some e, d\<lparr>pd_hours := h\<rparr>)
      | (Inr putHours, h) \<Rightarrow>
          (let d' = d\<lparr>pd_hours := h\<rparr> in
           if frm = AddForm \<and> putHours = ''error'' then (None, d')
           else submit_plan frm ask (fill_hidden putHours d')))"

subsection \<open>The server\<close>

text \<open>
  What the service writes for a new plan of what the fields above hold, or \<open>None\<close> where it throws. \<open>regs\<close> is the table
  of regions: for a code, the regions found, each with the code of its parent and its name. A region is stored
  with its name after that of its parent, or with an empty name where one of the two is not found. The rest of
  the service's work on the plan (its sites, addresses, frequency and statistics code) is on other fields.
\<close>

type_synonym region_table = "string \<Rightarrow> (string \<times> string) list"

definition region_name :: "region_table \<Rightarrow> string \<Rightarrow> string" where
  "region_name regs code =
     (case regs code of
        [] \<Rightarrow> []
      | (parent, name) # _ \<Rightarrow>
          (case regs parent of
             [] \<Rightarrow> []
           | (_, parentName) # _ \<Rightarrow> if name \<noteq> parentName then parentName @ name else name))"

definition addAdRegionLink :: "region_table \<Rightarrow> string \<Rightarrow> (string \<times> string) list" where
  "addAdRegionLink regs regionCodes = map (\<lambda>c. (c, region_name regs c)) (link_codes regionCodes)"

definition addPlanMaterial :: "string \<Rightarrow> string list" where
  "addPlanMaterial adMaterialIds = link_codes adMaterialIds"

record target_rows =
  tr_hours :: "time_filter list"
  tr_materials :: "string list"
  tr_regions :: "(string \<times> string) list"
  tr_labels :: "string list"

definition store_targets :: "region_table \<Rightarrow> (string \<Rightarrow> string) \<Rightarrow> (field \<Rightarrow> string) \<Rightarrow> target_rows option" where
  "store_targets regs hidden vals =
     (case addPlanTime (hidden ''putHours'') of
        None \<Rightarrow> None
      | Some rows \<Rightarrow> Some \<lparr>tr_hours = rows,
          tr_materials = (if vals LinkType = ''M'' then addPlanMaterial (vals AdMaterialIds) else []),
          tr_regions = addAdRegionLink regs (hidden ''regionCodes''),
          tr_labels = label_codes (hidden ''allLabelCodes'')\<rparr>)"

subsection \<open>What is sent\<close>

text \<open>The order matters: the materials are written before the check reads them.\<close>

lemma checkInput_vals: "f \<noteq> KwFileName \<Longrightarrow> pf_val (snd (checkInput_adplan frm ask p)) f = pf_val p f"
  using checkInput_same [where p = p and frm = frm and ask = ask] by (simp add: same_form_def)

definition filled_form :: "plan_doc \<Rightarrow> plan_page" where
  "filled_form d = setVal AdMaterialIds (getMaterialIds (pd_mats d)) (pd_form d)"

lemma filled_layout [simp]: "add_layout (filled_form d) = add_layout (pd_form d)" "edit_layout (filled_form d) = edit_layout (pd_form d)"
  by (simp_all add: filled_form_def add_layout_def edit_layout_def)

lemma submit_sent:
  assumes "add_layout (pd_form d)"
  shows "\<exists>p. submit_plan AddForm ask (fill_hidden h d) =
    (None, (fill_hidden h d)\<lparr>pd_form := p,
       pd_sent := pd_sent d @ (if accepts AddForm ask (filled_form d) then [(pd_hidden (fill_hidden h d), pf_val p)] else [])\<rparr>) \<and>
    (\<forall>f. f \<noteq> KwFileName \<longrightarrow> pf_val p f = pf_val (filled_form d) f)"
proof -
  let ?d = "fill_hidden h d"
  have f: "pd_form ?d = filled_form d" "pd_sent ?d = pd_sent d" by (simp_all add: fill_hidden_def filled_form_def)
  obtain p where p: "checkInput_adplan AddForm ask (filled_form d) = (Inr (accepts AddForm ask (filled_form d)), p)"
    using add_check_result [of "filled_form d" ask] assms by (metis filled_layout(1) prod.collapse)
  have "\<forall>g. g \<noteq> KwFileName \<longrightarrow> pf_val p g = pf_val (filled_form d) g"
    using checkInput_vals [of _ AddForm ask "filled_form d"] by (simp add: p)
  then show ?thesis by (intro exI [of _ p]) (simp add: submit_plan_def f p Let_def)
qed

text \<open>
  C1: The form for new plans sends a plan exactly if the hours chosen have an end and the fields are acceptable;
  nothing is thrown. What it sends are the hours in a text the server can store, the codes of the regions chosen,
  the labels and the materials, of which there is at least one where the plan links to materials.
\<close>

theorem add_plan_sends:
  assumes "hours_form (pd_hours d)" "add_layout (pd_form d)"
  shows "fst (save_plan AddForm ask d) = None \<and>
    (\<exists>h hp. getTime (pd_hours d) = (Inr h, hp) \<and>
      (if h \<noteq> ''error'' \<and> accepts AddForm ask (filled_form d)
       then (\<exists>hidden vals rows. pd_sent (snd (save_plan AddForm ask d)) = pd_sent d @ [(hidden, vals)] \<and>
         addPlanTime (hidden ''putHours'') = Some rows \<and>
         hidden ''putHours'' = h \<and> hidden ''regionCodes'' = getMediaCategoryCodes (pd_regions d) \<and>
         hidden ''allLabelCodes'' = join_on CHR '','' (pd_labels d) \<and>
         vals AdMaterialIds = getMaterialIds (pd_mats d) \<and> (vals LinkType = ''M'' \<longrightarrow> mt_selected (pd_mats d) \<noteq> []))
       else pd_sent (snd (save_plan AddForm ask d)) = pd_sent d))"
proof -
  obtain h hp where g: "getTime (pd_hours d) = (Inr h, hp)"
    using getTime_total assms(1) by blast
  show ?thesis
  proof (cases "h = ''error''")
    case True
    then show ?thesis using g by (auto simp: save_plan_def)
  next
    case False
    let ?d = "d\<lparr>pd_hours := hp\<rparr>"
    have "filled_form ?d = filled_form d" by (simp add: filled_form_def)
    with submit_sent [of ?d ask h] assms(2) obtain p where p: "save_plan AddForm ask d =
        (None, (fill_hidden h ?d)\<lparr>pd_form := p, pd_sent := pd_sent d @
          (if accepts AddForm ask (filled_form d) then [(pd_hidden (fill_hidden h ?d), pf_val p)] else [])\<rparr>)"
        "\<forall>f. f \<noteq> KwFileName \<longrightarrow> pf_val p f = pf_val (filled_form d) f"
      using g False by (auto simp: save_plan_def)
    obtain rows where rows: "addPlanTime h = Some rows"
      using addPlanTime_rows getTime_result [OF assms(1) g False] by blast
    have m: "mt_selected (pd_mats d) \<noteq> []" if "accepts AddForm ask (filled_form d)" "pf_val p LinkType = ''M''"
      using that p(2) by (auto simp: accepts_def fields_ok_def content_ok_def filled_form_def getMaterialIds_def)
    show ?thesis
      using g False p rows m
      by (intro conjI exI [of _ h] exI [of _ hp]) (auto simp: fill_hidden_def filled_form_def)
  qed
qed

lemma accepts_materials: "accepts frm ask p \<Longrightarrow> trim v \<noteq> [] \<Longrightarrow> accepts frm ask (setVal AdMaterialIds v p)"
  by (cases frm) (auto simp: accepts_def fields_ok_def keywords_result_def keywords_of_def basics_ok_def content_ok_def)

text \<open>Regions chosen by clicks: the boxes of \<open>A\<close> are opened, and the first and the third are ticked.\<close>

definition sample_regions :: selector where
  "sample_regions = snd (click_box 2 (snd (click_box 0 (queryAnswered sample_sub ''A'' (new_selector [(''A'', ''News'')])))))"

lemma sample_regions_value: "cs_arr sample_regions = [\<lparr>ce_parent = ''A'', ce_children = [''a1'', ''a3'']\<rparr>]"
  by (simp add: sample_regions_def click_box_def queryAnswered_def initMediaCateSel_def boxes_of_def sample_sub_def
      new_selector_def addMediaCate_def checked_codes_def Let_def)

definition sample_doc :: "plan_form \<Rightarrow> int \<Rightarrow> int \<Rightarrow> plan_doc" where
  "sample_doc frm start endHour = \<lparr>pd_hours = sample_hours True False start endHour, pd_regions = sample_regions,
     pd_labels = [''L1''], pd_mats = sample_mat_page,
     pd_form = sample_plan frm, pd_hidden = (\<lambda>i. []), pd_sent = []\<rparr>"

lemma sample_filled: "accepts frm ask (filled_form (sample_doc frm s e))"
proof -
  have "trim ''2'' \<noteq> []" by code_simp
  moreover have "getMaterialIds sample_mat_page = ''2''" by (simp add: getMaterialIds_def sample_mat_page_def)
  ultimately show ?thesis
    using accepts_materials [OF sample_accepts, of "''2''" frm ask] by (simp add: filled_form_def sample_doc_def)
qed

theorem add_plan_sends_witness:
  "\<exists>hidden vals. pd_sent (snd (save_plan AddForm (\<lambda>f. None) (sample_doc AddForm 9 5))) = [(hidden, vals)] \<and>
     addPlanTime (hidden ''putHours'') \<noteq> None \<and> hidden ''regionCodes'' = ''a1,a3''"
proof -
  have form: "hours_form (pd_hours (sample_doc AddForm 9 5))" "add_layout (pd_form (sample_doc AddForm 9 5))"
    using sample_layout(1) by (simp_all add: sample_doc_def sample_hours_form hour_ok_def)
  have "fst (getTime (pd_hours (sample_doc AddForm 9 5))) \<noteq> Inr ''error''" by (simp add: sample_doc_def sample_time)
  then show ?thesis
    using add_plan_sends [OF form, of "\<lambda>f. None"] sample_filled [of AddForm "\<lambda>f. None" 9 5]
    by (auto simp: sample_doc_def getMediaCategoryCodes_def sample_regions_value)
qed

subsection \<open>What is stored\<close>

text \<open>
  A selector reached by clicks from a new form; the codes the server offers below each category are distinct
  and survive its splitting of the sent lists.
\<close>

definition clicked :: "(string \<Rightarrow> string list) \<Rightarrow> selector \<Rightarrow> bool" where
  "clicked sub s \<longleftrightarrow> (\<exists>options. sel_reachable sub (new_selector options) s) \<and>
     (\<forall>p. distinct (sub p) \<and> (\<forall>c \<in> set (sub p). plain_code c))"

lemma clicked_plain: "clicked sub s \<Longrightarrow> plain_entries s"
  using reachable_plain by (auto simp: clicked_def)

text \<open>
  C2: From the clicks to the rows: for a plan sent by the form for new plans, what the server does with these fields throws
  nothing and writes a row for every region chosen by any sequence of clicks, with its name in the table of regions,
  for every label and, if the plan links to materials, for every material chosen, in this order, and for nothing else;
  the rows of the hours are those of the hours chosen. The codes are taken to survive the server's splitting.
\<close>

theorem plan_stored:
  assumes "hours_form (pd_hours d)" "add_layout (pd_form d)" "getTime (pd_hours d) = (Inr h, hp)" "h \<noteq> ''error''"
    and "accepts AddForm ask (filled_form d)" "clicked regions (pd_regions d)"
    and "plain_ids (pd_mats d)" "\<forall>l \<in> set (pd_labels d). plain_code l"
  shows "\<exists>hidden vals rows. pd_sent (snd (save_plan AddForm ask d)) = pd_sent d @ [(hidden, vals)] \<and>
    addPlanTime h = Some rows \<and>
    store_targets regs hidden vals = Some \<lparr>tr_hours = rows,
      tr_materials = (if pf_val (pd_form d) LinkType = ''M'' then chosen_ids (pd_mats d) else []),
      tr_regions = map (\<lambda>c. (c, region_name regs c)) (chosen_codes (pd_regions d)),
      tr_labels = pd_labels d\<rparr>"
proof -
  let ?d = "d\<lparr>pd_hours := hp\<rparr>"
  have "filled_form ?d = filled_form d" by (simp add: filled_form_def)
  with submit_sent [of ?d ask h] assms(2-5) obtain p where p: "save_plan AddForm ask d =
      (None, (fill_hidden h ?d)\<lparr>pd_form := p, pd_sent := pd_sent d @ [(pd_hidden (fill_hidden h ?d), pf_val p)]\<rparr>)"
      "pf_val p AdMaterialIds = getMaterialIds (pd_mats d)" "pf_val p LinkType = pf_val (pd_form d) LinkType"
    by (auto simp: save_plan_def filled_form_def)
  obtain rows where rows: "addPlanTime h = Some rows"
    using addPlanTime_rows getTime_result [OF assms(1,3,4)] by blast
  have "link_codes (getMediaCategoryCodes (pd_regions d)) = chosen_codes (pd_regions d)"
    "link_codes (getMaterialIds (pd_mats d)) = chosen_ids (pd_mats d)"
    "label_codes (join_on CHR '','' (pd_labels d)) = pd_labels d"
    using clicked_plain [THEN cats.stored] assms(6) mats.stored [OF assms(7)] code_list.labels_stored [OF assms(8)] by simp_all
  then show ?thesis
    using p rows by (intro exI [of _ "pd_hidden (fill_hidden h ?d)"] exI [of _ "pf_val p"] exI [of _ rows])
      (simp add: fill_hidden_def store_targets_def addAdRegionLink_def addPlanMaterial_def)
qed

lemma sample_clicked: "clicked sample_sub sample_regions"
proof -
  let ?q = "queryAnswered sample_sub ''A'' (new_selector [(''A'', ''News'')])"
  have q: "cs_boxes ?q = map (\<lambda>c. \<lparr>bx_code = c, bx_parent = ''A'', bx_checked = False\<rparr>) [''a1'', ''a2'', ''a3'']"
    by (simp add: queryAnswered_def initMediaCateSel_def boxes_of_def sample_sub_def new_selector_def)
  have len: "2 < length (cs_boxes (snd (click_box 0 ?q)))"
    by (simp add: click_box_def q addMediaCate_def Let_def)
  have "sel_step sample_sub (new_selector [(''A'', ''News'')]) ?q" by (rule answer)
  moreover have "sel_step sample_sub ?q (snd (click_box 0 ?q))"
    by (rule click [of 0 _ "fst (click_box 0 ?q)"]) (simp_all add: q)
  moreover have "sel_step sample_sub (snd (click_box 0 ?q)) sample_regions"
    unfolding sample_regions_def by (rule click [OF len surjective_pairing])
  ultimately have "sel_reachable sample_sub (new_selector [(''A'', ''News'')]) sample_regions"
    unfolding sel_reachable_def by (meson converse_rtranclp_into_rtranclp rtranclp.rtrancl_refl)
  moreover have "\<forall>p. distinct (sample_sub p) \<and> (\<forall>c \<in> set (sample_sub p). plain_code c)"
    by (simp add: sample_sub_def plain_code_def java_blank_def)
  ultimately show ?thesis unfolding clicked_def by blast
qed

definition sample_table :: region_table where
  "sample_table c = (if c = ''A'' then [([], ''North'')] else if c = ''a1'' then [(''A'', ''-1'')] else [])"

theorem plan_stored_witness:
  "\<exists>hidden vals rows. pd_sent (snd (save_plan AddForm (\<lambda>f. None) (sample_doc AddForm 9 5))) = [(hidden, vals)] \<and>
     store_targets sample_table hidden vals = Some rows \<and> tr_regions rows = [(''a1'', ''North-1''), (''a3'', [])] \<and>
     tr_materials rows = [''2''] \<and> tr_labels rows = [''L1'']"
proof -
  let ?d = "sample_doc AddForm 9 5"
  obtain h hp where h: "getTime (pd_hours ?d) = (Inr h, hp)" "h \<noteq> ''error''"
    by (simp add: sample_doc_def sample_time)
  have "hours_form (pd_hours ?d)" "add_layout (pd_form ?d)" "clicked sample_sub (pd_regions ?d)"
    using sample_layout(1) sample_clicked by (simp_all add: sample_doc_def sample_hours_form hour_ok_def)
  moreover have "plain_ids (pd_mats ?d)" "\<forall>l \<in> set (pd_labels ?d). plain_code l"
    by (simp_all add: sample_doc_def plain_ids_def sample_mat_page_def plain_code_def java_blank_def)
  ultimately obtain hidden vals rows where "pd_sent (snd (save_plan AddForm (\<lambda>f. None) ?d)) = pd_sent ?d @ [(hidden, vals)]"
      "store_targets sample_table hidden vals = Some \<lparr>tr_hours = rows,
        tr_materials = (if pf_val (pd_form ?d) LinkType = ''M'' then chosen_ids (pd_mats ?d) else []),
        tr_regions = map (\<lambda>c. (c, region_name sample_table c)) (chosen_codes (pd_regions ?d)), tr_labels = pd_labels ?d\<rparr>"
    using plan_stored [OF _ _ h sample_filled] by blast
  then show ?thesis
    by (intro exI [of _ hidden] exI [of _ vals] exI)
      (auto simp: sample_doc_def sample_mat_page_def sample_plan_def chosen_codes_def sample_regions_value region_name_def
        sample_table_def)
qed

text \<open>
  The form for editing sends a plan whose hours lack an end as well, with the hours \<open>error\<close>, for which the
  server throws.
\<close>

theorem edit_sends_bad_hours:
  assumes "hp_checked (pd_hours d) ''cWork'' = Some True" "hp_index (pd_hours d) ''workDayEnd'' = Some 0"
    "edit_layout (pd_form d)" "accepts EditForm ask (filled_form d)" "\<not> edit_stops (filled_form d)"
  shows "\<exists>hidden vals. pd_sent (snd (save_plan EditForm ask d)) = pd_sent d @ [(hidden, vals)] \<and>
    addPlanTime (hidden ''putHours'') = None"
proof -
  have "parse_int (option_value 0) = Some 0"
    using parse_int_dec [of 0] by (simp add: option_value_def int_text_def)
  then obtain hp where g: "getTime (pd_hours d) = (Inr ''error'', hp)"
    using assms(1,2) by (auto simp: getTime_def time_of_def)
  have bad: "addPlanTime ''error'' = None"
    by (simp add: addPlanTime_def java_blank_def java_split_def assembleAdTimeFilterFromStr_def java_at_def)
  obtain p where "checkInput_adplan EditForm ask (filled_form d) = (Inr True, p)"
    using edit_check_result [of "filled_form d" ask] assms(3-5) by (metis filled_layout(2) prod.collapse)
  then show ?thesis
    using g bad by (simp add: save_plan_def submit_plan_def fill_hidden_def filled_form_def Let_def)
qed

theorem edit_sends_bad_hours_witness:
  "\<exists>hidden vals. pd_sent (snd (save_plan EditForm (\<lambda>f. None) (sample_doc EditForm 0 0))) = [(hidden, vals)] \<and>
    addPlanTime (hidden ''putHours'') = None"
proof -
  let ?d = "sample_doc EditForm 0 0"
  have a: "accepts EditForm (\<lambda>f. None) (filled_form ?d)" by (rule sample_filled)
  then have "\<not> edit_stops (filled_form ?d)"
    by (simp add: edit_stops_def accepts_def fields_ok_def filled_form_def sample_doc_def sample_plan_def)
  then show ?thesis
    using edit_sends_bad_hours [of ?d "\<lambda>f. None"] a sample_layout(2) by (simp add: sample_doc_def sample_hours_def)
qed

end
