(* ===== verification/BoxTable.thy ===== *)
theory BoxTable
  imports CodeField
begin

section \<open>Tables with a box in every row\<close>

text \<open>
  The pages of the agent site (\<open>check_soon.jsp\<close>, \<open>role.jsp\<close>, \<open>whiteList.jsp\<close>, \<open>people_whiteList.jsp\<close>) list rows
  with a check box each and one above them that ticks them all, and send the ids of the ticked rows to the
  server, joined by commas. A row is its id and whether it is ticked, in the order of the page.
\<close>

record box_table =
  bt_rows :: "(string \<times> bool) list"
  bt_all :: bool

definition loaded_table :: "string list \<Rightarrow> box_table" where
  "loaded_table ids = \<lparr>bt_rows = map (\<lambda>i. (i, False)) ids, bt_all = False\<rparr>"

definition ticked :: "box_table \<Rightarrow> string list" where
  "ticked t = map fst (filter snd (bt_rows t))"

definition all_ticked :: "box_table \<Rightarrow> bool" where
  "all_ticked t \<longleftrightarrow> list_all snd (bt_rows t)"

subsection \<open>Clicks\<close>

text \<open>The browser switches the box that is clicked before the handler runs.\<close>

definition click_all :: "box_table \<Rightarrow> box_table" where
  "click_all t = (let b = \<not> bt_all t in t\<lparr>bt_all := b, bt_rows := map (\<lambda>(i, _). (i, b)) (bt_rows t)\<rparr>)"

definition switch_row :: "nat \<Rightarrow> box_table \<Rightarrow> box_table" where
  "switch_row k t = t\<lparr>bt_rows := (bt_rows t)[k := (fst (bt_rows t ! k), \<not> snd (bt_rows t ! k))]\<rparr>"

text \<open>The loop over the rows sets the box above them at every row and stops at the first that is not ticked.\<close>

fun mark_all :: "(string \<times> bool) list \<Rightarrow> bool \<Rightarrow> bool" where
  "mark_all [] a = a"
| "mark_all ((i, b) # rs) a = (if b then mark_all rs True else False)"

definition click_row :: "nat \<Rightarrow> box_table \<Rightarrow> box_table" where
  "click_row k t = (let t' = switch_row k t in t'\<lparr>bt_all := mark_all (bt_rows t') (bt_all t')\<rparr>)"

text \<open>What can happen to a table: it is loaded anew, or a box is clicked.\<close>

inductive table_step :: "box_table \<Rightarrow> box_table \<Rightarrow> bool" where
  Load: "table_step t (loaded_table ids)"
| All: "table_step t (click_all t)"
| Row: "k < length (bt_rows t) \<Longrightarrow> table_step t (click_row k t)"

inductive_cases table_stepE: "table_step t u"

abbreviation table_reachable :: "box_table \<Rightarrow> bool" where
  "table_reachable \<equiv> table_step\<^sup>*\<^sup>* (loaded_table [])"

subsection \<open>The ids that are sent\<close>

definition check_ids :: "box_table \<Rightarrow> string" where
  "check_ids t = concat (map (\<lambda>i. i @ '','') (ticked t))"

text \<open>\<open>s.trim().substring(0, s.length - 1)\<close>, as the page of the checks sends them.\<close>

definition batch_line :: "box_table \<Rightarrow> string" where
  "batch_line t = take (length (check_ids t) - 1) (trim (check_ids t))"

text \<open>The white lists send the text with its last comma, and the service cuts off the last character.\<close>

definition delete_line :: "box_table \<Rightarrow> string" where
  "delete_line t = butlast (check_ids t)"

definition plain_id :: "string \<Rightarrow> bool" where
  "plain_id i \<longleftrightarrow> i \<noteq> [] \<and> (\<forall>c \<in> set i. c \<noteq> CHR '','' \<and> \<not> is_space c)"

definition plain_rows :: "box_table \<Rightarrow> bool" where
  "plain_rows t \<longleftrightarrow> (\<forall>i \<in> set (map fst (bt_rows t)). plain_id i \<and> plain_code i)"

text \<open>\<open>DELETE FROM .. WHERE id IN ( line )\<close> on the ids of a table, for lines of plain ids; the service answers whether a row went.\<close>

definition delete_in :: "string \<Rightarrow> string list \<Rightarrow> string list" where
  "delete_in ids table = filter (\<lambda>i. i \<notin> set (split_on CHR '','' ids)) table"

definition deleteAll :: "string \<Rightarrow> string list \<Rightarrow> bool \<times> string list" where
  "deleteAll domainIds table =
     (if domainIds = [] then (False, table)
      else let table' = delete_in (butlast domainIds) table in (length table' < length table, table'))"

text \<open>The button: without a ticked row an alert, without the user's consent nothing, else the request.\<close>

definition delAll :: "bool \<Rightarrow> box_table \<Rightarrow> string option" where
  "delAll confirm t = (if \<exists>r \<in> set (bt_rows t). snd r then if confirm then Some (check_ids t) else None else None)"

subsection \<open>Lemmas\<close>

lemma mark_all_rows: "rs \<noteq> [] \<Longrightarrow> mark_all rs a \<longleftrightarrow> list_all snd rs"
proof (induction rs a rule: mark_all.induct)
  case (2 i b rs a)
  then show ?case by (cases "rs = []") auto
qed simp

lemma switch_row_ids [simp]: "map fst (bt_rows (switch_row k t)) = map fst (bt_rows t)"
proof (cases "k < length (bt_rows t)")
  case True
  then have "fst (bt_rows t ! k) = map fst (bt_rows t) ! k" by simp
  then show ?thesis by (simp add: switch_row_def map_update del: nth_map)
qed (simp add: switch_row_def list_update_beyond)

lemma click_ids [simp]: "map fst (bt_rows (click_row k t)) = map fst (bt_rows t)"
    "map fst (bt_rows (click_all t)) = map fst (bt_rows t)"
  by (auto simp: click_row_def click_all_def Let_def)

lemma ticked_subset: "set (ticked t) \<subseteq> set (map fst (bt_rows t))"
  by (auto simp: ticked_def)

lemma ticked_all: "all_ticked t \<Longrightarrow> ticked t = map fst (bt_rows t)"
  by (simp add: ticked_def all_ticked_def list_all_iff)

lemma check_ids_join: "ticked t \<noteq> [] \<Longrightarrow> check_ids t = join_on CHR '','' (ticked t) @ '',''"
proof -
  have "xs \<noteq> [] \<Longrightarrow> concat (map (\<lambda>i. i @ '','') xs) = join_on CHR '','' xs @ '',''" for xs
    by (induction xs rule: induct_list012) auto
  then show "ticked t \<noteq> [] \<Longrightarrow> check_ids t = join_on CHR '','' (ticked t) @ '',''" by (simp add: check_ids_def)
qed

lemma plain_id_ends: "plain_id i \<Longrightarrow> \<not> is_space (hd i)" "plain_id i \<Longrightarrow> \<not> is_space (last i)"
  by (auto simp: plain_id_def)

lemma trim_ids: "plain_rows t \<Longrightarrow> trim (check_ids t) = check_ids t"
proof (cases "ticked t")
  case (Cons i js)
  assume "plain_rows t"
  then have "plain_id i" using Cons ticked_subset [of t] by (auto simp: plain_rows_def)
  then have "\<not> is_space (hd (check_ids t))" using plain_id_ends [of i] Cons by (auto simp: check_ids_def plain_id_def hd_append)
  moreover have "last (check_ids t) = CHR '',''" using check_ids_join [of t] Cons by simp
  moreover have "\<not> is_space CHR '',''" by (simp add: is_space_def)
  ultimately show "trim (check_ids t) = check_ids t" by (intro trim_id) simp
qed (simp add: check_ids_def)

lemma line_join: "plain_rows t \<Longrightarrow> batch_line t = join_on CHR '','' (ticked t)" "delete_line t = join_on CHR '','' (ticked t)"
  by (cases "ticked t = []"; use check_ids_join [of t] trim_ids [of t] in
      \<open>simp add: batch_line_def delete_line_def butlast_append\<close>; simp add: check_ids_def)+

text \<open>Both texts keep the contract of a field of codes.\<close>

interpretation batch: coded_field ticked batch_line plain_rows
  using ticked_subset by unfold_locales (auto simp: line_join plain_rows_def)

interpretation deletion: coded_field ticked delete_line plain_rows
  using ticked_subset by unfold_locales (auto simp: line_join plain_rows_def)

subsection \<open>Properties\<close>

lemma step_consistent:
  assumes "table_step t u" "bt_rows t \<noteq> [] \<longrightarrow> (bt_all t \<longleftrightarrow> all_ticked t)"
  shows "bt_rows u \<noteq> [] \<longrightarrow> (bt_all u \<longleftrightarrow> all_ticked u)"
  using assms(1)
proof cases
  case (Load ids)
  then show ?thesis by (cases ids) (simp_all add: loaded_table_def all_ticked_def)
next
  case All
  then show ?thesis
    by (cases "bt_rows t") (auto simp: click_all_def all_ticked_def Let_def list_all_iff split: prod.splits)
next
  case (Row k)
  then show ?thesis by (auto simp: click_row_def all_ticked_def Let_def mark_all_rows)
qed

text \<open>
  In the tables of checks and of roles, over any sequence of clicks and of newly loaded tables, the box above the rows is ticked exactly if all rows are,
  unless there are none.
\<close>

theorem all_box:
  assumes "table_reachable t" "bt_rows t \<noteq> []"
  shows "bt_all t \<longleftrightarrow> all_ticked t"
proof -
  have "bt_rows t \<noteq> [] \<longrightarrow> (bt_all t \<longleftrightarrow> all_ticked t)"
    using assms(1)
  proof (induction rule: rtranclp_induct)
    case (step y z)
    show ?case by (rule step_consistent [OF step(2,3)])
  qed (simp add: loaded_table_def)
  then show ?thesis using assms(2) by blast
qed

theorem all_box_witness:
  "bt_all (click_row 1 (click_row 0 (loaded_table [''7'', ''8'']))) \<longleftrightarrow>
     all_ticked (click_row 1 (click_row 0 (loaded_table [''7'', ''8''])))"
proof -
  let ?u = "loaded_table [''7'', ''8'']"
  have "table_step (loaded_table []) ?u" "table_step ?u (click_row 0 ?u)"
      "table_step (click_row 0 ?u) (click_row 1 (click_row 0 ?u))"
    by (rule Load, rule Row, simp add: loaded_table_def, rule Row, simp add: loaded_table_def click_row_def switch_row_def Let_def)
  then have "table_reachable (click_row 1 (click_row 0 ?u))"
    by (blast intro: rtranclp.rtrancl_into_rtrancl)
  then show ?thesis
    by (rule all_box) (simp add: loaded_table_def click_row_def switch_row_def Let_def)
qed

lemma split_line:
  assumes "plain_rows t" "ticked t \<noteq> []"
  shows "split_on CHR '','' (delete_line t) = ticked t"
proof -
  have "\<forall>i \<in> set (ticked t). CHR '','' \<notin> set i"
    using assms(1) ticked_subset [of t] unfolding plain_rows_def plain_code_def by blast
  then show ?thesis using split_join [OF assms(2)] by (simp add: line_join)
qed

text \<open>
  Deleting rows of a white list: what goes from the table of the server are exactly the rows ticked, and only after
  the user agreed; the page is told that it worked exactly if one of them was there.
\<close>

theorem delete_ticked:
  assumes "plain_rows t"
  shows "(case delAll confirm t of None \<Rightarrow> \<not> confirm \<or> ticked t = []
     | Some ids \<Rightarrow> confirm \<and> deleteAll ids table =
         (\<exists>i \<in> set table. i \<in> set (ticked t), filter (\<lambda>i. i \<notin> set (ticked t)) table))"
proof (cases "ticked t = [] \<or> \<not> confirm")
  case False
  then have some: "\<exists>r \<in> set (bt_rows t). snd r" by (auto simp: ticked_def filter_empty_conv)
  have ne: "check_ids t \<noteq> []" using False check_ids_join [of t] by simp
  have shorter: "length (filter P xs) < length xs \<longleftrightarrow> (\<exists>i \<in> set xs. \<not> P i)" for P and xs :: "string list"
    by (induction xs) (auto simp: less_Suc_eq_le length_filter_le)
  have "delete_in (butlast (check_ids t)) table = filter (\<lambda>i. i \<notin> set (ticked t)) table"
    using False split_line [OF assms] by (simp add: delete_in_def delete_line_def)
  then show ?thesis using False some ne shorter by (simp add: delAll_def deleteAll_def Let_def)
next
  case True
  have "ticked t = [] \<longleftrightarrow> \<not> (\<exists>r \<in> set (bt_rows t). snd r)" by (auto simp: ticked_def filter_empty_conv)
  then show ?thesis using True by (auto simp: delAll_def)
qed

theorem delete_ticked_witness:
  "deleteAll (check_ids (click_row 1 (loaded_table [''7'', ''8'']))) [''6'', ''7'', ''8''] = (True, [''6'', ''7''])"
proof -
  let ?t = "click_row 1 (loaded_table [''7'', ''8''])"
  have "plain_rows ?t" by (simp add: plain_rows_def loaded_table_def plain_id_def is_space_def plain_code_def java_blank_def)
  then show ?thesis
    using delete_ticked [of ?t True "[''6'', ''7'', ''8'']"]
    by (simp add: delAll_def ticked_def loaded_table_def click_row_def switch_row_def Let_def)
qed

end
