(* ===== verification/AdCheck.thy ===== *)
theory AdCheck
  imports BoxTable
begin

section \<open>Checks of ads\<close>

text \<open>
  Before an ad is shown it passes the checks of \<open>view/check/check_soon.jsp\<close>: every reviewer has a check of every
  ad, waiting (\<open>1\<close>), passed (\<open>2\<close>) or rejected (\<open>3\<close>), and decides about one in a dialog or about all ticked ones in
  another. \<open>CheckManageController\<close> stores the decision and computes the status of the ad from all its checks; the
  ad server shows ads of status \<open>2\<close> only.
\<close>

subsection \<open>The page\<close>

text \<open>The dialog of a single check is markup of the server, put into the page when it arrives.\<close>

record single_dialog =
  sd_pk :: string
  sd_radio :: string
  sd_desc :: string
  sd_suggest :: bool

datatype check_alert = ChooseVerdict | NothingTicked | ChooseBatchVerdict

datatype check_request =
    CheckadDIV string | Checkonead string string string | BatchCheckAd string string string | QryCheckPageList nat | SsdbReload

text \<open>\<open>cp_common\<close> counts how often \<open>common.js\<close> has run, and so how often its handlers are bound.\<close>

record check_page =
  cp_table :: box_table
  cp_single :: "single_dialog option"
  cp_oneShown :: bool
  cp_allShown :: bool
  cp_radio :: string
  cp_desc :: string
  cp_suggest :: bool
  cp_common :: nat
  cp_alerts :: "check_alert list"
  cp_requests :: "check_request list"

definition new_page :: check_page where
  "new_page = \<lparr>cp_table = loaded_table [], cp_single = None, cp_oneShown = False, cp_allShown = False, cp_radio = [], cp_desc = [],
     cp_suggest = False, cp_common = 1, cp_alerts = [], cp_requests = []\<rparr>"

definition send_request :: "check_request \<Rightarrow> check_page \<Rightarrow> check_page" where
  "send_request r p = p\<lparr>cp_requests := cp_requests p @ [r]\<rparr>"

definition check_alerts :: "check_alert \<Rightarrow> check_page \<Rightarrow> check_page" where
  "check_alerts a p = p\<lparr>cp_alerts := cp_alerts p @ [a]\<rparr>"

text \<open>The table is emptied at once; its rows come with the answer.\<close>

definition searchCheckPageInfo :: "nat \<Rightarrow> check_page \<Rightarrow> check_page" where
  "searchCheckPageInfo curPage p = send_request (QryCheckPageList curPage) (p\<lparr>cp_table := loaded_table []\<rparr>)"

definition page_listed :: "string list \<Rightarrow> check_page \<Rightarrow> check_page" where
  "page_listed ids p = p\<lparr>cp_table := loaded_table ids\<rparr>"

subsection \<open>A single check\<close>

definition open_single :: "string \<Rightarrow> check_page \<Rightarrow> check_page" where
  "open_single pk p = (send_request (CheckadDIV pk) p)\<lparr>cp_oneShown := True\<rparr>"

text \<open>The markup of the dialog brings \<open>common.js\<close> along, which runs again when it is appended.\<close>

definition single_arrived :: "string \<Rightarrow> check_page \<Rightarrow> check_page" where
  "single_arrived pk p = p\<lparr>cp_single := Some \<lparr>sd_pk = pk, sd_radio = [], sd_desc = [], sd_suggest = False\<rparr>, cp_common := Suc (cp_common p)\<rparr>"

definition on_single :: "(single_dialog \<Rightarrow> single_dialog) \<Rightarrow> check_page \<Rightarrow> check_page" where
  "on_single f p = p\<lparr>cp_single := map_option f (cp_single p)\<rparr>"

text \<open>The handler that hides the field is bound before there is a dialog, so choosing yes only sets the button.\<close>

definition radio_yes :: "check_page \<Rightarrow> check_page" where
  "radio_yes = on_single (\<lambda>d. d\<lparr>sd_radio := ''2''\<rparr>)"

definition radio_no :: "check_page \<Rightarrow> check_page" where
  "radio_no = on_single (\<lambda>d. d\<lparr>sd_radio := ''3'', sd_suggest := \<not> sd_suggest d\<rparr>)"

definition write_single :: "string \<Rightarrow> check_page \<Rightarrow> check_page" where
  "write_single v = on_single (\<lambda>d. d\<lparr>sd_desc := v\<rparr>)"

text \<open>\<open>$("#checkDesc")\<close> is the first element of that id in the page; the single dialog stands before the other.\<close>

definition checkDesc :: "check_page \<Rightarrow> string" where
  "checkDesc p = (case cp_single p of Some d \<Rightarrow> sd_desc d | None \<Rightarrow> cp_desc p)"

definition checkAd :: "check_page \<Rightarrow> check_page" where
  "checkAd p =
     (case cp_single p of
        None \<Rightarrow> p
      | Some d \<Rightarrow> if sd_radio d = [] then check_alerts ChooseVerdict p else send_request (Checkonead (sd_pk d) (sd_radio d) (checkDesc p)) p)"

definition close_single :: "check_page \<Rightarrow> check_page" where
  "close_single p = p\<lparr>cp_oneShown := False\<rparr>"

text \<open>The answers of both requests hide their dialog, load the table and tell the ad servers.\<close>

definition single_checked :: "check_page \<Rightarrow> check_page" where
  "single_checked p = send_request SsdbReload (searchCheckPageInfo 1 (close_single p))"

subsection \<open>Many checks\<close>

definition all_check :: "check_page \<Rightarrow> check_page" where
  "all_check p = (if trim (check_ids (cp_table p)) = [] then check_alerts NothingTicked p else p\<lparr>cp_allShown := True\<rparr>)"

definition is_all_yes :: "check_page \<Rightarrow> check_page" where
  "is_all_yes p = p\<lparr>cp_radio := ''2'', cp_suggest := False\<rparr>"

text \<open>Every run of \<open>common.js\<close> has bound a handler that shows the field if it is hidden and hides it if not.\<close>

definition radio_all_no :: "check_page \<Rightarrow> check_page" where
  "radio_all_no p = p\<lparr>cp_radio := ''3'', cp_suggest := (Not ^^ cp_common p) (cp_suggest p)\<rparr>"

definition write_batch :: "string \<Rightarrow> check_page \<Rightarrow> check_page" where
  "write_batch v p = p\<lparr>cp_desc := v\<rparr>"

definition batchCheckBtn :: "check_page \<Rightarrow> check_page" where
  "batchCheckBtn p =
     (if trim (check_ids (cp_table p)) = [] then p
      else if cp_radio p = [] then check_alerts ChooseBatchVerdict p
      else send_request (BatchCheckAd (batch_line (cp_table p)) (cp_radio p) (checkDesc p)) p)"

definition close_all :: "check_page \<Rightarrow> check_page" where
  "close_all p = p\<lparr>cp_allShown := False\<rparr>"

definition batch_checked :: "check_page \<Rightarrow> check_page" where
  "batch_checked p = send_request SsdbReload (searchCheckPageInfo 1 (close_all p))"

subsection \<open>The server\<close>

text \<open>
  The rows of \<open>ad_check_process\<close> (reviewers of type \<open>1\<close>) and \<open>t_ad_check_process\<close> (type \<open>3\<close>) in the order in which
  the database returns them, and the status of every ad. The dates of changes are left out.
\<close>

record check =
  ch_id :: string
  ch_ad :: string
  ch_sts :: string
  ch_desc :: string

record check_db =
  db_checks :: "string \<Rightarrow> check list"
  db_ads :: "string \<Rightarrow> string option"

definition reviewer :: "string \<Rightarrow> bool" where
  "reviewer user \<longleftrightarrow> user = ''1'' \<or> user = ''3''"

text \<open>\<open>passed\<close> stands for the Chinese text the server writes.\<close>

definition decide :: "string \<Rightarrow> string \<Rightarrow> check \<Rightarrow> check" where
  "decide radioValue checkdesc c =
     (if radioValue = ''2'' then c\<lparr>ch_sts := radioValue, ch_desc := ''passed''\<rparr>
      else if radioValue = ''3'' then c\<lparr>ch_sts := radioValue, ch_desc := checkdesc\<rparr>
      else c)"

definition updateCheck :: "string \<Rightarrow> check \<Rightarrow> check_db \<Rightarrow> check_db" where
  "updateCheck user c db = db\<lparr>db_checks := (db_checks db)(user :=
     map (\<lambda>x. if ch_id x = ch_id c then x\<lparr>ch_sts := ch_sts c, ch_desc := ch_desc c\<rparr> else x) (db_checks db user))\<rparr>"

definition updateAdTouFangSts :: "string \<Rightarrow> string \<Rightarrow> check_db \<Rightarrow> check_db" where
  "updateAdTouFangSts ad s db = (if db_ads db ad = None then db else db\<lparr>db_ads := (db_ads db)(ad \<mapsto> s)\<rparr>)"

definition checks_of :: "string \<Rightarrow> string \<Rightarrow> check_db \<Rightarrow> check list" where
  "checks_of user ad db = filter (\<lambda>c. ch_ad c = ad) (db_checks db user)"

text \<open>
  What both handlers begin with: the check and its ad are looked up and both written. Without the check, and
  without the ad as soon as it is used, the handler throws (\<open>None\<close>). It leaves the ad and the status it has in memory.
\<close>

definition review :: "string \<Rightarrow> string \<Rightarrow> string \<Rightarrow> string \<Rightarrow> check_db \<Rightarrow> (string \<times> string) option \<times> check_db" where
  "review user pk radioValue checkdesc db =
     (case find (\<lambda>c. ch_id c = pk) (db_checks db user) of
        None \<Rightarrow> (None, db)
      | Some c \<Rightarrow>
          (case db_ads db (ch_ad c) of
             None \<Rightarrow> (None, if radioValue = ''3'' then db else updateCheck user (decide radioValue checkdesc c) db)
           | Some s \<Rightarrow>
               (let s' = if radioValue = ''3'' then ''5'' else s
                in (Some (ch_ad c, s'), updateAdTouFangSts (ch_ad c) s' (updateCheck user (decide radioValue checkdesc c) db)))))"

text \<open>The loop over all checks of the ad: a rejected or waiting one decides and ends it.\<close>

fun settle :: "check list \<Rightarrow> string \<Rightarrow> string" where
  "settle [] s = s"
| "settle (c # cs) s =
     (if ch_sts c = ''3'' then ''5''
      else if ch_sts c = ''1'' then ''0''
      else settle cs (if ch_sts c = ''2'' then ''2'' else s))"

text \<open>\<open>checkonead\<close> writes the status after the loop.\<close>

definition checkonead :: "string \<Rightarrow> string \<Rightarrow> string \<Rightarrow> string \<Rightarrow> check_db \<Rightarrow> bool \<times> check_db" where
  "checkonead user pk radioValue checkdesc db =
     (if \<not> reviewer user then (True, db)
      else case review user pk radioValue checkdesc db of
             (None, db') \<Rightarrow> (False, db')
           | (Some (ad, s), db') \<Rightarrow> (True, updateAdTouFangSts ad (settle (checks_of user ad db') s) db'))"

text \<open>
  \<open>batchCheckAd\<close> writes it at the end of the loop's body, which is not reached by the check that ends the loop.
  The last argument is the status written so far.
\<close>

fun settle_saved :: "check list \<Rightarrow> string \<Rightarrow> string \<Rightarrow> string" where
  "settle_saved [] s t = t"
| "settle_saved (c # cs) s t =
     (if ch_sts c = ''3'' \<or> ch_sts c = ''1'' then t
      else let s' = if ch_sts c = ''2'' then ''2'' else s in settle_saved cs s' s')"

definition batch_one :: "string \<Rightarrow> string \<Rightarrow> string \<Rightarrow> string \<Rightarrow> check_db \<Rightarrow> bool \<times> check_db" where
  "batch_one user radioValue checkdesc pk db =
     (case review user pk radioValue checkdesc db of
        (None, db') \<Rightarrow> (False, db')
      | (Some (ad, s), db') \<Rightarrow> (True, updateAdTouFangSts ad (settle_saved (checks_of user ad db') s s) db'))"

fun batch_all :: "(string \<Rightarrow> check_db \<Rightarrow> bool \<times> check_db) \<Rightarrow> string list \<Rightarrow> check_db \<Rightarrow> bool \<times> check_db" where
  "batch_all f [] db = (True, db)"
| "batch_all f (pk # pks) db = (case f pk db of (True, db') \<Rightarrow> batch_all f pks db' | (False, db') \<Rightarrow> (False, db'))"

definition batchCheckAd :: "string \<Rightarrow> string \<Rightarrow> string \<Rightarrow> string \<Rightarrow> check_db \<Rightarrow> bool \<times> check_db" where
  "batchCheckAd user ids radioValue checkdesc db =
     (if reviewer user then batch_all (batch_one user radioValue checkdesc) (java_split CHR '','' ids) db else (True, db))"

text \<open>The requests of the page that change the database.\<close>

definition serve :: "string \<Rightarrow> check_request \<Rightarrow> check_db \<Rightarrow> bool \<times> check_db" where
  "serve user r db =
     (case r of
        Checkonead pk radioValue checkdesc \<Rightarrow> checkonead user pk radioValue checkdesc db
      | BatchCheckAd ids radioValue checkdesc \<Rightarrow> batchCheckAd user ids radioValue checkdesc db
      | _ \<Rightarrow> (True, db))"

subsection \<open>What a decision does\<close>

text \<open>
  The database has unique ids, knows the ads that are checked, and has no other states of a check. A verdict is
  what the checks of an ad come to: passed if all passed it, else the first that did not decides.
\<close>

definition check_db_ok :: "string \<Rightarrow> check_db \<Rightarrow> bool" where
  "check_db_ok user db \<longleftrightarrow> distinct (map ch_id (db_checks db user)) \<and>
     (\<forall>c \<in> set (db_checks db user). db_ads db (ch_ad c) \<noteq> None \<and> ch_sts c \<in> {''1'', ''2'', ''3''})"

definition verdict :: "check list \<Rightarrow> string" where
  "verdict cs =
     (case find (\<lambda>c. ch_sts c \<noteq> ''2'') cs of
        None \<Rightarrow> ''2''
      | Some c \<Rightarrow> if ch_sts c = ''3'' then ''5'' else ''0'')"

definition decided :: "string \<Rightarrow> string \<Rightarrow> string set \<Rightarrow> check list \<Rightarrow> check list" where
  "decided radioValue checkdesc pks cs = map (\<lambda>c. if ch_id c \<in> pks then decide radioValue checkdesc c else c) cs"

lemma decide_simps [simp]: "ch_id (decide r d c) = ch_id c" "ch_ad (decide r d c) = ch_ad c"
  by (simp_all add: decide_def)

lemma decided_simps [simp]: "map ch_id (decided r d pks cs) = map ch_id cs" "map ch_ad (decided r d pks cs) = map ch_ad cs"
    "length (decided r d pks cs) = length cs" "decided r d {} cs = cs"
  by (simp_all add: decided_def)

lemma decided_ads: "ch_ad ` {c \<in> set (decided r d A cs). ch_id c \<in> B} = ch_ad ` {c \<in> set cs. ch_id c \<in> B}"
proof -
  let ?g = "\<lambda>c. if ch_id c \<in> A then decide r d c else c"
  have "{c \<in> ?g ` set cs. ch_id c \<in> B} = ?g ` {c \<in> set cs. ch_id c \<in> B}" by auto
  moreover have "ch_ad ` ?g ` X = ch_ad ` X" for X unfolding image_image by (rule image_cong) auto
  ultimately show ?thesis by (simp add: decided_def)
qed

lemma decided_twice: "decided r d A (decided r d B cs) = decided r d (A \<union> B) cs"
  by (auto simp: decided_def decide_def)

lemma decided_sts:
  "r \<in> {''2'', ''3''} \<Longrightarrow> \<forall>c \<in> set cs. ch_sts c \<in> {''1'', ''2'', ''3''} \<Longrightarrow>
     \<forall>c \<in> set (decided r d pks cs). ch_sts c \<in> {''1'', ''2'', ''3''}"
  by (auto simp: decided_def decide_def)

lemma settle_verdict: "\<forall>c \<in> set cs. ch_sts c \<in> {''1'', ''2'', ''3''} \<Longrightarrow> cs \<noteq> [] \<or> s = ''2'' \<Longrightarrow> settle cs s = verdict cs"
  by (induction cs s rule: settle.induct) (auto simp: verdict_def)

lemma settle_saved_first:
  "\<forall>c \<in> set cs. ch_sts c \<in> {''1'', ''2'', ''3''} \<Longrightarrow>
     settle_saved cs s t = (if cs \<noteq> [] \<and> ch_sts (hd cs) = ''2'' then ''2'' else t)"
proof (induction cs s t rule: settle_saved.induct)
  case (2 c cs s t)
  then show ?case by (cases cs) (auto simp: Let_def)
qed simp

text \<open>With unique ids the update changes exactly the check that was found.\<close>

lemma update_decided:
  assumes "distinct (map ch_id cs)" "find (\<lambda>c. ch_id c = pk) cs = Some c"
  shows "map (\<lambda>x. if ch_id x = ch_id (decide r d c) then x\<lparr>ch_sts := ch_sts (decide r d c), ch_desc := ch_desc (decide r d c)\<rparr> else x) cs =
    decided r d {pk} cs"
proof -
  have c: "c \<in> set cs" "ch_id c = pk" using assms(2) by (auto simp: find_Some_iff)
  moreover have "inj_on ch_id (set cs)" using assms(1) by (simp add: distinct_map)
  ultimately have uniq: "x = c" if "x \<in> set cs" "ch_id x = pk" for x
    using that by (metis inj_onD)
  have same: "c\<lparr>ch_sts := ch_sts (decide r d c), ch_desc := ch_desc (decide r d c)\<rparr> = decide r d c"
    by (simp add: decide_def)
  show ?thesis
    unfolding decided_def
  proof (rule map_cong [OF refl])
    fix x
    assume x: "x \<in> set cs"
    show "(if ch_id x = ch_id (decide r d c) then x\<lparr>ch_sts := ch_sts (decide r d c), ch_desc := ch_desc (decide r d c)\<rparr> else x) =
        (if ch_id x \<in> {pk} then decide r d x else x)"
    proof (cases "ch_id x = pk")
      case True
      then have "x = c" by (rule uniq [OF x])
      then show ?thesis using c(2) same by simp
    qed (simp add: c(2))
  qed
qed

lemma review_ok:
  assumes "check_db_ok user db" "c \<in> set (db_checks db user)"
  obtains s where "db_ads db (ch_ad c) = Some s"
    "review user (ch_id c) r d db = (Some (ch_ad c, if r = ''3'' then ''5'' else s),
       \<lparr>db_checks = (db_checks db)(user := decided r d {ch_id c} (db_checks db user)),
        db_ads = (db_ads db)(ch_ad c \<mapsto> if r = ''3'' then ''5'' else s)\<rparr>)"
proof -
  have d: "distinct (map ch_id (db_checks db user))" using assms(1) by (simp add: check_db_ok_def)
  obtain c' where c': "find (\<lambda>x. ch_id x = ch_id c) (db_checks db user) = Some c'"
    using assms(2) by (cases "find (\<lambda>x. ch_id x = ch_id c) (db_checks db user)") (auto simp: find_None_iff)
  then have "c' \<in> set (db_checks db user)" "ch_id c' = ch_id c" by (auto simp: find_Some_iff)
  then have "c' = c" using assms(2) d by (auto simp: distinct_map dest: inj_onD)
  obtain s where s: "db_ads db (ch_ad c) = Some s" using assms by (auto simp: check_db_ok_def)
  have "updateCheck user (decide r d c) db = db\<lparr>db_checks := (db_checks db)(user := decided r d {ch_id c} (db_checks db user))\<rparr>"
    using update_decided [OF d c' [unfolded \<open>c' = c\<close>]] unfolding updateCheck_def by simp
  then show ?thesis
    using that [OF s] c' s \<open>c' = c\<close> by (simp add: review_def updateAdTouFangSts_def Let_def)
qed

lemma ok_after:
  assumes "check_db_ok user db" "r \<in> {''2'', ''3''}" "db_checks db' user = decided r d pks (db_checks db user)"
    "\<And>a. db_ads db a \<noteq> None \<Longrightarrow> db_ads db' a \<noteq> None"
  shows "check_db_ok user db'"
proof -
  have "db_ads db' (ch_ad c) \<noteq> None" if "c \<in> set (decided r d pks (db_checks db user))" for c
    using that assms(1,4) by (auto simp: check_db_ok_def decided_def)
  moreover have "\<forall>c \<in> set (decided r d pks (db_checks db user)). ch_sts c \<in> {''1'', ''2'', ''3''}"
    by (rule decided_sts [OF assms(2)]) (use assms(1) in \<open>simp add: check_db_ok_def\<close>)
  ultimately show ?thesis
    using assms(1,3) unfolding check_db_ok_def by (metis decided_simps(1))
qed

lemma checks_of_sts: "check_db_ok user db \<Longrightarrow> \<forall>c \<in> set (checks_of user ad db). ch_sts c \<in> {''1'', ''2'', ''3''}"
  by (auto simp: check_db_ok_def checks_of_def)

text \<open>The ad of a check has that check, decided or not.\<close>

lemma checks_of_decided:
  assumes "c \<in> set (db_checks db user)" "db_checks db' user = decided r d pks (db_checks db user)"
  shows "checks_of user (ch_ad c) db' \<noteq> []"
proof -
  have "(if ch_id c \<in> pks then decide r d c else c) \<in> set (checks_of user (ch_ad c) db')"
    using assms by (auto simp: checks_of_def decided_def)
  then show ?thesis by force
qed

text \<open>
  Deciding about one check records the decision there and nowhere else, and the ad gets the verdict of all its
  checks: it is shown exactly if all reviewers passed it.
\<close>

theorem single_check:
  assumes "check_db_ok user db" "reviewer user" "c \<in> set (db_checks db user)" "r \<in> {''2'', ''3''}"
  shows "\<exists>db'. checkonead user (ch_id c) r d db = (True, db') \<and>
     db_checks db' = (db_checks db)(user := decided r d {ch_id c} (db_checks db user)) \<and>
     db_ads db' = (db_ads db)(ch_ad c \<mapsto> verdict (checks_of user (ch_ad c) db')) \<and> check_db_ok user db'"
proof -
  obtain s where s: "db_ads db (ch_ad c) = Some s"
    and rv: "review user (ch_id c) r d db = (Some (ch_ad c, if r = ''3'' then ''5'' else s),
       \<lparr>db_checks = (db_checks db)(user := decided r d {ch_id c} (db_checks db user)),
        db_ads = (db_ads db)(ch_ad c \<mapsto> if r = ''3'' then ''5'' else s)\<rparr>)" (is "_ = (_, ?db)")
    using review_ok [OF assms(1,3)] by metis
  have ok: "check_db_ok user ?db"
    by (rule ok_after [OF assms(1,4), where d = d and pks = "{ch_id c}"]) simp_all
  have "settle (checks_of user (ch_ad c) ?db) (if r = ''3'' then ''5'' else s) = verdict (checks_of user (ch_ad c) ?db)"
    using checks_of_sts [OF ok] checks_of_decided [OF assms(3), of ?db r d "{ch_id c}"]
    by (intro settle_verdict) simp_all
  then show ?thesis
    using rv assms(2) ok_after [OF assms(1,4), where d = d and pks = "{ch_id c}"]
    by (simp add: checkonead_def updateAdTouFangSts_def checks_of_def)
qed

text \<open>The same in a batch: the first check of the ad in the database alone decides.\<close>

lemma batch_check:
  assumes "check_db_ok user db" "c \<in> set (db_checks db user)" "r \<in> {''2'', ''3''}"
  shows "\<exists>db' s. batch_one user r d (ch_id c) db = (True, db') \<and> db_ads db (ch_ad c) = Some s \<and>
     db_checks db' = (db_checks db)(user := decided r d {ch_id c} (db_checks db user)) \<and>
     db_ads db' = (db_ads db)(ch_ad c \<mapsto>
       if ch_sts (hd (checks_of user (ch_ad c) db')) = ''2'' then ''2'' else if r = ''3'' then ''5'' else s) \<and>
     check_db_ok user db'"
proof -
  obtain s where s: "db_ads db (ch_ad c) = Some s"
    and rv: "review user (ch_id c) r d db = (Some (ch_ad c, if r = ''3'' then ''5'' else s),
       \<lparr>db_checks = (db_checks db)(user := decided r d {ch_id c} (db_checks db user)),
        db_ads = (db_ads db)(ch_ad c \<mapsto> if r = ''3'' then ''5'' else s)\<rparr>)" (is "_ = (_, ?db)")
    using review_ok [OF assms(1,2)] by metis
  have ok: "check_db_ok user ?db"
    by (rule ok_after [OF assms(1,3), where d = d and pks = "{ch_id c}"]) simp_all
  show ?thesis
    using rv s ok_after [OF assms(1,3), where d = d and pks = "{ch_id c}"]
      settle_saved_first [OF checks_of_sts [OF ok]] checks_of_decided [OF assms(2), of ?db r d "{ch_id c}"]
    by (simp add: batch_one_def updateAdTouFangSts_def checks_of_def)
qed

text \<open>One decision changes only the check and its ad, so the ids and ads of all checks stay.\<close>

lemma batch_step:
  assumes "check_db_ok user db" "pk \<in> set (map ch_id (db_checks db user))" "r \<in> {''2'', ''3''}"
  obtains db' c where "batch_one user r d pk db = (True, db')" "check_db_ok user db'" "c \<in> set (db_checks db user)" "ch_id c = pk"
    "db_checks db' = (db_checks db)(user := decided r d {pk} (db_checks db user))"
    "\<And>a. a \<noteq> ch_ad c \<Longrightarrow> db_ads db' a = db_ads db a"
proof -
  obtain c where c: "c \<in> set (db_checks db user)" "ch_id c = pk" using assms(2) by auto
  then show ?thesis using batch_check [OF assms(1) c(1) assms(3), of d] that [OF _ _ c] by auto
qed

lemma batch_all_decided:
  assumes "check_db_ok user db" "set pks \<subseteq> set (map ch_id (db_checks db user))" "r \<in> {''2'', ''3''}"
  shows "\<exists>db'. batch_all (batch_one user r d) pks db = (True, db') \<and> check_db_ok user db' \<and>
    db_checks db' = (db_checks db)(user := decided r d (set pks) (db_checks db user)) \<and>
    (\<forall>a. a \<notin> ch_ad ` {c \<in> set (db_checks db user). ch_id c \<in> set pks} \<longrightarrow> db_ads db' a = db_ads db a)"
  using assms(1,2)
proof (induction pks arbitrary: db)
  case (Cons pk pks)
  obtain db1 c where step: "batch_one user r d pk db = (True, db1)" "check_db_ok user db1" "c \<in> set (db_checks db user)" "ch_id c = pk"
    "db_checks db1 = (db_checks db)(user := decided r d {pk} (db_checks db user))" "\<And>a. a \<noteq> ch_ad c \<Longrightarrow> db_ads db1 a = db_ads db a"
    using batch_step [OF Cons.prems(1) _ assms(3), of pk] Cons.prems(2) by auto
  have "set pks \<subseteq> set (map ch_id (db_checks db1 user))" using Cons.prems(2) step(5) by simp
  then obtain db' where db': "batch_all (batch_one user r d) pks db1 = (True, db')" "check_db_ok user db'"
    "db_checks db' = (db_checks db1)(user := decided r d (set pks) (db_checks db1 user))"
    "\<forall>a. a \<notin> ch_ad ` {c \<in> set (db_checks db1 user). ch_id c \<in> set pks} \<longrightarrow> db_ads db' a = db_ads db1 a"
    using Cons.IH [OF step(2)] by blast
  have "db_ads db' a = db_ads db a" if a: "a \<notin> ch_ad ` {c \<in> set (db_checks db user). ch_id c \<in> set (pk # pks)}" for a
  proof -
    have "a \<notin> ch_ad ` {c \<in> set (db_checks db1 user). ch_id c \<in> set pks}" using a by (auto simp: step(5) decided_ads)
    then have "db_ads db' a = db_ads db1 a" using db'(4) by blast
    moreover have "a \<noteq> ch_ad c" using a step(3,4) by auto
    ultimately show ?thesis using step(6) by simp
  qed
  then show ?case using step(1,5) db' by (simp add: decided_twice) (simp add: fun_upd_def)
qed simp

subsection \<open>From the clicks to the database\<close>

lemma batch_request:
  assumes "plain_rows (cp_table p)" "ticked (cp_table p) \<noteq> []" "cp_radio p \<noteq> []"
  shows "cp_requests (batchCheckBtn p) = cp_requests p @ [BatchCheckAd (batch_line (cp_table p)) (cp_radio p) (checkDesc p)]"
    and "java_split CHR '','' (batch_line (cp_table p)) = ticked (cp_table p)"
proof -
  have "trim (check_ids (cp_table p)) \<noteq> []"
    using assms(1,2) trim_ids [of "cp_table p"] check_ids_join [of "cp_table p"] by simp
  then show "cp_requests (batchCheckBtn p) = cp_requests p @ [BatchCheckAd (batch_line (cp_table p)) (cp_radio p) (checkDesc p)]"
    using assms(3) by (simp add: batchCheckBtn_def send_request_def)
  show "java_split CHR '','' (batch_line (cp_table p)) = ticked (cp_table p)"
    using assms batch.stored [of "cp_table p"] batch.blank_iff [of "cp_table p"] by (simp add: link_codes_def)
qed

text \<open>
  C7: A batch: the button sends one request, and the server records the chosen decision at exactly the ticked checks, with
  the comment of the page; ads without a ticked check keep their status.
\<close>

theorem batch_decides:
  assumes "plain_rows (cp_table p)" "ticked (cp_table p) \<noteq> []" "cp_radio p \<in> {''2'', ''3''}"
    and "check_db_ok user db" "reviewer user" "set (ticked (cp_table p)) \<subseteq> set (map ch_id (db_checks db user))"
  shows "\<exists>req db'. cp_requests (batchCheckBtn p) = cp_requests p @ [req] \<and> serve user req db = (True, db') \<and>
    db_checks db' = (db_checks db)(user := decided (cp_radio p) (checkDesc p) (set (ticked (cp_table p))) (db_checks db user)) \<and>
    (\<forall>a. a \<notin> ch_ad ` {c \<in> set (db_checks db user). ch_id c \<in> set (ticked (cp_table p))} \<longrightarrow> db_ads db' a = db_ads db a)"
proof -
  have "cp_radio p \<noteq> []" using assms(3) by auto
  note req = batch_request [OF assms(1,2) this]
  obtain db' where "batch_all (batch_one user (cp_radio p) (checkDesc p)) (ticked (cp_table p)) db = (True, db')"
    "db_checks db' = (db_checks db)(user := decided (cp_radio p) (checkDesc p) (set (ticked (cp_table p))) (db_checks db user))"
    "\<forall>a. a \<notin> ch_ad ` {c \<in> set (db_checks db user). ch_id c \<in> set (ticked (cp_table p))} \<longrightarrow> db_ads db' a = db_ads db a"
    using batch_all_decided [OF assms(4,6,3), of "checkDesc p"] by blast
  then show ?thesis using req assms(5) by (simp add: serve_def batchCheckAd_def)
qed

text \<open>Two reviewers of the ad \<open>A\<close>, of whom the first passed it, and the page with the check of the second ticked.\<close>

definition sample_check_db :: check_db where
  "sample_check_db = \<lparr>db_checks = (\<lambda>u. [\<lparr>ch_id = ''7'', ch_ad = ''A'', ch_sts = ''2'', ch_desc = []\<rparr>,
     \<lparr>ch_id = ''8'', ch_ad = ''A'', ch_sts = ''1'', ch_desc = []\<rparr>]), db_ads = [''A'' \<mapsto> ''0'']\<rparr>"

definition sample_check_page :: check_page where
  "sample_check_page = radio_all_no (new_page\<lparr>cp_table := click_row 0 (loaded_table [''8''])\<rparr>)"

lemma sample_check_facts:
  "plain_rows (cp_table sample_check_page)" "ticked (cp_table sample_check_page) = [''8'']" "cp_radio sample_check_page = ''3''"
  "check_db_ok ''1'' sample_check_db" "reviewer ''1''" "checkDesc sample_check_page = []"
  by (simp_all add: plain_rows_def sample_check_page_def radio_all_no_def new_page_def loaded_table_def click_row_def switch_row_def
      Let_def plain_id_def is_space_def plain_code_def java_blank_def ticked_def check_db_ok_def sample_check_db_def reviewer_def checkDesc_def)

theorem batch_decides_witness:
  "\<exists>req db'. cp_requests (batchCheckBtn sample_check_page) = [req] \<and> serve ''1'' req sample_check_db = (True, db') \<and>
     map ch_sts (db_checks db' ''1'') = [''2'', ''3'']"
  using batch_decides [of sample_check_page "''1''" sample_check_db] sample_check_facts
  by (auto simp: sample_check_db_def sample_check_page_def new_page_def radio_all_no_def decided_def decide_def)

text \<open>
  C8: A batch shows ads that were rejected: if the first check of the ad in the database has passed, the ad gets the status
  \<open>2\<close>, with which it is shown, also when the batch rejects it, whatever its other checks say. Rejected as a single
  check, it does not get this status.
\<close>

theorem batch_shows_rejected:
  assumes "plain_rows (cp_table p)" "ticked (cp_table p) = [ch_id c]" "cp_radio p = ''3''"
    and "check_db_ok user db" "reviewer user" "c \<in> set (db_checks db user)"
    and "checks_of user (ch_ad c) db = c1 # cs" "ch_id c1 \<noteq> ch_id c" "ch_sts c1 = ''2''"
  shows "\<exists>req db'. cp_requests (batchCheckBtn p) = cp_requests p @ [req] \<and> serve user req db = (True, db') \<and>
    db_ads db' (ch_ad c) = Some ''2'' \<and> verdict (checks_of user (ch_ad c) db') \<noteq> ''2'' \<and>
    db_ads (snd (serve user (Checkonead (ch_id c) ''3'' (checkDesc p)) db)) (ch_ad c) = Some (verdict (checks_of user (ch_ad c) db'))"
proof -
  have r: "''3'' \<in> {''2'', ''3'' :: string}" by simp
  obtain db' s where db': "batch_one user ''3'' (checkDesc p) (ch_id c) db = (True, db')"
    "db_checks db' = (db_checks db)(user := decided ''3'' (checkDesc p) {ch_id c} (db_checks db user))"
    "db_ads db' = (db_ads db)(ch_ad c \<mapsto> if ch_sts (hd (checks_of user (ch_ad c) db')) = ''2'' then ''2'' else if ''3'' = ''3'' then ''5'' else s)"
    using batch_check [OF assms(4,6) r, of "checkDesc p"] by blast
  have dec: "checks_of user (ch_ad c) db' = decided ''3'' (checkDesc p) {ch_id c} (checks_of user (ch_ad c) db)"
    unfolding checks_of_def db'(2) by (simp add: decided_def filter_map comp_def if_distrib cong: if_cong)
  then have first: "ch_sts (hd (checks_of user (ch_ad c) db')) = ''2''"
    using assms(7-9) by (simp add: decided_def)
  have "c \<in> set (checks_of user (ch_ad c) db)" using assms(6) by (simp add: checks_of_def)
  then have "decide ''3'' (checkDesc p) c \<in> set (checks_of user (ch_ad c) db')" unfolding dec by (force simp: decided_def)
  moreover have "ch_sts (decide ''3'' (checkDesc p) c) = ''3''" by (simp add: decide_def)
  ultimately have "\<exists>x \<in> set (checks_of user (ch_ad c) db'). ch_sts x \<noteq> ''2''" by (intro bexI) auto
  then have "find (\<lambda>x. ch_sts x \<noteq> ''2'') (checks_of user (ch_ad c) db') \<noteq> None" by (auto simp: find_None_iff)
  then have "verdict (checks_of user (ch_ad c) db') \<noteq> ''2''" by (auto simp: verdict_def split: if_splits)
  moreover obtain db2 where "checkonead user (ch_id c) ''3'' (checkDesc p) db = (True, db2)" "db_checks db2 = db_checks db'"
    "db_ads db2 = (db_ads db)(ch_ad c \<mapsto> verdict (checks_of user (ch_ad c) db2))"
    using single_check [OF assms(4-6) r, of "checkDesc p"] db'(2) by auto
  moreover have "checks_of user (ch_ad c) db2 = checks_of user (ch_ad c) db'" using calculation by (simp add: checks_of_def)
  ultimately show ?thesis
    using batch_request [OF assms(1)] assms(2,3,5) db'(1,3) first by (simp add: serve_def batchCheckAd_def)
qed

theorem batch_shows_rejected_witness:
  "\<exists>req db'. cp_requests (batchCheckBtn sample_check_page) = [req] \<and> serve ''1'' req sample_check_db = (True, db') \<and>
     db_ads db' ''A'' = Some ''2'' \<and> map ch_sts (checks_of ''1'' ''A'' db') = [''2'', ''3'']"
proof -
  have "serve ''1'' (BatchCheckAd ''8'' ''3'' []) sample_check_db = (True, db') \<Longrightarrow> map ch_sts (checks_of ''1'' ''A'' db') = [''2'', ''3'']" for db'
    by (auto simp: serve_def batchCheckAd_def reviewer_def java_split_def batch_one_def review_def sample_check_db_def updateCheck_def
        updateAdTouFangSts_def decide_def checks_of_def Let_def)
  moreover have "batchCheckBtn sample_check_page = send_request (BatchCheckAd ''8'' ''3'' []) sample_check_page"
    by (simp add: batchCheckBtn_def sample_check_facts sample_check_page_def radio_all_no_def new_page_def loaded_table_def click_row_def
        switch_row_def Let_def check_ids_def ticked_def batch_line_def trim_def is_space_def checkDesc_def)
  ultimately show ?thesis
    using batch_shows_rejected [of sample_check_page "\<lparr>ch_id = ''8'', ch_ad = ''A'', ch_sts = ''1'', ch_desc = []\<rparr>" "''1''" sample_check_db
        "\<lparr>ch_id = ''7'', ch_ad = ''A'', ch_sts = ''2'', ch_desc = []\<rparr>" "[\<lparr>ch_id = ''8'', ch_ad = ''A'', ch_sts = ''1'', ch_desc = []\<rparr>]"]
      sample_check_facts
    by (auto simp: sample_check_db_def checks_of_def send_request_def sample_check_page_def new_page_def radio_all_no_def)
qed

lemma filter_single: "distinct (map f xs) \<Longrightarrow> x \<in> set xs \<Longrightarrow> filter (\<lambda>y. f y = f x) xs = [x]"
  by (induction xs) (auto simp: filter_empty_conv image_iff)

text \<open>
  C33: While every ad has one check only, a batch is the same as deciding about its checks one after the other.
\<close>

theorem batch_is_singles:
  assumes "check_db_ok user db" "reviewer user" "set pks \<subseteq> set (map ch_id (db_checks db user))" "r \<in> {''2'', ''3''}"
    and "distinct (map ch_ad (db_checks db user))"
  shows "batch_all (batch_one user r d) pks db = batch_all (\<lambda>pk. checkonead user pk r d) pks db"
  using assms(1,3,5)
proof (induction pks arbitrary: db)
  case (Cons pk pks)
  obtain c where c: "c \<in> set (db_checks db user)" "ch_id c = pk" using Cons.prems(2) by auto
  obtain db1 where one: "checkonead user pk r d db = (True, db1)" "check_db_ok user db1"
    "db_checks db1 = (db_checks db)(user := decided r d {pk} (db_checks db user))"
    "db_ads db1 = (db_ads db)(ch_ad c \<mapsto> verdict (checks_of user (ch_ad c) db1))"
    using single_check [OF Cons.prems(1) assms(2) c(1) assms(4), of d] c(2) by auto
  obtain db2 s where two: "batch_one user r d pk db = (True, db2)"
    "db_checks db2 = (db_checks db)(user := decided r d {pk} (db_checks db user))"
    "db_ads db2 = (db_ads db)(ch_ad c \<mapsto>
       if ch_sts (hd (checks_of user (ch_ad c) db2)) = ''2'' then ''2'' else if r = ''3'' then ''5'' else s)"
    using batch_check [OF Cons.prems(1) c(1) assms(4), of d] c(2) by auto
  have "filter (\<lambda>x. ch_ad x = ch_ad c) (db_checks db user) = [c]" by (rule filter_single [OF Cons.prems(3) c(1)])
  moreover have "checks_of user (ch_ad c) db1 = decided r d {pk} (filter (\<lambda>x. ch_ad x = ch_ad c) (db_checks db user))"
    unfolding checks_of_def one(3) by (simp add: decided_def filter_map comp_def if_distrib cong: if_cong)
  moreover have same: "checks_of user (ch_ad c) db2 = checks_of user (ch_ad c) db1" by (simp add: checks_of_def one(3) two(2))
  ultimately have "db_ads db2 = db_ads db1"
    using one(4) two(3) assms(4) c(2) by (auto simp: verdict_def decided_def decide_def)
  then have "db2 = db1" using one(3) two(2) by simp
  moreover have "set pks \<subseteq> set (map ch_id (db_checks db1 user))" "distinct (map ch_ad (db_checks db1 user))"
    using Cons.prems(2,3) one(3) by simp_all
  ultimately show ?case using Cons.IH [OF one(2)] one(1) two(1) by simp
qed simp

theorem batch_is_singles_witness:
  "batch_all (batch_one ''1'' ''3'' []) [''8''] (sample_check_db\<lparr>db_checks := \<lambda>u. tl (db_checks sample_check_db u)\<rparr>) =
     batch_all (\<lambda>pk. checkonead ''1'' pk ''3'' []) [''8''] (sample_check_db\<lparr>db_checks := \<lambda>u. tl (db_checks sample_check_db u)\<rparr>)"
  by (rule batch_is_singles) (simp_all add: check_db_ok_def sample_check_db_def reviewer_def)

text \<open>
  Once a dialog of a single check has been loaded, a batch carries the comment of that dialog, and after an odd number
  of such dialogs choosing no does not open the field for the comment.
\<close>

theorem batch_comment:
  assumes "cp_single p = Some d"
  shows "checkDesc (write_batch v p) = sd_desc d" and "cp_suggest (radio_all_no p) \<longleftrightarrow> odd (cp_common p) \<noteq> cp_suggest p"
proof -
  have "(Not ^^ n) b \<longleftrightarrow> odd n \<noteq> b" for n b by (induction n) auto
  then show "cp_suggest (radio_all_no p) \<longleftrightarrow> odd (cp_common p) \<noteq> cp_suggest p" by (simp add: radio_all_no_def)
qed (simp add: checkDesc_def write_batch_def assms)

end
