(* ===== verification/LbsTable.thy ===== *)
theory LbsTable
  imports CodeField
begin

section \<open>Places of a crowd\<close>

text \<open>
  The forms for crowds (\<open>crowd/add_person.jsp\<close> and \<open>crowd/edit_person.jsp\<close>) have a table of places with a radius
  each, in rows that can be added and deleted; \<open>getGisInfo\<close> joins them to a text, of which
  \<open>AdCrowdFindInfoADUServiceImpl\<close> stores a row per place. A row of the page is the number in the ids of its inputs,
  and their texts; the variable \<open>inputIndex\<close> is \<open>lt_next\<close>.
\<close>

record lbs_row =
  lr_no :: nat
  lr_addr :: string
  lr_dist :: string

record lbs_table =
  lt_rows :: "lbs_row list"
  lt_next :: nat

definition new_lbs :: "string \<Rightarrow> string \<Rightarrow> lbs_table" where
  "new_lbs a d = \<lparr>lt_rows = [\<lparr>lr_no = 1, lr_addr = a, lr_dist = d\<rparr>], lt_next = 2\<rparr>"

definition addElmement :: "lbs_table \<Rightarrow> lbs_table" where
  "addElmement t = t\<lparr>lt_rows := lt_rows t @ [\<lparr>lr_no = lt_next t, lr_addr = [], lr_dist = []\<rparr>], lt_next := lt_next t + 1\<rparr>"

text \<open>\<open>tr:eq(k)\<close> counts from 0 and is no row beyond the last.\<close>

definition without :: "nat \<Rightarrow> 'a list \<Rightarrow> 'a list" where
  "without k xs = take k xs @ drop (Suc k) xs"

definition delElmement :: "lbs_table \<Rightarrow> lbs_table" where
  "delElmement t = t\<lparr>lt_rows := without (lt_next t - 1) (lt_rows t), lt_next := (if lt_next t > 2 then lt_next t - 1 else lt_next t)\<rparr>"

definition type_row :: "nat \<Rightarrow> string \<Rightarrow> string \<Rightarrow> lbs_table \<Rightarrow> lbs_table" where
  "type_row k a d t = t\<lparr>lt_rows := (lt_rows t)[k := (lt_rows t ! k)\<lparr>lr_addr := a, lr_dist := d\<rparr>]\<rparr>"

text \<open>
  The answer of \<open>checkAddress\<close>, \<open>None\<close> if the request failed. Only the input of the first row, which is markup of the
  page, asks for it.
\<close>

definition address_checked :: "string option \<Rightarrow> lbs_table \<Rightarrow> lbs_table" where
  "address_checked stat t = (if stat = Some ''true'' then t else type_row 0 [] (lr_dist (lt_rows t ! 0)) t)"

text \<open>\<open>$("#centryAddr" + i).val()\<close> in a text: the first row of the number, or \<open>undefined\<close>.\<close>

definition input_text :: "(lbs_row \<Rightarrow> string) \<Rightarrow> lbs_table \<Rightarrow> nat \<Rightarrow> string" where
  "input_text f t i = (case find (\<lambda>r. lr_no r = i) (lt_rows t) of None \<Rightarrow> ''undefined'' | Some r \<Rightarrow> f r)"

definition getGisInfo :: "lbs_table \<Rightarrow> string" where
  "getGisInfo t =
     butlast (concat (map (\<lambda>i. input_text lr_addr t i @ '':'' @ input_text lr_dist t i @ '','') [1..<lt_next t]))"

text \<open>What can happen to the table.\<close>

inductive lbs_step :: "lbs_table \<Rightarrow> lbs_table \<Rightarrow> bool" where
  Add: "lbs_step t (addElmement t)"
| Del: "lbs_step t (delElmement t)"
| Type: "k < length (lt_rows t) \<Longrightarrow> lbs_step t (type_row k a d t)"
| Checked: "lbs_step t (address_checked stat t)"

definition lbs_reachable :: "lbs_table \<Rightarrow> bool" where
  "lbs_reachable t \<longleftrightarrow> (\<exists>a d. lbs_step\<^sup>*\<^sup>* (new_lbs a d) t)"

subsection \<open>The server\<close>

text \<open>
  The service that looks up the coordinates of an address is on the network; what it answers is a parameter \<open>geo\<close> of the
  definitions: for an address, a JSON object, given by its members, or a text that is none (no answer is the empty
  text), or an answer whose stream cannot be closed. A JSON value has the text \<open>toString\<close> gives, and members if it
  is an object.
\<close>

datatype json_value = Json (json_text: string) (json_members: "(string \<times> json_value) list option")

datatype geo_answer = Answered "(string \<times> json_value) list" | NoObject | CloseFailed

text \<open>
  \<open>getCoordinate\<close>: it throws for a text that is no object, and for an object in which \<open>result\<close> or its \<open>location\<close> is missing or is
  no object (a failed cast, or a method of \<open>null\<close>); a stream that cannot be closed throws the \<open>IOException\<close> that the caller
  catches. A latitude or longitude that is missing is \<open>null\<close>, here \<open>None\<close>.
\<close>

datatype coordinates = Thrown | IoFailed | LatLng "string option" "string option"

definition member_object :: "string \<Rightarrow> (string \<times> json_value) list \<Rightarrow> (string \<times> json_value) list option" where
  "member_object name ms = Option.bind (map_of ms name) json_members"

definition getCoordinate :: "(string \<Rightarrow> geo_answer) \<Rightarrow> string \<Rightarrow> coordinates" where
  "getCoordinate geo addr =
     (case geo addr of
        CloseFailed \<Rightarrow> IoFailed
      | NoObject \<Rightarrow> Thrown
      | Answered ms \<Rightarrow>
          (case Option.bind (member_object ''result'' ms) (member_object ''location'') of
             None \<Rightarrow> Thrown
           | Some l \<Rightarrow> LatLng (map_option json_text (map_of l ''lat'')) (map_option json_text (map_of l ''lng''))))"

record gis_crowd =
  gc_addr :: string
  gc_dist :: string
  gc_pos :: "string option \<times> string option"

text \<open>
  A row has the place, its radius and its coordinates; the period, the states and the dates are left out.
  One piece: \<open>None\<close> is an exception, for an index out of bounds or of \<open>getCoordinate\<close>. After a caught \<open>IOException\<close> no row is made.
\<close>

definition gis_piece :: "(string \<Rightarrow> geo_answer) \<Rightarrow> string \<Rightarrow> gis_crowd list option" where
  "gis_piece geo piece =
     (let ps = java_split CHR '':'' piece
      in if length ps < 2 then None
         else (case getCoordinate geo (ps ! 0) of
                 Thrown \<Rightarrow> None
               | IoFailed \<Rightarrow> Some []
               | LatLng lat lng \<Rightarrow> Some [\<lparr>gc_addr = ps ! 0, gc_dist = ps ! 1, gc_pos = (lat, lng)\<rparr>]))"

fun gis_pieces :: "(string \<Rightarrow> geo_answer) \<Rightarrow> string list \<Rightarrow> gis_crowd list option" where
  "gis_pieces geo [] = Some []"
| "gis_pieces geo (p # ps) =
     Option.bind (gis_piece geo p) (\<lambda>g. map_option (\<lambda>gs. g @ gs) (gis_pieces geo ps))"

definition assembleGis :: "(string \<Rightarrow> geo_answer) \<Rightarrow> string \<Rightarrow> gis_crowd list option" where
  "assembleGis geo addrAndDistances =
     (if addrAndDistances = [] \<or> addrAndDistances = '':'' then Some []
      else gis_pieces geo (java_split CHR '','' addrAndDistances))"

subsection \<open>The numbers of the rows\<close>

text \<open>
  The places shown and those sent. The numbers are those of the rows, until a deletion leaves its row in the page:
  then one number is there twice, or the last is not yet counted.
\<close>

definition place :: "lbs_row \<Rightarrow> string \<times> string" where
  "place r = (lr_addr r, lr_dist r)"

definition shown_places :: "lbs_table \<Rightarrow> (string \<times> string) list" where
  "shown_places t = map place (lt_rows t)"

definition sent_places :: "lbs_table \<Rightarrow> (string \<times> string) list" where
  "sent_places t = map (\<lambda>i. (input_text lr_addr t i, input_text lr_dist t i)) [1..<lt_next t]"

definition numbers :: "lbs_table \<Rightarrow> nat list" where
  "numbers t = map lr_no (lt_rows t)"

definition regular :: "lbs_table \<Rightarrow> bool" where
  "regular t \<longleftrightarrow> 2 \<le> lt_next t \<and> numbers t = [1..<lt_next t]"

definition doubled :: "nat \<Rightarrow> lbs_table \<Rightarrow> bool" where
  "doubled j t \<longleftrightarrow> 2 \<le> j \<and> j \<le> lt_next t \<and> numbers t = [1..<Suc j] @ [j..<lt_next t]"

lemma numbers_type [simp]: "numbers (type_row k a d t) = numbers t" "lt_next (type_row k a d t) = lt_next t"
proof -
  show "numbers (type_row k a d t) = numbers t"
  proof (cases "k < length (lt_rows t)")
    case True
    then have "lr_no (lt_rows t ! k) = map lr_no (lt_rows t) ! k" by simp
    then show ?thesis by (simp add: numbers_def type_row_def map_update del: nth_map)
  qed (simp add: numbers_def type_row_def list_update_beyond)
qed (simp add: type_row_def)

lemma numbers_del: "numbers (delElmement t) = without (lt_next t - 1) (numbers t)"
  by (simp add: numbers_def delElmement_def without_def take_map drop_map)

lemma without_beyond: "length xs \<le> k \<Longrightarrow> without k xs = xs"
  by (simp add: without_def)

lemma without_last: "length xs = Suc k \<Longrightarrow> without k xs = butlast xs"
  by (simp add: without_def butlast_conv_take)

lemma add_shape:
  "regular t \<Longrightarrow> regular (addElmement t)" "doubled j t \<Longrightarrow> doubled j (addElmement t)"
  by (auto simp: regular_def doubled_def addElmement_def numbers_def)

lemma del_shape:
  "regular t \<Longrightarrow> if lt_next t = 2 then delElmement t = t else doubled (lt_next t - 1) (delElmement t)"
  "doubled j t \<Longrightarrow> if j < lt_next t then doubled j (delElmement t)
     else if j = 2 then regular (delElmement t) else doubled (j - 1) (delElmement t)"
proof -
  assume r: "regular t"
  then have len: "length (lt_rows t) = lt_next t - 1" by (metis length_map length_upt numbers_def regular_def)
  then have w: "without (lt_next t - 1) (lt_rows t) = lt_rows t" "without (lt_next t - 1) (numbers t) = numbers t"
    by (simp_all add: without_beyond numbers_def)
  have "[1..<lt_next t] = [1..<Suc (lt_next t - 1)] @ [lt_next t - 1..<lt_next t - 1]"
    using r by (simp add: regular_def)
  then show "if lt_next t = 2 then delElmement t = t else doubled (lt_next t - 1) (delElmement t)"
    using r w by (auto simp: regular_def doubled_def numbers_del) (simp_all add: delElmement_def)
next
  assume d: "doubled j t"
  then have "length (numbers t) = Suc (lt_next t - 1)" by (simp add: doubled_def)
  then have w: "numbers (delElmement t) = butlast (numbers t)" by (simp add: numbers_del without_last)
  show "if j < lt_next t then doubled j (delElmement t)
     else if j = 2 then regular (delElmement t) else doubled (j - 1) (delElmement t)"
  proof (cases "j < lt_next t")
    case True
    then have "[j..<lt_next t] = [j..<lt_next t - 1] @ [lt_next t - 1]"
      by (metis Suc_diff_1 less_imp_Suc_add less_nat_zero_code not_gr_zero upt_Suc_append le_eq_less_or_eq less_Suc_eq_le)
    then show ?thesis using d True w by (simp add: doubled_def butlast_append) (simp add: delElmement_def)
  next
    case False
    then have "[1..<Suc j] @ [j..<lt_next t] = [1..<j] @ [j]" using d by (simp add: doubled_def)
    then show ?thesis using d False w by (auto simp: doubled_def regular_def butlast_append delElmement_def)
  qed
qed

lemma step_shape:
  assumes "lbs_step t u" "regular t \<or> (\<exists>j. doubled j t)"
  shows "regular u \<or> (\<exists>j. doubled j u)"
  using assms(1)
proof cases
  case Del
  then show ?thesis using assms(2) del_shape(1) [of t] del_shape(2) [where t = t] by (metis (full_types))
next
  case (Type k a d)
  then show ?thesis using assms(2) by (simp add: regular_def doubled_def)
next
  case (Checked stat)
  then show ?thesis using assms(2) by (simp add: regular_def doubled_def address_checked_def)
qed (use assms(2) add_shape in blast)

lemma reachable_shape:
  assumes "lbs_reachable t"
  shows "regular t \<or> (\<exists>j. doubled j t)"
proof -
  obtain a d where "lbs_step\<^sup>*\<^sup>* (new_lbs a d) t" using assms by (auto simp: lbs_reachable_def)
  then show ?thesis
  proof (induction rule: rtranclp_induct)
    case base
    have "regular (new_lbs a d)" by (simp add: regular_def numbers_def new_lbs_def upt_rec)
    then show ?case by blast
  next
    case (step y z)
    then show ?case by (rule_tac step_shape)
  qed
qed

subsection \<open>What is sent\<close>

text \<open>An input is looked up by its number: the row is the first of that number.\<close>

lemma find_number:
  assumes "k < length (lt_rows t)" "numbers t ! k = i" "\<forall>m<k. numbers t ! m \<noteq> i"
  shows "(input_text lr_addr t i, input_text lr_dist t i) = shown_places t ! k"
proof -
  have "find (\<lambda>r. lr_no r = i) (lt_rows t) = Some (lt_rows t ! k)"
    using assms by (auto simp: find_Some_iff numbers_def)
  then show ?thesis using assms(1) by (simp add: input_text_def shown_places_def place_def)
qed

lemma sent_regular: "regular t \<Longrightarrow> sent_places t = shown_places t"
proof (rule nth_equalityI)
  assume r: "regular t"
  then have len: "length (lt_rows t) = lt_next t - 1" by (metis length_map length_upt numbers_def regular_def)
  then show "length (sent_places t) = length (shown_places t)" by (simp add: sent_places_def shown_places_def)
  fix k
  assume k: "k < length (sent_places t)"
  then show "sent_places t ! k = shown_places t ! k"
    using find_number [of k t "Suc k"] r len by (simp add: sent_places_def regular_def)
qed

lemma sent_doubled:
  assumes "doubled j t"
  shows "sent_places t = without (if j < lt_next t then j else j - 1) (shown_places t)"
proof (rule nth_equalityI)
  let ?n = "lt_next t" and ?p = "if j < lt_next t then j else j - 1"
  have n: "2 \<le> j" "j \<le> ?n" "numbers t = [1..<Suc j] @ [j..<?n]" using assms by (simp_all add: doubled_def)
  then have "length (numbers t) = ?n" by simp
  then have len: "length (lt_rows t) = ?n" by (simp add: numbers_def)
  then show "length (sent_places t) = length (without ?p (shown_places t))"
    using n by (auto simp: sent_places_def shown_places_def without_def)
  have nth: "numbers t ! m = (if m < j then Suc m else m)" if "m < ?n" for m
  proof -
    have "length [1..<Suc j] = j" "m < j \<Longrightarrow> [1..<Suc j] ! m = Suc m" by (simp_all del: upt_Suc)
    then show ?thesis using that n(3) by (simp add: nth_append del: upt_Suc)
  qed
  fix k
  assume "k < length (sent_places t)"
  then have k: "k < ?n - 1" by (simp add: sent_places_def)
  let ?q = "if k < j then k else Suc k"
  have q: "?q < length (lt_rows t)" "numbers t ! ?q = Suc k" "\<forall>m<?q. numbers t ! m \<noteq> Suc k"
    using k len nth by auto
  have "sent_places t ! k = shown_places t ! ?q"
    using find_number [OF q] k by (simp add: sent_places_def)
  also have "\<dots> = without ?p (shown_places t) ! k"
    using k n len by (auto simp: without_def shown_places_def nth_append min_def)
  finally show "sent_places t ! k = without ?p (shown_places t) ! k" .
qed

text \<open>
  C14: In every reachable state the places sent are those shown, in order, or those shown without one of them, which is
  never the first; \<open>undefined\<close> is never sent. The first case are exactly the states in which the counter agrees with
  the rows.
\<close>

theorem places_sent:
  assumes "lbs_reachable t"
  shows "(length (lt_rows t) = lt_next t - 1 \<and> sent_places t = shown_places t) \<or>
    (length (lt_rows t) = lt_next t \<and> (\<exists>p. 0 < p \<and> p < length (lt_rows t) \<and> sent_places t = without p (shown_places t)))"
  using reachable_shape [OF assms]
proof
  assume r: "regular t"
  then have "length (lt_rows t) = lt_next t - 1" by (metis length_map length_upt numbers_def regular_def)
  then show ?thesis using sent_regular [OF r] by blast
next
  assume "\<exists>j. doubled j t"
  then obtain j where j: "doubled j t" by blast
  then have "length (numbers t) = lt_next t" "2 \<le> j" "j \<le> lt_next t" by (simp_all add: doubled_def)
  then have "length (lt_rows t) = lt_next t" "0 < (if j < lt_next t then j else j - 1)" "(if j < lt_next t then j else j - 1) < lt_next t"
    by (auto simp: numbers_def)
  then show ?thesis using sent_doubled [OF j] by metis
qed

text \<open>
  The first deletion in a table of several rows deletes none: the rows stay in the page, but the last is not sent.
\<close>

theorem first_delete:
  assumes "lbs_reachable t" "length (lt_rows t) = lt_next t - 1" "2 \<le> length (lt_rows t)"
  shows "lt_rows (delElmement t) = lt_rows t \<and> sent_places (delElmement t) = butlast (shown_places t)"
proof -
  have "\<not> doubled j t" for j
  proof
    assume "doubled j t"
    then have "length (numbers t) = lt_next t" "2 \<le> j" "j \<le> lt_next t" by (simp_all add: doubled_def)
    then show False using assms(2) by (simp add: numbers_def)
  qed
  then have r: "regular t" using reachable_shape [OF assms(1)] by blast
  have rows: "lt_rows (delElmement t) = lt_rows t" using assms(2) by (simp add: delElmement_def without_beyond)
  then have same: "shown_places (delElmement t) = shown_places t" by (simp add: shown_places_def)
  have next2: "lt_next (delElmement t) = lt_next t - 1" using assms(2,3) by (cases "2 < lt_next t") (auto simp: delElmement_def)
  have "doubled (lt_next t - 1) (delElmement t)"
    using del_shape(1) [OF r] assms(2,3) by (auto split: if_splits)
  then have "sent_places (delElmement t) = without (lt_next t - 2) (shown_places t)"
    using sent_doubled [of "lt_next t - 1" "delElmement t"] same next2 by (simp add: numeral_2_eq_2)
  moreover have "length (shown_places t) = Suc (lt_next t - 2)" using assms(2,3) by (simp add: shown_places_def)
  ultimately show ?thesis using rows by (simp add: without_last)
qed

subsection \<open>What is stored\<close>

definition plain_place :: "string \<times> string \<Rightarrow> bool" where
  "plain_place pl \<longleftrightarrow> (\<forall>c \<in> set (fst pl @ snd pl). c \<noteq> CHR '','' \<and> c \<noteq> CHR '':'')"

definition piece_of :: "string \<times> string \<Rightarrow> string" where
  "piece_of pl = fst pl @ CHR '':'' # snd pl"

lemma info_join: "getGisInfo t = join_on CHR '','' (map piece_of (sent_places t))"
proof -
  have "butlast (concat (map (\<lambda>i. g i @ '','') xs)) = join_on CHR '','' (map g xs)" for g :: "nat \<Rightarrow> string" and xs
    by (induction xs rule: induct_list012) (auto simp: butlast_append)
  from this [of "\<lambda>i. input_text lr_addr t i @ '':'' @ input_text lr_dist t i" "[1..<lt_next t]"] show ?thesis
    by (simp add: getGisInfo_def sent_places_def piece_of_def comp_def)
qed

text \<open>The row of a place whose lookup does not throw; a place for which the server throws.\<close>

definition stored_place :: "(string \<Rightarrow> geo_answer) \<Rightarrow> string \<times> string \<Rightarrow> gis_crowd list" where
  "stored_place geo pl =
     (case getCoordinate geo (fst pl) of
        LatLng lat lng \<Rightarrow> [\<lparr>gc_addr = fst pl, gc_dist = snd pl, gc_pos = (lat, lng)\<rparr>]
      | _ \<Rightarrow> [])"

definition bad_place :: "(string \<Rightarrow> geo_answer) \<Rightarrow> string \<times> string \<Rightarrow> bool" where
  "bad_place geo pl \<longleftrightarrow> snd pl = [] \<or> getCoordinate geo (fst pl) = Thrown"

lemma gis_piece_of:
  assumes "plain_place pl"
  shows "gis_piece geo (piece_of pl) = (if bad_place geo pl then None else Some (stored_place geo pl))"
proof (cases "snd pl = []")
  case True
  have "split_on CHR '':'' (fst pl @ '':'') = [fst pl, []]"
    using assms by (subst split_on_append) (auto simp: plain_place_def split_on_plain)
  then have "length (java_split CHR '':'' (piece_of pl)) < 2"
    using True by (cases "fst pl = []") (simp_all add: java_split_def piece_of_def)
  then show ?thesis using True by (simp add: gis_piece_def bad_place_def Let_def)
next
  case False
  then have "java_split CHR '':'' (piece_of pl) = [fst pl, snd pl]"
    unfolding piece_of_def using assms by (intro java_split_two) (auto simp: plain_place_def)
  then show ?thesis using False by (simp add: gis_piece_def stored_place_def bad_place_def Let_def split: coordinates.split)
qed

lemma gis_pieces_of:
  "\<forall>pl \<in> set pls. plain_place pl \<Longrightarrow> gis_pieces geo (map piece_of pls) =
     (if \<exists>pl \<in> set pls. bad_place geo pl then None else Some (concat (map (stored_place geo) pls)))"
proof (induction pls)
  case (Cons pl pls)
  then show ?case by (cases "bad_place geo pl") (simp_all add: gis_piece_of)
qed simp

text \<open>
  C25: Of places typed without commas and colons, the server stores every one that is sent, in order, with the
  coordinates found, which may be \<open>null\<close>; it leaves out those whose lookup fails with an \<open>IOException\<close>. It throws, and the crowd
  is not saved, exactly if a place is sent without a radius, or one whose lookup answers no object with a location,
  unless the only place is empty.
\<close>

theorem places_stored:
  assumes "lbs_reachable t" "\<forall>pl \<in> set (sent_places t). plain_place pl"
  shows "assembleGis geo (getGisInfo t) =
    (if sent_places t = [([], [])] then Some []
     else if \<exists>pl \<in> set (sent_places t). snd pl = [] \<or> getCoordinate geo (fst pl) = Thrown then None
     else Some (concat (map (stored_place geo) (sent_places t))))"
proof -
  let ?ps = "map piece_of (sent_places t)"
  have "2 \<le> lt_next t" using reachable_shape [OF assms(1)] by (auto simp: regular_def doubled_def)
  then have ne: "sent_places t \<noteq> []" by (simp add: sent_places_def)
  have plain: "\<forall>p \<in> set ?ps. CHR '','' \<notin> set p \<and> p \<noteq> []" using assms(2) by (auto simp: plain_place_def piece_of_def)
  have split: "java_split CHR '','' (getGisInfo t) = ?ps"
    unfolding info_join using ne plain by (intro java_split_join) simp_all
  have ns: "getGisInfo t \<noteq> []"
    unfolding info_join using ne by (cases "sent_places t"; cases "tl (sent_places t)") (auto simp: piece_of_def)
  have colon: "getGisInfo t = '':'' \<longleftrightarrow> sent_places t = [([], [])]"
  proof
    assume c: "getGisInfo t = '':''"
    then have "?ps = ['':'']" using split by (simp add: java_split_def)
    then obtain pl where pl: "sent_places t = [pl]" "piece_of pl = '':''" by (auto simp: map_eq_Cons_conv)
    then show "sent_places t = [([], [])]" by (cases pl) (auto simp: piece_of_def append_eq_Cons_conv)
  qed (simp add: info_join piece_of_def)
  show ?thesis using split ns colon gis_pieces_of [OF assms(2)] by (auto simp: assembleGis_def bad_place_def)
qed

text \<open>Two places typed, the second deleted, and another row added.\<close>

definition sample_lbs :: lbs_table where
  "sample_lbs = type_row 1 ''b'' ''2'' (addElmement (type_row 0 ''a'' ''5'' (new_lbs [] [])))"

lemma sample_lbs_reachable: "lbs_reachable sample_lbs"
proof -
  let ?n = "new_lbs [] []"
  have "lbs_step ?n (type_row 0 ''a'' ''5'' ?n)" "lbs_step (type_row 0 ''a'' ''5'' ?n) (addElmement (type_row 0 ''a'' ''5'' ?n))"
      "lbs_step (addElmement (type_row 0 ''a'' ''5'' ?n)) sample_lbs"
    unfolding sample_lbs_def by (rule Type, simp add: new_lbs_def, rule Add, rule Type, simp add: new_lbs_def type_row_def addElmement_def)
  then show ?thesis unfolding lbs_reachable_def by (blast intro: rtranclp.rtrancl_into_rtrancl)
qed

lemma sample_lbs_rows: "lt_rows sample_lbs = [\<lparr>lr_no = 1, lr_addr = ''a'', lr_dist = ''5''\<rparr>, \<lparr>lr_no = 2, lr_addr = ''b'', lr_dist = ''2''\<rparr>]"
    "lt_next sample_lbs = 3"
  by (simp_all add: sample_lbs_def new_lbs_def type_row_def addElmement_def)

theorem places_sent_witness: "sent_places (delElmement sample_lbs) = [(''a'', ''5'')]"
proof -
  have r: "lbs_reachable (delElmement sample_lbs)"
    using sample_lbs_reachable unfolding lbs_reachable_def by (blast intro: rtranclp.rtrancl_into_rtrancl Del)
  have rows: "lt_rows (delElmement sample_lbs) = lt_rows sample_lbs" "lt_next (delElmement sample_lbs) = 2"
    by (simp_all add: delElmement_def sample_lbs_rows without_def)
  have "sent_places (delElmement sample_lbs) = without 1 (shown_places (delElmement sample_lbs))"
    using places_sent [OF r] rows sample_lbs_rows by (auto simp: numeral_2_eq_2 less_Suc_eq)
  then show ?thesis using rows sample_lbs_rows by (simp add: shown_places_def place_def without_def)
qed

theorem first_delete_witness:
  "lt_rows (delElmement sample_lbs) = lt_rows sample_lbs \<and> sent_places (delElmement sample_lbs) = [(''a'', ''5'')]"
  using first_delete [OF sample_lbs_reachable] by (simp add: sample_lbs_rows shown_places_def place_def)

text \<open>A service that finds every address, but no longitude.\<close>

definition sample_geo :: "string \<Rightarrow> geo_answer" where
  "sample_geo a = Answered [(''status'', Json ''OK'' None),
     (''result'', Json [] (Some [(''location'', Json [] (Some [(''lat'', Json a None)]))]))]"

lemma sample_geo_found: "getCoordinate sample_geo a = LatLng (Some a) None"
  by (simp add: getCoordinate_def sample_geo_def member_object_def)

theorem places_stored_witness:
  "assembleGis sample_geo (getGisInfo sample_lbs) =
     Some [\<lparr>gc_addr = ''a'', gc_dist = ''5'', gc_pos = (Some ''a'', None)\<rparr>,
       \<lparr>gc_addr = ''b'', gc_dist = ''2'', gc_pos = (Some ''b'', None)\<rparr>] \<and>
   assembleGis (\<lambda>a. Answered [(''status'', Json ''OK'' None), (''result'', Json ''[]'' None)]) (getGisInfo sample_lbs) = None"
proof -
  let ?none = "\<lambda>a :: string. Answered [(''status'', Json ''OK'' None), (''result'', Json ''[]'' None)]"
  have s: "sent_places sample_lbs = [(''a'', ''5''), (''b'', ''2'')]"
    by (simp add: sent_places_def input_text_def sample_lbs_rows upt_rec)
  have "getCoordinate ?none a = Thrown" for a by (simp add: getCoordinate_def member_object_def)
  then have "\<exists>pl \<in> set (sent_places sample_lbs). snd pl = [] \<or> getCoordinate ?none (fst pl) = Thrown" unfolding s by auto
  then have "assembleGis ?none (getGisInfo sample_lbs) = None"
    using places_stored [OF sample_lbs_reachable, of ?none] by (simp add: s plain_place_def)
  then show ?thesis
    using places_stored [OF sample_lbs_reachable, of sample_geo] s
    by (simp add: plain_place_def stored_place_def sample_geo_found)
qed

end
