(* ===== verification/CrowdForm.thy ===== *)
theory CrowdForm
  imports LbsTable
begin

section \<open>The forms for crowds\<close>

text \<open>
  \<open>crowd/add_person.jsp\<close> and \<open>crowd/edit_person.jsp\<close>: the marks of the required fields, what \<open>add\<close> collects and
  sends, what \<open>AdCrowdFindInfoADUServiceImpl\<close> makes of it, and what the form for editing shows of it again. Texts of
  inputs are found by their id (\<open>cf_val\<close>), boxes and radio buttons by their name, in the order of the page.
\<close>

record crowd_request =
  rq_val :: "string \<Rightarrow> string"
  rq_crowdId :: "string option"
  rq_jisou :: "string option"
  rq_model :: "string option"
  rq_search :: string
  rq_labels :: string
  rq_sex :: string
  rq_ages :: string
  rq_direct :: string
  rq_kwMatch :: string
  rq_urlMatch :: string
  rq_places :: string

record crowd_form =
  cf_edit :: bool
  cf_val :: "string \<Rightarrow> string"
  cf_boxes :: "string \<Rightarrow> (string \<times> bool) list"
  cf_labels :: "string list"
  cf_lbs :: lbs_table
  cf_error :: "string \<Rightarrow> bool"
  cf_waiting :: bool
  cf_left :: bool
  cf_sent :: "crowd_request list"

subsection \<open>The page\<close>

text \<open>The group of a field is marked and its message shown together.\<close>

definition showError :: "string \<Rightarrow> crowd_form \<Rightarrow> crowd_form" where
  "showError i p = p\<lparr>cf_error := (cf_error p)(i := True)\<rparr>"

definition hideError :: "string \<Rightarrow> crowd_form \<Rightarrow> crowd_form" where
  "hideError i p = p\<lparr>cf_error := (cf_error p)(i := False)\<rparr>"

definition focusoutCheckNull :: "string \<Rightarrow> crowd_form \<Rightarrow> crowd_form" where
  "focusoutCheckNull i p = (if trim (cf_val p i) = [] then showError i p else p)"

definition focusCheckNull :: "string \<Rightarrow> crowd_form \<Rightarrow> crowd_form" where
  "focusCheckNull = hideError"

definition checked_vals :: "(string \<times> bool) list \<Rightarrow> string list" where
  "checked_vals bs = map fst (filter snd bs)"

definition getCheckAdIds_crowd :: "(string \<times> bool) list \<Rightarrow> string" where
  "getCheckAdIds_crowd bs = (case checked_vals bs of [] \<Rightarrow> [] | v # vs \<Rightarrow> v @ concat (map (\<lambda>x. '','' @ x) vs))"

text \<open>\<open>$(':checked').val()\<close> is that of the first, \<open>undefined\<close> if there is none.\<close>

definition checked_val :: "(string \<times> bool) list \<Rightarrow> string option" where
  "checked_val bs = (case checked_vals bs of [] \<Rightarrow> None | v # vs \<Rightarrow> Some v)"

text \<open>The loops that look for a checked button go on after they found one.\<close>

definition last_checked :: "(string \<times> bool) list \<Rightarrow> string" where
  "last_checked bs = fold (\<lambda>(v, b) s. if b then v else s) bs []"

definition sex_value :: "(string \<times> bool) list \<Rightarrow> string" where
  "sex_value bs =
     (let sexArr = checked_vals bs
      in if length sexArr = 1 then sexArr ! 0 else if length sexArr = 2 then ''1'' else [])"

definition crowd_data :: "crowd_form \<Rightarrow> crowd_request" where
  "crowd_data p = \<lparr>rq_val = cf_val p, rq_crowdId = (if cf_edit p then Some (cf_val p ''crowdId'') else None),
     rq_jisou = checked_val (cf_boxes p ''isJisoujitou''), rq_model = checked_val (cf_boxes p ''modelType''),
     rq_search = getCheckAdIds_crowd (cf_boxes p ''searchType''), rq_labels = join_on CHR '','' (cf_labels p),
     rq_sex = sex_value (cf_boxes p ''sex''), rq_ages = join_on CHR '','' (checked_vals (cf_boxes p ''age_range'')),
     rq_direct = last_checked (cf_boxes p ''direct_type''), rq_kwMatch = last_checked (cf_boxes p ''keyWdMatchType''),
     rq_urlMatch = last_checked (cf_boxes p ''urlMatchType''), rq_places = getGisInfo (cf_lbs p)\<rparr>"

text \<open>Only the form for new crowds asks for the period of the labels, and shows the message of the date for it.\<close>

definition add_crowd :: "crowd_form \<Rightarrow> crowd_form" where
  "add_crowd p =
     (if trim (cf_val p ''crowdName'') = [] then showError ''crowdName'' p
      else if trim (cf_val p ''expressDate'') = [] then showError ''expressDate'' p
      else if \<not> cf_edit p \<and> cf_labels p \<noteq> [] \<and> trim (cf_val p ''interestlabelCircle'') = [] then showError ''expressDate'' p
      else p\<lparr>cf_waiting := True, cf_sent := cf_sent p @ [crowd_data p]\<rparr>)"

text \<open>The answer: \<open>None\<close> if the request failed.\<close>

definition crowd_answered :: "bool option \<Rightarrow> crowd_form \<Rightarrow> crowd_form" where
  "crowd_answered result p = (if result = Some True then p\<lparr>cf_left := True\<rparr> else p\<lparr>cf_waiting := False\<rparr>)"

subsection \<open>The server\<close>

text \<open>Fields that are not set are \<open>None\<close>; the dates of changes and the constant states are left out.\<close>

record kw_crowd =
  kw_text :: string
  kw_jisou :: "string option"
  kw_cycle :: "string option"
  kw_search :: "string option"
  kw_date :: "string option"
  kw_num :: "string option"
  kw_match :: string

record url_crowd =
  uc_url :: string
  uc_jisou :: "string option"
  uc_cycle :: "string option"
  uc_date :: "string option"
  uc_num :: "string option"
  uc_match :: string

record crowd =
  cw_name :: "string option"
  cw_expiry :: "string option"
  cw_direct :: string
  cw_keywords :: "kw_crowd list"
  cw_urls :: "url_crowd list"
  cw_model :: "(string \<times> string \<times> string) option"
  cw_gis :: "gis_crowd list"
  cw_labels :: "(string \<times> string) list"
  cw_portraits :: "(string \<times> string) list"

definition nonempty :: "string \<Rightarrow> string option" where
  "nonempty s = (if s = [] then None else Some s)"

text \<open>\<open>undef\<close> is the text that jQuery sends for \<open>undefined\<close>.\<close>

definition param :: "string \<Rightarrow> string option \<Rightarrow> string" where
  "param undef v = (case v of None \<Rightarrow> undef | Some s \<Rightarrow> s)"

definition search_type :: "string \<Rightarrow> string option" where
  "search_type s = (if s = [] then None else if s = ''1'' \<or> s = ''2'' then Some s else Some ''3'')"

definition no_tabs :: "string \<Rightarrow> string" where
  "no_tabs s = filter (\<lambda>c. c \<noteq> CHR 0x09) s"

definition assemble_keywords :: "string \<Rightarrow> crowd_request \<Rightarrow> kw_crowd list" where
  "assemble_keywords undef r =
     (if rq_val r ''keyWd'' = [] then []
      else map (\<lambda>k. \<lparr>kw_text = no_tabs k, kw_jisou = nonempty (param undef (rq_jisou r)), kw_cycle = nonempty (rq_val r ''kwUrlFetchCicle''),
        kw_search = search_type (rq_search r), kw_date = nonempty (rq_val r ''keyWdSearchDate''),
        kw_num = nonempty (rq_val r ''keyWdSearchNum''), kw_match = rq_kwMatch r\<rparr>)
        (java_split CHR 0x0A (rq_val r ''keyWd'')))"

definition assemble_urls :: "string \<Rightarrow> crowd_request \<Rightarrow> url_crowd list" where
  "assemble_urls undef r =
     (if rq_val r ''urlContent'' = [] then []
      else map (\<lambda>u. \<lparr>uc_url = no_tabs u, uc_jisou = nonempty (param undef (rq_jisou r)), uc_cycle = nonempty (rq_val r ''kwUrlFetchCicle''),
        uc_date = nonempty (rq_val r ''urlMatchDate''), uc_num = nonempty (rq_val r ''urlMatchNum''), uc_match = rq_urlMatch r\<rparr>)
        (java_split CHR 0x0A (rq_val r ''urlContent'')))"

definition assemble_model :: "string \<Rightarrow> crowd_request \<Rightarrow> (string \<times> string \<times> string) option" where
  "assemble_model undef r =
     (if param undef (rq_model r) = [] \<or> rq_val r ''modelFetchCicle'' = [] \<or> rq_val r ''modelMatchUrl'' = [] then None
      else Some (param undef (rq_model r), rq_val r ''modelFetchCicle'', rq_val r ''modelMatchUrl''))"

definition assemble_labels :: "crowd_request \<Rightarrow> (string \<times> string) list" where
  "assemble_labels r =
     (if rq_labels r = [] \<or> rq_val r ''interestlabelCircle'' = [] then []
      else map (\<lambda>l. (l, rq_val r ''interestlabelCircle'')) (java_split CHR '','' (rq_labels r)))"

definition assemble_portraits :: "crowd_request \<Rightarrow> (string \<times> string) list" where
  "assemble_portraits r = (if rq_ages r = [] then [] else map (\<lambda>a. (rq_sex r, a)) (java_split CHR '','' (rq_ages r)))"

text \<open>\<open>None\<close> is an exception; it comes from the places only.\<close>

definition assembleDtoFromRequest :: "string \<Rightarrow> (string \<Rightarrow> geo_answer) \<Rightarrow> crowd_request \<Rightarrow> crowd option" where
  "assembleDtoFromRequest undef geo r =
     map_option (\<lambda>gis. \<lparr>cw_name = nonempty (rq_val r ''crowdName''), cw_expiry = nonempty (rq_val r ''expressDate''), cw_direct = rq_direct r,
       cw_keywords = assemble_keywords undef r, cw_urls = assemble_urls undef r, cw_model = assemble_model undef r, cw_gis = gis,
       cw_labels = assemble_labels r, cw_portraits = assemble_portraits r\<rparr>)
       (assembleGis geo (rq_places r))"

subsection \<open>The form for editing\<close>

text \<open>
  \<open>toEditCrowd\<close> and the page: of the places only the first is shown; the search type is that of the last key word, and
  its first box is checked in every case.
\<close>

definition edit_lbs :: "crowd \<Rightarrow> lbs_table" where
  "edit_lbs c = (case cw_gis c of [] \<Rightarrow> new_lbs [] [] | g # gs \<Rightarrow> new_lbs (gc_addr g) (gc_dist g))"

definition edit_search :: "crowd \<Rightarrow> (string \<times> bool) list" where
  "edit_search c =
     (let t = (case cw_keywords c of [] \<Rightarrow> None | ks \<Rightarrow> kw_search (last ks))
      in [(''1'', True), (''2'', t = Some ''2'' \<or> t = Some ''3'')])"

definition edit_sex :: "crowd \<Rightarrow> (string \<times> bool) list" where
  "edit_sex c =
     (let s = (case cw_portraits c of [] \<Rightarrow> [] | (s, a) # ps \<Rightarrow> s)
      in [(''2'', s = ''1'' \<or> s = ''2''), (''3'', s = ''1'' \<or> s = ''3'')])"

definition edit_ages :: "crowd \<Rightarrow> (string \<times> bool) list" where
  "edit_ages c = map (\<lambda>v. (v, \<exists>p \<in> set (cw_portraits c). snd p = v)) [''1'', ''2'', ''3'', ''4'']"

text \<open>The text of the key words, each with a line feed; \<open>None\<close> prints as nothing.\<close>

definition edit_keywords :: "crowd \<Rightarrow> string" where
  "edit_keywords c = concat (map (\<lambda>k. kw_text k @ [CHR 0x0A]) (cw_keywords c))"

subsection \<open>Lemmas\<close>

lemma getCheckAdIds_crowd_join: "getCheckAdIds_crowd bs = join_on CHR '','' (checked_vals bs)"
proof -
  have "join_on c (v # vs) = v @ concat (map (\<lambda>x. c # x) vs)" for c :: char and v vs
    by (induction vs arbitrary: v) auto
  then show ?thesis by (simp add: getCheckAdIds_crowd_def split: list.split)
qed

text \<open>A stored text of codes joined by commas is its codes; the labels and the ages are sent like that.\<close>

lemma split_codes: "\<forall>c \<in> set cs. plain_code c \<Longrightarrow> join_on CHR '','' cs \<noteq> [] \<Longrightarrow> java_split CHR '','' (join_on CHR '','' cs) = cs"
proof -
  assume cs: "\<forall>c \<in> set cs. plain_code c" "join_on CHR '','' cs \<noteq> []"
  then have "cs \<noteq> []" by auto
  then show "java_split CHR '','' (join_on CHR '','' cs) = cs"
    using cs(1) plain_ne by (intro java_split_join) (auto simp: plain_code_def)
qed

lemma join_empty: "\<forall>c \<in> set cs. plain_code c \<Longrightarrow> join_on CHR '','' cs = [] \<longleftrightarrow> cs = []"
  using code_list.blank_iff [of cs] by (auto simp: java_blank_def)

lemma assemble_labels_codes:
  "\<forall>c \<in> set (cf_labels p). plain_code c \<Longrightarrow> assemble_labels (crowd_data p) =
     (if cf_val p ''interestlabelCircle'' = [] then [] else map (\<lambda>l. (l, cf_val p ''interestlabelCircle'')) (cf_labels p))"
  using split_codes [of "cf_labels p"] join_empty [of "cf_labels p"] by (auto simp: assemble_labels_def crowd_data_def)

lemma assemble_portraits_codes:
  "\<forall>c \<in> set (checked_vals (cf_boxes p ''age_range'')). plain_code c \<Longrightarrow> assemble_portraits (crowd_data p) =
     map (\<lambda>a. (sex_value (cf_boxes p ''sex''), a)) (checked_vals (cf_boxes p ''age_range''))"
  using split_codes [of "checked_vals (cf_boxes p ''age_range'')"] join_empty [of "checked_vals (cf_boxes p ''age_range'')"]
  by (auto simp: assemble_portraits_def crowd_data_def)

text \<open>Lines of a text: none is empty or has a tab or a line feed.\<close>

definition plain_line :: "string \<Rightarrow> bool" where
  "plain_line l \<longleftrightarrow> l \<noteq> [] \<and> CHR 0x09 \<notin> set l \<and> CHR 0x0A \<notin> set l"

lemma no_tabs_id: "CHR 0x09 \<notin> set l \<Longrightarrow> no_tabs l = l"
  by (auto simp: no_tabs_def filter_id_conv)

lemma keyword_lines:
  assumes "ks \<noteq> []" "\<forall>k \<in> set ks. plain_line k"
  shows "map kw_text (assemble_keywords undef (r\<lparr>rq_val := v(''keyWd'' := join_on CHR 0x0A ks)\<rparr>)) = ks"
    and "map kw_text (assemble_keywords undef (r\<lparr>rq_val := v(''keyWd'' := concat (map (\<lambda>k. k @ [CHR 0x0A]) ks))\<rparr>)) = ks"
proof -
  have plain: "\<forall>k \<in> set ks. CHR 0x0A \<notin> set k \<and> k \<noteq> []" using assms(2) by (auto simp: plain_line_def)
  have one: "java_split CHR 0x0A (join_on CHR 0x0A ks) = ks" using java_split_join [OF assms(1)] plain by blast
  have ends: "concat (map (\<lambda>k. k @ [CHR 0x0A]) ks) = join_on CHR 0x0A (ks @ [[]])"
    by (induction ks rule: induct_list012) auto
  have "split_on CHR 0x0A (join_on CHR 0x0A (ks @ [[]])) = ks @ [[]]"
    using plain by (intro split_join) auto
  moreover have "dropWhile (\<lambda>x. x = []) (rev ks) = rev ks"
    using assms(1) plain by (simp add: dropWhile_eq_self_iff hd_rev)
  moreover have "CHR 0x0A \<in> set (concat (map (\<lambda>k. k @ [CHR 0x0A]) ks))" using assms(1) by (cases ks) auto
  ultimately have two: "java_split CHR 0x0A (concat (map (\<lambda>k. k @ [CHR 0x0A]) ks)) = ks"
    by (simp add: java_split_def ends)
  have tabs: "map no_tabs ks = ks"
    using assms(2) by (intro map_idI) (auto simp: plain_line_def no_tabs_id)
  have ne: "join_on CHR 0x0A ks \<noteq> []" using assms(1) plain by (cases ks rule: list.exhaust; cases "tl ks") auto
  show "map kw_text (assemble_keywords undef (r\<lparr>rq_val := v(''keyWd'' := join_on CHR 0x0A ks)\<rparr>)) = ks"
    using one tabs ne by (simp add: assemble_keywords_def comp_def)
  show "map kw_text (assemble_keywords undef (r\<lparr>rq_val := v(''keyWd'' := concat (map (\<lambda>k. k @ [CHR 0x0A]) ks))\<rparr>)) = ks"
    using two tabs assms(1) by (simp add: assemble_keywords_def comp_def)
qed

lemma assembled:
  assumes "assembleDtoFromRequest undef geo r = Some c"
  shows "assembleGis geo (rq_places r) = Some (cw_gis c)" "cw_portraits c = assemble_portraits r"
    "cw_keywords c = assemble_keywords undef r" "cw_labels c = assemble_labels r"
  using assms by (auto simp: assembleDtoFromRequest_def)

text \<open>The places of a form that can be saved: no radius is missing and no separator is typed.\<close>

definition good_places :: "crowd_form \<Rightarrow> bool" where
  "good_places p \<longleftrightarrow> lbs_reachable (cf_lbs p) \<and> (\<forall>pl \<in> set (sent_places (cf_lbs p)). plain_place pl \<and> snd pl \<noteq> [])"

text \<open>The lookup of none of its addresses throws.\<close>

definition places_found :: "(string \<Rightarrow> geo_answer) \<Rightarrow> crowd_form \<Rightarrow> bool" where
  "places_found geo p \<longleftrightarrow> (\<forall>pl \<in> set (sent_places (cf_lbs p)). getCoordinate geo (fst pl) \<noteq> Thrown)"

lemma good_places_found:
  assumes "good_places p" "assembleGis geo (rq_places (crowd_data p)) = Some gis"
  shows "places_found geo p"
proof -
  have "sent_places (cf_lbs p) \<noteq> [([], [])]" using assms(1) by (auto simp: good_places_def)
  then show ?thesis
    using assms places_stored [of "cf_lbs p" geo] by (auto simp: good_places_def places_found_def crowd_data_def split: if_splits)
qed

lemma good_places_stored:
  assumes "good_places p" "places_found geo p"
  shows "assembleGis geo (rq_places (crowd_data p)) = Some (concat (map (stored_place geo) (sent_places (cf_lbs p))))"
proof -
  have "sent_places (cf_lbs p) \<noteq> [([], [])]" using assms by (auto simp: good_places_def)
  then show ?thesis
    using assms places_stored [of "cf_lbs p" geo] by (auto simp: good_places_def places_found_def crowd_data_def)
qed

subsection \<open>Properties\<close>

text \<open>
  C15: A crowd with a name, a date and a period whose places have a radius, no separator and a lookup that does not throw
  is sent, and the server stores every place sent with the coordinates found, which may be \<open>null\<close> (none for a place
  whose lookup failed with an \<open>IOException\<close>), every label with the period, and the sex with every age range chosen.
  Without an age range the sex is not stored.
\<close>

theorem crowd_stored:
  assumes "trim (cf_val p ''crowdName'') \<noteq> []" "trim (cf_val p ''expressDate'') \<noteq> []" "trim (cf_val p ''interestlabelCircle'') \<noteq> []"
    and "good_places p" "places_found geo p" "\<forall>l \<in> set (cf_labels p). plain_code l" "\<forall>a \<in> set (checked_vals (cf_boxes p ''age_range'')). plain_code a"
  shows "\<exists>rq c. cf_sent (add_crowd p) = cf_sent p @ [rq] \<and> assembleDtoFromRequest undef geo rq = Some c \<and>
    cw_name c = Some (cf_val p ''crowdName'') \<and> cw_expiry c = Some (cf_val p ''expressDate'') \<and>
    cw_gis c = concat (map (stored_place geo) (sent_places (cf_lbs p))) \<and>
    cw_labels c = map (\<lambda>l. (l, cf_val p ''interestlabelCircle'')) (cf_labels p) \<and>
    cw_portraits c = map (\<lambda>a. (sex_value (cf_boxes p ''sex''), a)) (checked_vals (cf_boxes p ''age_range''))"
proof -
  have ne: "cf_val p ''crowdName'' \<noteq> []" "cf_val p ''expressDate'' \<noteq> []" "cf_val p ''interestlabelCircle'' \<noteq> []"
    using assms(1-3) by auto
  have vals: "rq_val (crowd_data p) = cf_val p" by (simp add: crowd_data_def)
  have "cf_sent (add_crowd p) = cf_sent p @ [crowd_data p]" using assms(1-3) by (simp add: add_crowd_def)
  then show ?thesis
    using good_places_stored [OF assms(4,5)] assemble_labels_codes [OF assms(6)] assemble_portraits_codes [OF assms(7)] ne vals
    by (intro exI [of _ "crowd_data p"]) (simp add: assembleDtoFromRequest_def nonempty_def)
qed

text \<open>
  C26: Sex and age ranges come back on the form for editing as they were chosen, if an age range was; otherwise none of
  their boxes is checked there.
\<close>

theorem portraits_roundtrip:
  assumes "cf_boxes p ''sex'' = [(''2'', m), (''3'', f)]"
    and "cf_boxes p ''age_range'' = [(''1'', a1), (''2'', a2), (''3'', a3), (''4'', a4)]"
    and "assembleDtoFromRequest undef geo (crowd_data p) = Some c"
  shows "if a1 \<or> a2 \<or> a3 \<or> a4 then edit_sex c = cf_boxes p ''sex'' \<and> edit_ages c = cf_boxes p ''age_range''
    else \<not> list_ex snd (edit_sex c @ edit_ages c)"
proof -
  have "\<forall>a \<in> set (checked_vals (cf_boxes p ''age_range'')). plain_code a"
    by (auto simp: assms(2) checked_vals_def plain_code_def java_blank_def)
  from assemble_portraits_codes [OF this] have
    c: "cw_portraits c = map (\<lambda>a. (sex_value (cf_boxes p ''sex''), a)) (checked_vals (cf_boxes p ''age_range''))"
    using assembled(2) [OF assms(3)] by simp
  show ?thesis
    by (cases m; cases f; cases a1; cases a2; cases a3; cases a4)
      (simp_all add: assms(1,2) c edit_sex_def edit_ages_def sex_value_def checked_vals_def Let_def)
qed

text \<open>
  The form for editing offers the search engines whatever was stored: a crowd for shops only is one for both when it is
  saved again.
\<close>

theorem search_widens:
  assumes "cf_boxes p ''searchType'' = [(''1'', e), (''2'', s)]" "assembleDtoFromRequest undef geo (crowd_data p) = Some c"
    and "cf_val p ''keyWd'' = join_on CHR 0x0A ks" "ks \<noteq> []" "\<forall>k \<in> set ks. plain_line k"
  shows "edit_search c = [(''1'', True), (''2'', s)]"
    and "search_type (getCheckAdIds_crowd (edit_search c)) = Some (if s then ''3'' else ''1'')"
proof -
  have k: "cf_val p ''keyWd'' = rq_val (crowd_data p) ''keyWd''" by (simp add: crowd_data_def)
  have "map kw_text (assemble_keywords undef ((crowd_data p)\<lparr>rq_val := (cf_val p)(''keyWd'' := join_on CHR 0x0A ks)\<rparr>)) = ks"
    by (rule keyword_lines(1) [OF assms(4,5)])
  moreover have "(crowd_data p)\<lparr>rq_val := (cf_val p)(''keyWd'' := join_on CHR 0x0A ks)\<rparr> = crowd_data p"
    unfolding assms(3) [symmetric] fun_upd_triv by (simp add: crowd_data_def)
  ultimately have kws: "assemble_keywords undef (crowd_data p) \<noteq> []" using assms(4) by auto
  then have "\<forall>w \<in> set (assemble_keywords undef (crowd_data p)). kw_search w = search_type (rq_search (crowd_data p))"
    by (auto simp: assemble_keywords_def)
  then have last: "kw_search (last (cw_keywords c)) = search_type (rq_search (crowd_data p))"
    using kws assembled(3) [OF assms(2)] by simp
  have "rq_search (crowd_data p) = getCheckAdIds_crowd [(''1'', e), (''2'', s)]" by (simp add: crowd_data_def assms(1))
  then have "search_type (rq_search (crowd_data p)) = (if e \<and> s then Some ''3'' else if e then Some ''1'' else if s then Some ''2'' else None)"
    by (cases e; cases s) (simp_all add: getCheckAdIds_crowd_def checked_vals_def search_type_def)
  moreover have "cw_keywords c \<noteq> []" using kws assembled(3) [OF assms(2)] by simp
  then have "(case cw_keywords c of [] \<Rightarrow> None | ks \<Rightarrow> kw_search (last ks)) = kw_search (last (cw_keywords c))"
    by (cases "cw_keywords c") simp_all
  ultimately have st: "(case cw_keywords c of [] \<Rightarrow> None | ks \<Rightarrow> kw_search (last ks)) =
      (if e \<and> s then Some ''3'' else if e then Some ''1'' else if s then Some ''2'' else None)"
    using last by simp
  show search: "edit_search c = [(''1'', True), (''2'', s)]"
    unfolding edit_search_def st Let_def by (cases e; cases s) simp_all
  show "search_type (getCheckAdIds_crowd (edit_search c)) = Some (if s then ''3'' else ''1'')"
    unfolding search by (cases s) (simp_all add: getCheckAdIds_crowd_def checked_vals_def search_type_def)
qed

text \<open>Key words come back as they were typed, and are stored the same when the form for editing is saved.\<close>

theorem keywords_roundtrip:
  assumes "assembleDtoFromRequest undef geo (crowd_data p) = Some c"
    and "cf_val p ''keyWd'' = join_on CHR 0x0A ks" "ks \<noteq> []" "\<forall>k \<in> set ks. plain_line k"
    and "cf_val q ''keyWd'' = edit_keywords c"
  shows "map kw_text (assemble_keywords undef (crowd_data q)) = map kw_text (cw_keywords c) \<and> map kw_text (cw_keywords c) = ks"
proof -
  have same: "(crowd_data x)\<lparr>rq_val := (cf_val x)(''keyWd'' := cf_val x ''keyWd'')\<rparr> = crowd_data x" for x
    by (simp add: crowd_data_def)
  have 1: "map kw_text (cw_keywords c) = ks"
    using keyword_lines(1) [OF assms(3,4), of undef "cf_val p" "crowd_data p"] same [of p] assembled(3) [OF assms(1)] assms(2) by metis
  have "edit_keywords c = concat (map (\<lambda>k. k @ [CHR 0x0A]) (map kw_text (cw_keywords c)))"
    by (simp add: edit_keywords_def comp_def)
  then have "cf_val q ''keyWd'' = concat (map (\<lambda>k. k @ [CHR 0x0A]) ks)" using assms(5) 1 by simp
  then show ?thesis
    using 1 keyword_lines(2) [OF assms(3,4), of undef "cf_val q" "crowd_data q"] same [of q] by metis
qed

text \<open>
  C27: Saving the form for editing as it is shown drops all places but the first.
\<close>

theorem editing_drops_places:
  assumes "good_places p" "assembleDtoFromRequest undef geo (crowd_data p) = Some c" "cf_lbs q = edit_lbs c"
  shows "assembleGis geo (rq_places (crowd_data q)) = Some (take 1 (cw_gis c))"
proof (cases "cw_gis c")
  case Nil
  then have "rq_places (crowd_data q) = '':''"
    by (simp add: crowd_data_def assms(3) edit_lbs_def getGisInfo_def new_lbs_def input_text_def upt_rec)
  then show ?thesis using Nil by (simp add: assembleGis_def)
next
  case (Cons g gs)
  have found: "places_found geo p" by (rule good_places_found [OF assms(1) assembled(1) [OF assms(2)]])
  have gis: "cw_gis c = concat (map (stored_place geo) (sent_places (cf_lbs p)))"
    using assembled(1) [OF assms(2)] good_places_stored [OF assms(1) found] by simp
  then have "g \<in> set (concat (map (stored_place geo) (sent_places (cf_lbs p))))" using Cons by (metis list.set_intros(1))
  then obtain pl where pl: "pl \<in> set (sent_places (cf_lbs p))" "g \<in> set (stored_place geo pl)" by auto
  then have g: "plain_place (gc_addr g, gc_dist g)" "gc_dist g \<noteq> []" "stored_place geo (gc_addr g, gc_dist g) = [g]"
    using assms(1) by (cases "getCoordinate geo (fst pl)"; auto simp: good_places_def stored_place_def)+
  have lbs: "cf_lbs q = new_lbs (gc_addr g) (gc_dist g)" using Cons assms(3) by (simp add: edit_lbs_def)
  then have sent: "sent_places (cf_lbs q) = [(gc_addr g, gc_dist g)]"
    by (simp add: sent_places_def new_lbs_def input_text_def upt_rec)
  have "lbs_reachable (cf_lbs q)" unfolding lbs lbs_reachable_def by blast
  then have "good_places q" using g sent by (simp add: good_places_def)
  moreover have "places_found geo q" using found pl sent g(3)
    by (auto simp: places_found_def stored_place_def split: coordinates.splits)
  ultimately show ?thesis using good_places_stored [of q geo] sent g(3) Cons by simp
qed

text \<open>Boxes instead of radio buttons: of several models only the first is sent, and for none the text for \<open>undefined\<close>.\<close>

lemma model_stored:
  assumes "cf_val p ''modelFetchCicle'' \<noteq> []" "cf_val p ''modelMatchUrl'' \<noteq> []" "undef \<noteq> []" "\<forall>b \<in> set (cf_boxes p ''modelType''). fst b \<noteq> []"
  shows "assemble_model undef (crowd_data p) =
    Some (case checked_vals (cf_boxes p ''modelType'') of [] \<Rightarrow> undef | v # vs \<Rightarrow> v, cf_val p ''modelFetchCicle'', cf_val p ''modelMatchUrl'')"
proof -
  have "v \<in> set (checked_vals (cf_boxes p ''modelType'')) \<Longrightarrow> v \<noteq> []" for v using assms(4) by (auto simp: checked_vals_def)
  then show ?thesis
    using assms(1-3) by (auto simp: assemble_model_def crowd_data_def checked_val_def param_def split: list.split)
qed

text \<open>A new crowd: two places, a label, two age ranges and both sexes, shops only.\<close>

definition sample_crowd :: crowd_form where
  "sample_crowd = \<lparr>cf_edit = False,
     cf_val = (\<lambda>i. if i = ''crowdName'' then ''n'' else if i = ''expressDate'' then ''2014-10-01'' else if i = ''interestlabelCircle'' then ''1''
        else if i = ''keyWd'' then ''tea'' else []),
     cf_boxes = (\<lambda>n. if n = ''sex'' then [(''2'', True), (''3'', True)]
        else if n = ''age_range'' then [(''1'', True), (''2'', False), (''3'', True), (''4'', False)]
        else if n = ''searchType'' then [(''1'', False), (''2'', True)] else []),
     cf_labels = [''L1''], cf_lbs = sample_lbs, cf_error = (\<lambda>i. False), cf_waiting = False, cf_left = False, cf_sent = []\<rparr>"

lemma sample_crowd_places: "good_places sample_crowd" "sent_places (cf_lbs sample_crowd) = [(''a'', ''5''), (''b'', ''2'')]"
proof -
  show "sent_places (cf_lbs sample_crowd) = [(''a'', ''5''), (''b'', ''2'')]"
    by (simp add: sample_crowd_def sent_places_def input_text_def sample_lbs_rows upt_rec)
  then show "good_places sample_crowd"
    using sample_lbs_reachable by (simp add: good_places_def sample_crowd_def plain_place_def)
qed

lemma sample_crowd_found: "places_found sample_geo p"
  by (simp add: places_found_def sample_geo_found)

lemma sample_crowd_stored:
  "\<exists>c. assembleDtoFromRequest undef sample_geo (crowd_data sample_crowd) = Some c"
  using good_places_stored [OF sample_crowd_places(1) sample_crowd_found] by (simp add: assembleDtoFromRequest_def)

theorem crowd_stored_witness:
  "\<exists>rq c. cf_sent (add_crowd sample_crowd) = [rq] \<and> assembleDtoFromRequest ''undefined'' sample_geo rq = Some c \<and>
     cw_labels c = [(''L1'', ''1'')] \<and> cw_portraits c = [(''1'', ''1''), (''1'', ''3'')] \<and> map gc_addr (cw_gis c) = [''a'', ''b'']"
proof -
  have t: "trim (cf_val sample_crowd ''crowdName'') \<noteq> []" "trim (cf_val sample_crowd ''expressDate'') \<noteq> []"
      "trim (cf_val sample_crowd ''interestlabelCircle'') \<noteq> []"
    unfolding sample_crowd_def by code_simp+
  have codes: "\<forall>l \<in> set (cf_labels sample_crowd). plain_code l"
      "\<forall>a \<in> set (checked_vals (cf_boxes sample_crowd ''age_range'')). plain_code a"
    by (simp_all add: sample_crowd_def plain_code_def java_blank_def checked_vals_def)
  have data: "cf_labels sample_crowd = [''L1'']" "cf_val sample_crowd ''interestlabelCircle'' = ''1''" "cf_sent sample_crowd = []"
      "sex_value (cf_boxes sample_crowd ''sex'') = ''1''" "checked_vals (cf_boxes sample_crowd ''age_range'') = [''1'', ''3'']"
    by (simp_all add: sample_crowd_def sex_value_def checked_vals_def)
  obtain rq c where "cf_sent (add_crowd sample_crowd) = [rq]" "assembleDtoFromRequest ''undefined'' sample_geo rq = Some c"
      "cw_labels c = [(''L1'', ''1'')]" "cw_portraits c = [(''1'', ''1''), (''1'', ''3'')]"
      "cw_gis c = concat (map (stored_place sample_geo) (sent_places (cf_lbs sample_crowd)))"
    using crowd_stored [OF t sample_crowd_places(1) sample_crowd_found codes, of "''undefined''"] by (auto simp: data)
  then show ?thesis by (auto simp: sample_crowd_places(2) stored_place_def sample_geo_found)
qed

theorem portraits_roundtrip_witness:
  "\<exists>c. assembleDtoFromRequest [] sample_geo (crowd_data sample_crowd) = Some c \<and>
     edit_ages c = [(''1'', True), (''2'', False), (''3'', True), (''4'', False)]"
proof -
  obtain c where c: "assembleDtoFromRequest [] sample_geo (crowd_data sample_crowd) = Some c"
    using sample_crowd_stored by blast
  have boxes: "cf_boxes sample_crowd ''sex'' = [(''2'', True), (''3'', True)]"
      "cf_boxes sample_crowd ''age_range'' = [(''1'', True), (''2'', False), (''3'', True), (''4'', False)]"
    by (simp_all add: sample_crowd_def)
  show ?thesis using portraits_roundtrip [OF boxes c] c boxes by simp
qed

theorem search_widens_witness:
  "\<exists>c. assembleDtoFromRequest [] sample_geo (crowd_data sample_crowd) = Some c \<and>
     rq_search (crowd_data sample_crowd) = ''2'' \<and> search_type (getCheckAdIds_crowd (edit_search c)) = Some ''3''"
proof -
  obtain c where c: "assembleDtoFromRequest [] sample_geo (crowd_data sample_crowd) = Some c"
    using sample_crowd_stored by blast
  have "rq_search (crowd_data sample_crowd) = ''2''"
    by (simp add: crowd_data_def sample_crowd_def getCheckAdIds_crowd_def checked_vals_def)
  then show ?thesis
    using search_widens(2) [OF _ c, of False True "[''tea'']"] c by (simp add: sample_crowd_def plain_line_def)
qed

theorem keywords_roundtrip_witness:
  "\<exists>c. assembleDtoFromRequest [] sample_geo (crowd_data sample_crowd) = Some c \<and>
     map kw_text (assemble_keywords [] (crowd_data (sample_crowd\<lparr>cf_val := \<lambda>i. edit_keywords c\<rparr>))) = [''tea'']"
proof -
  obtain c where c: "assembleDtoFromRequest [] sample_geo (crowd_data sample_crowd) = Some c"
    using sample_crowd_stored by blast
  then show ?thesis
    using keywords_roundtrip [OF c, of "[''tea'']" "sample_crowd\<lparr>cf_val := \<lambda>i. edit_keywords c\<rparr>"]
    by (simp add: sample_crowd_def plain_line_def)
qed

theorem editing_drops_places_witness:
  "\<exists>c. assembleDtoFromRequest [] sample_geo (crowd_data sample_crowd) = Some c \<and> length (cw_gis c) = 2 \<and>
     map_option length (assembleGis sample_geo (rq_places (crowd_data (sample_crowd\<lparr>cf_lbs := edit_lbs c\<rparr>)))) = Some 1"
proof -
  obtain c where c: "assembleDtoFromRequest [] sample_geo (crowd_data sample_crowd) = Some c"
    using sample_crowd_stored by blast
  have "Some (cw_gis c) = Some (concat (map (stored_place sample_geo) (sent_places (cf_lbs sample_crowd))))"
    unfolding assembled(1) [OF c, symmetric] by (rule good_places_stored [OF sample_crowd_places(1) sample_crowd_found])
  then have "length (cw_gis c) = 2" by (simp add: sample_crowd_places(2) stored_place_def sample_geo_found)
  then show ?thesis
    using editing_drops_places [OF sample_crowd_places(1) c, of "sample_crowd\<lparr>cf_lbs := edit_lbs c\<rparr>"] c by simp
qed

end
