(* ===== verification/MaterialForm.thy ===== *)
theory MaterialForm
  imports JsRegex
begin

section \<open>The form for materials\<close>

text \<open>
  \<open>advertisement/material-add.jsp\<close> and \<open>material-edit.jsp\<close>: a material is a picture, a flash file or a rich text;
  the file is uploaded or has an address elsewhere. The state of the page is the values of its fields, which parts
  are shown and the messages; a message, its text and the mark of its group are set and taken away together.
\<close>

subsection \<open>Addresses\<close>

text \<open>
  The expression is written as a string, in which \<open>\.\<close> is a dot only: the dots in the host match any character but a
  line end.
\<close>

definition lower :: "char \<Rightarrow> bool" where
  "lower c \<longleftrightarrow> 97 \<le> (of_char c :: nat) \<and> (of_char c :: nat) \<le> 122"

definition alnum :: "char \<Rightarrow> bool" where
  "alnum c \<longleftrightarrow> is_digit c \<or> lower c"

definition any_char :: "char \<Rightarrow> bool" where
  "any_char c \<longleftrightarrow> c \<noteq> CHR 0x0A \<and> c \<noteq> CHR 0x0D"

definition user_char :: "char \<Rightarrow> bool" where
  "user_char c \<longleftrightarrow> alnum c \<or> c \<in> set ''_!~*().&=+$%-'' \<or> c = CHR 0x27"

definition host_mark :: "char \<Rightarrow> bool" where
  "host_mark c \<longleftrightarrow> alnum c \<or> c \<in> set ''_!~*()-'' \<or> c = CHR 0x27"

definition path_mark :: "char \<Rightarrow> bool" where
  "path_mark c \<longleftrightarrow> alnum c \<or> c \<in> set ''_!~*().;?:@&=+$,%#-'' \<or> c = CHR 0x27"

definition scheme_re :: "char re" where
  "scheme_re = r_opt (RCat (r_opt (RAlt (r_text ''https'') (RAlt (r_text ''http'') (RAlt (r_text ''ftp'') (RAlt (r_text ''rtsp'') (r_text ''mms''))))))
     (r_text ''://''))"

definition user_re :: "char re" where
  "user_re = r_opt (RCat (r_opt (RCat (r_plus (RCls user_char)) (r_text '': ''))) (RCat (r_plus (RCls user_char)) (r_chr CHR ''@'')))"

definition host_re :: "char re" where
  "host_re = RAlt (RCat (r_times 3 (RCat (r_between 1 2 (RCls is_digit)) (RCls any_char))) (r_between 1 2 (RCls is_digit)))
     (RCat (RStar (RCat (r_plus (RCls host_mark)) (RCls any_char)))
        (RCat (r_opt (RCat (RCls alnum) (r_between 0 61 (RCls (\<lambda>c. alnum c \<or> c = CHR ''-'')))))
           (RCat (RCls alnum) (RCat (RCls any_char) (r_between 2 4 (RCls lower))))))"

definition port_re :: "char re" where
  "port_re = r_opt (RCat (r_chr CHR '':'') (r_between 1 3 (RCls is_digit)))"

definition path_re :: "char re" where
  "path_re = RAlt (r_opt (r_chr CHR ''/'')) (RCat (r_plus (RCat (r_chr CHR ''/'') (r_plus (RCls path_mark)))) (r_opt (r_chr CHR ''/'')))"

definition address_re :: "char re" where
  "address_re = RCat scheme_re (RCat user_re (RCat host_re (RCat port_re path_re)))"

subsection \<open>The page\<close>

datatype page_tip = NameTip | FileTip | FlashTip | RichTip | PathTip | TargetTip | MonitorTip | DescTip

datatype tip_kind = IsEmpty | BadFormat | NotUploaded

datatype file_kind = PictureKind | FlashKind

record sent_material =
  sm_mType :: nat
  sm_name :: string
  sm_link :: string
  sm_target :: string
  sm_size :: string
  sm_value :: string
  sm_materialType :: nat
  sm_rich :: string
  sm_monitor :: "string option"
  sm_cover :: string

text \<open>\<open>mp_loadType\<close> is the type that was chosen when the page was loaded, which two handlers keep.\<close>

record material_page =
  mp_loadType :: nat
  mp_mType :: nat
  mp_materialType :: nat
  mp_name :: string
  mp_target :: string
  mp_monitor :: bool
  mp_monitorlink :: string
  mp_editor :: string
  mp_filePath :: string
  mp_img :: string
  mp_flash :: string
  mp_linkUrl :: string
  mp_pixel :: "string \<times> string"
  mp_cover :: string
  mp_textContent :: string
  mp_value :: string
  mp_picDiv :: bool
  mp_richDiv :: bool
  mp_upload :: bool
  mp_uploadFlash :: bool
  mp_remote :: bool
  mp_monitorDiv :: bool
  mp_fileLabel :: file_kind
  mp_remoteLabel :: file_kind
  mp_tips :: "page_tip \<Rightarrow> tip_kind option"
  mp_sizeAlert :: bool
  mp_sent :: "sent_material list"

definition new_material :: "string \<times> string \<Rightarrow> material_page" where
  "new_material pixel = \<lparr>mp_loadType = 1, mp_mType = 1, mp_materialType = 1, mp_name = [], mp_target = ''http://'', mp_monitor = False,
     mp_monitorlink = ''http://'', mp_editor = [], mp_filePath = ''http://'', mp_img = [], mp_flash = [], mp_linkUrl = [], mp_pixel = pixel,
     mp_cover = ''0'', mp_textContent = [], mp_value = [], mp_picDiv = True, mp_richDiv = False, mp_upload = True, mp_uploadFlash = False,
     mp_remote = False, mp_monitorDiv = False, mp_fileLabel = PictureKind, mp_remoteLabel = PictureKind, mp_tips = (\<lambda>t. None),
     mp_sizeAlert = False, mp_sent = []\<rparr>"

definition put_tip :: "page_tip \<Rightarrow> tip_kind \<Rightarrow> material_page \<Rightarrow> material_page" where
  "put_tip t m p = p\<lparr>mp_tips := (mp_tips p)(t \<mapsto> m)\<rparr>"

definition hide_tip :: "page_tip \<Rightarrow> material_page \<Rightarrow> material_page" where
  "hide_tip t p = p\<lparr>mp_tips := (mp_tips p)(t := None)\<rparr>"

subsection \<open>Choosing the type\<close>

definition click_materialType :: "nat \<Rightarrow> material_page \<Rightarrow> material_page" where
  "click_materialType v p =
     (let p = p\<lparr>mp_materialType := v\<rparr>;
          p = (if v = 1 then p\<lparr>mp_remote := False, mp_upload := True, mp_uploadFlash := True\<rparr>
               else if v = 2 then p\<lparr>mp_remote := True, mp_upload := False, mp_uploadFlash := False\<rparr>
               else p)
      in if mp_mType p = 1 then p\<lparr>mp_remoteLabel := PictureKind, mp_uploadFlash := False\<rparr>
         else if mp_mType p = 2 then p\<lparr>mp_remoteLabel := FlashKind, mp_upload := False\<rparr>
         else p)"

definition click_mType :: "nat \<Rightarrow> material_page \<Rightarrow> material_page" where
  "click_mType v p =
     (let p = p\<lparr>mp_mType := v\<rparr>;
          p = (if v = 1 then p\<lparr>mp_picDiv := True, mp_richDiv := False, mp_upload := True, mp_uploadFlash := False,
                 mp_fileLabel := PictureKind, mp_remoteLabel := PictureKind\<rparr>
               else if v = 2 then p\<lparr>mp_picDiv := True, mp_richDiv := False, mp_upload := False, mp_uploadFlash := True,
                 mp_fileLabel := FlashKind, mp_remoteLabel := FlashKind\<rparr>
               else if v = 3 then p\<lparr>mp_picDiv := False, mp_richDiv := True\<rparr>
               else p)
      in if mp_materialType p = 2 then p\<lparr>mp_uploadFlash := False, mp_upload := False\<rparr> else p)"

text \<open>The handlers of these boxes read the mark that a plugin sets on them.\<close>

definition click_cover :: "bool \<Rightarrow> material_page \<Rightarrow> material_page" where
  "click_cover marked p = p\<lparr>mp_cover := (if marked then ''1'' else ''0'')\<rparr>"

definition click_monitor :: "bool \<Rightarrow> bool \<Rightarrow> material_page \<Rightarrow> material_page" where
  "click_monitor checked marked p = p\<lparr>mp_monitor := checked, mp_monitorDiv := marked\<rparr>"

subsection \<open>Uploads\<close>

datatype upload_answer = Uploaded string | SizeNotMatch | OtherState

definition picture_uploaded :: "upload_answer \<Rightarrow> material_page \<Rightarrow> material_page" where
  "picture_uploaded a p =
     (case a of
        Uploaded url \<Rightarrow> p\<lparr>mp_img := url, mp_linkUrl := url\<rparr>
      | SizeNotMatch \<Rightarrow> p\<lparr>mp_sizeAlert := True\<rparr>
      | OtherState \<Rightarrow> p)"

text \<open>
  The state of the answer is not read. Without an address (\<open>None\<close>) setting the attribute to \<open>undefined\<close> changes nothing,
  and setting the value empties it.
\<close>

definition flash_uploaded :: "string option \<Rightarrow> material_page \<Rightarrow> material_page" where
  "flash_uploaded url p =
     (case url of Some u \<Rightarrow> p\<lparr>mp_flash := u, mp_linkUrl := u\<rparr> | None \<Rightarrow> p\<lparr>mp_linkUrl := []\<rparr>)"

subsection \<open>Leaving and entering fields\<close>

definition leave_name :: "material_page \<Rightarrow> material_page" where
  "leave_name p = (if trim (mp_name p) = [] then put_tip NameTip IsEmpty p else p)"

definition leave_controls :: "material_page \<Rightarrow> material_page" where
  "leave_controls p = (if mp_loadType p = 3 \<and> trim (mp_editor p) = [] then put_tip RichTip IsEmpty p else p)"

definition leave_target :: "material_page \<Rightarrow> material_page" where
  "leave_target p = (if mp_loadType p \<noteq> 3 \<and> trim (mp_target p) = [] then put_tip TargetTip IsEmpty p else p)"

definition leave_monitor :: "material_page \<Rightarrow> material_page" where
  "leave_monitor p =
     (if mp_monitor p \<and> trim (mp_monitorlink p) = [] then put_tip MonitorTip IsEmpty p
      else if mp_monitor p \<and> \<not> re_test address_re (mp_monitorlink p) then put_tip MonitorTip BadFormat p
      else p)"

definition leave_filePath :: "material_page \<Rightarrow> material_page" where
  "leave_filePath p =
     (if (mp_mType p = 1 \<or> mp_mType p = 2) \<and> mp_materialType p = 2
      then if trim (mp_filePath p) = [] then put_tip PathTip IsEmpty p
           else if \<not> re_test address_re (mp_filePath p) then put_tip PathTip BadFormat p
           else p
      else p)"

subsection \<open>Saving\<close>

definition check_material :: "material_page \<Rightarrow> bool \<times> material_page" where
  "check_material p =
     (if trim (mp_name p) = [] then (False, put_tip NameTip IsEmpty p)
      else if mp_mType p = 1 \<and> mp_materialType p = 1 \<and> mp_img p = [] then (False, put_tip FileTip NotUploaded p)
      else if mp_mType p = 2 \<and> mp_materialType p = 1 \<and> mp_flash p = [] then (False, put_tip FlashTip NotUploaded p)
      else if mp_mType p = 3 \<and> trim (mp_editor p) = [] then (False, put_tip RichTip IsEmpty p)
      else if mp_mType p = 1 \<and> mp_materialType p = 2 \<and> trim (mp_filePath p) = [] then (False, put_tip PathTip IsEmpty p)
      else if mp_mType p = 1 \<and> mp_materialType p = 2 \<and> \<not> re_test address_re (mp_filePath p) then (False, put_tip PathTip BadFormat p)
      else if mp_mType p = 2 \<and> mp_materialType p = 2 \<and> trim (mp_filePath p) = [] then (False, put_tip PathTip IsEmpty p)
      else if mp_mType p = 2 \<and> mp_materialType p = 2 \<and> \<not> re_test address_re (mp_filePath p) then (False, put_tip PathTip BadFormat p)
      else if mp_mType p \<noteq> 3 \<and> trim (mp_target p) = [] then (False, put_tip TargetTip IsEmpty p)
      else if mp_monitor p \<and> trim (mp_monitorlink p) = [] then (False, put_tip MonitorTip IsEmpty p)
      else if mp_monitor p \<and> \<not> re_test address_re (mp_monitorlink p) then (False, put_tip MonitorTip BadFormat p)
      else (True, p))"

definition ValuationmaterialValue :: "material_page \<Rightarrow> material_page" where
  "ValuationmaterialValue p = p\<lparr>mp_value := trim (snd (mp_pixel p))\<rparr>"

definition form_fields :: "material_page \<Rightarrow> sent_material" where
  "form_fields p = \<lparr>sm_mType = mp_mType p, sm_name = mp_name p, sm_link = mp_linkUrl p, sm_target = mp_target p, sm_size = fst (mp_pixel p),
     sm_value = mp_value p, sm_materialType = mp_materialType p, sm_rich = mp_textContent p,
     sm_monitor = (if mp_monitor p then Some (mp_monitorlink p) else None), sm_cover = mp_cover p\<rparr>"

definition prepare_save :: "material_page \<Rightarrow> material_page" where
  "prepare_save p =
     (if mp_materialType p = 2 \<and> (mp_mType p = 2 \<or> mp_mType p = 1) then p\<lparr>mp_linkUrl := mp_filePath p\<rparr>
      else if mp_mType p = 3 then p\<lparr>mp_textContent := mp_editor p\<rparr>
      else p)"

definition save_material :: "material_page \<Rightarrow> material_page" where
  "save_material p =
     (case check_material (prepare_save p) of
        (True, p') \<Rightarrow> let p'' = ValuationmaterialValue p' in p''\<lparr>mp_sent := mp_sent p'' @ [form_fields p'']\<rparr>
      | (False, p') \<Rightarrow> p')"

text \<open>What \<open>MaterialController.add\<close> stores: the address for pictures and flash files, else the rich text.\<close>

definition stored_link :: "sent_material \<Rightarrow> string option" where
  "stored_link m = (if sm_mType m = 1 \<or> sm_mType m = 2 then Some (sm_link m) else None)"

definition stored_rich :: "sent_material \<Rightarrow> string option" where
  "stored_rich m = (if sm_mType m = 1 \<or> sm_mType m = 2 then None else Some (sm_rich m))"

subsection \<open>What can happen\<close>

inductive material_step :: "material_page \<Rightarrow> material_page \<Rightarrow> bool" where
  MType: "v \<in> {1, 2, 3} \<Longrightarrow> material_step p (click_mType v p)"
| MaterialType: "v \<in> {1, 2} \<Longrightarrow> material_step p (click_materialType v p)"
| Cover: "material_step p (click_cover marked p)"
| Monitor: "material_step p (click_monitor checked marked p)"
| Picture: "material_step p (picture_uploaded a p)"
| FlashFile: "material_step p (flash_uploaded url p)"
| Typed: "material_step p (p\<lparr>mp_name := n, mp_target := t, mp_monitorlink := m, mp_editor := e, mp_filePath := f, mp_pixel := x\<rparr>)"
| Leave: "f \<in> {leave_name, leave_controls, leave_target, leave_monitor, leave_filePath} \<Longrightarrow> material_step p (f p)"
| Enter: "material_step p (hide_tip t p)"
| Save: "material_step p (save_material p)"

abbreviation material_reachable :: "material_page \<Rightarrow> bool" where
  "material_reachable p \<equiv> \<exists>pixel. material_step\<^sup>*\<^sup>* (new_material pixel) p"

subsection \<open>Invariants\<close>

definition kind_of :: "nat \<Rightarrow> file_kind" where
  "kind_of t = (if t = 1 then PictureKind else FlashKind)"

text \<open>What is shown fits what is chosen; below a rich text the other parts are hidden together.\<close>

definition shown_fits :: "material_page \<Rightarrow> bool" where
  "shown_fits p \<longleftrightarrow> mp_mType p \<in> {1, 2, 3} \<and> mp_materialType p \<in> {1, 2} \<and>
     (mp_picDiv p \<longleftrightarrow> mp_mType p \<noteq> 3) \<and> (mp_richDiv p \<longleftrightarrow> mp_mType p = 3) \<and> (mp_remote p \<longleftrightarrow> mp_materialType p = 2) \<and>
     (if mp_mType p = 3 then True
      else (mp_upload p \<longleftrightarrow> mp_mType p = 1 \<and> mp_materialType p = 1) \<and>
        (mp_uploadFlash p \<longleftrightarrow> mp_mType p = 2 \<and> mp_materialType p = 1) \<and>
        mp_fileLabel p = kind_of (mp_mType p) \<and> mp_remoteLabel p = kind_of (mp_mType p))"

text \<open>What a material that is sent has.\<close>

definition sent_ok :: "sent_material \<Rightarrow> bool" where
  "sent_ok m \<longleftrightarrow> trim (sm_name m) \<noteq> [] \<and>
     (if sm_mType m = 3 then trim (sm_rich m) \<noteq> [] \<and> stored_rich m = Some (sm_rich m)
      else trim (sm_target m) \<noteq> [] \<and> stored_link m = Some (sm_link m) \<and>
        (if sm_materialType m = 2 then re_test address_re (sm_link m) else True)) \<and>
     (case sm_monitor m of None \<Rightarrow> True | Some l \<Rightarrow> re_test address_re l)"

definition same_parts :: "material_page \<Rightarrow> material_page \<Rightarrow> bool" where
  "same_parts p q \<longleftrightarrow> mp_mType q = mp_mType p \<and> mp_materialType q = mp_materialType p \<and> mp_picDiv q = mp_picDiv p \<and>
     mp_richDiv q = mp_richDiv p \<and> mp_remote q = mp_remote p \<and> mp_upload q = mp_upload p \<and> mp_uploadFlash q = mp_uploadFlash p \<and>
     mp_fileLabel q = mp_fileLabel p \<and> mp_remoteLabel q = mp_remoteLabel p"

lemma same_fits: "same_parts p q \<Longrightarrow> shown_fits p \<Longrightarrow> shown_fits q"
  by (simp add: same_parts_def shown_fits_def)

text \<open>The first thing a check complains about.\<close>

definition complaint :: "material_page \<Rightarrow> (page_tip \<times> tip_kind) option" where
  "complaint p =
     (if trim (mp_name p) = [] then Some (NameTip, IsEmpty)
      else if mp_mType p = 1 \<and> mp_materialType p = 1 \<and> mp_img p = [] then Some (FileTip, NotUploaded)
      else if mp_mType p = 2 \<and> mp_materialType p = 1 \<and> mp_flash p = [] then Some (FlashTip, NotUploaded)
      else if mp_mType p = 3 \<and> trim (mp_editor p) = [] then Some (RichTip, IsEmpty)
      else if mp_mType p \<in> {1, 2} \<and> mp_materialType p = 2 \<and> trim (mp_filePath p) = [] then Some (PathTip, IsEmpty)
      else if mp_mType p \<in> {1, 2} \<and> mp_materialType p = 2 \<and> \<not> re_test address_re (mp_filePath p) then Some (PathTip, BadFormat)
      else if mp_mType p \<noteq> 3 \<and> trim (mp_target p) = [] then Some (TargetTip, IsEmpty)
      else if mp_monitor p \<and> trim (mp_monitorlink p) = [] then Some (MonitorTip, IsEmpty)
      else if mp_monitor p \<and> \<not> re_test address_re (mp_monitorlink p) then Some (MonitorTip, BadFormat)
      else None)"

lemma check_complaint:
  "check_material p = (case complaint p of None \<Rightarrow> (True, p) | Some (t, m) \<Rightarrow> (False, put_tip t m p))"
  by (cases "mp_mType p = 1"; cases "mp_mType p = 2"; cases "mp_materialType p = 2")
    (simp_all add: check_material_def complaint_def)

lemma save_complaint:
  "save_material p = (let q = prepare_save p in
     case complaint q of
       None \<Rightarrow> (ValuationmaterialValue q)\<lparr>mp_sent := mp_sent p @ [form_fields (ValuationmaterialValue q)]\<rparr>
     | Some (t, m) \<Rightarrow> put_tip t m q)"
  by (auto simp: save_material_def check_complaint ValuationmaterialValue_def prepare_save_def Let_def split: option.split)

lemma parts_kept:
  "same_parts p (put_tip t m p)" "same_parts p (hide_tip t p)" "same_parts p (prepare_save p)" "same_parts p (save_material p)"
  by (auto simp: same_parts_def put_tip_def hide_tip_def prepare_save_def save_complaint ValuationmaterialValue_def Let_def split: option.split)

lemma step_fits:
  assumes "material_step p q" "shown_fits p"
  shows "shown_fits q"
  using assms(1)
proof cases
  case (MType v)
  then show ?thesis using assms(2) by (auto simp: shown_fits_def click_mType_def kind_of_def Let_def)
next
  case (MaterialType v)
  then show ?thesis using assms(2) by (auto simp: shown_fits_def click_materialType_def kind_of_def Let_def)
next
  case (Leave f)
  have "same_parts p (put_tip t m p)" "same_parts p p" for t m using parts_kept(1) by (simp_all add: same_parts_def)
  then have "same_parts p q"
    using Leave unfolding leave_name_def leave_controls_def leave_target_def leave_monitor_def leave_filePath_def by auto
  then show ?thesis using assms(2) by (rule same_fits)
next
  case (Enter t)
  show ?thesis unfolding Enter(1) by (rule same_fits [OF parts_kept(2) assms(2)])
next
  case Save
  show ?thesis unfolding Save(1) by (rule same_fits [OF parts_kept(4) assms(2)])
qed (use assms(2) in \<open>auto simp: shown_fits_def click_cover_def click_monitor_def picture_uploaded_def flash_uploaded_def
    split: upload_answer.split option.split\<close>)

lemma saved_ok:
  assumes "shown_fits p" "complaint (prepare_save p) = None"
  shows "sent_ok (form_fields (ValuationmaterialValue (prepare_save p)))"
proof -
  let ?q = "prepare_save p"
  have t: "mp_mType ?q \<in> {1, 2, 3}" "mp_materialType ?q \<in> {1, 2}"
    using assms(1) same_fits [OF parts_kept(3), of p] by (simp_all add: shown_fits_def)
  have link: "mp_mType ?q \<in> {1, 2} \<Longrightarrow> mp_materialType ?q = 2 \<Longrightarrow> mp_linkUrl ?q = mp_filePath ?q"
    and rich: "mp_mType ?q = 3 \<Longrightarrow> mp_textContent ?q = mp_editor ?q"
    by (auto simp: prepare_save_def split: if_splits)
  have c: "trim (mp_name ?q) \<noteq> []" using assms(2) by (auto simp: complaint_def split: if_splits)
  have e: "trim (mp_editor ?q) \<noteq> []" if "mp_mType ?q = 3" using assms(2) that by (auto simp: complaint_def split: if_splits)
  have g: "trim (mp_target ?q) \<noteq> []" if "mp_mType ?q \<noteq> 3" using assms(2) that by (auto simp: complaint_def split: if_splits)
  have f: "re_test address_re (mp_filePath ?q)" if "mp_mType ?q \<in> {1, 2}" "mp_materialType ?q = 2"
    using assms(2) that by (auto simp: complaint_def split: if_splits)
  have m: "re_test address_re (mp_monitorlink ?q)" if "mp_monitor ?q" using assms(2) that by (auto simp: complaint_def split: if_splits)
  show ?thesis
    using t link rich c e g f m by (auto simp: sent_ok_def form_fields_def ValuationmaterialValue_def stored_link_def stored_rich_def)
qed

lemma step_sent:
  assumes "material_step p q" "shown_fits p" "list_all sent_ok (mp_sent p)"
  shows "list_all sent_ok (mp_sent q)"
  using assms(1)
proof cases
  case Save
  show ?thesis
  proof (cases "complaint (prepare_save p)")
    case None
    then show ?thesis using Save saved_ok [OF assms(2) None] assms(3) by (simp add: save_complaint Let_def)
  next
    case (Some tm)
    have "mp_sent (prepare_save p) = mp_sent p" by (simp add: prepare_save_def)
    then show ?thesis using Save Some assms(3) by (auto simp: save_complaint put_tip_def Let_def split: prod.split)
  qed
next
  case (Leave f)
  then show ?thesis
    using assms(3) unfolding leave_name_def leave_controls_def leave_target_def leave_monitor_def leave_filePath_def
    by (auto simp: put_tip_def)
qed (use assms(3) in \<open>auto simp: click_cover_def click_monitor_def picture_uploaded_def flash_uploaded_def hide_tip_def
    click_mType_def click_materialType_def Let_def split: upload_answer.split option.split\<close>)

subsection \<open>Properties\<close>

text \<open>
  C13: Over any sequence of choices, uploads, texts, checks and saves, what is shown fits what is chosen, and every material
  sent has a name, a rich text or a target, and addresses of the required form where they are typed.
\<close>

theorem material_form_ok:
  assumes "material_reachable p"
  shows "shown_fits p \<and> list_all sent_ok (mp_sent p)"
proof -
  obtain pixel where "material_step\<^sup>*\<^sup>* (new_material pixel) p" using assms by blast
  then show ?thesis
  proof (induction rule: rtranclp_induct)
    case base
    show ?case by (simp add: new_material_def shown_fits_def kind_of_def)
  next
    case (step y z)
    show ?case using step_fits [OF step(2)] step_sent [OF step(2)] step(3) by blast
  qed
qed

text \<open>A page with a name and an uploaded picture.\<close>

definition sample_material_page :: material_page where
  "sample_material_page = picture_uploaded (Uploaded ''/p.png'') ((new_material (''1'', ''300*250''))\<lparr>mp_name := ''n''\<rparr>)"

lemma sample_complaint: "complaint sample_material_page = None"
proof -
  have "trim ''n'' \<noteq> []" "trim ''http://'' \<noteq> []" by code_simp+
  then show ?thesis by (simp add: complaint_def sample_material_page_def new_material_def picture_uploaded_def)
qed

lemma name_typed: "material_step p (p\<lparr>mp_name := n\<rparr>)"
  using Typed [where p = p and n = n and t = "mp_target p" and m = "mp_monitorlink p" and e = "mp_editor p"
    and f = "mp_filePath p" and x = "mp_pixel p"] by simp

theorem material_form_ok_witness:
  "\<exists>m. mp_sent (save_material sample_material_page) = [m] \<and> sent_ok m \<and> shown_fits (save_material sample_material_page)"
proof -
  let ?p = "new_material (''1'', ''300*250'')"
  have "material_step ?p (?p\<lparr>mp_name := ''n''\<rparr>)" by (rule name_typed)
  moreover have "material_step (?p\<lparr>mp_name := ''n''\<rparr>) sample_material_page"
    unfolding sample_material_page_def by (rule Picture)
  moreover have "material_step sample_material_page (save_material sample_material_page)" by (rule Save)
  ultimately have "material_step\<^sup>*\<^sup>* ?p (save_material sample_material_page)"
    by (meson converse_rtranclp_into_rtranclp rtranclp.rtrancl_refl)
  then have ok: "shown_fits (save_material sample_material_page)" "list_all sent_ok (mp_sent (save_material sample_material_page))"
    using material_form_ok by blast+
  have same: "prepare_save sample_material_page = sample_material_page" "mp_sent sample_material_page = []"
    by (simp_all add: prepare_save_def sample_material_page_def new_material_def picture_uploaded_def)
  then have "\<exists>m. mp_sent (save_material sample_material_page) = [m]"
    using sample_complaint by (simp add: save_complaint Let_def ValuationmaterialValue_def)
  then show ?thesis using ok by auto
qed

text \<open>
  C28: A picture takes the address of a flash file: after a picture was uploaded, a flash file uploaded in between is what
  the picture is sent with, and nothing at all if that upload failed; the picture is still the one shown.
\<close>

theorem upload_misfiled:
  assumes "complaint p = None" "mp_mType p = 1" "mp_materialType p = 1"
  shows "\<exists>m. mp_sent (save_material (click_mType 1 (flash_uploaded url (click_mType 2 p)))) = mp_sent p @ [m] \<and>
    sm_mType m = 1 \<and> stored_link m = Some (case url of Some u \<Rightarrow> u | None \<Rightarrow> []) \<and>
    mp_img (save_material (click_mType 1 (flash_uploaded url (click_mType 2 p)))) = mp_img p"
proof -
  define q where "q = click_mType 1 (flash_uploaded url (click_mType 2 p))"
  have q: "mp_mType q = 1" "mp_materialType q = 1" "mp_name q = mp_name p" "mp_img q = mp_img p" "mp_target q = mp_target p"
      "mp_monitor q = mp_monitor p" "mp_monitorlink q = mp_monitorlink p" "mp_sent q = mp_sent p"
      "mp_linkUrl q = (case url of Some u \<Rightarrow> u | None \<Rightarrow> [])"
    unfolding q_def using assms(3) by (simp_all add: click_mType_def flash_uploaded_def Let_def split: option.split)
  then have "complaint q = complaint p" using assms(2,3) by (simp add: complaint_def)
  then have c: "complaint q = None" using assms(1) by simp
  have p: "prepare_save q = q" using q by (simp add: prepare_save_def)
  show ?thesis
    unfolding q_def [symmetric] using q c p by (intro exI [of _ "form_fields (ValuationmaterialValue q)"])
      (simp add: save_complaint form_fields_def ValuationmaterialValue_def stored_link_def Let_def)
qed

theorem upload_misfiled_witness:
  "\<exists>m. mp_sent (save_material (click_mType 1 (flash_uploaded (Some ''/f.swf'') (click_mType 2 sample_material_page)))) = [m] \<and>
     sm_mType m = 1 \<and> stored_link m = Some ''/f.swf'' \<and> mp_img sample_material_page = ''/p.png''"
  using upload_misfiled [OF sample_complaint, of "Some ''/f.swf''"]
  by (auto simp: sample_material_page_def new_material_def picture_uploaded_def)

text \<open>
  The expression for addresses takes what is no address: any word of lower case letters, also with a quote or an angle
  bracket as its second character.
\<close>

theorem address_loose:
  assumes "alnum a" "any_char c" "2 \<le> length w" "length w \<le> 6" "\<forall>x \<in> set w. lower x"
  shows "re_test address_re (a # c # w)"
proof -
  have eps: "in_re s r \<Longrightarrow> in_re s (RCat (r_opt t) r)" for s and r t :: "char re" by (simp add: in_re_Cat_Alt)
  have w: "in_re w (r_between 2 4 (RCls lower))"
  proof -
    have "in_re (take 2 w @ drop 2 w) (r_between 2 4 (RCls lower))"
      using assms(3-5) by (intro in_re.Cat) (auto simp: in_re_times_Cls in_re_upto_Cls dest: in_set_takeD in_set_dropD)
    then show ?thesis by simp
  qed
  have "in_re (a # c # w) (RCat (RCls alnum) (RCat (RCls any_char) (r_between 2 4 (RCls lower))))"
    using w assms(1,2) by simp
  then have "in_re ([] @ a # c # w) (RCat (RStar (RCat (r_plus (RCls host_mark)) (RCls any_char)))
        (RCat (r_opt (RCat (RCls alnum) (r_between 0 61 (RCls (\<lambda>c. alnum c \<or> c = CHR ''-'')))))
           (RCat (RCls alnum) (RCat (RCls any_char) (r_between 2 4 (RCls lower))))))"
    by (intro in_re.Cat eps in_re.Star0)
  then have host: "in_re (a # c # w) host_re" unfolding host_re_def by (intro in_re.AltR) simp
  have "in_re [] (RCat port_re path_re)"
    unfolding port_re_def path_re_def by (intro eps in_re.AltL in_re.Eps)
  then have "in_re ((a # c # w) @ []) (RCat host_re (RCat port_re path_re))" by (rule in_re.Cat [OF host])
  then have "in_re (a # c # w) address_re"
    unfolding address_re_def scheme_re_def user_re_def by (intro eps) simp
  then show ?thesis by (simp only: re_test_in_re)
qed

theorem address_loose_witness: "re_test address_re ''hello'' \<and> re_test address_re (CHR ''a'' # CHR 0x22 # ''bc'')"
proof
  show "re_test address_re ''hello''"
    using address_loose [of "CHR ''h''" "CHR ''e''" "''llo''"] by (simp add: alnum_def any_char_def lower_def)
  show "re_test address_re (CHR ''a'' # CHR 0x22 # ''bc'')"
    using address_loose [of "CHR ''a''" "CHR 0x22" "''bc''"] by (simp add: alnum_def any_char_def lower_def)
qed

end
