(* ===== verification/Spec2Isabelle.thy ===== *)
theory Spec2Isabelle
  imports StatScripts Md5 UploadWiring UploadPreview UploadRuns ThemeHover ProBars UrlsInput Report ChartTip LabelTree
    PlanSubmit AdCheck CrowdForm MaterialForm
begin

text \<open>
  A model of the JavaScript of the advertising system, with what makes it correct.

  \<^bold>\<open>The program.\<close> The system sells places for ads on web pages. The scripts under
  \<open>sspserver/.../sspjs\<close> run on a publisher's page: they write the ad into it, report that it was
  shown, count clicks on it, and let the visitor close it. The scripts under \<open>adserver/.../js\<close> run on
  the advertiser's pages and report page views and clicks. The scripts of \<open>admanager\<close> and
  \<open>vfoxServer\<close> belong to the sites where ads are managed: a report page, the forms for ad plans, crowds and materials
  with a tree of interest labels, the pages where ads are checked, a file uploader and an MD5 plugin. The servers are
  Java; what they answer is a parameter or an event, but for the hours, regions, materials and labels of a plan, the crowds, the checks and
  the deletion of rows, which are followed through the Java code: there a property joins the handlers of the page, the
  text of the request and what the service stores.

  \<^bold>\<open>Conventions.\<close> A script or handler is a command (\<open>JsCommand\<close>): a function from a state record to
  the new state and the error that stopped it, if any; what was done before an error stays done.
  Errors are values (\<open>js_error\<close>). Strings of the ad scripts are UTF-16 code units (\<open>ustr\<close>, a list of
  16-bit words), those of the pages that only move ASCII texts about are Isabelle strings. An array
  read by a number is \<open>js_get\<close>, with \<open>undefined\<close> outside it; plain objects are association lists in
  property order (\<open>obj\<close>).

  \<^bold>\<open>The theories.\<close>

  \<^item> \<open>JsPrelude\<close>, \<open>JsCommand\<close>: errors, results, strings, arrays, objects, commands; the collections
    \<open>js_simps\<close> and \<open>effects\<close>.

  \<^item> \<open>Uri\<close>, \<open>QueryArgs\<close>, \<open>TrackArgs\<close>: \<open>encodeURIComponent\<close> and its inverse from the language standard;
    the loop that builds query strings, in the locale \<open>url_codec\<close> whose interpretation is that
    pair; the \<open>getArgs\<close> of seven scripts and the parameters of the \<open>c2\<close> request. The lemmas show that
    what the servlet decodes is what the script put in, or that building it throws.

  \<^item> \<open>JsParam\<close>: \<open>getJsParam\<close> of \<open>initstat_4sh.js\<close> and \<open>vldsp_4sh.js\<close>, against its reference (the
    values of each name in order).

  \<^item> \<open>Page\<close>, \<open>IframeClick\<close>, \<open>AdMarkup\<close>, \<open>AdVlssp\<close>, \<open>AdSplv\<close>, \<open>AdMobile\<close>: the page a script writes to
    (record \<open>page\<close>: markup, elements, pixels requested, timers; the browser is a parameter), the click
    counter \<open>IframeOnClick\<close> with the locale \<open>click_sink\<close> for what its callbacks do, and the scripts
    \<open>vlssp.js\<close>, \<open>vlssp_wh.js\<close>, \<open>splv.js\<close>, \<open>splv_sh.js\<close>, \<open>vlssp_mobile.js\<close>, \<open>m.splv.js\<close>. The lemmas show
    what is reported and when: one report per load, one click per time a frame gets the focus.

  \<^item> \<open>StatScripts\<close>: \<open>initstat_4sh.js\<close>, \<open>vldsp_4sh.js\<close>, \<open>stat_4sh.js\<close>, \<open>vlstat_4sh.js\<close>.

  \<^item> \<open>Md5\<close>: \<open>jQuery.md5.js\<close> on 32-bit words, proved equal to RFC 1321 on the encoded octets; the
    encoding is UTF-8 inside the basic plane only.

  \<^item> \<open>UploadQueue\<close>, \<open>Uploader\<close>: the \<open>Queue\<close> and \<open>Uploader\<close> classes of \<open>kg/uploader/2.0.2/index.js\<close>. The
    uploader sees the queue's statuses through the locale \<open>status_queue\<close>, interpreted on the model of the
    queue. The lemmas show that a batch drains, and what the uploader does on bad answers, cancels and
    second uploads.

  \<^item> \<open>UploadRuns\<close>: the steps of an uploader as an inductive relation, the well-formedness of the queue in all
    reachable states, and the worker that the handlers of a batch refine.

  \<^item> \<open>AjaxType\<close>, \<open>IframeType\<close>, \<open>UploadInit\<close>: the three transports of \<open>index.js\<close> on states of their own, and the
    choice of a transport and a button. Answers to the pieces of a file are values (\<open>chunk_answer\<close>: accepted, with the
    server's \<open>Range\<close> header, or refused); \<open>transfer\<close> is the list of positions they lead to. The lemmas show what is
    sent and reported for any such answers, that the file arrives whole, when it is sent again without end, which
    forms stay in the page, and that transport and button fit.

  \<^item> \<open>UploadWiring\<close>: the transports behind the uploader. The locale \<open>stoppable\<close> is what it needs of a transport
    it stops, interpreted on all three. The lemmas there show that stopping a transport, and what it reports, have
    on the uploader the effects its own model gives them.

  \<^item> \<open>UploadButton\<close>, \<open>UploadSettings\<close>: the HTML button, whose input is replaced after every choice, and the
    flash button; the attributes of the uploader, with and without setters, and the configurations of its parts.
    The lemmas show which attributes button and transport follow, and where a setting is lost.

  \<^item> \<open>UploadRestore\<close>: \<open>restore\<close>, which puts files of an earlier visit into the queue, with the validation
    plugin counting them.

  \<^item> \<open>UploadPreview\<close>: the plugins for previews and for dropped files, joined to the button and the settings.

  \<^item> \<open>JsNumber\<close>, \<open>ProBars\<close>: doubles as the rationals they stand for, with rounding to the nearest (ties to
    even) after every operation, and the progress bars, whose percentages and widths are computed in them.
    The lemmas bound the rounding error against the exact share, and show what a bar reads in every
    reachable state. \<open>js_num\<close> is an instance of the library's classes of operators.

  \<^item> \<open>ImageTheme\<close>, \<open>ThemeEvents\<close>, \<open>ThemeHover\<close>, \<open>UrlsInput\<close>: the image theme with its delete button, how it is set on an
    uploader and hears its events, the mouse over its items, and the hidden input of addresses. The lemmas show how an
    item is marked, and that the mask of a failed file is frozen.

  \<^item> \<open>UploadAuth\<close>: \<open>plugins/auth/auth.js\<close> and the uploader with this plugin listening: what the maximum
    really allows, which files are rejected, and that the recursion through the error handler ends.

  \<^item> \<open>JsDate\<close>, \<open>Report\<close>: the calendar of the language standard, \<open>Date.prototype.Format\<close> and \<open>dateDiff\<close> of
    \<open>common.js\<close>, the default date of \<open>date.init.js\<close>; on it the handlers of \<open>ad-report.js\<close> with the
    running totals, the periods and the chart, and in \<open>ChartTip\<close> the tip of the chart. The lemmas show which days each period covers and when the
    totals agree with the rows ticked.

  \<^item> \<open>LabelTree\<close>: \<open>allbaselabeltree.js\<close> and \<open>intersttree.js\<close> on a rose tree whose nodes are named by
    their positions. The lemmas show which labels are listed after a check, an uncheck and a removal.

  \<^item> \<open>JsText\<close>, \<open>JsRegex\<close>: what the pages do with the texts of fields (\<open>trim\<close>, \<open>parseInt\<close>, the order of strings), and
    anchored regular expressions with a matcher by derivatives, proved equal to the rules of what an expression
    matches.

  \<^item> \<open>CodeField\<close>: what the Java services do with codes in a hidden field, and the locale \<open>coded_field\<close> for a
    component that writes them, interpreted on the selector of regions, the materials and plain lists.

  \<^item> \<open>PlanHours\<close>: the hours of an ad plan in the forms \<open>adplanAdd.jsp\<close> and \<open>adplanEdit.jsp\<close>, in the rows that
    \<open>AdPlanManageServiceImpl\<close> stores and writes back, and in \<open>AdvPlan\<close> and \<open>AdPlanFilter\<close> of the ad server, which shows a
    plan without hours at any time. The lemmas show that the hours survive the way round and are the hours in which an
    ad is shown.

  \<^item> \<open>CategorySelect\<close>: the selector of regions of the forms, on its array, labels and boxes; the copies of its
    functions for media and ad categories have no elements to work on. The lemmas show that array, labels and boxes
    fit together in every reachable state, what a click does, and where choices are forgotten.

  \<^item> \<open>PlanCheck\<close>, \<open>PlanForm\<close>: the handlers of the fields of the forms and \<open>checkInput_adplan\<close>. A check is a command
    on the page and its flag; \<open>outcome\<close> relates it to what it decides, with a rule for each way checks are put
    together, so that the results of the two pages are read off. The lemmas show when a plan is accepted, when the
    check throws, and what holds after any sequence of handlers.

  \<^item> \<open>MaterialSelect\<close>: the materials of a plan: the dialog with its check of addresses, and the list of the chosen
    ones.

  \<^item> \<open>PlanSubmit\<close>: the handlers of the save buttons, which join hours, regions, materials, labels and checks, and the
    rows the service writes of what they send (\<open>store_targets\<close>). The lemmas show what is sent to the server, that the
    form for new plans sends only hours it can store, and that the rows stored are what was chosen.

  \<^item> \<open>BoxTable\<close>: tables with a box in every row and one above them (\<open>check_soon.jsp\<close>, \<open>role.jsp\<close>, the white lists), and
    the ids of the ticked rows, whose two texts interpret \<open>coded_field\<close>. The lemmas show when the box above is ticked
    and which rows are deleted.

  \<^item> \<open>AdCheck\<close>: the page \<open>check_soon.jsp\<close> with the dialogs for one check and for many, and \<open>CheckManageController\<close>, which
    records decisions and computes the status of an ad from all its checks (\<open>verdict\<close> is what it should come to). The
    lemmas show what a batch records, when it agrees with single checks, and that it shows ads that were rejected.

  \<^item> \<open>LbsTable\<close>, \<open>CrowdForm\<close>: the places of a crowd, in rows numbered by a counter that a deletion sets wrong, the lookup
    of their coordinates (\<open>getCoordinate\<close>, on the answer of a map service, a parameter), and the
    forms \<open>add_person.jsp\<close> and \<open>edit_person.jsp\<close>, with \<open>AdCrowdFindInfoADUServiceImpl\<close>, which stores crowds, and
    \<open>AdCrowdFindInfoServiceImpl\<close>, from which the form for editing is filled. The lemmas show which shapes the rows have
    in reachable states (\<open>regular\<close>, \<open>doubled\<close>) and so which places are sent, what is stored, and what survives editing.

  \<^item> \<open>MaterialForm\<close>: \<open>material-add.jsp\<close>: the parts shown for the type of a material, its uploads, its checks and what it
    sends. The lemmas show what holds in all reachable states and which address a picture is sent with.

  \<^bold>\<open>Bounds.\<close> One definition is bounded: \<open>testMax\<close>, which calls itself through its error handler, but only
  after a file was removed; \<open>test_max_equation\<close> shows that the number of files is bound enough. The other recursions that are not structural end by a measure: the search
  for the year of a day (\<open>year_search\<close>, the days left), \<open>clear_queue\<close> (the files left), the blocks of
  a message (\<open>md5_loop\<close>, its words left), \<open>unescape\<close> (the characters left), the units of a file size
  (\<open>size_steps\<close>, the units left) and decimal numerals; \<open>transfer\<close> goes through a list of answers. Words are kept where the code computes modulo
  \<open>2 ^ 32\<close>; counts, sizes, limits and times are exact, as they are in JavaScript below \<open>2 ^ 53\<close>; the
  percentages of \<open>ProBars\<close> are bounded for files up to \<open>2 ^ 44\<close> octets, which keeps the rounding error below
  the distance of two shares.

  \<^bold>\<open>Not modelled.\<close> Vendored libraries (jQuery and its plugins, KISSY, ueditor, prettify, flot); the Java
  servers, but for what is named above and the check of key word files; of the forms for ad plans the tables of
  sites and channels, the crowds, and the categories of media and ads, whose markup is commented out on both pages, as
  are the calls of the service that would store them, and the templates of rows; the pages for mobile plans,
  whose forms are much like them; lists that only request a page of rows; configuration objects of widgets and page decoration without logic; what zTree does to the
  checks before it calls a handler; of the uploader sizes and styles, the way of an animation, the
  decoding of Chinese texts from flash (\<open>_fromUnicode\<close>, a library function applied to every text of an
  answer), and the filling of templates, a function of KISSY.
\<close>

end
